(* ===== verification/Prelude.thy ===== *)
theory Prelude
  imports Main "HOL-Library.Word"
begin

text \<open>
  Shared vocabulary of the development: the machine types of the C++ code, native
  (little-endian) byte encodings of unsigned integers, decimal printing as done by
  \<^verbatim>\<open>std::to_string\<close>, and the locale of fixed-width codecs with the facts that every
  codec of the wire protocol inherits.
\<close>

named_theorems wire_simps \<open>lengths and round trips of the wire encodings\<close>

section \<open>Machine types\<close>

type_synonym u8 = "8 word"
type_synonym u16 = "16 word"
type_synonym u32 = "32 word"
type_synonym u64 = "64 word"
type_synonym byte = "8 word"

section \<open>Undefined behaviour\<close>

text \<open>
  What the source leaves unchecked and C++ leaves undefined is a value of its own, the
  left side of a sum: popping or taking the front of an empty \<^verbatim>\<open>deque\<close>, touching memory
  outside an object or before it was stored to, dereferencing a null \<^verbatim>\<open>shared_ptr\<close> and
  indexing an empty \<^verbatim>\<open>vector\<close>.
\<close>

datatype fault =
  Pop_of_empty_deque | Front_of_empty_deque | Bad_pointer | Null_dereference | Index_out_of_range

section \<open>Little-endian integers\<close>

text \<open>\<open>le_bytes k v\<close> is the object representation of the unsigned value \<open>v\<close> in
  \<open>k\<close> bytes, least significant byte first.\<close>

primrec le_bytes :: "nat \<Rightarrow> nat \<Rightarrow> byte list" where
  "le_bytes 0 v = []"
| "le_bytes (Suc k) v = of_nat (v mod 256) # le_bytes k (v div 256)"

primrec le_value :: "byte list \<Rightarrow> nat" where
  "le_value [] = 0"
| "le_value (b # bs) = unat b + 256 * le_value bs"

definition put_u32 :: "u32 \<Rightarrow> byte list" where
  "put_u32 w = le_bytes 4 (unat w)"

definition get_u32 :: "byte list \<Rightarrow> u32" where
  "get_u32 bs = of_nat (le_value bs)"

definition put_u64 :: "u64 \<Rightarrow> byte list" where
  "put_u64 w = le_bytes 8 (unat w)"

definition get_u64 :: "byte list \<Rightarrow> u64" where
  "get_u64 bs = of_nat (le_value bs)"

section \<open>Decimal printing\<close>

fun nat_to_string :: "nat \<Rightarrow> string" where
  "nat_to_string n =
     (if n < 10 then [char_of (48 + n)]
      else nat_to_string (n div 10) @ [char_of (48 + n mod 10)])"

declare nat_to_string.simps [simp del]

text \<open>The value of a string of decimal digits.\<close>

definition decimal_value :: "string \<Rightarrow> nat" where
  "decimal_value s = foldl (\<lambda>a c. a * 10 + (of_char c - 48)) 0 s"

lemma decimal_value_print: "decimal_value (nat_to_string n) = n"
proof (induction n rule: nat_to_string.induct)
  case (1 n)
  have digit: "(of_char (char_of (48 + k) :: char) :: nat) - 48 = k" if "k < 10" for k :: nat
    using that by simp
  show ?case
  proof (cases "n < 10")
    case True
    then show ?thesis using digit [of n] by (subst nat_to_string.simps) (simp add: decimal_value_def)
  next
    case False
    then have "decimal_value (nat_to_string (n div 10)) = n div 10" using 1 by simp
    then show ?thesis
      using False digit [of "n mod 10"]
      by (subst nat_to_string.simps) (simp add: decimal_value_def)
  qed
qed

lemma nat_to_string_inj: "nat_to_string m = nat_to_string n \<longleftrightarrow> m = n"
  by (metis decimal_value_print)

lemma nat_to_string_nonempty: "nat_to_string n \<noteq> []"
  by (subst nat_to_string.simps) simp

section \<open>Facts on machine words\<close>

lemma unat_less_width:
  "unat (a :: u8) < 256" "unat (b :: u16) < 65536"
  "unat (c :: u32) < 4294967296" "unat (d :: u64) < 18446744073709551616"
proof -
  have "unat a < 2 ^ LENGTH(8)" "unat b < 2 ^ LENGTH(16)"
    "unat c < 2 ^ LENGTH(32)" "unat d < 2 ^ LENGTH(64)"
    by (rule unsigned_less)+
  then show "unat a < 256" "unat b < 65536" "unat c < 4294967296"
    "unat d < 18446744073709551616" by simp_all
qed

lemma unat_of_nat_u32: "n < 4294967296 \<Longrightarrow> unat (of_nat n :: u32) = n"
  by (simp add: unat_of_nat)

lemma unat_of_nat_u64: "n < 18446744073709551616 \<Longrightarrow> unat (of_nat n :: u64) = n"
  by (simp add: unat_of_nat)

lemma unat_ucast_u64 [simp]: "unat (ucast (w :: u32) :: u64) = unat w"
  proof -
  have "unat w < 2 ^ 64"
    using unat_less_width(3) [of w] by simp
  then show ?thesis
    by (simp add: unsigned_ucast_eq take_bit_nat_eq_self_iff)
qed

section \<open>Facts on encodings\<close>

lemma length_le_bytes [simp, wire_simps]: "length (le_bytes k v) = k"
  by (induction k arbitrary: v) auto

lemma le_value_le_bytes [wire_simps]: "le_value (le_bytes k v) = v mod 256 ^ k"
proof (induction k arbitrary: v)
  case 0
  then show ?case by simp
next
  case (Suc k)
  have "unat (of_nat (v mod 256) :: byte) = v mod 256"
    by (simp add: unat_of_nat)
  with Suc.IH [of "v div 256"] show ?case
    by (simp add: mod_mult2_eq)
qed

lemma le_value_bound: "le_value bs < 256 ^ length bs"
proof (induction bs)
  case Nil
  then show ?case by simp
next
  case (Cons b bs)
  have "unat b < 256" by (rule unat_less_width)
  with Cons show ?case by simp
qed

lemma length_put [simp, wire_simps]:
  "length (put_u32 w) = 4" "length (put_u64 v) = 8"
  by (simp_all add: put_u32_def put_u64_def)

lemma get_put_u32 [simp, wire_simps]: "get_u32 (put_u32 w) = w"
proof -
  have "unat w mod 256 ^ 4 = unat w"
    using unat_less_width by simp
  then show ?thesis
    by (simp add: get_u32_def put_u32_def le_value_le_bytes)
qed

lemma get_put_u64 [simp, wire_simps]: "get_u64 (put_u64 w) = w"
proof -
  have "unat w mod 256 ^ 8 = unat w"
    using unat_less_width by simp
  then show ?thesis
    by (simp add: get_u64_def put_u64_def le_value_le_bytes)
qed

section \<open>Indexed memory\<close>

text \<open>
  A raw buffer \<^verbatim>\<open>char[]\<close> is a function from offsets to bytes; \<open>None\<close> is an
  indeterminate byte, one that was never stored to. Reading one, or reading past the
  end, is undefined in the source and \<open>None\<close> here.
\<close>

type_synonym memory = "nat \<Rightarrow> byte option"

definition store_bytes :: "memory \<Rightarrow> nat \<Rightarrow> byte list \<Rightarrow> memory" where
  "store_bytes m p bs =
     (\<lambda>i. if p \<le> i \<and> i < p + length bs then Some (bs ! (i - p)) else m i)"

definition load_bytes :: "memory \<Rightarrow> nat \<Rightarrow> nat \<Rightarrow> byte list option" where
  "load_bytes m p n = those (map m [p ..< p + n])"

lemma those_append:
  "those (xs @ ys) =
     (case those xs of None \<Rightarrow> None
      | Some as \<Rightarrow> map_option (\<lambda>bs. as @ bs) (those ys))"
  by (cases "those ys"; induction xs) (auto split: option.splits)

lemma those_map_Some [simp]: "those (map Some xs) = Some xs"
  by (induction xs) auto

lemma length_those: "those xs = Some ys \<Longrightarrow> length ys = length xs"
  by (induction xs arbitrary: ys) (auto split: option.splits)

lemma load_bytes_length: "load_bytes m p n = Some bs \<Longrightarrow> length bs = n"
  by (auto simp: load_bytes_def dest: length_those)

lemma load_bytes_0 [simp]: "load_bytes m p 0 = Some []"
  by (simp add: load_bytes_def)

lemma load_store_same [simp]: "load_bytes (store_bytes m p bs) p (length bs) = Some bs"
proof -
  have "map (store_bytes m p bs) [p ..< p + length bs] = map Some bs"
    by (rule nth_equalityI) (simp_all add: store_bytes_def)
  then show ?thesis
    by (simp add: load_bytes_def)
qed

lemma load_store_disjoint:
  assumes "p + n \<le> q \<or> q + length bs \<le> p"
  shows "load_bytes (store_bytes m q bs) p n = load_bytes m p n"
proof -
  have "map (store_bytes m q bs) [p ..< p + n] = map m [p ..< p + n]"
    using assms by (auto simp: store_bytes_def)
  then show ?thesis
    by (simp only: load_bytes_def)
qed

lemma load_bytes_add:
  "load_bytes m p (a + b) =
     (case load_bytes m p a of None \<Rightarrow> None
      | Some as \<Rightarrow> map_option (\<lambda>bs. as @ bs) (load_bytes m (p + a) b))"
proof -
  have "[p ..< p + (a + b)] = [p ..< p + a] @ [p + a ..< p + a + b]"
    by (metis add.assoc le_add1 upt_add_eq_append)
  then show ?thesis
    unfolding load_bytes_def by (simp only: map_append those_append)
qed

lemma load_bytes_take_drop:
  assumes "load_bytes m p n = Some bs" "k \<le> n"
  shows "load_bytes m p k = Some (take k bs)"
    and "load_bytes m (p + k) (n - k) = Some (drop k bs)"
proof -
  have "load_bytes m p (k + (n - k)) = Some bs"
    using assms by simp
  then obtain as cs where as: "load_bytes m p k = Some as"
    and cs: "load_bytes m (p + k) (n - k) = Some cs" and bs: "bs = as @ cs"
    by (auto simp: load_bytes_add split: option.splits)
  moreover have "length as = k"
    using as by (rule load_bytes_length)
  ultimately show "load_bytes m p k = Some (take k bs)"
    and "load_bytes m (p + k) (n - k) = Some (drop k bs)"
    by simp_all
qed

section \<open>Fixed-width codecs and framed streams\<close>

text \<open>
  The two messages of the local protocol are a fixed-width header followed by a body
  whose length the header names. \<open>read_frames\<close> is the reading discipline of both read
  loops: a header of \<open>w\<close> bytes, then its body, repeated; what is not a whole frame yet
  is left over.
\<close>

function read_frames ::
  "(byte list \<Rightarrow> 'h) \<Rightarrow> nat \<Rightarrow> ('h \<Rightarrow> nat) \<Rightarrow> byte list \<Rightarrow> ('h \<times> byte list) list \<times> byte list"
where
  "read_frames dec w blen bs =
     (if w = 0 \<or> length bs < w then ([], bs)
      else let h = dec (take w bs); r = drop w bs
           in if length r < blen h then ([], bs)
              else let (fs, rest) = read_frames dec w blen (drop (blen h) r)
                   in ((h, take (blen h) r) # fs, rest))"
  by pat_completeness auto
termination
  by (relation "measure (\<lambda>(dec, w, blen, bs). length bs)") auto

declare read_frames.simps [simp del]

locale byte_codec =
  fixes enc :: "'h \<Rightarrow> byte list"
    and dec :: "byte list \<Rightarrow> 'h"
    and width :: nat
  assumes enc_width: "length (enc h) = width"
    and dec_enc: "dec (enc h) = h"
begin

lemma enc_prefix_free: "enc g @ xs = enc h @ ys \<longleftrightarrow> g = h \<and> xs = ys"
  by (metis append_eq_append_conv dec_enc enc_width)

lemma take_enc: "take width (enc h @ xs) = enc h"
  by (simp add: enc_width)

lemma drop_enc: "drop width (enc h @ xs) = xs"
  by (simp add: enc_width)

end

locale framed_codec = byte_codec enc dec width
  for enc :: "'h \<Rightarrow> byte list" and dec :: "byte list \<Rightarrow> 'h" and width :: nat +
  fixes blen :: "'h \<Rightarrow> nat"
  assumes width_pos: "0 < width"
begin

lemma read_frames_Cons:
  assumes "length b = blen h"
  shows "read_frames dec width blen (enc h @ b @ rest) =
    (case read_frames dec width blen rest of (fs, r) \<Rightarrow> ((h, b) # fs, r))"
  using assms width_pos
  by (subst read_frames.simps) (simp add: enc_width dec_enc Let_def)

lemma read_frames_concat:
  assumes "\<forall>(h, b) \<in> set fs. length b = blen h"
  shows "read_frames dec width blen (concat (map (\<lambda>(h, b). enc h @ b) fs) @ rest) =
    (case read_frames dec width blen rest of (gs, r) \<Rightarrow> (fs @ gs, r))"
  using assms
proof (induction fs)
  case Nil
  then show ?case by (simp split: prod.splits)
next
  case (Cons f fs)
  obtain h b where f: "f = (h, b)"
    by (cases f)
  with Cons.prems have "length b = blen h"
    by simp
  then show ?case
    using Cons by (simp add: f read_frames_Cons split: prod.splits)
qed

end

section \<open>Byte queues\<close>

text \<open>
  The contract of a store that bytes enter at the back and leave at the front, over an
  abstraction \<open>abs\<close> to the bytes it holds. \<open>push\<close> and \<open>pull\<close> are partial: \<open>None\<close> is a
  fault. The client of the contract is a sequence of operations, run by \<open>run_fifo\<close>.
\<close>

datatype fifo_op = Push "byte list" | Pull nat

fun run_fifo ::
  "(byte list \<Rightarrow> 'q \<Rightarrow> 'q option) \<Rightarrow> (nat \<Rightarrow> 'q \<Rightarrow> (byte list \<times> 'q) option) \<Rightarrow>
    fifo_op list \<Rightarrow> 'q \<Rightarrow> (byte list \<times> 'q) option"
where
  "run_fifo push pull [] q = Some ([], q)"
| "run_fifo push pull (Push bs # ops) q =
     Option.bind (push bs q) (run_fifo push pull ops)"
| "run_fifo push pull (Pull k # ops) q =
     Option.bind (pull k q) (\<lambda>(out, q').
       map_option (\<lambda>(outs, r). (out @ outs, r)) (run_fifo push pull ops q'))"

fun pushed_bytes :: "fifo_op list \<Rightarrow> byte list" where
  "pushed_bytes [] = []"
| "pushed_bytes (Push bs # ops) = bs @ pushed_bytes ops"
| "pushed_bytes (Pull k # ops) = pushed_bytes ops"

locale byte_fifo =
  fixes abs :: "'q \<Rightarrow> byte list"
    and inv :: "'q \<Rightarrow> bool"
    and push :: "byte list \<Rightarrow> 'q \<Rightarrow> 'q option"
    and pull :: "nat \<Rightarrow> 'q \<Rightarrow> (byte list \<times> 'q) option"
  assumes push_abs: "inv q \<Longrightarrow> push bs q = Some q' \<Longrightarrow> inv q' \<and> abs q' = abs q @ bs"
    and pull_abs: "inv q \<Longrightarrow> \<exists>q'. pull k q = Some (take k (abs q), q') \<and> inv q' \<and> abs q' = drop k (abs q)"
begin

lemma pull_Some:
  "inv q \<Longrightarrow> pull k q = Some (out, q') \<Longrightarrow>
     out = take k (abs q) \<and> inv q' \<and> abs q' = drop k (abs q)"
  using pull_abs [of q k] by auto

lemma run_fifo_conserves:
  assumes "inv q" "run_fifo push pull ops q = Some (out, q')"
  shows "inv q' \<and> out @ abs q' = abs q @ pushed_bytes ops"
  using assms
proof (induction ops arbitrary: q out)
  case Nil
  then show ?case by simp
next
  case (Cons a ops)
  show ?case
  proof (cases a)
    case (Push bs)
    with Cons.prems obtain r where r: "push bs q = Some r"
      and run: "run_fifo push pull ops r = Some (out, q')"
      by (auto simp: bind_eq_Some_conv)
    with Cons.IH [OF _ run] push_abs [OF Cons.prems(1) r] Push show ?thesis
      by simp
  next
    case (Pull k)
    with Cons.prems obtain o1 o2 r where r: "pull k q = Some (o1, r)"
      and run: "run_fifo push pull ops r = Some (o2, q')" and out: "out = o1 @ o2"
      by (auto simp: bind_eq_Some_conv)
    with Cons.IH [OF _ run] pull_Some [OF Cons.prems(1) r] Pull show ?thesis
      by (metis append.assoc append_take_drop_id pushed_bytes.simps(3))
  qed
qed

end

section \<open>Keyed sets\<close>

text \<open>
  The contract of a set ordered by a key: insertion does not replace an element with an
  equivalent key, lookup and difference go by the key alone. A reload computes both
  differences of an old and a new set.
\<close>

locale keyed_set =
  fixes inv :: "'s \<Rightarrow> bool"
    and elems :: "'s \<Rightarrow> 'e set"
    and key :: "'e \<Rightarrow> 'k"
    and find :: "'k \<Rightarrow> 's \<Rightarrow> 'e option"
    and ins :: "'e \<Rightarrow> 's \<Rightarrow> 's"
    and diff :: "'s \<Rightarrow> 's \<Rightarrow> 's"
  assumes find_iff: "inv s \<Longrightarrow> find k s = Some e \<longleftrightarrow> e \<in> elems s \<and> key e = k"
    and ins_inv: "inv s \<Longrightarrow> inv (ins e s)"
    and ins_elems: "inv s \<Longrightarrow> elems (ins e s) =
      (if key e \<in> key ` elems s then elems s else Set.insert e (elems s))"
    and diff_inv: "inv s \<Longrightarrow> inv t \<Longrightarrow> inv (diff s t)"
    and diff_elems: "inv s \<Longrightarrow> inv t \<Longrightarrow> elems (diff s t) = {e \<in> elems s. key e \<notin> key ` elems t}"
begin

lemma find_None_iff: "inv s \<Longrightarrow> find k s = None \<longleftrightarrow> k \<notin> key ` elems s"
proof -
  assume "inv s"
  have "find k s = None \<longleftrightarrow> (\<forall>e. find k s \<noteq> Some e)" by auto
  with \<open>inv s\<close> show ?thesis by (auto simp: find_iff)
qed

lemma key_inj: "inv s \<Longrightarrow> a \<in> elems s \<Longrightarrow> b \<in> elems s \<Longrightarrow> key a = key b \<Longrightarrow> a = b"
  using find_iff [of s "key a"] by (metis option.inject)

lemma find_ins:
  "inv s \<Longrightarrow> find k (ins e s) =
     (case find k s of Some x \<Rightarrow> Some x | None \<Rightarrow> if key e = k then Some e else None)"
  by (auto split: option.split simp: find_iff find_None_iff ins_inv ins_elems)

lemma find_diff:
  "inv s \<Longrightarrow> inv t \<Longrightarrow> find k (diff s t) = (if find k t = None then find k s else None)"
proof -
  assume st: "inv s" "inv t"
  have eq: "find k (diff s t) = Some e \<longleftrightarrow> find k t = None \<and> find k s = Some e" for e
    unfolding find_iff [OF diff_inv [OF st]] find_None_iff [OF st(2)] find_iff [OF st(1)]
      diff_elems [OF st] by blast
  show ?thesis
  proof (cases "find k t")
    case None
    with eq show ?thesis by (metis not_Some_eq)
  next
    case (Some x)
    with eq show ?thesis by (metis not_Some_eq option.distinct(1))
  qed
qed

lemma diff_keys:
  assumes "inv s" "inv t"
  shows "key ` elems (diff s t) = key ` elems s - key ` elems t"
proof (rule set_eqI)
  fix k
  have "k \<in> key ` elems (diff s t) \<longleftrightarrow> (\<exists>e. e \<in> elems s \<and> key e \<notin> key ` elems t \<and> k = key e)"
    unfolding diff_elems [OF assms] by (simp add: image_def Bex_def)
  also have "\<dots> \<longleftrightarrow> k \<notin> key ` elems t \<and> (\<exists>e. e \<in> elems s \<and> k = key e)"
    by metis
  also have "\<dots> \<longleftrightarrow> k \<in> key ` elems s - key ` elems t"
    by (simp add: image_def Bex_def conj_commute)
  finally show "k \<in> key ` elems (diff s t) \<longleftrightarrow> k \<in> key ` elems s - key ` elems t" .
qed

lemma reload_keys:
  assumes "inv old" "inv new"
  shows "(key ` elems old - key ` elems (diff old new)) \<union> key ` elems (diff new old)
      = key ` elems new"
  unfolding diff_keys [OF assms] diff_keys [OF assms(2,1)] by blast

lemma same_keys_no_diff:
  assumes "inv old" "inv new" "key ` elems old = key ` elems new"
  shows "elems (diff new old) = {}" and "elems (diff old new) = {}"
  using diff_keys [OF assms(1,2)] diff_keys [OF assms(2,1)] assms(3) by simp_all

end

end
