(* ===== verification/Local_Protocol.thy ===== *)
theory Local_Protocol
  imports Prelude
begin

text \<open>
  \<^verbatim>\<open>src/src/local_tcp.hpp\<close>: the protocol between the proxy and the handler process on
  the local socket. The proxy sends request frames (one type byte, a 32-bit length, the
  body), the process answers with 16-byte response heads followed by the bytes it made
  itself. Heads are read into a raw \<^verbatim>\<open>char\<close> array and reinterpreted, so their type and
  action are kept as the bytes that arrived; \<open>data_type_of\<close> reads them as the
  enumeration and is \<open>None\<close> for a byte that names no enumerator, which is what the
  \<^verbatim>\<open>default\<close> branches of the switches see.
\<close>

section \<open>Constants and enumerations\<close>

definition unix_domian_ip :: string where
  "unix_domian_ip = ''/dev/shm/cpp_proxy_uds''"

definition local_port :: u16 where
  "local_port = 23456"

datatype data_type = From_client_to_server | From_server_to_client | Four_tuple | Heartbeat

fun data_type_byte :: "data_type \<Rightarrow> u8" where
  "data_type_byte From_client_to_server = 0"
| "data_type_byte From_server_to_client = 1"
| "data_type_byte Four_tuple = 2"
| "data_type_byte Heartbeat = 3"

definition data_type_of :: "u8 \<Rightarrow> data_type option" where
  "data_type_of b =
     (if b = 0 then Some From_client_to_server
      else if b = 1 then Some From_server_to_client
      else if b = 2 then Some Four_tuple
      else if b = 3 then Some Heartbeat
      else None)"

datatype action = Pass | Block

fun action_byte :: "action \<Rightarrow> u8" where
  "action_byte Pass = 0"
| "action_byte Block = 1"

section \<open>Response heads\<close>

text \<open>The 16 bytes of \<^verbatim>\<open>struct response_head\<close>, fields at offsets 0, 1, 2, 3, 4 and 8.\<close>

record response_head =
  rh_type :: u8
  rh_act :: u8
  rh_unused2 :: u8
  rh_unused3 :: u8
  rh_new_data_len :: u32
  rh_handled_total_pkg_len :: u64

definition response_head_len :: nat where
  "response_head_len = 16"

definition encode_head :: "response_head \<Rightarrow> byte list" where
  "encode_head h =
     [rh_type h, rh_act h, rh_unused2 h, rh_unused3 h] @
     put_u32 (rh_new_data_len h) @ put_u64 (rh_handled_total_pkg_len h)"

definition decode_head :: "byte list \<Rightarrow> response_head" where
  "decode_head bs =
     \<lparr>rh_type = bs ! 0, rh_act = bs ! 1, rh_unused2 = bs ! 2, rh_unused3 = bs ! 3,
      rh_new_data_len = get_u32 (take 4 (drop 4 bs)),
      rh_handled_total_pkg_len = get_u64 (take 8 (drop 8 bs))\<rparr>"

text \<open>\<^verbatim>\<open>local::response_head head{}\<close>: every field zero.\<close>

definition empty_head :: response_head where
  "empty_head =
     \<lparr>rh_type = 0, rh_act = 0, rh_unused2 = 0, rh_unused3 = 0,
      rh_new_data_len = 0, rh_handled_total_pkg_len = 0\<rparr>"

section \<open>Request heads\<close>

record request_head =
  rq_type :: u8
  rq_len :: u32

definition request_head_len :: nat where
  "request_head_len = 5"

definition encode_request :: "request_head \<Rightarrow> byte list" where
  "encode_request h = rq_type h # put_u32 (rq_len h)"

definition decode_request :: "byte list \<Rightarrow> request_head" where
  "decode_request bs = \<lparr>rq_type = bs ! 0, rq_len = get_u32 (take 4 (drop 1 bs))\<rparr>"

section \<open>Facts\<close>

lemma data_type_of_byte [simp, wire_simps]: "data_type_of (data_type_byte t) = Some t"
  by (cases t) (simp_all add: data_type_of_def)

lemma data_type_of_eq_Some_iff: "data_type_of b = Some t \<longleftrightarrow> b = data_type_byte t"
  by (cases t) (auto simp: data_type_of_def)

lemma data_type_of_eq_None_iff: "data_type_of b = None \<longleftrightarrow> 3 < b"
  by (auto simp: data_type_of_def word_unat_eq_iff word_less_nat_alt)

lemma length_encode_head [simp, wire_simps]: "length (encode_head h) = response_head_len"
  by (simp add: encode_head_def response_head_len_def)

lemma decode_encode_head [simp, wire_simps]: "decode_head (encode_head h) = h"
  by (simp add: decode_head_def encode_head_def)

lemma length_encode_request [simp, wire_simps]: "length (encode_request h) = request_head_len"
  by (simp add: encode_request_def request_head_len_def)

lemma decode_encode_request [simp, wire_simps]: "decode_request (encode_request h) = h"
  by (simp add: decode_request_def encode_request_def)

interpretation resp: framed_codec encode_head decode_head response_head_len
    "\<lambda>h. unat (rh_new_data_len h)"
  by unfold_locales (simp_all add: response_head_len_def)

interpretation reqs: framed_codec encode_request decode_request request_head_len
    "\<lambda>h. unat (rq_len h)"
  by unfold_locales (simp_all add: request_head_len_def)

end
