(* ===== verification/Data_Block.thy ===== *)
theory Data_Block
  imports Prelude
begin

text \<open>
  \<^verbatim>\<open>src/src/cpp_proxy/data_block.hpp\<close>: the bump-allocated receive buffer of a relay
  direction. The state is the fill level, the capacity and the raw storage; the level
  and the capacity are \<^verbatim>\<open>uint32_t\<close> and all arithmetic on them wraps as in the source.
  A pointer into the storage is its offset. Stores the source does not check
  (\<^verbatim>\<open>memcpy\<close> past the end) are \<open>None\<close>.
\<close>

section \<open>State and operations\<close>

record data_block =
  used_size :: u32
  capacity :: u32
  buffer :: memory

definition default_block_size :: u32 where
  "default_block_size = 1024 * 1024 * 2"

definition data_block_new :: "u32 \<Rightarrow> data_block" where
  "data_block_new cap = \<lparr>used_size = 0, capacity = cap, buffer = (\<lambda>_. None)\<rparr>"

text \<open>The deleter of \<^verbatim>\<open>buffer_\<close>: the freed block's fill level is added to the
  process-wide 64-bit counter \<^verbatim>\<open>total_free_bytes_\<close>.\<close>

definition data_block_release :: "u64 \<Rightarrow> data_block \<Rightarrow> u64" where
  "data_block_release free_bytes b = free_bytes + ucast (used_size b)"

definition get_available :: "data_block \<Rightarrow> u32" where
  "get_available b = capacity b - used_size b"

definition update_available :: "data_block \<Rightarrow> u32 \<Rightarrow> data_block" where
  "update_available b n = b\<lparr>used_size := used_size b + n\<rparr>"

definition get_current_write_pos :: "data_block \<Rightarrow> nat" where
  "get_current_write_pos b = unat (used_size b)"

definition write_at :: "data_block \<Rightarrow> nat \<Rightarrow> byte list \<Rightarrow> data_block option" where
  "write_at b pos bs =
     (if pos + length bs \<le> unat (capacity b)
      then Some (b\<lparr>buffer := store_bytes (buffer b) pos bs\<rparr>) else None)"

definition append_str :: "data_block \<Rightarrow> byte list \<Rightarrow> data_block option" where
  "append_str b str =
     map_option (\<lambda>b'. b'\<lparr>used_size := used_size b' + of_nat (length str)\<rparr>)
       (write_at b (get_current_write_pos b) str)"

definition read_at :: "data_block \<Rightarrow> nat \<Rightarrow> nat \<Rightarrow> byte list option" where
  "read_at b pos n =
     (if pos + n \<le> unat (capacity b) then load_bytes (buffer b) pos n else None)"

section \<open>The block invariant\<close>

text \<open>The fill level never passes the capacity, and the filled part was stored to.\<close>

definition block_ok :: "data_block \<Rightarrow> bool" where
  "block_ok b \<longleftrightarrow> used_size b \<le> capacity b"

lemma block_ok_iff: "block_ok b \<longleftrightarrow> unat (used_size b) \<le> unat (capacity b)"
  by (simp add: block_ok_def word_le_nat_alt)

lemma block_ok_new [simp]: "block_ok (data_block_new cap)"
  by (simp add: block_ok_def data_block_new_def)

lemma data_block_new_simps [simp]:
  "used_size (data_block_new cap) = 0" "capacity (data_block_new cap) = cap"
  "get_available (data_block_new cap) = cap"
  "get_current_write_pos (data_block_new cap) = 0"
  by (simp_all add: data_block_new_def get_available_def get_current_write_pos_def)

lemma unat_get_available:
  "block_ok b \<Longrightarrow> unat (get_available b) = unat (capacity b) - unat (used_size b)"
  by (simp add: block_ok_def get_available_def unat_sub)

lemma used_plus_available:
  "block_ok b \<Longrightarrow> get_current_write_pos b + unat (get_available b) = unat (capacity b)"
  by (simp add: unat_get_available block_ok_iff get_current_write_pos_def)

lemma update_available_frame [simp]:
  "capacity (update_available b n) = capacity b"
  "buffer (update_available b n) = buffer b"
  by (simp_all add: update_available_def)

lemma unat_update_available:
  assumes "block_ok b" "unat n \<le> unat (get_available b)"
  shows "unat (used_size (update_available b n)) = unat (used_size b) + unat n"
proof -
  have "unat (used_size b) + unat n \<le> unat (capacity b)"
    using assms by (simp add: unat_get_available block_ok_iff)
  also have "\<dots> < 4294967296" by (rule unat_less_width)
  finally show ?thesis
    by (simp add: update_available_def unat_word_ariths)
qed

lemma block_ok_update_available:
  assumes "block_ok b" "unat n \<le> unat (get_available b)"
  shows "block_ok (update_available b n)"
  using assms unat_update_available [OF assms]
  by (simp add: block_ok_iff unat_get_available)

lemma write_at_eq_Some_iff:
  "write_at b pos bs = Some b' \<longleftrightarrow>
     pos + length bs \<le> unat (capacity b) \<and> b' = b\<lparr>buffer := store_bytes (buffer b) pos bs\<rparr>"
  by (auto simp: write_at_def)

lemma read_write_same:
  "write_at b pos bs = Some b' \<Longrightarrow> read_at b' pos (length bs) = Some bs"
  by (auto simp: write_at_eq_Some_iff read_at_def)

lemma read_write_disjoint:
  "write_at b pos bs = Some b' \<Longrightarrow> p + n \<le> pos \<or> pos + length bs \<le> p \<Longrightarrow>
     read_at b' p n = read_at b p n"
  by (auto simp: write_at_eq_Some_iff read_at_def load_store_disjoint)

lemma read_at_update_available [simp]: "read_at (update_available b n) p k = read_at b p k"
  by (simp add: read_at_def)

lemma read_at_length: "read_at b p n = Some bs \<Longrightarrow> length bs = n"
  by (auto simp: read_at_def dest: load_bytes_length split: if_splits)

lemma read_at_take_drop:
  assumes "read_at b p n = Some bs" "k \<le> n"
  shows "read_at b p k = Some (take k bs)" and "read_at b (p + k) (n - k) = Some (drop k bs)"
  using assms load_bytes_take_drop [of "buffer b" p n bs k]
  by (auto simp: read_at_def split: if_splits)

lemma append_str_Some:
  assumes "block_ok b" "length str \<le> unat (get_available b)"
  obtains b' where "append_str b str = Some b'" "block_ok b'"
    "unat (used_size b') = unat (used_size b) + length str"
    "read_at b' (unat (used_size b)) (length str) = Some str"
proof -
  let ?p = "get_current_write_pos b" and ?n = "of_nat (length str) :: u32"
  have fits: "?p + length str \<le> unat (capacity b)"
    using assms used_plus_available [of b] by simp
  then obtain c where c: "write_at b ?p str = Some c"
    by (simp add: write_at_def)
  have "length str < 4294967296"
    using assms(2) unat_less_width(3) [of "get_available b"] by simp
  then have n: "unat ?n = length str"
    by (rule unat_of_nat_u32)
  have c_def: "c = b\<lparr>buffer := store_bytes (buffer b) ?p str\<rparr>"
    using c by (simp add: write_at_eq_Some_iff)
  have "block_ok c" "unat ?n \<le> unat (get_available c)"
    using assms n by (simp_all add: c_def block_ok_def get_available_def)
  have "append_str b str = Some (update_available c ?n)"
    using c by (simp add: append_str_def update_available_def)
  moreover have "unat (used_size (update_available c ?n)) = unat (used_size b) + length str"
    using unat_update_available [OF \<open>block_ok c\<close> \<open>unat ?n \<le> unat (get_available c)\<close>] n
    by (simp add: c_def)
  moreover have "read_at (update_available c ?n) (unat (used_size b)) (length str) = Some str"
    using read_write_same [OF c] by (simp add: get_current_write_pos_def)
  ultimately show thesis
    using that block_ok_update_available [OF \<open>block_ok c\<close> \<open>unat ?n \<le> unat (get_available c)\<close>]
    by blast
qed

end
