(* ===== verification/Packet_Lane.thy ===== *)
theory Packet_Lane
  imports Local_Protocol Data_Block
begin

text \<open>
  The packet store of one relay direction in \<^verbatim>\<open>src/src/cpp_proxy/session.hpp\<close>: the deque of
  packets that were sent to the handler process and wait for its verdict, the blocks
  they point into, and the counter of bytes the process has already released.

  A \<^verbatim>\<open>char*\<close> into a block is the block's number and an offset. The lane keeps the
  blocks of one direction (\<open>ln_heap\<close>, fresh numbers from \<open>ln_next\<close>), the local variable
  \<^verbatim>\<open>block\<close> of \<^verbatim>\<open>client_request\<close> or \<^verbatim>\<open>server_response\<close> (\<open>ln_block\<close>), the deque
  \<^verbatim>\<open>data_from_..._to_..._\<close> (\<open>ln_stored\<close>) and \<^verbatim>\<open>req/res_handled_total_pkg_len_\<close>
  (\<open>ln_handled\<close>). Blocks are never freed in the model; \<^verbatim>\<open>buf_keeper\<close> keeps every
  block alive that a packet points into.
\<close>

section \<open>State\<close>

type_synonym heap = "nat \<Rightarrow> data_block option"

record packet =
  pk_block :: nat
  pk_off :: nat
  pk_len :: u32

record lane =
  ln_heap :: heap
  ln_next :: nat
  ln_block :: "nat option"
  ln_stored :: "packet list"
  ln_handled :: u64

definition empty_lane :: lane where
  "empty_lane =
     \<lparr>ln_heap = (\<lambda>_. None), ln_next = 0, ln_block = None, ln_stored = [], ln_handled = 0\<rparr>"

text \<open>\<^verbatim>\<open>asio::const_buffer\<close>: a pointer and a \<^verbatim>\<open>size_t\<close>.\<close>

type_synonym const_buffer = "nat \<times> nat \<times> u64"

definition asio_buffer :: "packet \<Rightarrow> u64 \<Rightarrow> const_buffer" where
  "asio_buffer p n = (pk_block p, pk_off p, n)"

text \<open>What a gathered write reads from memory, in order.\<close>

fun gather :: "heap \<Rightarrow> const_buffer list \<Rightarrow> fault + byte list" where
  "gather h [] = Inr []"
| "gather h ((i, off, n) # bufs) =
     (case h i of
        None \<Rightarrow> Inl Bad_pointer
      | Some b \<Rightarrow>
          (case read_at b off (unat n) of
             None \<Rightarrow> Inl Bad_pointer
           | Some xs \<Rightarrow> (case gather h bufs of Inl f \<Rightarrow> Inl f | Inr ys \<Rightarrow> Inr (xs @ ys))))"

section \<open>Releasing packets on the verdict of the process\<close>

text \<open>
  \<open>prepare_loop\<close> is the loop of \<^verbatim>\<open>prepare_transfer_packet\<close> for the total \<open>tot\<close> of the
  response head. It returns the write buffers and the out-parameters
  \<^verbatim>\<open>handled_total_pkg_len\<close>, \<^verbatim>\<open>handled_pkg_count\<close> and \<^verbatim>\<open>next_pkg_used_size\<close>. The sum in
  the test wraps at 64 bits; the difference is cut to a 32-bit \<^verbatim>\<open>int\<close> and, in
  \<^verbatim>\<open>asio::buffer\<close>, converted back to an unsigned 64-bit size.
\<close>

fun prepare_loop ::
  "u64 \<Rightarrow> packet list \<Rightarrow> u64 \<Rightarrow> nat \<Rightarrow> const_buffer list \<times> u64 \<times> nat \<times> int"
where
  "prepare_loop tot [] handled cnt = ([], handled, cnt, 0)"
| "prepare_loop tot (pack # ps) handled cnt =
     (if handled + ucast (pk_len pack) > tot
      then let used = sint (ucast (tot - handled) :: 32 word)
           in if used = 0 then ([], handled, cnt, used)
              else ([asio_buffer pack (of_int used)], handled, cnt, used)
      else let (bufs, handled', cnt', used) =
                 prepare_loop tot ps (handled + ucast (pk_len pack)) (Suc cnt)
           in (asio_buffer pack (ucast (pk_len pack)) # bufs, handled', cnt', used))"

definition prepare_transfer_packet ::
  "response_head \<Rightarrow> packet list \<Rightarrow> u64 \<Rightarrow> const_buffer list \<times> u64 \<times> nat \<times> int"
where
  "prepare_transfer_packet head stored handled =
     prepare_loop (rh_handled_total_pkg_len head) stored handled 0"

fun pop_packets :: "packet list \<Rightarrow> nat \<Rightarrow> fault + packet list" where
  "pop_packets stored 0 = Inr stored"
| "pop_packets [] (Suc n) = Inl Pop_of_empty_deque"
| "pop_packets (p # ps) (Suc n) = pop_packets ps n"

definition clear_handled_packet :: "packet list \<Rightarrow> nat \<Rightarrow> int \<Rightarrow> fault + packet list" where
  "clear_handled_packet stored cnt used =
     (case pop_packets stored cnt of
        Inl f \<Rightarrow> Inl f
      | Inr rest \<Rightarrow>
          if used = 0 then Inr rest
          else (case rest of
                  [] \<Rightarrow> Inl Front_of_empty_deque
                | p # ps \<Rightarrow>
                    if int (pk_off p) + used < 0 then Inl Bad_pointer
                    else Inr (p\<lparr>pk_off := nat (int (pk_off p) + used),
                                pk_len := pk_len p - of_int used\<rparr> # ps)))"

section \<open>Receiving into the store\<close>

text \<open>
  The first half of \<^verbatim>\<open>inner_client_or_server_2proxy_2process\<close>, up to the read: a new
  block when there is none or fewer than 69 bytes are free.
\<close>

definition prepare_block :: "lane \<Rightarrow> lane" where
  "prepare_block ln =
     (let fresh = ln\<lparr>ln_heap := (ln_heap ln)(ln_next ln \<mapsto> data_block_new default_block_size),
                    ln_next := Suc (ln_next ln), ln_block := Some (ln_next ln)\<rparr>
      in case ln_block ln of
           None \<Rightarrow> fresh
         | Some i \<Rightarrow>
             (case ln_heap ln i of
                None \<Rightarrow> fresh
              | Some b \<Rightarrow> if get_available b < 69 then fresh else ln))"

definition current_block :: "lane \<Rightarrow> data_block option" where
  "current_block ln = Option.bind (ln_block ln) (ln_heap ln)"

text \<open>The size of the buffer handed to \<^verbatim>\<open>async_read_some\<close>: \<open>available - 5\<close>.\<close>

definition read_room :: "lane \<Rightarrow> nat" where
  "read_room ln = (case current_block ln of None \<Rightarrow> 0 | Some b \<Rightarrow> unat (get_available b - 5))"

text \<open>
  The second half, from the completed read of \<open>data\<close>: the bytes are in the block at
  \<^verbatim>\<open>data_pos + 5\<close>, the fill level moves by \<open>n + 5\<close>, the packet is queued, the five
  header bytes are written before the data, and \<open>n + 5\<close> bytes from \<^verbatim>\<open>data_pos\<close> are
  what goes to the process.
\<close>

definition store_packet :: "data_type \<Rightarrow> byte list \<Rightarrow> lane \<Rightarrow> fault + lane \<times> byte list" where
  "store_packet t data ln =
     (case ln_block ln of
        None \<Rightarrow> Inl Null_dereference
      | Some i \<Rightarrow>
      (case ln_heap ln i of
        None \<Rightarrow> Inl Bad_pointer
      | Some b \<Rightarrow>
          let data_pos = get_current_write_pos b;
              n = of_nat (length data) :: u32
          in case Option.bind (write_at b (data_pos + 5) data)
                    (\<lambda>b1. write_at (update_available b1 (n + 5)) data_pos
                            (encode_request \<lparr>rq_type = data_type_byte t, rq_len = n\<rparr>)) of
               None \<Rightarrow> Inl Bad_pointer
             | Some b2 \<Rightarrow>
                 (case read_at b2 data_pos (length data + 5) of
                    None \<Rightarrow> Inl Bad_pointer
                  | Some out \<Rightarrow>
                      Inr (ln\<lparr>ln_heap := (ln_heap ln)(i \<mapsto> b2),
                             ln_stored := ln_stored ln @
                               [\<lparr>pk_block = i, pk_off = data_pos + 5, pk_len = n\<rparr>]\<rparr>, out))))"

text \<open>The buffers of \<^verbatim>\<open>inner_enable_bypass\<close>: every stored packet, whole.\<close>

definition flush_buffers :: "packet list \<Rightarrow> const_buffer list" where
  "flush_buffers stored = map (\<lambda>p. asio_buffer p (ucast (pk_len p))) stored"

section \<open>Abstraction and invariant\<close>

definition packet_bytes :: "heap \<Rightarrow> packet \<Rightarrow> byte list" where
  "packet_bytes h p =
     (case h (pk_block p) of
        None \<Rightarrow> []
      | Some b \<Rightarrow>
          (case read_at b (pk_off p) (unat (pk_len p)) of None \<Rightarrow> [] | Some bs \<Rightarrow> bs))"

definition stored_bytes :: "heap \<Rightarrow> packet list \<Rightarrow> byte list" where
  "stored_bytes h ps = concat (map (packet_bytes h) ps)"

definition lane_bytes :: "lane \<Rightarrow> byte list" where
  "lane_bytes ln = stored_bytes (ln_heap ln) (ln_stored ln)"

text \<open>A packet points at stored bytes below the fill level of a live block.\<close>

definition packet_ok :: "heap \<Rightarrow> packet \<Rightarrow> bool" where
  "packet_ok h p \<longleftrightarrow>
     (case h (pk_block p) of
        None \<Rightarrow> False
      | Some b \<Rightarrow>
          pk_off p + unat (pk_len p) \<le> unat (used_size b) \<and>
          read_at b (pk_off p) (unat (pk_len p)) \<noteq> None)"

definition heap_ok :: "heap \<Rightarrow> nat \<Rightarrow> bool" where
  "heap_ok h next_id \<longleftrightarrow>
     (\<forall>i b. h i = Some b \<longrightarrow> i < next_id \<and> block_ok b \<and> capacity b = default_block_size)"

definition lane_ok :: "lane \<Rightarrow> bool" where
  "lane_ok ln \<longleftrightarrow>
     heap_ok (ln_heap ln) (ln_next ln) \<and>
     (\<forall>p \<in> set (ln_stored ln). packet_ok (ln_heap ln) p) \<and>
     (case ln_block ln of None \<Rightarrow> True | Some i \<Rightarrow> ln_heap ln i \<noteq> None)"

section \<open>Reading packets\<close>

lemma packet_bytes_read:
  "packet_ok h p \<Longrightarrow> h (pk_block p) = Some b \<Longrightarrow>
     read_at b (pk_off p) (unat (pk_len p)) = Some (packet_bytes h p)"
  by (auto simp: packet_ok_def packet_bytes_def)

lemma packet_okE:
  assumes "packet_ok h p"
  obtains b where "h (pk_block p) = Some b"
    "pk_off p + unat (pk_len p) \<le> unat (used_size b)"
    "read_at b (pk_off p) (unat (pk_len p)) = Some (packet_bytes h p)"
    "length (packet_bytes h p) = unat (pk_len p)"
proof -
  obtain b where b: "h (pk_block p) = Some b"
    and "pk_off p + unat (pk_len p) \<le> unat (used_size b)"
    using assms by (auto simp: packet_ok_def split: option.splits)
  moreover have r: "read_at b (pk_off p) (unat (pk_len p)) = Some (packet_bytes h p)"
    using assms b by (rule packet_bytes_read)
  moreover have "length (packet_bytes h p) = unat (pk_len p)"
    using r by (rule read_at_length)
  ultimately show thesis by (rule that)
qed

lemma length_packet_bytes [simp]: "packet_ok h p \<Longrightarrow> length (packet_bytes h p) = unat (pk_len p)"
  by (erule packet_okE)

lemma stored_bytes_simps [simp]:
  "stored_bytes h [] = []"
  "stored_bytes h (p # ps) = packet_bytes h p @ stored_bytes h ps"
  "stored_bytes h (ps @ qs) = stored_bytes h ps @ stored_bytes h qs"
  by (simp_all add: stored_bytes_def)

lemma gather_packet:
  assumes "packet_ok h p" "unat n \<le> unat (pk_len p)"
  shows "gather h (asio_buffer p n # bufs) =
    (case gather h bufs of Inl f \<Rightarrow> Inl f
     | Inr ys \<Rightarrow> Inr (take (unat n) (packet_bytes h p) @ ys))"
  using assms(1)
proof (rule packet_okE)
  fix b
  assume b: "h (pk_block p) = Some b"
    and r: "read_at b (pk_off p) (unat (pk_len p)) = Some (packet_bytes h p)"
  from read_at_take_drop(1) [OF r assms(2)] b show ?thesis
    by (simp add: asio_buffer_def)
qed

lemma gather_flush:
  "\<forall>p \<in> set ps. packet_ok h p \<Longrightarrow> gather h (flush_buffers ps) = Inr (stored_bytes h ps)"
  by (induction ps) (simp_all add: flush_buffers_def gather_packet)

lemma packet_len_bound:
  assumes "heap_ok h nx" "packet_ok h p"
  shows "unat (pk_len p) \<le> 2097152"
  using assms(2)
proof (rule packet_okE)
  fix b
  assume b: "h (pk_block p) = Some b"
    and "pk_off p + unat (pk_len p) \<le> unat (used_size b)"
  moreover have "unat (used_size b) \<le> unat default_block_size"
    using assms(1) b by (force simp: heap_ok_def block_ok_iff)
  ultimately show ?thesis
    by (simp add: default_block_size_def)
qed

section \<open>The verdict of the process\<close>

lemma sint_difference:
  assumes "unat (b :: u64) \<le> unat (a :: u64)" "unat a - unat b < 2147483648"
  shows "sint (ucast (a - b) :: 32 word) = int (unat a - unat b)"
proof -
  have "unat (a - b) = unat a - unat b"
    using assms(1) by (simp add: unat_sub word_le_nat_alt)
  then have "(ucast (a - b) :: 32 word) = of_nat (unat a - unat b)"
    by (metis of_nat_unat)
  then show ?thesis
    using assms(2) by (simp add: signed_of_nat signed_take_bit_int_eq_self)
qed

lemma prepare_loop_spec:
  assumes "\<forall>p \<in> set ps. packet_ok h p" "heap_ok h nx"
    and "unat hn \<le> unat tot" "unat hn + length (stored_bytes h ps) < 18446744073709551616"
  shows "\<exists>bufs hn' n used. prepare_loop tot ps hn cnt = (bufs, hn', cnt + n, int used) \<and>
    n \<le> length ps \<and> (used = 0 \<or> n < length ps \<and> used < unat (pk_len (ps ! n))) \<and>
    gather h bufs = Inr (take (unat tot - unat hn) (stored_bytes h ps)) \<and>
    unat hn' = unat hn + length (stored_bytes h (take n ps)) \<and>
    length (stored_bytes h (take n ps)) + used = min (unat tot - unat hn) (length (stored_bytes h ps))"
  using assms
proof (induction ps arbitrary: hn cnt)
  case Nil
  then show ?case by simp
next
  case (Cons p ps)
  let ?l = "unat (pk_len p)"
  have p: "packet_ok h p" and ps: "\<forall>p \<in> set ps. packet_ok h p"
    using Cons.prems(1) by simp_all
  have l: "?l \<le> 2097152"
    using Cons.prems(2) p by (rule packet_len_bound)
  have sum: "unat (hn + ucast (pk_len p)) = unat hn + ?l"
    using Cons.prems(4) p by (simp add: unat_word_ariths)
  show ?case
  proof (cases "hn + ucast (pk_len p) > tot")
    case True
    then have gt: "unat hn + ?l > unat tot"
      using sum by (simp add: word_less_nat_alt)
    let ?k = "unat tot - unat hn"
    have k: "?k < ?l" using gt Cons.prems(3) by linarith
    have used: "sint (ucast (tot - hn) :: 32 word) = int ?k"
      using Cons.prems(3) k l by (intro sint_difference) simp_all
    obtain w :: u64 where w: "of_int (int ?k) = w" "unat w = ?k"
      using k l by (simp add: unat_of_nat)
    let ?bufs = "if ?k = 0 then [] else [asio_buffer p w]"
    have t: "take ?k (stored_bytes h (p # ps)) = take ?k (packet_bytes h p)"
      using p k by simp
    have g: "gather h ?bufs = Inr (take ?k (stored_bytes h (p # ps)))"
      unfolding t using k w(2) gather_packet [OF p, of w "[]"] by simp
    have m: "min ?k (length (stored_bytes h (p # ps))) = ?k"
      using p k by simp
    have "prepare_loop tot (p # ps) hn cnt = (?bufs, hn, cnt + 0, int ?k)"
      using True unfolding prepare_loop.simps used Let_def w by simp
    with g m k show ?thesis
      by (intro exI [of _ ?bufs] exI [of _ hn] exI [of _ 0] exI [of _ ?k]) simp
  next
    case False
    then have le: "unat hn + ?l \<le> unat tot"
      using sum by (simp add: word_less_nat_alt)
    have "unat (hn + ucast (pk_len p)) + length (stored_bytes h ps) < 18446744073709551616"
      using Cons.prems(4) p sum by simp
    from Cons.IH [OF ps Cons.prems(2) _ this, of "Suc cnt"] le sum
    obtain bufs hn' n used where
      eq: "prepare_loop tot ps (hn + ucast (pk_len p)) (Suc cnt) = (bufs, hn', Suc cnt + n, int used)"
      and n: "n \<le> length ps" "used = 0 \<or> n < length ps \<and> used < unat (pk_len (ps ! n))"
      and g: "gather h bufs = Inr (take (unat tot - (unat hn + ?l)) (stored_bytes h ps))"
      and hn': "unat hn' = unat hn + ?l + length (stored_bytes h (take n ps))"
      and len: "length (stored_bytes h (take n ps)) + used
          = min (unat tot - (unat hn + ?l)) (length (stored_bytes h ps))"
      by auto
    have "gather h (asio_buffer p (ucast (pk_len p)) # bufs)
        = Inr (take (unat tot - unat hn) (stored_bytes h (p # ps)))"
      using gather_packet [OF p, of "ucast (pk_len p)" bufs] g p le
      by (simp add: add.commute diff_diff_left)
    moreover have "length (stored_bytes h (take (Suc n) (p # ps))) + used
        = min (unat tot - unat hn) (length (stored_bytes h (p # ps)))"
      using len p le by simp
    ultimately show ?thesis
      using False eq n hn' p
      by (intro exI [of _ "asio_buffer p (ucast (pk_len p)) # bufs"]
          exI [of _ hn'] exI [of _ "Suc n"] exI [of _ used]) simp
  qed
qed


lemma pop_packets_append:
  "n \<le> length ps \<Longrightarrow> pop_packets (ps @ qs) n = Inr (drop n ps @ qs)"
  by (induction ps n rule: pop_packets.induct) auto

lemma pop_packets_short: "length ps < n \<Longrightarrow> pop_packets ps n = Inl Pop_of_empty_deque"
  by (induction ps n rule: pop_packets.induct) auto

lemma packet_ok_advance:
  assumes "packet_ok h p" "k < unat (pk_len p)"
  defines "q \<equiv> p\<lparr>pk_off := pk_off p + k, pk_len := pk_len p - of_nat k\<rparr>"
  shows "packet_ok h q" and "packet_bytes h q = drop k (packet_bytes h p)"
proof -
  obtain b where b: "h (pk_block p) = Some b"
    and fits: "pk_off p + unat (pk_len p) \<le> unat (used_size b)"
    and r: "read_at b (pk_off p) (unat (pk_len p)) = Some (packet_bytes h p)"
    using assms(1) by (rule packet_okE)
  have "unat (of_nat k :: u32) = k"
    using assms(2) unat_less_width(3) [of "pk_len p"] by (intro unat_of_nat_u32) simp
  then have len: "unat (pk_len p - of_nat k) = unat (pk_len p) - k"
    using assms(2) by (simp add: unat_sub word_le_nat_alt)
  have "read_at b (pk_off p + k) (unat (pk_len p) - k) = Some (drop k (packet_bytes h p))"
    using r assms(2) by (intro read_at_take_drop(2)) simp_all
  with b fits len assms(2) show "packet_ok h q" and "packet_bytes h q = drop k (packet_bytes h p)"
    by (simp_all add: q_def packet_ok_def packet_bytes_def)
qed

lemma clear_handled_packet_spec:
  assumes "\<forall>p \<in> set ps. packet_ok h p" "n \<le> length ps"
    and "used = 0 \<or> n < length ps \<and> used < unat (pk_len (ps ! n))"
  shows "\<exists>rest. (\<forall>qs. clear_handled_packet (ps @ qs) n (int used) = Inr (rest @ qs)) \<and>
    stored_bytes h rest = drop (length (stored_bytes h (take n ps)) + used) (stored_bytes h ps) \<and>
    (\<forall>p \<in> set rest. packet_ok h p)"
proof -
  have split: "stored_bytes h ps = stored_bytes h (take n ps) @ stored_bytes h (drop n ps)"
    by (metis append_take_drop_id stored_bytes_simps(3))
  show ?thesis
  proof (cases "used = 0")
    case True
    then show ?thesis
      using assms split
      by (intro exI [of _ "drop n ps"])
        (auto simp: clear_handled_packet_def pop_packets_append dest: in_set_dropD)
  next
    case False
    with assms(3) have n: "n < length ps" and k: "used < unat (pk_len (ps ! n))"
      by simp_all
    let ?p = "ps ! n" and ?t = "drop (Suc n) ps"
    let ?q = "?p\<lparr>pk_off := pk_off ?p + used, pk_len := pk_len ?p - of_nat used\<rparr>"
    have d: "drop n ps = ?p # ?t"
      using n by (rule Cons_nth_drop_Suc [symmetric])
    have p: "packet_ok h ?p"
      using assms(1) n by simp
    note adv = packet_ok_advance [OF p k]
    have "\<forall>qs. clear_handled_packet (ps @ qs) n (int used) = Inr ((?q # ?t) @ qs)"
      using False n by (simp add: clear_handled_packet_def pop_packets_append d nat_int_add)
    moreover have "stored_bytes h (?q # ?t)
        = drop (length (stored_bytes h (take n ps)) + used) (stored_bytes h ps)"
      using adv(2) k p by (simp add: split d del: append_take_drop_id)
    moreover have "\<forall>p \<in> set (?q # ?t). packet_ok h p"
      using adv(1) assms(1) by (auto dest: in_set_dropD)
    ultimately show ?thesis by blast
  qed
qed

section \<open>Receiving keeps what is stored\<close>

text \<open>A heap grows: live blocks stay, their filled parts are not written to again.\<close>

definition heap_grows :: "heap \<Rightarrow> heap \<Rightarrow> bool" where
  "heap_grows h h' \<longleftrightarrow>
     (\<forall>i b. h i = Some b \<longrightarrow>
        (\<exists>b'. h' i = Some b' \<and> unat (used_size b) \<le> unat (used_size b') \<and>
           (\<forall>p n. p + n \<le> unat (used_size b) \<longrightarrow> read_at b' p n = read_at b p n)))"

lemma heap_grows_refl [simp]: "heap_grows h h"
  by (simp add: heap_grows_def)

lemma heap_grows_packet:
  assumes "heap_grows h h'" "packet_ok h p"
  shows "packet_ok h' p" and "packet_bytes h' p = packet_bytes h p"
proof -
  obtain b where b: "h (pk_block p) = Some b"
    and fits: "pk_off p + unat (pk_len p) \<le> unat (used_size b)"
    and r: "read_at b (pk_off p) (unat (pk_len p)) = Some (packet_bytes h p)"
    using assms(2) by (rule packet_okE)
  obtain b' where b': "h' (pk_block p) = Some b'" "unat (used_size b) \<le> unat (used_size b')"
    and "read_at b' (pk_off p) (unat (pk_len p)) = read_at b (pk_off p) (unat (pk_len p))"
    using assms(1) b fits unfolding heap_grows_def by blast
  with r fits show "packet_ok h' p" and "packet_bytes h' p = packet_bytes h p"
    by (simp_all add: packet_ok_def packet_bytes_def)
qed

lemma heap_grows_stored:
  assumes "heap_grows h h'" "\<forall>p \<in> set ps. packet_ok h p"
  shows "\<forall>p \<in> set ps. packet_ok h' p" and "stored_bytes h' ps = stored_bytes h ps"
  using assms heap_grows_packet [OF assms(1)]
  by (auto simp: stored_bytes_def intro!: arg_cong [where f = concat])

lemma lane_ok_empty [simp]: "lane_ok empty_lane" "lane_bytes empty_lane = []"
  by (simp_all add: lane_ok_def heap_ok_def empty_lane_def lane_bytes_def)

lemma prepare_block_spec:
  assumes "lane_ok ln"
  shows "lane_ok (prepare_block ln)"
    and "lane_bytes (prepare_block ln) = lane_bytes ln"
    and "ln_stored (prepare_block ln) = ln_stored ln"
    and "ln_handled (prepare_block ln) = ln_handled ln"
    and "\<exists>b. current_block (prepare_block ln) = Some b \<and> block_ok b \<and> \<not> get_available b < 69"
proof -
  let ?fresh = "ln\<lparr>ln_heap := (ln_heap ln)(ln_next ln \<mapsto> data_block_new default_block_size),
                   ln_next := Suc (ln_next ln), ln_block := Some (ln_next ln)\<rparr>"
  have unused: "ln_heap ln (ln_next ln) = None"
    using assms by (cases "ln_heap ln (ln_next ln)") (auto simp: lane_ok_def heap_ok_def)
  have grows: "heap_grows (ln_heap ln) (ln_heap ?fresh)"
    using unused by (auto simp: heap_grows_def)
  have packets: "\<forall>p \<in> set (ln_stored ln). packet_ok (ln_heap ln) p"
    using assms by (simp add: lane_ok_def)
  have fresh: "lane_ok ?fresh" "lane_bytes ?fresh = lane_bytes ln"
    using assms heap_grows_stored [OF grows packets]
    by (auto simp: lane_ok_def heap_ok_def lane_bytes_def less_SucI)
  have room: "\<not> default_block_size < 69"
    by (simp add: default_block_size_def)
  have "prepare_block ln = ?fresh \<or> prepare_block ln = ln \<and>
      (\<exists>b. current_block ln = Some b \<and> \<not> get_available b < 69)"
    by (auto simp: prepare_block_def current_block_def Let_def split: option.splits if_splits)
  moreover have "current_block ln = Some b \<Longrightarrow> block_ok b" for b
    using assms by (auto simp: lane_ok_def heap_ok_def current_block_def bind_eq_Some_conv)
  moreover have "current_block ?fresh = Some (data_block_new default_block_size)"
    by (simp add: current_block_def)
  ultimately show "lane_ok (prepare_block ln)"
    and "lane_bytes (prepare_block ln) = lane_bytes ln"
    and "ln_stored (prepare_block ln) = ln_stored ln"
    and "ln_handled (prepare_block ln) = ln_handled ln"
    and "\<exists>b. current_block (prepare_block ln) = Some b \<and> block_ok b \<and> \<not> get_available b < 69"
    using assms fresh room by (metis | force)+
qed


lemma read_at_add:
  "read_at b p m = Some xs \<Longrightarrow> read_at b (p + m) n = Some ys \<Longrightarrow>
     read_at b p (m + n) = Some (xs @ ys)"
  by (auto simp: read_at_def load_bytes_add split: if_splits)

text \<open>The three stores of \<open>store_packet\<close> into a block with room for them.\<close>

lemma block_receive:
  assumes "block_ok b" "length hdr = 5" "length data + 5 \<le> unat (get_available b)"
  defines "pos \<equiv> get_current_write_pos b" and "n \<equiv> of_nat (length data) :: u32"
  shows "\<exists>b1 b2. write_at b (pos + 5) data = Some b1 \<and>
    write_at (update_available b1 (n + 5)) pos hdr = Some b2 \<and>
    block_ok b2 \<and> capacity b2 = capacity b \<and>
    unat (used_size b2) = unat (used_size b) + length data + 5 \<and>
    read_at b2 pos (length data + 5) = Some (hdr @ data) \<and>
    read_at b2 (pos + 5) (length data) = Some data \<and>
    (\<forall>p k. p + k \<le> unat (used_size b) \<longrightarrow> read_at b2 p k = read_at b p k)"
proof -
  have cap: "pos + unat (get_available b) = unat (capacity b)"
    using assms(1) by (simp add: pos_def used_plus_available)
  then obtain b1 where b1: "write_at b (pos + 5) data = Some b1"
    and b1_def: "b1 = b\<lparr>buffer := store_bytes (buffer b) (pos + 5) data\<rparr>"
    using assms(3) by (simp add: write_at_def)
  let ?c = "update_available b1 (n + 5)"
  have small: "length data + 5 < 4294967296"
    using assms(3) unat_less_width(3) [of "get_available b"] by linarith
  have n5: "unat (n + 5) = length data + 5"
    using small by (simp add: n_def unat_word_ariths unat_of_nat)
  have ok1: "block_ok b1" "unat (n + 5) \<le> unat (get_available b1)"
    using assms(1,3) n5 by (simp_all add: b1_def block_ok_def get_available_def)
  have ok: "block_ok ?c" and used: "unat (used_size ?c) = unat (used_size b) + length data + 5"
    using block_ok_update_available [OF ok1] unat_update_available [OF ok1] n5
    by (simp_all add: b1_def)
  have "pos + 5 \<le> unat (capacity ?c)"
    using cap assms(3) by (simp add: b1_def)
  then obtain b2 where b2: "write_at ?c pos hdr = Some b2"
    and b2_def: "b2 = ?c\<lparr>buffer := store_bytes (buffer ?c) pos hdr\<rparr>"
    using assms(2) by (simp add: write_at_def)
  have data: "read_at b2 (pos + 5) (length data) = Some data"
    using read_write_same [OF b1] read_write_disjoint [OF b2, of "pos + 5" "length data"]
    by (simp add: assms(2))
  have hdr: "read_at b2 pos 5 = Some hdr"
    using read_write_same [OF b2] by (simp add: assms(2))
  have "read_at b2 pos (length data + 5) = Some (hdr @ data)"
    using read_at_add [OF hdr data] by (simp add: add.commute)
  moreover have "read_at b2 p k = read_at b p k" if "p + k \<le> unat (used_size b)" for p k
  proof -
    have "p + k \<le> pos" using that by (simp add: pos_def get_current_write_pos_def)
    then show ?thesis
      using read_write_disjoint [OF b2, of p k] read_write_disjoint [OF b1, of p k] by simp
  qed
  moreover have "block_ok b2" "capacity b2 = capacity b"
    "unat (used_size b2) = unat (used_size b) + length data + 5"
    using ok used by (simp_all add: b2_def block_ok_def b1_def)
  ultimately show ?thesis
    using b1 b2 data by blast
qed

lemma read_room_eq:
  assumes "current_block ln = Some b" "\<not> get_available b < 69"
  shows "read_room ln = unat (get_available b) - 5" and "5 \<le> unat (get_available b)"
proof -
  have "69 \<le> unat (get_available b)"
    using assms(2) by (simp add: word_less_nat_alt)
  then show "read_room ln = unat (get_available b) - 5" and "5 \<le> unat (get_available b)"
    using assms(1) by (simp_all add: read_room_def unat_sub word_le_nat_alt)
qed

lemma store_packet_spec:
  assumes ok: "lane_ok ln" and b: "current_block ln = Some b" "\<not> get_available b < 69"
    and len: "length data \<le> read_room ln"
  shows "\<exists>ln' pk. store_packet t data ln = Inr (ln',
      encode_request \<lparr>rq_type = data_type_byte t, rq_len = of_nat (length data)\<rparr> @ data) \<and>
    lane_ok ln' \<and> lane_bytes ln' = lane_bytes ln @ data \<and>
    ln_stored ln' = ln_stored ln @ [pk] \<and> unat (pk_len pk) = length data \<and>
    heap_grows (ln_heap ln) (ln_heap ln') \<and> ln_handled ln' = ln_handled ln"
proof -
  obtain i where i: "ln_block ln = Some i" "ln_heap ln i = Some b"
    using b(1) by (auto simp: current_block_def bind_eq_Some_conv)
  have b_ok: "block_ok b" "capacity b = default_block_size" "i < ln_next ln"
    and packets: "\<forall>p \<in> set (ln_stored ln). packet_ok (ln_heap ln) p"
    using ok i by (auto simp: lane_ok_def heap_ok_def)
  let ?n = "of_nat (length data) :: u32" and ?pos = "get_current_write_pos b"
  let ?hdr = "encode_request \<lparr>rq_type = data_type_byte t, rq_len = ?n\<rparr>"
  let ?pk = "\<lparr>pk_block = i, pk_off = ?pos + 5, pk_len = ?n\<rparr>"
  have room: "length data + 5 \<le> unat (get_available b)"
    using len read_room_eq [OF b] by linarith
  have n: "unat ?n = length data"
    using room unat_less_width(3) [of "get_available b"] by (intro unat_of_nat_u32) linarith
  obtain b1 b2 where b1: "write_at b (?pos + 5) data = Some b1"
    and b2: "write_at (update_available b1 (?n + 5)) ?pos ?hdr = Some b2"
    and b2_ok: "block_ok b2" "capacity b2 = capacity b"
    and used: "unat (used_size b2) = unat (used_size b) + length data + 5"
    and out: "read_at b2 ?pos (length data + 5) = Some (?hdr @ data)"
    and data: "read_at b2 (?pos + 5) (length data) = Some data"
    and old: "\<forall>p k. p + k \<le> unat (used_size b) \<longrightarrow> read_at b2 p k = read_at b p k"
    using block_receive [OF b_ok(1) _ room, of ?hdr] by (auto simp: request_head_len_def)
  let ?h = "(ln_heap ln)(i \<mapsto> b2)"
  let ?ln = "ln\<lparr>ln_heap := ?h, ln_stored := ln_stored ln @ [?pk]\<rparr>"
  have grows: "heap_grows (ln_heap ln) ?h"
    using i(2) used old by (auto simp: heap_grows_def)
  have pk: "packet_ok ?h ?pk" "packet_bytes ?h ?pk = data"
    using data n used by (simp_all add: packet_ok_def packet_bytes_def get_current_write_pos_def)
  have "store_packet t data ln = Inr (?ln, ?hdr @ data)"
    using i b1 b2 out by (simp add: store_packet_def Let_def)
  moreover have "lane_ok ?ln"
    using ok heap_grows_stored(1) [OF grows packets] pk(1) i b_ok b2_ok
    by (auto simp: lane_ok_def heap_ok_def)
  moreover have "lane_bytes ?ln = lane_bytes ln @ data"
    using heap_grows_stored(2) [OF grows packets] pk(2) by (simp add: lane_bytes_def)
  ultimately show ?thesis
    using grows n by (intro exI [of _ ?ln] exI [of _ ?pk]) simp
qed


section \<open>One verdict, uninterrupted\<close>

lemma prepare_clear_spec:
  assumes ok: "lane_ok ln" and le: "unat (ln_handled ln) \<le> unat (rh_handled_total_pkg_len vd)"
    and ov: "unat (ln_handled ln) + length (lane_bytes ln) < 18446744073709551616"
  defines "k \<equiv> unat (rh_handled_total_pkg_len vd) - unat (ln_handled ln)"
  shows "\<exists>bufs handled' n used rest.
    prepare_transfer_packet vd (ln_stored ln) (ln_handled ln) = (bufs, handled', n, int used) \<and>
    gather (ln_heap ln) bufs = Inr (take k (lane_bytes ln)) \<and>
    (\<forall>qs. clear_handled_packet (ln_stored ln @ qs) n (int used) = Inr (rest @ qs)) \<and>
    stored_bytes (ln_heap ln) rest = drop k (lane_bytes ln) \<and>
    (\<forall>p \<in> set rest. packet_ok (ln_heap ln) p) \<and>
    unat handled' + used = unat (ln_handled ln) + min k (length (lane_bytes ln))"
proof -
  let ?h = "ln_heap ln" and ?ps = "ln_stored ln"
  have ps: "\<forall>p \<in> set ?ps. packet_ok ?h p" and h: "heap_ok ?h (ln_next ln)"
    using ok by (simp_all add: lane_ok_def)
  from prepare_loop_spec [OF ps h le ov [unfolded lane_bytes_def], of 0]
  obtain bufs handled' n used where
    prep: "prepare_transfer_packet vd ?ps (ln_handled ln) = (bufs, handled', n, int used)"
    and n: "n \<le> length ?ps" "used = 0 \<or> n < length ?ps \<and> used < unat (pk_len (?ps ! n))"
    and g: "gather ?h bufs = Inr (take k (lane_bytes ln))"
    and handled': "unat handled' = unat (ln_handled ln) + length (stored_bytes ?h (take n ?ps))"
    and cut: "length (stored_bytes ?h (take n ?ps)) + used = min k (length (lane_bytes ln))"
    by (auto simp: prepare_transfer_packet_def lane_bytes_def k_def)
  from clear_handled_packet_spec [OF ps n]
  obtain rest where rest: "\<forall>qs. clear_handled_packet (?ps @ qs) n (int used) = Inr (rest @ qs)"
    and left: "stored_bytes ?h rest = drop (min k (length (lane_bytes ln))) (lane_bytes ln)"
    and rest_ok: "\<forall>p \<in> set rest. packet_ok ?h p"
    by (auto simp: cut lane_bytes_def)
  have "stored_bytes ?h rest = drop k (lane_bytes ln)"
    using left by (simp add: min_def split: if_splits)
  with prep g rest rest_ok handled' cut show ?thesis by fastforce
qed

text \<open>
  The three things a session does with a lane, each without an interruption: receive
  \<open>data\<close>, release the first \<open>k\<close> bytes past the handled count, flush. In the session the
  network writes suspend the coroutine in the middle of the last two.
\<close>

definition lane_push :: "data_type \<Rightarrow> byte list \<Rightarrow> lane \<Rightarrow> lane option" where
  "lane_push t data ln =
     (let ln1 = prepare_block ln
      in if read_room ln1 < length data \<or>
            18446744073709551616 \<le> unat (ln_handled ln) + length (lane_bytes ln) + length data
         then None
         else (case store_packet t data ln1 of Inl f \<Rightarrow> None | Inr (ln2, out) \<Rightarrow> Some ln2))"

definition lane_pull :: "nat \<Rightarrow> lane \<Rightarrow> (byte list \<times> lane) option" where
  "lane_pull k ln =
     (let vd = empty_head\<lparr>rh_handled_total_pkg_len :=
                 ln_handled ln + of_nat (min k (length (lane_bytes ln)))\<rparr>;
          (bufs, handled', n, used) = prepare_transfer_packet vd (ln_stored ln) (ln_handled ln)
      in case gather (ln_heap ln) bufs of
           Inl f \<Rightarrow> None
         | Inr out \<Rightarrow>
             (case clear_handled_packet (ln_stored ln) n used of
                Inl f \<Rightarrow> None
              | Inr rest \<Rightarrow> Some (out, ln\<lparr>ln_stored := rest, ln_handled := handled'\<rparr>)))"

definition lane_fits :: "lane \<Rightarrow> bool" where
  "lane_fits ln \<longleftrightarrow>
     lane_ok ln \<and> unat (ln_handled ln) + length (lane_bytes ln) < 18446744073709551616"

interpretation fifo: byte_fifo lane_bytes lane_fits "lane_push t" lane_pull for t
proof unfold_locales
  fix q bs q'
  assume q: "lane_fits q" and push: "lane_push t bs q = Some q'"
  have ok: "lane_ok q" using q by (simp add: lane_fits_def)
  note pb = prepare_block_spec [OF ok]
  obtain b where b: "current_block (prepare_block q) = Some b" "\<not> get_available b < 69"
    using pb(5) by blast
  have fits: "length bs \<le> read_room (prepare_block q)"
    and ov: "unat (ln_handled q) + length (lane_bytes q) + length bs < 18446744073709551616"
    using push by (auto simp: lane_push_def Let_def split: if_splits)
  from store_packet_spec [OF pb(1) b fits, of t] push fits ov pb
  show "lane_fits q' \<and> lane_bytes q' = lane_bytes q @ bs"
    by (auto simp: lane_push_def lane_fits_def Let_def)
next
  fix q k
  assume q: "lane_fits q"
  let ?vd = "empty_head\<lparr>rh_handled_total_pkg_len :=
      ln_handled q + of_nat (min k (length (lane_bytes q)))\<rparr>"
  let ?j = "min k (length (lane_bytes q))"
  have ok: "lane_ok q" and ov: "unat (ln_handled q) + length (lane_bytes q) < 18446744073709551616"
    using q by (simp_all add: lane_fits_def)
  have tot: "unat (rh_handled_total_pkg_len ?vd) = unat (ln_handled q) + ?j"
    using ov by (simp add: unat_word_ariths unat_of_nat min_def)
  from prepare_clear_spec [OF ok _ ov, of ?vd] tot
  obtain bufs handled' n used rest where
    prep: "prepare_transfer_packet ?vd (ln_stored q) (ln_handled q) = (bufs, handled', n, int used)"
    and g: "gather (ln_heap q) bufs = Inr (take ?j (lane_bytes q))"
    and rest: "\<forall>qs. clear_handled_packet (ln_stored q @ qs) n (int used) = Inr (rest @ qs)"
    and left: "stored_bytes (ln_heap q) rest = drop ?j (lane_bytes q)"
    and rest_ok: "\<forall>p \<in> set rest. packet_ok (ln_heap q) p"
    and handled': "unat handled' + used = unat (ln_handled q) + min ?j (length (lane_bytes q))"
    by auto
  let ?q = "q\<lparr>ln_stored := rest, ln_handled := handled'\<rparr>"
  have "lane_pull k q = Some (take ?j (lane_bytes q), ?q)"
    using g spec [OF rest, of "[]"] unfolding lane_pull_def Let_def prep by simp
  moreover have "lane_fits ?q"
    using ok rest_ok left handled' ov
    by (auto simp: lane_fits_def lane_ok_def lane_bytes_def split: option.splits)
  moreover have "lane_bytes ?q = drop ?j (lane_bytes q)"
    using left by (simp add: lane_bytes_def)
  moreover have "take ?j (lane_bytes q) = take k (lane_bytes q)"
    "drop ?j (lane_bytes q) = drop k (lane_bytes q)"
    by (simp_all add: min_def)
  ultimately show "\<exists>q'. lane_pull k q = Some (take k (lane_bytes q), q') \<and> lane_fits q' \<and>
      lane_bytes q' = drop k (lane_bytes q)"
    by simp
qed


end
