(* ===== verification/Json.thy ===== *)
theory Json
  imports Prelude
begin

text \<open>
  What the sources use of \<^verbatim>\<open>nlohmann::json\<close> (3.10.5): the value tree, \<^verbatim>\<open>contains\<close>,
  \<^verbatim>\<open>operator[]\<close> with a string key on a mutable value, the range of a range-based
  \<^verbatim>\<open>for\<close>, and the implicit conversions. The definitions that parse or dump text take the
  parser or printer as a parameter; \<open>Announcement\<close> instantiates it. An object is an
  association list in key order; a floating point number is represented by its truncation
  towards zero, which is all that the conversions to integers look at.
\<close>

section \<open>Values\<close>

datatype json =
    JNull
  | JBool bool
  | JUnsigned nat
  | JInteger int
  | JFloat int
  | JString string
  | JArray "json list"
  | JObject "(string \<times> json) list"

datatype json_error =
    Type_error_302  \<comment> \<open>wrong type in a conversion\<close>
  | Type_error_305  \<comment> \<open>\<^verbatim>\<open>operator[]\<close> on a value that is no object\<close>
  | Parse_error     \<comment> \<open>\<^verbatim>\<open>json::parse\<close> rejected the text\<close>
  | File_error      \<comment> \<open>the file could not be examined\<close>

fun json_contains :: "json \<Rightarrow> string \<Rightarrow> bool" where
  "json_contains (JObject kvs) k = (map_of kvs k \<noteq> None)"
| "json_contains j k = False"

text \<open>A missing key is inserted with the value null, and a null value becomes an object
  first, so both read as null.\<close>

fun json_at :: "json \<Rightarrow> string \<Rightarrow> json_error + json" where
  "json_at (JObject kvs) k = Inr (case map_of kvs k of None \<Rightarrow> JNull | Some j \<Rightarrow> j)"
| "json_at JNull k = Inr JNull"
| "json_at j k = Inl Type_error_305"

fun json_elements :: "json \<Rightarrow> json list" where
  "json_elements JNull = []"
| "json_elements (JArray js) = js"
| "json_elements (JObject kvs) = map snd kvs"
| "json_elements j = [j]"

section \<open>Conversions\<close>

fun to_string_field :: "json \<Rightarrow> json_error + string" where
  "to_string_field (JString s) = Inr s"
| "to_string_field j = Inl Type_error_302"

fun to_bool :: "json \<Rightarrow> json_error + bool" where
  "to_bool (JBool b) = Inr b"
| "to_bool j = Inl Type_error_302"

text \<open>To \<^verbatim>\<open>uint16_t\<close> and \<^verbatim>\<open>uint32_t\<close>: a \<^verbatim>\<open>static_cast\<close> from the stored number, which
  keeps the value modulo the width; a boolean converts too. A floating point number whose
  truncation does not fit the type has no defined conversion in C++; here it is reduced like
  the others.\<close>

fun to_arith :: "json \<Rightarrow> json_error + 'w::len word" where
  "to_arith (JUnsigned n) = Inr (of_nat n)"
| "to_arith (JInteger i) = Inr (of_int i)"
| "to_arith (JFloat i) = Inr (of_int i)"
| "to_arith (JBool b) = Inr (if b then 1 else 0)"
| "to_arith j = Inl Type_error_302"

text \<open>To \<^verbatim>\<open>size_t\<close>, the library's own unsigned type: no booleans.\<close>

fun to_size_t :: "json \<Rightarrow> json_error + u64" where
  "to_size_t (JBool b) = Inl Type_error_302"
| "to_size_t j = to_arith j"

section \<open>Facts\<close>

lemma json_at_contains:
  "json_contains j k \<Longrightarrow> \<exists>v. json_at j k = Inr v"
  by (cases j) auto

lemma to_arith_u16_wraps:
  "to_arith (JUnsigned n) = Inr (w :: u16) \<Longrightarrow> unat w = n mod 65536"
  by (auto simp: unat_of_nat)

end
