(* ===== verification/Config.thy ===== *)
theory Config
  imports Json
begin

text \<open>
  \<^verbatim>\<open>src/src/cpp_proxy/config.hpp\<close> (and the enumeration of \<^verbatim>\<open>load_balance.hpp\<close>): the
  proxied ports with their servers, the ordered set they are kept in, the set
  differences a reload computes, and the parser of the configuration file with its
  partial effects when it throws. A \<^verbatim>\<open>std::set<proxy_entity>\<close> is the list of its
  elements, strictly increasing in \<^verbatim>\<open>listen_port\<close>, the only field its order compares.
\<close>

section \<open>Executable path\<close>

text \<open>\<^verbatim>\<open>path.substr(0, path.find_last_of("/") + 1)\<close>: up to the last separator, which is
  kept; empty when there is none, since \<^verbatim>\<open>npos + 1\<close> is 0.\<close>

definition dir_part :: "string \<Rightarrow> string" where
  "dir_part path = rev (dropWhile (\<lambda>c. c \<noteq> CHR ''/'') (rev path))"

text \<open>\<^verbatim>\<open>path.substr(0, path.length() - 1)\<close>: on an empty path the length wraps and
  \<^verbatim>\<open>substr\<close> keeps the whole of it.\<close>

primrec up_dirs :: "nat \<Rightarrow> string \<Rightarrow> string" where
  "up_dirs 0 path = path"
| "up_dirs (Suc n) path = up_dirs n (dir_part (butlast path))"

definition get_executable_path :: "nat \<Rightarrow> string \<Rightarrow> string" where
  "get_executable_path up_depth full_path = up_dirs up_depth (dir_part full_path)"

section \<open>Data\<close>

datatype lb_type = Round_robin | Weight | Ip_hash | Minimum_conn

record server_info =
  si_ip :: string
  si_port :: u16
  si_conn_buf_size :: u64
  si_response_bypass :: bool

definition server_info_default :: server_info where
  "server_info_default =
     \<lparr>si_ip = [], si_port = 0, si_conn_buf_size = 8124, si_response_bypass = True\<rparr>"

record proxy_entity =
  listen_port :: u16
  listen_ip :: string
  servers :: "server_info list"

definition proxy_entity_less :: "proxy_entity \<Rightarrow> proxy_entity \<Rightarrow> bool" where
  "proxy_entity_less a b \<longleftrightarrow> listen_port a < listen_port b"

record log_info =
  log_dir :: string
  log_name :: string
  log_max_size :: u32
  log_max_files :: u32

definition log_info_default :: log_info where
  "log_info_default =
     \<lparr>log_dir = ''/var/log/cpp_proxy/'', log_name = ''cpp_proxy'',
      log_max_size = 10 * 1024 * 1024, log_max_files = 10\<rparr>"

record config =
  cfg_log_info :: log_info
  work_threads :: u32
  entities :: "proxy_entity list"
  del_entities :: "proxy_entity list"
  add_entities :: "proxy_entity list"

definition config_new :: config where
  "config_new =
     \<lparr>cfg_log_info = log_info_default, work_threads = 0,
      entities = [], del_entities = [], add_entities = []\<rparr>"

section \<open>The ordered set\<close>

fun emplace :: "proxy_entity \<Rightarrow> proxy_entity list \<Rightarrow> proxy_entity list" where
  "emplace e [] = [e]"
| "emplace e (x # xs) =
     (if proxy_entity_less e x then e # x # xs
      else if proxy_entity_less x e then x # emplace e xs
      else x # xs)"

fun find_entity :: "u16 \<Rightarrow> proxy_entity list \<Rightarrow> proxy_entity option" where
  "find_entity p [] = None"
| "find_entity p (x # xs) = (if listen_port x = p then Some x else find_entity p xs)"

text \<open>\<^verbatim>\<open>std::set_difference\<close> on two sorted ranges.\<close>

fun set_difference :: "proxy_entity list \<Rightarrow> proxy_entity list \<Rightarrow> proxy_entity list" where
  "set_difference [] ys = []"
| "set_difference (x # xs) [] = x # xs"
| "set_difference (x # xs) (y # ys) =
     (if proxy_entity_less x y then x # set_difference xs (y # ys)
      else if proxy_entity_less y x then set_difference (x # xs) ys
      else set_difference xs ys)"

section \<open>Parsing the file\<close>

text \<open>\<^verbatim>\<open>server["ip"]\<close> and the like: look a key up and convert; \<open>get_opt\<close> only when the
  object contains the key, else the default stands.\<close>

definition get_field :: "(json \<Rightarrow> json_error + 'a) \<Rightarrow> json \<Rightarrow> string \<Rightarrow> json_error + 'a" where
  "get_field conv j k = (case json_at j k of Inl e \<Rightarrow> Inl e | Inr v \<Rightarrow> conv v)"

definition get_opt :: "(json \<Rightarrow> json_error + 'a) \<Rightarrow> json \<Rightarrow> string \<Rightarrow> 'a \<Rightarrow> json_error + 'a" where
  "get_opt conv j k dflt = (if json_contains j k then get_field conv j k else Inr dflt)"

definition parse_server :: "json \<Rightarrow> json_error + server_info" where
  "parse_server server =
     (case get_field to_string_field server ''ip'' of Inl e \<Rightarrow> Inl e | Inr ip \<Rightarrow>
      (case get_field to_arith server ''port'' of Inl e \<Rightarrow> Inl e | Inr port \<Rightarrow>
      (case get_opt to_size_t server ''conn_buf_size'' (si_conn_buf_size server_info_default) of
         Inl e \<Rightarrow> Inl e | Inr bufsz \<Rightarrow>
      (case get_opt to_bool server ''response_bypass'' (si_response_bypass server_info_default) of
         Inl e \<Rightarrow> Inl e | Inr rb \<Rightarrow>
       Inr \<lparr>si_ip = ip, si_port = port, si_conn_buf_size = bufsz, si_response_bypass = rb\<rparr>))))"

fun parse_servers :: "json list \<Rightarrow> json_error + server_info list" where
  "parse_servers [] = Inr []"
| "parse_servers (j # js) =
     (case parse_server j of Inl e \<Rightarrow> Inl e | Inr s \<Rightarrow>
      (case parse_servers js of Inl e \<Rightarrow> Inl e | Inr ss \<Rightarrow> Inr (s # ss)))"

definition parse_proxy :: "json \<Rightarrow> json_error + proxy_entity" where
  "parse_proxy proxy =
     (case json_at proxy ''servers'' of Inl e \<Rightarrow> Inl e | Inr sj \<Rightarrow>
      (case parse_servers (json_elements sj) of Inl e \<Rightarrow> Inl e | Inr ss \<Rightarrow>
      (case get_opt to_string_field proxy ''listen_ip'' [] of Inl e \<Rightarrow> Inl e | Inr ip \<Rightarrow>
      (case get_field to_arith proxy ''listen_port'' of Inl e \<Rightarrow> Inl e | Inr port \<Rightarrow>
       Inr \<lparr>listen_port = port, listen_ip = ip, servers = ss\<rparr>))))"

fun parse_entities :: "json list \<Rightarrow> proxy_entity list \<Rightarrow> json_error + proxy_entity list" where
  "parse_entities [] es = Inr es"
| "parse_entities (j # js) es =
     (case parse_proxy j of Inl e \<Rightarrow> Inl e | Inr pe \<Rightarrow> parse_entities js (emplace pe es))"

text \<open>The settings at the head of the file are stored one after another; an exception
  leaves those before it in place.\<close>

definition set_opt ::
  "(json \<Rightarrow> json_error + 'a) \<Rightarrow> json \<Rightarrow> string \<Rightarrow> ('a \<Rightarrow> config \<Rightarrow> config) \<Rightarrow>
    config \<times> json_error option \<Rightarrow> config \<times> json_error option"
where
  "set_opt conv j k upd st =
     (case st of
        (c, Some e) \<Rightarrow> (c, Some e)
      | (c, None) \<Rightarrow>
          if json_contains j k
          then (case get_field conv j k of Inl e \<Rightarrow> (c, Some e) | Inr v \<Rightarrow> (upd v c, None))
          else (c, None))"

definition upd_log :: "(log_info \<Rightarrow> log_info) \<Rightarrow> config \<Rightarrow> config" where
  "upd_log f c = c\<lparr>cfg_log_info := f (cfg_log_info c)\<rparr>"

definition parse_settings :: "json \<Rightarrow> config \<Rightarrow> config \<times> json_error option" where
  "parse_settings j c =
     set_opt to_arith j ''worker_threads'' (\<lambda>v c. c\<lparr>work_threads := v\<rparr>)
     (set_opt to_arith j ''log_max_size'' (\<lambda>v. upd_log (\<lambda>l. l\<lparr>log_max_size := v\<rparr>))
     (set_opt to_arith j ''log_max_files'' (\<lambda>v. upd_log (\<lambda>l. l\<lparr>log_max_files := v\<rparr>))
     (set_opt to_string_field j ''log_name'' (\<lambda>v. upd_log (\<lambda>l. l\<lparr>log_name := v\<rparr>))
     (set_opt to_string_field j ''log_dir'' (\<lambda>v. upd_log (\<lambda>l. l\<lparr>log_dir := v\<rparr>)) (c, None)))))"

definition parse_tcp_proxy :: "json \<Rightarrow> json_error + proxy_entity list" where
  "parse_tcp_proxy j =
     (case json_at j ''tcp_proxy'' of Inl e \<Rightarrow> Inl e
      | Inr ps \<Rightarrow> parse_entities (json_elements ps) [])"

definition install_entities :: "proxy_entity list \<Rightarrow> config \<Rightarrow> config" where
  "install_entities es c =
     c\<lparr>del_entities := set_difference (entities c) es,
       add_entities := set_difference es (entities c),
       entities := es\<rparr>"

datatype conf_file = Unreadable | Malformed | Parsed json

definition parse_conf :: "conf_file \<Rightarrow> config \<Rightarrow> config \<times> json_error option" where
  "parse_conf file c =
     (case file of
        Unreadable \<Rightarrow> (c, Some File_error)
      | Malformed \<Rightarrow> (c, Some Parse_error)
      | Parsed j \<Rightarrow>
          (case parse_settings j c of
             (c1, Some e) \<Rightarrow> (c1, Some e)
           | (c1, None) \<Rightarrow>
               (case parse_tcp_proxy j of
                  Inl e \<Rightarrow> (c1, Some e)
                | Inr es \<Rightarrow> (install_entities es c1, None))))"

section \<open>Queries\<close>

definition get_work_threads :: "u32 \<Rightarrow> config \<Rightarrow> u32" where
  "get_work_threads hardware_concurrency c =
     (if work_threads c = 0 then hardware_concurrency else work_threads c)"

text \<open>\<open>None\<close> is the null \<^verbatim>\<open>shared_ptr\<close>; \<^verbatim>\<open>servers[0]\<close> of an empty vector is undefined.\<close>

definition get_proxy_server :: "u16 \<Rightarrow> config \<Rightarrow> fault + server_info option" where
  "get_proxy_server port c =
     (case find_entity port (entities c) of
        None \<Rightarrow> Inr None
      | Some e \<Rightarrow> (case servers e of [] \<Rightarrow> Inl Index_out_of_range | s # _ \<Rightarrow> Inr (Some s)))"

section \<open>The ordered-set interface\<close>

definition entity_ports :: "proxy_entity list \<Rightarrow> u16 set" where
  "entity_ports es = listen_port ` set es"

fun entities_sorted :: "proxy_entity list \<Rightarrow> bool" where
  "entities_sorted [] = True"
| "entities_sorted (x # xs) =
     ((\<forall>y \<in> set xs. proxy_entity_less x y) \<and> entities_sorted xs)"

lemma entities_sorted_iff:
  "entities_sorted es \<longleftrightarrow> sorted_wrt proxy_entity_less es"
  by (induction es) auto

lemma emplace_elems:
  "entities_sorted es \<Longrightarrow> set (emplace e es) =
     (if listen_port e \<in> listen_port ` set es then set es else insert e (set es))"
  by (induction es) (auto simp: proxy_entity_less_def)

lemma emplace_sorted: "entities_sorted es \<Longrightarrow> entities_sorted (emplace e es)"
  by (induction es) (auto simp: proxy_entity_less_def emplace_elems split: if_splits)

lemma find_entity_iff:
  "entities_sorted es \<Longrightarrow> find_entity p es = Some e \<longleftrightarrow> e \<in> set es \<and> listen_port e = p"
  by (induction es) (auto simp: proxy_entity_less_def)

lemma set_difference_elems:
  "entities_sorted xs \<Longrightarrow> entities_sorted ys \<Longrightarrow>
     set (set_difference xs ys) = {e \<in> set xs. listen_port e \<notin> listen_port ` set ys}"
proof (induction xs ys rule: set_difference.induct)
  case (3 x xs y ys)
  then show ?case
    by (auto simp: proxy_entity_less_def)
qed auto

lemma set_difference_sorted:
  "entities_sorted xs \<Longrightarrow> entities_sorted ys \<Longrightarrow> entities_sorted (set_difference xs ys)"
  by (induction xs ys rule: set_difference.induct)
    (auto simp: set_difference_elems)

interpretation ents: keyed_set entities_sorted set listen_port find_entity emplace set_difference
  by unfold_locales
    (simp_all only: find_entity_iff emplace_sorted emplace_elems set_difference_sorted
      set_difference_elems)

end
