(* ===== verification/Session.thy ===== *)
theory Session
  imports Packet_Lane Config
begin

text \<open>
  \<^verbatim>\<open>class session\<close> of \<^verbatim>\<open>src/src/cpp_proxy/session.hpp\<close>: its state and the coroutines
  that run on it. A coroutine is modelled by its suspension points: a frame says at
  which \<^verbatim>\<open>co_await\<close> it is suspended and holds the locals that live across it;
  \<open>resume\<close> runs it from the completion of the awaited operation to its next
  \<^verbatim>\<open>co_await\<close>. All coroutines of a session share one single-threaded executor, so
  nothing else runs in between. \<^verbatim>\<open>co_spawn\<close> on that executor dispatches, that is, the
  spawned coroutine runs at once up to its own first suspension.

  Sockets record what was read from them and written to them; these histories are not
  read by any operation.
\<close>

section \<open>State\<close>

datatype asio_error = Eof | Io_error nat

type_synonym error_code = "asio_error option"

text \<open>A chunk of bytes written to a peer: relayed from the other peer, or made by the
  handler process.\<close>

datatype chunk = Relayed "byte list" | Injected "byte list"

record socket =
  sk_open :: bool
  sk_rx :: "byte list"
  sk_tx :: "chunk list"

record session =
  proxy_client_socket :: socket
  proxy_server_socket :: socket
  proxy_process_socket :: socket
  has_closed :: bool
  eof :: bool
  bypass :: bool
  response_bypass :: bool
  process_connecting :: bool
  detect_timer_gen :: nat
  client_buf_size :: nat
  server_buf_size :: nat
  req_lane :: lane
  res_lane :: lane
  session_ident :: string
  server_ip :: string
  server_port :: u16
  client_ip :: string
  client_port :: u16

text \<open>A relay direction, with what the \<^verbatim>\<open>inner_...\<close> functions take as arguments: the
  socket read from, the socket written to, the packet store and the frame type.\<close>

datatype dir = C2S | S2C

definition fresh_socket :: "bool \<Rightarrow> socket" where
  "fresh_socket opened = \<lparr>sk_open = opened, sk_rx = [], sk_tx = []\<rparr>"

definition close_socket :: "socket \<Rightarrow> socket" where
  "close_socket sk = sk\<lparr>sk_open := False\<rparr>"

definition new_session :: session where
  "new_session =
     \<lparr>proxy_client_socket = fresh_socket True, proxy_server_socket = fresh_socket False,
      proxy_process_socket = fresh_socket False, has_closed = False, eof = False,
      bypass = True, response_bypass = True, process_connecting = False,
      detect_timer_gen = 0, client_buf_size = 0, server_buf_size = 0,
      req_lane = empty_lane, res_lane = empty_lane, session_ident = [], server_ip = [],
      server_port = 0, client_ip = [], client_port = 0\<rparr>"

fun lane_of :: "dir \<Rightarrow> session \<Rightarrow> lane" where
  "lane_of C2S s = req_lane s"
| "lane_of S2C s = res_lane s"

fun upd_lane :: "dir \<Rightarrow> (lane \<Rightarrow> lane) \<Rightarrow> session \<Rightarrow> session" where
  "upd_lane C2S f s = s\<lparr>req_lane := f (req_lane s)\<rparr>"
| "upd_lane S2C f s = s\<lparr>res_lane := f (res_lane s)\<rparr>"

fun src_socket :: "dir \<Rightarrow> session \<Rightarrow> socket" where
  "src_socket C2S s = proxy_client_socket s"
| "src_socket S2C s = proxy_server_socket s"

fun dst_socket :: "dir \<Rightarrow> session \<Rightarrow> socket" where
  "dst_socket C2S s = proxy_server_socket s"
| "dst_socket S2C s = proxy_client_socket s"

fun received :: "dir \<Rightarrow> byte list \<Rightarrow> session \<Rightarrow> session" where
  "received C2S bs s =
     s\<lparr>proxy_client_socket := (proxy_client_socket s)\<lparr>sk_rx := sk_rx (proxy_client_socket s) @ bs\<rparr>\<rparr>"
| "received S2C bs s =
     s\<lparr>proxy_server_socket := (proxy_server_socket s)\<lparr>sk_rx := sk_rx (proxy_server_socket s) @ bs\<rparr>\<rparr>"

fun sent :: "dir \<Rightarrow> chunk \<Rightarrow> session \<Rightarrow> session" where
  "sent C2S c s =
     s\<lparr>proxy_server_socket := (proxy_server_socket s)\<lparr>sk_tx := sk_tx (proxy_server_socket s) @ [c]\<rparr>\<rparr>"
| "sent S2C c s =
     s\<lparr>proxy_client_socket := (proxy_client_socket s)\<lparr>sk_tx := sk_tx (proxy_client_socket s) @ [c]\<rparr>\<rparr>"

definition sent_process :: "byte list \<Rightarrow> session \<Rightarrow> session" where
  "sent_process bs s =
     s\<lparr>proxy_process_socket :=
        (proxy_process_socket s)\<lparr>sk_tx := sk_tx (proxy_process_socket s) @ [Relayed bs]\<rparr>\<rparr>"

definition received_process :: "byte list \<Rightarrow> session \<Rightarrow> session" where
  "received_process bs s =
     s\<lparr>proxy_process_socket :=
        (proxy_process_socket s)\<lparr>sk_rx := sk_rx (proxy_process_socket s) @ bs\<rparr>\<rparr>"

fun dir_type :: "dir \<Rightarrow> data_type" where
  "dir_type C2S = From_client_to_server"
| "dir_type S2C = From_server_to_client"

fun bypass_room :: "dir \<Rightarrow> session \<Rightarrow> nat" where
  "bypass_room C2S s = client_buf_size s"
| "bypass_room S2C s = server_buf_size s"

section \<open>Plain member functions\<close>

text \<open>\<^verbatim>\<open>detect_process_timeout_timer_.cancel()\<close> and \<^verbatim>\<open>expires_from_now\<close>: a pending wait
  of an earlier generation completes with an error unless its time had come already.\<close>

definition cancel_timer :: "session \<Rightarrow> session" where
  "cancel_timer s = s\<lparr>detect_timer_gen := Suc (detect_timer_gen s)\<rparr>"

definition close_process_socket :: "session \<Rightarrow> session" where
  "close_process_socket s = s\<lparr>proxy_process_socket := close_socket (proxy_process_socket s)\<rparr>"

definition reset_local_socket :: "session \<Rightarrow> session" where
  "reset_local_socket s = (close_process_socket s)\<lparr>proxy_process_socket := fresh_socket False\<rparr>"

definition grace_close :: "session \<Rightarrow> session" where
  "grace_close s =
     (if has_closed s then s
      else let s1 = cancel_timer (s\<lparr>has_closed := True\<rparr>)
           in close_process_socket
                (s1\<lparr>proxy_client_socket := close_socket (proxy_client_socket s1),
                    proxy_server_socket := close_socket (proxy_server_socket s1)\<rparr>))"

text \<open>\<^verbatim>\<open>~session\<close>, when the last coroutine has dropped its reference.\<close>

definition destroy_session :: "session \<Rightarrow> session" where
  "destroy_session s = grace_close s"

end
