(* ===== verification/Coroutines.thy ===== *)
theory Coroutines
  imports Session
begin

text \<open>
  The coroutines of \<^verbatim>\<open>src/src/cpp_proxy/session.hpp\<close> as frames and \<open>resume\<close>. The frame
  of a coroutine that has returned is \<open>Done\<close>. Undefined behaviour is a \<open>fault\<close>. An
  event is the completion of the awaited operation with its results; \<open>io_ok\<close> is what
  asio promises about completions and nothing more: in particular any operation may
  fail at any time, and may still succeed after the socket was closed under it.
\<close>

section \<open>Frames and events\<close>

datatype relay_pc =
    R_head_write                 \<comment> \<open>line 605\<close>
  | R_bypass_read                \<comment> \<open>lines 493, 562\<close>
  | R_bypass_write "byte list"   \<comment> \<open>lines 510, 577\<close>
  | R_process_read               \<comment> \<open>line 377\<close>
  | R_process_write "byte list"  \<comment> \<open>line 398\<close>
  | R_flush "byte list"          \<comment> \<open>line 284, from lines 549, 625\<close>

text \<open>The last component of most reader frames is \<^verbatim>\<open>proxy_process_buf\<close>.\<close>

datatype reader_pc =
    Rd_head "byte list"                                          \<comment> \<open>line 445\<close>
  | Rd_body response_head "byte list"                            \<comment> \<open>line 461\<close>
  | Rd_new_data dir response_head "byte list" "byte list"        \<comment> \<open>line 312\<close>
  | Rd_pass dir nat int "byte list" "byte list"                  \<comment> \<open>line 337\<close>
  | Rd_flush_server "byte list"                                  \<comment> \<open>line 284, from line 427\<close>
  | Rd_flush_client "byte list"                                  \<comment> \<open>line 284, from line 428\<close>

datatype connect_pc =
    C_connect               \<comment> \<open>line 204\<close>
  | C_wait                  \<comment> \<open>line 208\<close>
  | C_tuple "byte list"     \<comment> \<open>line 176\<close>

datatype setup_pc =
    S_start                 \<comment> \<open>posted by \<^verbatim>\<open>start\<close>, not yet run\<close>
  | S_resolve server_info   \<comment> \<open>line 111\<close>
  | S_connect server_info   \<comment> \<open>line 116\<close>

datatype frame =
    Relay dir relay_pc
  | Reader reader_pc
  | Connect connect_pc
  | Detect nat
  | Setup setup_pc
  | Done

record endpoints =
  ep_client_ip :: string
  ep_client_port :: u16
  ep_proxy_ip :: string
  ep_proxy_port :: u16

text \<open>\<open>Lookup\<close> starts a posted \<^verbatim>\<open>setup_proxy\<close> with what the configuration answers at that
  moment. The endpoints of a completed connect are \<open>None\<close> when asking for them throws.\<close>

datatype event =
    Lookup "fault + server_info option"
  | Resolved error_code
  | Connected error_code "endpoints option"
  | Read_done error_code "byte list"
  | Write_done error_code nat
  | Timer_done error_code

type_synonym outcome = "fault + session \<times> frame \<times> frame list"

section \<open>Connecting to the handler process\<close>

definition four_tuple_json :: "session \<Rightarrow> json" where
  "four_tuple_json s =
     JObject [(''client_ip'', JString (client_ip s)),
              (''client_port'', JUnsigned (unat (client_port s))),
              (''server_ip'', JString (server_ip s)),
              (''server_port'', JUnsigned (unat (server_port s)))]"

definition four_tuple_frame :: "(json \<Rightarrow> byte list) \<Rightarrow> session \<Rightarrow> byte list" where
  "four_tuple_frame dump s =
     (let str = dump (four_tuple_json s)
      in encode_request \<lparr>rq_type = data_type_byte Four_tuple, rq_len = of_nat (length str)\<rparr> @ str)"

definition connect_loop :: "session \<Rightarrow> session \<times> frame" where
  "connect_loop s =
     (if has_closed s then (s, Done)
      else (s\<lparr>proxy_process_socket := (proxy_process_socket s)\<lparr>sk_open := True\<rparr>\<rparr>,
            Connect C_connect))"

definition connect_process :: "session \<Rightarrow> session \<times> frame" where
  "connect_process s =
     (if process_connecting s then (s, Done)
      else let s1 = reset_local_socket (s\<lparr>process_connecting := True\<rparr>);
               s2 = upd_lane C2S (\<lambda>l. l\<lparr>ln_handled := 0\<rparr>) s1;
               s3 = upd_lane S2C (\<lambda>l. l\<lparr>ln_handled := 0\<rparr>) s2
           in connect_loop (cancel_timer s3))"

definition detect_process_timeout :: "session \<Rightarrow> session \<times> frame" where
  "detect_process_timeout s =
     (if has_closed s \<or> process_connecting s then (s, Done)
      else let s1 = cancel_timer s in (s1, Detect (detect_timer_gen s1)))"

fun resume_detect :: "session \<Rightarrow> nat \<Rightarrow> event \<Rightarrow> outcome" where
  "resume_detect s g (Timer_done (Some e)) =
     (case detect_process_timeout s of (s1, fr) \<Rightarrow> Inr (s1, fr, []))"
| "resume_detect s g (Timer_done None) = Inr (close_process_socket s, Done, [])"
| "resume_detect s g ev = Inr (s, Detect g, [])"

fun resume_connect :: "(json \<Rightarrow> byte list) \<Rightarrow> session \<Rightarrow> connect_pc \<Rightarrow> event \<Rightarrow> outcome" where
  "resume_connect dump s C_connect (Connected (Some e) eps) = Inr (s, Connect C_wait, [])"
| "resume_connect dump s C_connect (Connected None eps) =
     (let s1 = s\<lparr>bypass := False, process_connecting := False\<rparr>
      in Inr (s1, Connect (C_tuple (four_tuple_frame dump s1)), []))"
| "resume_connect dump s C_wait (Timer_done ec) =
     (case connect_loop s of (s1, fr) \<Rightarrow> Inr (s1, fr, []))"
| "resume_connect dump s (C_tuple out) (Write_done (Some e) n) =
     Inr (sent_process (take n out) s, Done, [])"
| "resume_connect dump s (C_tuple out) (Write_done None n) =
     (let s1 = sent_process out s
      in case detect_process_timeout s1 of
           (s2, fr) \<Rightarrow> Inr (s2, Done, [Reader (Rd_head []), fr]))"
| "resume_connect dump s pc ev = Inr (s, Connect pc, [])"

section \<open>Falling back to bypass\<close>

text \<open>\<^verbatim>\<open>inner_enable_bypass\<close> up to its write: \<open>None\<close> when there is nothing to write and it
  returns 0 at once, else the bytes of the write it starts.\<close>

definition enable_bypass :: "dir \<Rightarrow> session \<Rightarrow> fault + session \<times> byte list option" where
  "enable_bypass d s =
     (let s1 = (if \<not> bypass s then s\<lparr>bypass := True\<rparr> else s);
          ln = lane_of d s1
      in if ln_stored ln = [] then Inr (s1, None)
         else (case gather (ln_heap ln) (flush_buffers (ln_stored ln)) of
                 Inl f \<Rightarrow> Inl f
               | Inr out \<Rightarrow> Inr (s1, Some out)))"

text \<open>Its second half: the state and whether it returns 0.\<close>

definition enable_bypass_done ::
  "dir \<Rightarrow> byte list \<Rightarrow> error_code \<Rightarrow> nat \<Rightarrow> session \<Rightarrow> session \<times> bool"
where
  "enable_bypass_done d out ec n s =
     (case ec of
        Some e \<Rightarrow> (grace_close (sent d (Relayed (take n out)) s), False)
      | None \<Rightarrow> (upd_lane d (\<lambda>l. l\<lparr>ln_stored := []\<rparr>) (sent d (Relayed out) s), True))"

section \<open>The relay loops\<close>

definition client_request_loop :: "session \<Rightarrow> session \<times> frame" where
  "client_request_loop s =
     (if eof s then (grace_close s, Done)
      else if bypass s then (s, Relay C2S R_bypass_read)
      else (upd_lane C2S prepare_block s, Relay C2S R_process_read))"

definition server_response_loop :: "session \<Rightarrow> session \<times> frame" where
  "server_response_loop s =
     (if eof s then (grace_close s, Done)
      else if bypass s \<or> response_bypass s
      then (if \<not> bypass s \<and> response_bypass s then (s, Relay S2C R_head_write)
            else (s, Relay S2C R_bypass_read))
      else (upd_lane S2C prepare_block s, Relay S2C R_process_read))"

fun relay_loop :: "dir \<Rightarrow> session \<Rightarrow> session \<times> frame" where
  "relay_loop C2S s = client_request_loop s"
| "relay_loop S2C s = server_response_loop s"

definition continue_relay :: "dir \<Rightarrow> frame list \<Rightarrow> session \<Rightarrow> outcome" where
  "continue_relay d spawned s = (case relay_loop d s of (s1, fr) \<Rightarrow> Inr (s1, fr, spawned))"

text \<open>After a flush that returned 0: spawn \<^verbatim>\<open>connect_process\<close> and go on.\<close>

definition reconnect_relay :: "dir \<Rightarrow> session \<Rightarrow> outcome" where
  "reconnect_relay d s = (case connect_process s of (s1, fr) \<Rightarrow> continue_relay d [fr] s1)"

definition bypass_head :: "byte list" where
  "bypass_head =
     encode_request \<lparr>rq_type = data_type_byte From_server_to_client, rq_len = 0\<rparr>"

text \<open>\<^verbatim>\<open>client_2proxy_2server\<close> and \<^verbatim>\<open>server_2proxy_2client\<close> from their completed read.\<close>

definition after_bypass_read :: "dir \<Rightarrow> error_code \<Rightarrow> byte list \<Rightarrow> session \<Rightarrow> outcome" where
  "after_bypass_read d ec data s =
     (let s1 = received d data s in
      case ec of
        None \<Rightarrow> Inr (s1, Relay d (R_bypass_write data), [])
      | Some e \<Rightarrow>
          if e \<noteq> Eof then Inr (grace_close s1, Done, [])
          else let s2 = s1\<lparr>eof := True\<rparr>
               in if length data = 0 then continue_relay d [] s2
                  else Inr (s2, Relay d (R_bypass_write data), []))"

text \<open>\<^verbatim>\<open>inner_client_or_server_2proxy_2process\<close> from its completed read.\<close>

definition store_and_send :: "dir \<Rightarrow> byte list \<Rightarrow> session \<Rightarrow> outcome" where
  "store_and_send d data s =
     (case store_packet (dir_type d) data (lane_of d s) of
        Inl f \<Rightarrow> Inl f
      | Inr (ln, out) \<Rightarrow> Inr (upd_lane d (\<lambda>_. ln) s, Relay d (R_process_write out), []))"

definition after_process_read :: "dir \<Rightarrow> error_code \<Rightarrow> byte list \<Rightarrow> session \<Rightarrow> outcome" where
  "after_process_read d ec data s =
     (let s1 = received d data s in
      case ec of
        None \<Rightarrow> store_and_send d data s1
      | Some e \<Rightarrow>
          if e \<noteq> Eof then Inr (grace_close s1, Done, [])
          else let s2 = s1\<lparr>eof := True\<rparr>
               in if length data = 0 then continue_relay d [] s2 else store_and_send d data s2)"

fun resume_relay :: "session \<Rightarrow> dir \<Rightarrow> relay_pc \<Rightarrow> event \<Rightarrow> outcome" where
  "resume_relay s d R_head_write (Write_done ec n) =
     Inr (sent_process (take n bypass_head) s, Relay d R_bypass_read, [])"
| "resume_relay s d R_bypass_read (Read_done ec data) = after_bypass_read d ec data s"
| "resume_relay s d (R_bypass_write data) (Write_done (Some e) n) =
     Inr (grace_close (sent d (Relayed (take n data)) s), Done, [])"
| "resume_relay s d (R_bypass_write data) (Write_done None n) =
     continue_relay d [] (sent d (Relayed data) s)"
| "resume_relay s d R_process_read (Read_done ec data) = after_process_read d ec data s"
| "resume_relay s d (R_process_write out) (Write_done None n) =
     continue_relay d [] (sent_process out s)"
| "resume_relay s d (R_process_write out) (Write_done (Some e) n) =
     (case enable_bypass d (sent_process (take n out) s) of
        Inl f \<Rightarrow> Inl f
      | Inr (s1, None) \<Rightarrow> reconnect_relay d s1
      | Inr (s1, Some fl) \<Rightarrow> Inr (s1, Relay d (R_flush fl), []))"
| "resume_relay s d (R_flush out) (Write_done ec n) =
     (case enable_bypass_done d out ec n s of
        (s1, True) \<Rightarrow> reconnect_relay d s1
      | (s1, False) \<Rightarrow> Inr (s1, Done, []))"
| "resume_relay s d pc ev = Inr (s, Relay d pc, [])"

section \<open>The reader of the handler process\<close>

text \<open>The error path of \<^verbatim>\<open>process_2proxy\<close>: both flushes, whatever they return, then
  \<^verbatim>\<open>connect_process\<close> is spawned and the reader returns.\<close>

definition reader_reconnect :: "session \<Rightarrow> outcome" where
  "reader_reconnect s = (case connect_process s of (s1, fr) \<Rightarrow> Inr (s1, Done, [fr]))"

definition reader_flush_client :: "session \<Rightarrow> outcome" where
  "reader_flush_client s =
     (case enable_bypass S2C s of
        Inl f \<Rightarrow> Inl f
      | Inr (s1, None) \<Rightarrow> reader_reconnect s1
      | Inr (s1, Some out) \<Rightarrow> Inr (s1, Reader (Rd_flush_client out), []))"

definition reader_fail :: "session \<Rightarrow> outcome" where
  "reader_fail s =
     (if has_closed s then Inr (s, Done, [])
      else case enable_bypass C2S s of
             Inl f \<Rightarrow> Inl f
           | Inr (s1, None) \<Rightarrow> reader_flush_client s1
           | Inr (s1, Some out) \<Rightarrow> Inr (s1, Reader (Rd_flush_server out), []))"

text \<open>\<^verbatim>\<open>inner_proxy_2client_or_2server\<close> after its optional first write.\<close>

definition reader_action :: "dir \<Rightarrow> response_head \<Rightarrow> byte list \<Rightarrow> session \<Rightarrow> outcome" where
  "reader_action d head pbuf s =
     (if rh_act head = action_byte Block then Inr (grace_close s, Done, [])
      else let ln = lane_of d s;
               (bufs, handled, cnt, used) =
                 prepare_transfer_packet head (ln_stored ln) (ln_handled ln)
           in case gather (ln_heap ln) bufs of
                Inl f \<Rightarrow> Inl f
              | Inr out \<Rightarrow>
                  Inr (upd_lane d (\<lambda>l. l\<lparr>ln_handled := handled\<rparr>) s,
                       Reader (Rd_pass d cnt used out pbuf), []))"

definition reader_transfer :: "dir \<Rightarrow> response_head \<Rightarrow> byte list \<Rightarrow> session \<Rightarrow> outcome" where
  "reader_transfer d head pbuf s =
     (if rh_new_data_len head \<noteq> 0
      then Inr (s, Reader (Rd_new_data d head (take (unat (rh_new_data_len head)) pbuf) pbuf), [])
      else reader_action d head pbuf s)"

definition reader_dispatch :: "response_head \<Rightarrow> byte list \<Rightarrow> session \<Rightarrow> outcome" where
  "reader_dispatch head pbuf s =
     (case data_type_of (rh_type head) of
        Some From_client_to_server \<Rightarrow> reader_transfer C2S head pbuf s
      | Some From_server_to_client \<Rightarrow> reader_transfer S2C head pbuf s
      | Some Heartbeat \<Rightarrow> Inr (cancel_timer s, Reader (Rd_head pbuf), [])
      | _ \<Rightarrow> Inr (s, Reader (Rd_head pbuf), []))"

definition pass_done :: "dir \<Rightarrow> nat \<Rightarrow> int \<Rightarrow> byte list \<Rightarrow> session \<Rightarrow> outcome" where
  "pass_done d cnt used pbuf s =
     (case clear_handled_packet (ln_stored (lane_of d s)) cnt used of
        Inl f \<Rightarrow> Inl f
      | Inr rest \<Rightarrow>
          Inr (upd_lane d (\<lambda>l. l\<lparr>ln_stored := rest\<rparr>) s, Reader (Rd_head pbuf), []))"

fun resume_reader :: "session \<Rightarrow> reader_pc \<Rightarrow> event \<Rightarrow> outcome" where
  "resume_reader s (Rd_head pbuf) (Read_done (Some e) bs) = reader_fail (received_process bs s)"
| "resume_reader s (Rd_head pbuf) (Read_done None bs) =
     (let head = decode_head bs; s1 = received_process bs s
      in if rh_new_data_len head \<noteq> 0 then Inr (s1, Reader (Rd_body head pbuf), [])
         else reader_dispatch head pbuf s1)"
| "resume_reader s (Rd_body head pbuf) (Read_done (Some e) bs) =
     reader_fail (received_process bs s)"
| "resume_reader s (Rd_body head pbuf) (Read_done None bs) =
     reader_dispatch head (bs @ drop (length bs) pbuf) (received_process bs s)"
| "resume_reader s (Rd_new_data d head out pbuf) (Write_done (Some e) n) =
     Inr (grace_close (sent d (Injected (take n out)) s), Done, [])"
| "resume_reader s (Rd_new_data d head out pbuf) (Write_done None n) =
     reader_action d head pbuf (sent d (Injected out) s)"
| "resume_reader s (Rd_pass d cnt used out pbuf) (Write_done (Some e) n) =
     Inr (grace_close (sent d (Relayed (take n out)) s), Done, [])"
| "resume_reader s (Rd_pass d cnt used out pbuf) (Write_done None n) =
     pass_done d cnt used pbuf (sent d (Relayed out) s)"
| "resume_reader s (Rd_flush_server out) (Write_done ec n) =
     reader_flush_client (fst (enable_bypass_done C2S out ec n s))"
| "resume_reader s (Rd_flush_client out) (Write_done ec n) =
     reader_reconnect (fst (enable_bypass_done S2C out ec n s))"
| "resume_reader s pc ev = Inr (s, Reader pc, [])"

section \<open>Setting the session up\<close>

definition make_ident :: "endpoints \<Rightarrow> server_info \<Rightarrow> string" where
  "make_ident ep srv =
     ep_client_ip ep @ '':'' @ nat_to_string (unat (ep_client_port ep)) @ ''--'' @
     ep_proxy_ip ep @ '':'' @ nat_to_string (unat (ep_proxy_port ep)) @ ''--'' @
     si_ip srv @ '':'' @ nat_to_string (unat (si_port srv))"

definition setup_connected :: "server_info \<Rightarrow> endpoints option \<Rightarrow> session \<Rightarrow> outcome" where
  "setup_connected srv eps s =
     (let s1 = s\<lparr>client_buf_size := unat (si_conn_buf_size srv),
                 server_buf_size := unat (si_conn_buf_size srv),
                 response_bypass := si_response_bypass srv,
                 server_ip := si_ip srv, server_port := si_port srv\<rparr>
      in case eps of
           None \<Rightarrow> Inr (s1, Done, [])
         | Some ep \<Rightarrow>
             let s2 = s1\<lparr>client_ip := ep_client_ip ep, client_port := ep_client_port ep,
                         session_ident := make_ident ep srv\<rparr>;
                 (s3, f1) = connect_process s2;
                 (s4, f2) = client_request_loop s3;
                 (s5, f3) = server_response_loop s4
             in Inr (s5, Done, [f1, f2, f3]))"

fun resume_setup :: "session \<Rightarrow> setup_pc \<Rightarrow> event \<Rightarrow> outcome" where
  "resume_setup s S_start (Lookup (Inl f)) = Inl f"
| "resume_setup s S_start (Lookup (Inr None)) = Inl Null_dereference"
| "resume_setup s S_start (Lookup (Inr (Some srv))) = Inr (s, Setup (S_resolve srv), [])"
| "resume_setup s (S_resolve srv) (Resolved (Some e)) = Inr (s, Done, [])"
| "resume_setup s (S_resolve srv) (Resolved None) =
     Inr (s\<lparr>proxy_server_socket := (proxy_server_socket s)\<lparr>sk_open := True\<rparr>\<rparr>,
          Setup (S_connect srv), [])"
| "resume_setup s (S_connect srv) (Connected (Some e) eps) = Inr (s, Done, [])"
| "resume_setup s (S_connect srv) (Connected None eps) = setup_connected srv eps s"
| "resume_setup s pc ev = Inr (s, Setup pc, [])"

section \<open>One resumption\<close>

fun resume :: "(json \<Rightarrow> byte list) \<Rightarrow> session \<Rightarrow> frame \<Rightarrow> event \<Rightarrow> outcome" where
  "resume dump s (Relay d pc) ev = resume_relay s d pc ev"
| "resume dump s (Reader pc) ev = resume_reader s pc ev"
| "resume dump s (Connect pc) ev = resume_connect dump s pc ev"
| "resume dump s (Detect g) ev = resume_detect s g ev"
| "resume dump s (Setup pc) ev = resume_setup s pc ev"
| "resume dump s Done ev = Inr (s, Done, [])"

definition write_ok :: "byte list \<Rightarrow> error_code \<Rightarrow> nat \<Rightarrow> bool" where
  "write_ok out ec n \<longleftrightarrow> n \<le> length out \<and> (ec = None \<longrightarrow> n = length out)"

definition read_some_ok :: "nat \<Rightarrow> error_code \<Rightarrow> byte list \<Rightarrow> bool" where
  "read_some_ok room ec bs \<longleftrightarrow>
     length bs \<le> room \<and> (ec = None \<longrightarrow> bs \<noteq> [] \<or> room = 0)"

definition read_all_ok :: "nat \<Rightarrow> error_code \<Rightarrow> byte list \<Rightarrow> bool" where
  "read_all_ok n ec bs \<longleftrightarrow> length bs \<le> n \<and> (ec = None \<longrightarrow> length bs = n)"

fun wrote :: "byte list \<Rightarrow> event \<Rightarrow> bool" where
  "wrote out (Write_done ec n) = write_ok out ec n"
| "wrote out ev = False"

fun read_some :: "nat \<Rightarrow> event \<Rightarrow> bool" where
  "read_some room (Read_done ec bs) = read_some_ok room ec bs"
| "read_some room ev = False"

fun read_all :: "nat \<Rightarrow> event \<Rightarrow> bool" where
  "read_all n (Read_done ec bs) = read_all_ok n ec bs"
| "read_all n ev = False"

fun io_relay :: "session \<Rightarrow> dir \<Rightarrow> relay_pc \<Rightarrow> event \<Rightarrow> bool" where
  "io_relay s d R_head_write ev = wrote bypass_head ev"
| "io_relay s d R_bypass_read ev = read_some (bypass_room d s) ev"
| "io_relay s d (R_bypass_write out) ev = wrote out ev"
| "io_relay s d R_process_read ev = read_some (read_room (lane_of d s)) ev"
| "io_relay s d (R_process_write out) ev = wrote out ev"
| "io_relay s d (R_flush out) ev = wrote out ev"

fun io_reader :: "reader_pc \<Rightarrow> event \<Rightarrow> bool" where
  "io_reader (Rd_head pbuf) ev = read_all response_head_len ev"
| "io_reader (Rd_body head pbuf) ev = read_all (unat (rh_new_data_len head)) ev"
| "io_reader (Rd_new_data d head out pbuf) ev = wrote out ev"
| "io_reader (Rd_pass d cnt used out pbuf) ev = wrote out ev"
| "io_reader (Rd_flush_server out) ev = wrote out ev"
| "io_reader (Rd_flush_client out) ev = wrote out ev"

fun io_connect :: "connect_pc \<Rightarrow> event \<Rightarrow> bool" where
  "io_connect C_connect ev = (case ev of Connected ec eps \<Rightarrow> True | _ \<Rightarrow> False)"
| "io_connect C_wait ev = (case ev of Timer_done ec \<Rightarrow> True | _ \<Rightarrow> False)"
| "io_connect (C_tuple out) ev = wrote out ev"

fun io_setup :: "setup_pc \<Rightarrow> event \<Rightarrow> bool" where
  "io_setup S_start ev = (case ev of Lookup r \<Rightarrow> True | _ \<Rightarrow> False)"
| "io_setup (S_resolve srv) ev = (case ev of Resolved ec \<Rightarrow> True | _ \<Rightarrow> False)"
| "io_setup (S_connect srv) ev = (case ev of Connected ec eps \<Rightarrow> True | _ \<Rightarrow> False)"

fun io_ok :: "session \<Rightarrow> frame \<Rightarrow> event \<Rightarrow> bool" where
  "io_ok s (Relay d pc) ev = io_relay s d pc ev"
| "io_ok s (Reader pc) ev = io_reader pc ev"
| "io_ok s (Connect pc) ev = io_connect pc ev"
| "io_ok s (Detect g) ev =
     (case ev of Timer_done ec \<Rightarrow> ec = None \<or> g \<noteq> detect_timer_gen s | _ \<Rightarrow> False)"
| "io_ok s (Setup pc) ev = io_setup pc ev"
| "io_ok s Done ev = False"

section \<open>The session as a step relation\<close>

text \<open>All coroutines of one session, in the order they were spawned.\<close>

record system =
  sess :: session
  coros :: "frame list"

definition init_system :: system where
  "init_system = \<lparr>sess = new_session, coros = [Setup S_start]\<rparr>"

definition step_at :: "(json \<Rightarrow> byte list) \<Rightarrow> system \<Rightarrow> nat \<Rightarrow> event \<Rightarrow> fault + system" where
  "step_at dump \<sigma> i ev =
     (case resume dump (sess \<sigma>) (coros \<sigma> ! i) ev of
        Inl f \<Rightarrow> Inl f
      | Inr (s, fr, spawned) \<Rightarrow> Inr \<lparr>sess = s, coros = (coros \<sigma>)[i := fr] @ spawned\<rparr>)"

inductive step :: "(json \<Rightarrow> byte list) \<Rightarrow> system \<Rightarrow> nat \<Rightarrow> event \<Rightarrow> system \<Rightarrow> bool"
  for dump :: "json \<Rightarrow> byte list"
where
  step: "i < length (coros \<sigma>) \<Longrightarrow> io_ok (sess \<sigma>) (coros \<sigma> ! i) ev \<Longrightarrow>
     step_at dump \<sigma> i ev = Inr \<sigma>' \<Longrightarrow> step dump \<sigma> i ev \<sigma>'"

text \<open>A run of given events, stopped by the first completion that is not possible.\<close>

fun run :: "(json \<Rightarrow> byte list) \<Rightarrow> system \<Rightarrow> (nat \<times> event) list \<Rightarrow> (fault + system) option" where
  "run dump \<sigma> [] = Some (Inr \<sigma>)"
| "run dump \<sigma> ((i, ev) # evs) =
     (if i < length (coros \<sigma>) \<and> io_ok (sess \<sigma>) (coros \<sigma> ! i) ev
      then (case step_at dump \<sigma> i ev of
              Inl f \<Rightarrow> Some (Inl f)
            | Inr \<sigma>' \<Rightarrow> run dump \<sigma>' evs)
      else None)"

inductive reachable :: "(json \<Rightarrow> byte list) \<Rightarrow> system \<Rightarrow> bool"
  for dump :: "json \<Rightarrow> byte list"
where
  init: "reachable dump init_system"
| step: "reachable dump \<sigma> \<Longrightarrow> step dump \<sigma> i ev \<sigma>' \<Longrightarrow> reachable dump \<sigma>'"

end
