(* ===== verification/Session_Facts.thy ===== *)
theory Session_Facts
  imports Coroutines
begin

text \<open>
  How the operations of \<open>Session\<close> and \<open>Coroutines\<close> act on the fields of a session:
  frame rules, the rules that describe where the spawning and looping functions leave a
  coroutine, and inversion rules for the step relation. The invariant proofs rest on
  these and do not unfold the operations again.
\<close>

named_theorems session_simps \<open>how the member functions change the fields\<close>

section \<open>Fields under the member functions\<close>

lemma lane_upd [simp, session_simps]:
  "lane_of d (upd_lane e f s) = (if d = e then f (lane_of d s) else lane_of d s)"
  by (cases d; cases e) simp_all

lemma upd_lane_frame [simp, session_simps]:
  "has_closed (upd_lane d f s) = has_closed s" "eof (upd_lane d f s) = eof s"
  "bypass (upd_lane d f s) = bypass s" "response_bypass (upd_lane d f s) = response_bypass s"
  "process_connecting (upd_lane d f s) = process_connecting s"
  "detect_timer_gen (upd_lane d f s) = detect_timer_gen s"
  "src_socket e (upd_lane d f s) = src_socket e s" "dst_socket e (upd_lane d f s) = dst_socket e s"
  "proxy_process_socket (upd_lane d f s) = proxy_process_socket s"
  "proxy_client_socket (upd_lane d f s) = proxy_client_socket s"
  "proxy_server_socket (upd_lane d f s) = proxy_server_socket s"
  "bypass_room e (upd_lane d f s) = bypass_room e s"
  by (cases d; cases e; simp)+

lemma received_frame [simp, session_simps]:
  "has_closed (received d bs s) = has_closed s" "eof (received d bs s) = eof s"
  "bypass (received d bs s) = bypass s" "response_bypass (received d bs s) = response_bypass s"
  "process_connecting (received d bs s) = process_connecting s"
  "detect_timer_gen (received d bs s) = detect_timer_gen s"
  "lane_of e (received d bs s) = lane_of e s"
  "sk_tx (dst_socket e (received d bs s)) = sk_tx (dst_socket e s)"
  "sk_rx (src_socket e (received d bs s)) =
     sk_rx (src_socket e s) @ (if d = e then bs else [])"
  "sk_open (src_socket e (received d bs s)) = sk_open (src_socket e s)"
  "proxy_process_socket (received d bs s) = proxy_process_socket s"
  by (cases d; cases e; simp)+

lemma sent_frame [simp, session_simps]:
  "has_closed (sent d c s) = has_closed s" "eof (sent d c s) = eof s"
  "bypass (sent d c s) = bypass s" "response_bypass (sent d c s) = response_bypass s"
  "process_connecting (sent d c s) = process_connecting s"
  "detect_timer_gen (sent d c s) = detect_timer_gen s"
  "lane_of e (sent d c s) = lane_of e s"
  "sk_tx (dst_socket e (sent d c s)) = sk_tx (dst_socket e s) @ (if d = e then [c] else [])"
  "sk_rx (src_socket e (sent d c s)) = sk_rx (src_socket e s)"
  "sk_open (src_socket e (sent d c s)) = sk_open (src_socket e s)"
  "proxy_process_socket (sent d c s) = proxy_process_socket s"
  by (cases d; cases e; simp)+

lemma process_io_frame [simp, session_simps]:
  "has_closed (sent_process bs s) = has_closed s" "eof (sent_process bs s) = eof s"
  "bypass (sent_process bs s) = bypass s" "response_bypass (sent_process bs s) = response_bypass s"
  "process_connecting (sent_process bs s) = process_connecting s"
  "detect_timer_gen (sent_process bs s) = detect_timer_gen s"
  "lane_of e (sent_process bs s) = lane_of e s"
  "dst_socket e (sent_process bs s) = dst_socket e s"
  "src_socket e (sent_process bs s) = src_socket e s"
  "has_closed (received_process bs s) = has_closed s" "eof (received_process bs s) = eof s"
  "bypass (received_process bs s) = bypass s"
  "response_bypass (received_process bs s) = response_bypass s"
  "process_connecting (received_process bs s) = process_connecting s"
  "detect_timer_gen (received_process bs s) = detect_timer_gen s"
  "lane_of e (received_process bs s) = lane_of e s"
  "dst_socket e (received_process bs s) = dst_socket e s"
  "src_socket e (received_process bs s) = src_socket e s"
  by (cases e; simp add: sent_process_def received_process_def)+

lemma flag_frame [simp, session_simps]:
  "lane_of d (s\<lparr>eof := b\<rparr>) = lane_of d s" "lane_of d (s\<lparr>bypass := b\<rparr>) = lane_of d s"
  "lane_of d (s\<lparr>process_connecting := b\<rparr>) = lane_of d s"
  "src_socket d (s\<lparr>eof := b\<rparr>) = src_socket d s" "src_socket d (s\<lparr>bypass := b\<rparr>) = src_socket d s"
  "src_socket d (s\<lparr>process_connecting := b\<rparr>) = src_socket d s"
  "dst_socket d (s\<lparr>eof := b\<rparr>) = dst_socket d s" "dst_socket d (s\<lparr>bypass := b\<rparr>) = dst_socket d s"
  "dst_socket d (s\<lparr>process_connecting := b\<rparr>) = dst_socket d s"
  "lane_of d (s\<lparr>proxy_process_socket := sk\<rparr>) = lane_of d s"
  "src_socket d (s\<lparr>proxy_process_socket := sk\<rparr>) = src_socket d s"
  "dst_socket d (s\<lparr>proxy_process_socket := sk\<rparr>) = dst_socket d s"
  by (cases d; simp)+

lemma cancel_timer_frame [simp, session_simps]:
  "has_closed (cancel_timer s) = has_closed s" "eof (cancel_timer s) = eof s"
  "bypass (cancel_timer s) = bypass s" "response_bypass (cancel_timer s) = response_bypass s"
  "process_connecting (cancel_timer s) = process_connecting s"
  "detect_timer_gen (cancel_timer s) = Suc (detect_timer_gen s)"
  "lane_of d (cancel_timer s) = lane_of d s" "src_socket d (cancel_timer s) = src_socket d s"
  "dst_socket d (cancel_timer s) = dst_socket d s"
  "proxy_process_socket (cancel_timer s) = proxy_process_socket s"
  by (cases d; simp add: cancel_timer_def)+

lemma close_process_socket_frame [simp, session_simps]:
  "has_closed (close_process_socket s) = has_closed s" "eof (close_process_socket s) = eof s"
  "bypass (close_process_socket s) = bypass s"
  "response_bypass (close_process_socket s) = response_bypass s"
  "process_connecting (close_process_socket s) = process_connecting s"
  "lane_of d (close_process_socket s) = lane_of d s"
  "src_socket d (close_process_socket s) = src_socket d s"
  "dst_socket d (close_process_socket s) = dst_socket d s"
  by (cases d; simp add: close_process_socket_def)+

lemma close_socket_frame [simp]:
  "sk_rx (close_socket sk) = sk_rx sk" "sk_tx (close_socket sk) = sk_tx sk"
  "sk_open (close_socket sk) = False"
  by (simp_all add: close_socket_def)

lemma grace_close_frame [simp, session_simps]:
  "has_closed (grace_close s)" "eof (grace_close s) = eof s" "bypass (grace_close s) = bypass s"
  "response_bypass (grace_close s) = response_bypass s"
  "process_connecting (grace_close s) = process_connecting s"
  "lane_of d (grace_close s) = lane_of d s"
  "sk_rx (src_socket d (grace_close s)) = sk_rx (src_socket d s)"
  "sk_tx (dst_socket d (grace_close s)) = sk_tx (dst_socket d s)"
  by (cases d; simp add: grace_close_def close_process_socket_def cancel_timer_def Let_def)+

lemma grace_close_idem [simp, session_simps]: "grace_close (grace_close s) = grace_close s"
  using grace_close_frame(1) [of s] by (simp add: grace_close_def [of "grace_close s"])

lemma reset_local_socket_frame [simp, session_simps]:
  "has_closed (reset_local_socket s) = has_closed s" "eof (reset_local_socket s) = eof s"
  "bypass (reset_local_socket s) = bypass s"
  "response_bypass (reset_local_socket s) = response_bypass s"
  "process_connecting (reset_local_socket s) = process_connecting s"
  "lane_of d (reset_local_socket s) = lane_of d s"
  "src_socket d (reset_local_socket s) = src_socket d s"
  "dst_socket d (reset_local_socket s) = dst_socket d s"
  "proxy_process_socket (reset_local_socket s) = fresh_socket False"
  by (cases d; simp add: reset_local_socket_def close_process_socket_def)+

declare lane_of.simps [simp del] upd_lane.simps [simp del] src_socket.simps [simp del]
  dst_socket.simps [simp del] received.simps [simp del] sent.simps [simp del]

lemma session_record_frame [simp]:
  "lane_of d (s\<lparr>has_closed := b\<rparr>) = lane_of d s"
  "lane_of d (s\<lparr>client_buf_size := n\<rparr>) = lane_of d s"
  "lane_of d (s\<lparr>server_buf_size := n\<rparr>) = lane_of d s"
  "lane_of d (s\<lparr>response_bypass := b\<rparr>) = lane_of d s"
  "lane_of d (s\<lparr>server_ip := x\<rparr>) = lane_of d s" "lane_of d (s\<lparr>server_port := p\<rparr>) = lane_of d s"
  "lane_of d (s\<lparr>client_ip := x\<rparr>) = lane_of d s" "lane_of d (s\<lparr>client_port := p\<rparr>) = lane_of d s"
  "lane_of d (s\<lparr>session_ident := x\<rparr>) = lane_of d s"
  "lane_of d (s\<lparr>proxy_server_socket := sk\<rparr>) = lane_of d s"
  by (cases d; simp add: lane_of.simps)+

lemma connect_loop_frame [simp, session_simps]:
  "has_closed (fst (connect_loop s)) = has_closed s" "eof (fst (connect_loop s)) = eof s"
  "bypass (fst (connect_loop s)) = bypass s"
  "response_bypass (fst (connect_loop s)) = response_bypass s"
  "process_connecting (fst (connect_loop s)) = process_connecting s"
  "lane_of d (fst (connect_loop s)) = lane_of d s"
  "src_socket d (fst (connect_loop s)) = src_socket d s"
  "dst_socket d (fst (connect_loop s)) = dst_socket d s"
  by (cases d; simp add: connect_loop_def)+

lemma connect_process_frame [simp, session_simps]:
  "has_closed (fst (connect_process s)) = has_closed s" "eof (fst (connect_process s)) = eof s"
  "bypass (fst (connect_process s)) = bypass s"
  "response_bypass (fst (connect_process s)) = response_bypass s"
  "process_connecting (fst (connect_process s))"
  "src_socket d (fst (connect_process s)) = src_socket d s"
  "dst_socket d (fst (connect_process s)) = dst_socket d s"
  by (simp_all add: connect_process_def Let_def)

lemma connect_process_lane [simp, session_simps]:
  "lane_of d (fst (connect_process s)) =
     (if process_connecting s then lane_of d s else (lane_of d s)\<lparr>ln_handled := 0\<rparr>)"
  by (cases d; simp add: connect_process_def Let_def)

lemma detect_process_timeout_frame [simp, session_simps]:
  "has_closed (fst (detect_process_timeout s)) = has_closed s"
  "eof (fst (detect_process_timeout s)) = eof s"
  "bypass (fst (detect_process_timeout s)) = bypass s"
  "response_bypass (fst (detect_process_timeout s)) = response_bypass s"
  "process_connecting (fst (detect_process_timeout s)) = process_connecting s"
  "lane_of d (fst (detect_process_timeout s)) = lane_of d s"
  "src_socket d (fst (detect_process_timeout s)) = src_socket d s"
  "dst_socket d (fst (detect_process_timeout s)) = dst_socket d s"
  "proxy_process_socket (fst (detect_process_timeout s)) = proxy_process_socket s"
  by (simp_all add: detect_process_timeout_def Let_def)

lemma relay_loop_frame [simp, session_simps]:
  "has_closed (fst (relay_loop d s)) \<longleftrightarrow> has_closed s \<or> eof s"
  "eof (fst (relay_loop d s)) = eof s" "bypass (fst (relay_loop d s)) = bypass s"
  "response_bypass (fst (relay_loop d s)) = response_bypass s"
  "process_connecting (fst (relay_loop d s)) = process_connecting s"
  "sk_rx (src_socket e (fst (relay_loop d s))) = sk_rx (src_socket e s)"
  "sk_tx (dst_socket e (fst (relay_loop d s))) = sk_tx (dst_socket e s)"
  by (cases d; simp add: client_request_loop_def server_response_loop_def)+

text \<open>Where the loop head sends a relay: out, to the bypass read, to the announcement of a
  bypassed response, or to the read for the process.\<close>

definition inspects :: "dir \<Rightarrow> session \<Rightarrow> bool" where
  "inspects d s \<longleftrightarrow> \<not> bypass s \<and> (d = S2C \<longrightarrow> \<not> response_bypass s)"

lemma relay_loop_snd:
  "snd (relay_loop d s) =
     (if eof s then Done
      else if inspects d s then Relay d R_process_read
      else if bypass s then Relay d R_bypass_read
      else Relay d R_head_write)"
  by (cases d) (auto simp: inspects_def client_request_loop_def server_response_loop_def)

lemma relay_loop_lane:
  "lane_of e (fst (relay_loop d s)) =
     (if d = e \<and> \<not> eof s \<and> inspects d s then prepare_block (lane_of e s) else lane_of e s)"
  by (cases d)
    (auto simp: inspects_def client_request_loop_def server_response_loop_def)

lemma connect_loop_snd:
  "snd (connect_loop s) = (if has_closed s then Done else Connect C_connect)"
  by (simp add: connect_loop_def)

lemma connect_process_snd:
  "snd (connect_process s) =
     (if process_connecting s \<or> has_closed s then Done else Connect C_connect)"
  by (simp add: connect_process_def Let_def connect_loop_snd)

lemma detect_process_timeout_snd:
  "snd (detect_process_timeout s) = Done \<or> (\<exists>g. snd (detect_process_timeout s) = Detect g)"
  by (simp add: detect_process_timeout_def Let_def)

section \<open>Completions\<close>

lemma wroteE:
  assumes "wrote out ev"
  obtains (ok) "ev = Write_done None (length out)"
    | (error) e n where "ev = Write_done (Some e) n" "n \<le> length out"
proof (cases ev)
  case (Write_done ec n)
  with assms that show thesis by (cases ec) (auto simp: write_ok_def)
qed (use assms in auto)

lemma read_someE:
  assumes "read_some room ev"
  obtains (ok) bs where "ev = Read_done None bs" "length bs \<le> room"
    | (eof) bs where "ev = Read_done (Some Eof) bs" "length bs \<le> room"
    | (error) n bs where "ev = Read_done (Some (Io_error n)) bs" "length bs \<le> room"
proof (cases ev)
  case (Read_done ec bs)
  show thesis
  proof (cases ec)
    case None
    with assms Read_done that(1) show thesis by (simp add: read_some_ok_def)
  next
    case (Some e)
    with assms Read_done that(2,3) show thesis by (cases e) (simp_all add: read_some_ok_def)
  qed
qed (use assms in auto)

lemma read_allE:
  assumes "read_all n ev"
  obtains (ok) bs where "ev = Read_done None bs" "length bs = n"
    | (error) e bs where "ev = Read_done (Some e) bs" "length bs \<le> n"
proof (cases ev)
  case (Read_done ec bs)
  with assms that show thesis by (cases ec) (auto simp: read_all_ok_def)
qed (use assms in auto)

inductive_cases stepE: "step dump \<sigma> i ev \<sigma>'"

lemma step_resumeE:
  assumes "step dump \<sigma> i ev \<sigma>'"
  obtains s fr spawned where "i < length (coros \<sigma>)" "io_ok (sess \<sigma>) (coros \<sigma> ! i) ev"
    "resume dump (sess \<sigma>) (coros \<sigma> ! i) ev = Inr (s, fr, spawned)"
    "\<sigma>' = \<lparr>sess = s, coros = (coros \<sigma>)[i := fr] @ spawned\<rparr>"
  using assms by (auto elim!: stepE simp: step_at_def split: sum.splits)

lemma enable_bypass_state:
  "enable_bypass d s = Inr (s1, r) \<Longrightarrow> s1 = s\<lparr>bypass := True\<rparr>"
  by (cases "bypass s") (auto simp: enable_bypass_def Let_def split: if_splits sum.splits)

lemma enable_bypass_done_frame [simp]:
  "process_connecting (fst (enable_bypass_done d out ec n s)) = process_connecting s"
  "has_closed (fst (enable_bypass_done d out ec n s)) \<longleftrightarrow> has_closed s \<or> ec \<noteq> None"
  "eof (fst (enable_bypass_done d out ec n s)) = eof s"
  "bypass (fst (enable_bypass_done d out ec n s)) = bypass s"
  "snd (enable_bypass_done d out ec n s) \<longleftrightarrow> ec = None"
  by (auto simp: enable_bypass_done_def split: option.splits)

section \<open>A session that starts relaying\<close>

lemma setup_connectedE:
  assumes "setup_connected srv (Some ep) s = Inr (s', fr, sp)"
  obtains u where "has_closed u = has_closed s" "eof u = eof s" "bypass u = bypass s"
    "process_connecting u = process_connecting s" "response_bypass u = si_response_bypass srv"
    "\<And>d. lane_of d u = lane_of d s" "\<And>d. src_socket d u = src_socket d s"
    "\<And>d. dst_socket d u = dst_socket d s"
    "s' = fst (relay_loop S2C (fst (relay_loop C2S (fst (connect_process u)))))" "fr = Done"
    "sp = [snd (connect_process u), snd (relay_loop C2S (fst (connect_process u))),
       snd (relay_loop S2C (fst (relay_loop C2S (fst (connect_process u)))))]"
proof -
  let ?u = "s\<lparr>client_buf_size := unat (si_conn_buf_size srv),
      server_buf_size := unat (si_conn_buf_size srv), response_bypass := si_response_bypass srv,
      server_ip := si_ip srv, server_port := si_port srv, client_ip := ep_client_ip ep,
      client_port := ep_client_port ep, session_ident := make_ident ep srv\<rparr>"
  have "lane_of d ?u = lane_of d s" "src_socket d ?u = src_socket d s"
    "dst_socket d ?u = dst_socket d s" for d
    by (cases d; simp add: lane_of.simps src_socket.simps dst_socket.simps)+
  with assms show thesis
    by (intro that [of ?u]) (auto simp: setup_connected_def Let_def case_prod_unfold)
qed

end
