(* ===== verification/Session_Connect.thy ===== *)
theory Session_Connect
  imports Session_Facts
begin

text \<open>
  The guard \<^verbatim>\<open>process_connecting_\<close>: under every schedule and every result of the network
  operations at most one coroutine of a session is connecting to the handler process
  (or waiting to retry), and while the session is open a set flag means that there is
  one. The invariant \<open>connect_inv\<close> is kept by each operation, then by every step.
\<close>

section \<open>At most one connection attempt\<close>

fun connecting_frame :: "frame \<Rightarrow> bool" where
  "connecting_frame (Connect C_connect) = True"
| "connecting_frame (Connect C_wait) = True"
| "connecting_frame f = False"

definition connectors :: "frame list \<Rightarrow> nat" where
  "connectors fs = length (filter connecting_frame fs)"

definition connect_inv :: "nat \<Rightarrow> session \<Rightarrow> bool" where
  "connect_inv n s \<longleftrightarrow>
     n \<le> of_bool (process_connecting s) \<and>
     (\<not> has_closed s \<and> process_connecting s \<longrightarrow> n = 1)"

lemma connectors_simps [simp]:
  "connectors [] = 0"
  "connectors (f # fs) = (if connecting_frame f then 1 else 0) + connectors fs"
  "connectors (fs @ gs) = connectors fs + connectors gs"
  by (simp_all add: connectors_def)

lemma connect_inv_connect_process:
  assumes "connect_inv k s"
  shows "connect_inv (k + connectors [snd (connect_process s)]) (fst (connect_process s))"
  using assms
  by (cases "process_connecting s"; cases "has_closed s")
    (simp_all add: connect_inv_def connect_process_snd)

lemma connecting_relay_loop [simp]: "\<not> connecting_frame (snd (relay_loop d s))"
  by (simp add: relay_loop_snd)

lemma connecting_detect [simp]: "\<not> connecting_frame (snd (detect_process_timeout s))"
  using detect_process_timeout_snd [of s] by auto

lemma connect_inv_weaken:
  "connect_inv k s \<Longrightarrow> process_connecting s' = process_connecting s \<Longrightarrow>
     (has_closed s \<Longrightarrow> has_closed s') \<Longrightarrow> connect_inv k s'"
  by (auto simp: connect_inv_def)

lemma connect_inv_frame [simp]:
  "connect_inv k (s\<lparr>bypass := b\<rparr>) = connect_inv k s"
  "connect_inv k (s\<lparr>eof := b\<rparr>) = connect_inv k s"
  "connect_inv k (sent d c s) = connect_inv k s"
  "connect_inv k (received d bs s) = connect_inv k s"
  "connect_inv k (sent_process bs s) = connect_inv k s"
  "connect_inv k (received_process bs s) = connect_inv k s"
  "connect_inv k (upd_lane d f s) = connect_inv k s"
  "connect_inv k (cancel_timer s) = connect_inv k s"
  "connect_inv k (close_process_socket s) = connect_inv k s"
  by (simp_all add: connect_inv_def)

lemma connect_inv_reconnect_relay:
  assumes "reconnect_relay d s = Inr (s', fr, sp)" "connect_inv k s"
    and "m = k + connectors (fr # sp)"
  shows "connect_inv m s'"
  using assms connect_inv_connect_process [OF assms(2)]
  by (auto simp: reconnect_relay_def continue_relay_def case_prod_unfold split: if_splits
      elim!: connect_inv_weaken)

lemma connect_inv_resume_relay:
  assumes "resume_relay s d pc ev = Inr (s', fr, sp)" "connect_inv k s"
  shows "connect_inv (k + connectors (fr # sp)) s'"
  using assms
  by (cases "(s, d, pc, ev)" rule: resume_relay.cases)
    (auto simp: continue_relay_def case_prod_unfold after_bypass_read_def after_process_read_def
      store_and_send_def Let_def dest!: enable_bypass_state
      split: if_splits option.splits sum.splits bool.splits
      intro: connect_inv_weaken elim!: connect_inv_reconnect_relay)

lemma connect_inv_reader_reconnect:
  assumes "reader_reconnect s = Inr (s', fr, sp)" "connect_inv k s"
    and "m = k + connectors (fr # sp)"
  shows "connect_inv m s'"
  using assms connect_inv_connect_process [OF assms(2)]
  by (auto simp: reader_reconnect_def case_prod_unfold split: if_splits)

lemma connect_inv_reader_flush_client:
  assumes "reader_flush_client s = Inr (s', fr, sp)" "connect_inv k s"
    and "m = k + connectors (fr # sp)"
  shows "connect_inv m s'"
  using assms
  by (auto simp: reader_flush_client_def dest!: enable_bypass_state
      split: sum.splits option.splits intro: connect_inv_weaken
      elim!: connect_inv_reader_reconnect)

lemma connect_inv_reader_fail:
  assumes "reader_fail s = Inr (s', fr, sp)" "connect_inv k s"
    and "m = k + connectors (fr # sp)"
  shows "connect_inv m s'"
  using assms
  by (auto simp: reader_fail_def dest!: enable_bypass_state
      split: sum.splits option.splits if_splits intro: connect_inv_weaken
      elim!: connect_inv_reader_flush_client)

lemma connect_inv_reader_action:
  assumes "reader_action d h pbuf s = Inr (s', fr, sp)" "connect_inv k s"
    and "m = k + connectors (fr # sp)"
  shows "connect_inv m s'"
  using assms
  by (auto simp: reader_action_def Let_def split: sum.splits prod.splits if_splits
      intro: connect_inv_weaken)

lemma connect_inv_reader_transfer:
  assumes "reader_transfer d h pbuf s = Inr (s', fr, sp)" "connect_inv k s"
    and "m = k + connectors (fr # sp)"
  shows "connect_inv m s'"
  using assms by (auto simp: reader_transfer_def split: if_splits elim!: connect_inv_reader_action)

lemma connect_inv_reader_dispatch:
  assumes "reader_dispatch h pbuf s = Inr (s', fr, sp)" "connect_inv k s"
    and "m = k + connectors (fr # sp)"
  shows "connect_inv m s'"
  using assms
  by (auto simp: reader_dispatch_def split: option.splits data_type.splits
      elim!: connect_inv_reader_transfer)

lemmas connect_inv_elims =
  connect_inv_reader_reconnect connect_inv_reader_flush_client connect_inv_reader_fail
  connect_inv_reader_action connect_inv_reader_dispatch connect_inv_reconnect_relay

lemma connect_inv_resume_reader:
  assumes "resume_reader s pc ev = Inr (s', fr, sp)" "connect_inv k s"
  shows "connect_inv (k + connectors (fr # sp)) s'"
  using assms
  by (cases "(s, pc, ev)" rule: resume_reader.cases)
    (auto simp: Let_def pass_done_def split: if_splits sum.splits
      intro: connect_inv_weaken elim!: connect_inv_elims)

lemma connect_inv_resume_connect:
  assumes "resume_connect dump s pc ev = Inr (s', fr, sp)"
    and "connect_inv (k + connectors [Connect pc]) s"
  shows "connect_inv (k + connectors (fr # sp)) s'"
  using assms
  by (cases "(dump, s, pc, ev)" rule: resume_connect.cases)
    (auto simp: Let_def case_prod_unfold connect_loop_snd connect_inv_def of_bool_def
      split: if_splits)

lemma connect_inv_setup_connected:
  assumes "setup_connected srv eps s = Inr (s', fr, sp)" "connect_inv k s"
  shows "connect_inv (k + connectors (fr # sp)) s'"
proof (cases eps)
  case None
  with assms show ?thesis
    by (auto simp: setup_connected_def intro: connect_inv_weaken)
next
  case (Some ep)
  with assms(1) obtain u where u: "process_connecting u = process_connecting s"
      "has_closed u = has_closed s"
    and r: "s' = fst (relay_loop S2C (fst (relay_loop C2S (fst (connect_process u)))))" "fr = Done"
    "sp = [snd (connect_process u), snd (relay_loop C2S (fst (connect_process u))),
       snd (relay_loop S2C (fst (relay_loop C2S (fst (connect_process u)))))]"
    by (metis setup_connectedE)
  have "connect_inv k u"
    using assms(2) u by (auto elim: connect_inv_weaken)
  then have "connect_inv (k + connectors [snd (connect_process u)]) (fst (connect_process u))"
    by (rule connect_inv_connect_process)
  then have "connect_inv (k + connectors [snd (connect_process u)]) s'"
    by (rule connect_inv_weaken) (simp_all add: r(1) del: relay_loop.simps)
  then show ?thesis
    by (simp add: r(2,3) del: relay_loop.simps)
qed

lemma connect_inv_resume_setup:
  assumes "resume_setup s pc ev = Inr (s', fr, sp)" "connect_inv k s"
  shows "connect_inv (k + connectors (fr # sp)) s'"
  using assms connect_inv_setup_connected [of _ _ s s' fr sp k]
  by (cases "(s, pc, ev)" rule: resume_setup.cases) (auto intro: connect_inv_weaken)

lemma connect_inv_resume:
  assumes "resume dump s f ev = Inr (s', fr, sp)" "connect_inv (k + connectors [f]) s"
  shows "connect_inv (k + connectors (fr # sp)) s'"
proof (cases f)
  case (Relay d pc)
  with assms connect_inv_resume_relay [of s d pc ev s' fr sp k] show ?thesis by simp
next
  case (Reader pc)
  with assms connect_inv_resume_reader [of s pc ev s' fr sp k] show ?thesis by simp
next
  case (Connect pc)
  with assms connect_inv_resume_connect [of dump s pc ev s' fr sp k] show ?thesis by simp
next
  case (Detect g)
  with assms show ?thesis
    by (cases "(s, g, ev)" rule: resume_detect.cases)
      (auto simp: case_prod_unfold intro: connect_inv_weaken)
next
  case (Setup pc)
  with assms connect_inv_resume_setup [of s pc ev s' fr sp k] show ?thesis by simp
next
  case Done
  with assms show ?thesis by simp
qed

lemma connect_inv_step:
  assumes "step dump \<sigma> i ev \<sigma>'" "connect_inv (connectors (coros \<sigma>)) (sess \<sigma>)"
  shows "connect_inv (connectors (coros \<sigma>')) (sess \<sigma>')"
  using assms(1)
proof (rule step_resumeE)
  fix s fr sp
  assume i: "i < length (coros \<sigma>)"
    and r: "resume dump (sess \<sigma>) (coros \<sigma> ! i) ev = Inr (s, fr, sp)"
    and \<sigma>': "\<sigma>' = \<lparr>sess = s, coros = (coros \<sigma>)[i := fr] @ sp\<rparr>"
  let ?k = "connectors (take i (coros \<sigma>)) + connectors (drop (Suc i) (coros \<sigma>))"
  have "coros \<sigma> = take i (coros \<sigma>) @ coros \<sigma> ! i # drop (Suc i) (coros \<sigma>)"
    using i by (rule id_take_nth_drop)
  then have "connectors (coros \<sigma>) = ?k + connectors [coros \<sigma> ! i]"
    by (metis add.assoc add.commute connectors_simps append_Cons append_Nil)
  with connect_inv_resume [OF r, of ?k] assms(2)
  have "connect_inv (?k + connectors (fr # sp)) s" by simp
  moreover have "connectors (coros \<sigma>') = ?k + connectors (fr # sp)"
    using i by (simp add: \<sigma>' upd_conv_take_nth_drop)
  moreover have "sess \<sigma>' = s"
    by (simp add: \<sigma>')
  ultimately show ?thesis by metis
qed

lemma reachable_connect_inv:
  "reachable dump \<sigma> \<Longrightarrow> connect_inv (connectors (coros \<sigma>)) (sess \<sigma>)"
proof (induction rule: reachable.induct)
  case init
  show ?case by (simp add: init_system_def new_session_def connect_inv_def)
next
  case (step \<sigma> i ev \<sigma>')
  from connect_inv_step [OF step.hyps(2) step.IH] show ?case .
qed

end
