(* ===== verification/Relay_Invariant.thy ===== *)
theory Relay_Invariant
  imports Session_Connect "HOL-Library.Sublist"
begin

text \<open>
  What is kept of the bytes of one direction while the link to the handler process holds:
  \<open>dir_ok\<close> relates what was read from the source, what was written to the destination,
  the bytes of a bypass write in flight and the stored packets. The relay coroutines
  (\<^verbatim>\<open>client_request\<close> and \<^verbatim>\<open>server_response\<close>) keep it.
\<close>

section \<open>What a direction has received, delivered and keeps\<close>

fun relayed_bytes :: "chunk list \<Rightarrow> byte list" where
  "relayed_bytes [] = []"
| "relayed_bytes (Relayed bs # cs) = bs @ relayed_bytes cs"
| "relayed_bytes (Injected bs # cs) = relayed_bytes cs"

definition delivered :: "dir \<Rightarrow> session \<Rightarrow> byte list" where
  "delivered d s = relayed_bytes (sk_tx (dst_socket d s))"

definition taken :: "dir \<Rightarrow> session \<Rightarrow> byte list" where
  "taken d s = sk_rx (src_socket d s)"

text \<open>Bytes in a bypass write of a relay, and bytes in a pass write of the reader.\<close>

fun bypass_inflight :: "frame \<Rightarrow> byte list" where
  "bypass_inflight (Relay d (R_bypass_write data)) = data"
| "bypass_inflight f = []"

fun pass_inflight :: "dir \<Rightarrow> frame option \<Rightarrow> byte list" where
  "pass_inflight d (Some (Reader (Rd_pass e cnt used out pbuf))) = (if d = e then out else [])"
| "pass_inflight d r = []"

text \<open>A started pass: the packets it covers are still at the front of the deque, clearing
  them succeeds whatever was queued behind, and what the write carries is what goes.\<close>

definition pass_ready :: "lane \<Rightarrow> nat \<Rightarrow> int \<Rightarrow> byte list \<Rightarrow> bool" where
  "pass_ready ln cnt used out \<longleftrightarrow>
     (\<exists>ps qs rest. ln_stored ln = ps @ qs \<and>
        (\<forall>xs. clear_handled_packet (ps @ xs) cnt used = Inr (rest @ xs)) \<and>
        out @ stored_bytes (ln_heap ln) rest = stored_bytes (ln_heap ln) ps \<and>
        (\<forall>p \<in> set rest. packet_ok (ln_heap ln) p))"

fun pass_ok :: "dir \<Rightarrow> session \<Rightarrow> frame option \<Rightarrow> bool" where
  "pass_ok d s (Some (Reader (Rd_pass e cnt used out pbuf))) =
     (d = e \<longrightarrow> pass_ready (lane_of d s) cnt used out)"
| "pass_ok d s r = True"

definition block_ready :: "lane \<Rightarrow> bool" where
  "block_ready ln \<longleftrightarrow> (\<exists>b. current_block ln = Some b \<and> \<not> get_available b < 69)"

fun relay_ok :: "dir \<Rightarrow> session \<Rightarrow> frame \<Rightarrow> bool" where
  "relay_ok d s Done = True"
| "relay_ok d s (Relay e R_process_read) = (d = e \<and> inspects d s \<and> block_ready (lane_of d s))"
| "relay_ok d s (Relay e (R_process_write out)) = (d = e \<and> inspects d s)"
| "relay_ok d s (Relay e (R_flush out)) = False"
| "relay_ok d s (Relay e pc) = (d = e \<and> ln_stored (lane_of d s) = [])"
| "relay_ok d s f = False"

fun processing :: "frame \<Rightarrow> bool" where
  "processing (Relay d R_process_read) = True"
| "processing (Relay d (R_process_write out)) = True"
| "processing f = False"

text \<open>Conservation. Normally delivered, in-flight and stored bytes are together what was
  taken, up to bytes that came with a failed read, after which the relay is over. After
  a failed write the delivered bytes are a prefix of what was taken and stay it: no
  writer of this direction is left that has anything to write.\<close>

definition conserves :: "dir \<Rightarrow> session \<Rightarrow> frame \<Rightarrow> frame option \<Rightarrow> bool" where
  "conserves d s f r \<longleftrightarrow>
     (\<exists>lost. delivered d s @ bypass_inflight f @ lane_bytes (lane_of d s) @ lost = taken d s \<and>
        (lost \<noteq> [] \<longrightarrow> f = Done \<and> has_closed s)) \<or>
     prefix (delivered d s) (taken d s) \<and> has_closed s \<and>
       (f = Done \<and> ln_stored (lane_of d s) = [] \<or>
        r = Some Done \<and> inspects d s \<and> (f = Done \<or> processing f))"

definition dir_ok :: "dir \<Rightarrow> session \<Rightarrow> frame \<Rightarrow> frame option \<Rightarrow> bool" where
  "dir_ok d s f r \<longleftrightarrow>
     lane_ok (lane_of d s) \<and> (\<not> inspects d s \<longrightarrow> ln_stored (lane_of d s) = []) \<and>
     relay_ok d s f \<and> pass_ok d s r \<and> conserves d s f r \<and>
     (r \<noteq> Some Done \<longrightarrow>
        unat (ln_handled (lane_of d s)) + length (lane_bytes (lane_of d s))
          \<le> length (taken d s) + length (pass_inflight d r))"

section \<open>Facts\<close>

lemma relayed_bytes_append [simp]: "relayed_bytes (cs @ ds) = relayed_bytes cs @ relayed_bytes ds"
  by (induction cs rule: relayed_bytes.induct) auto

lemma conserves_prefix: "conserves d s f r \<Longrightarrow> prefix (delivered d s) (taken d s)"
  unfolding conserves_def prefix_def by metis

lemma conserves_open:
  "conserves d s f r \<Longrightarrow> \<not> has_closed s \<Longrightarrow>
     delivered d s @ bypass_inflight f @ lane_bytes (lane_of d s) = taken d s"
  by (auto simp: conserves_def)

text \<open>What a coroutine of one direction leaves alone.\<close>

definition untouched :: "dir \<Rightarrow> session \<Rightarrow> session \<Rightarrow> bool" where
  "untouched d s s' \<longleftrightarrow>
     lane_of d s' = lane_of d s \<and> taken d s' = taken d s \<and> delivered d s' = delivered d s \<and>
     bypass s' = bypass s \<and> response_bypass s' = response_bypass s \<and>
     (has_closed s \<longrightarrow> has_closed s')"

lemma untouched_inspects: "untouched d s s' \<Longrightarrow> inspects e s' = inspects e s"
  by (simp add: untouched_def inspects_def)

lemma untouched_ok:
  assumes "untouched d s s'"
  shows "relay_ok d s' f = relay_ok d s f" and "pass_ok d s' r = pass_ok d s r"
  using assms untouched_inspects [OF assms]
  by (cases "(d, s, f)" rule: relay_ok.cases; simp add: untouched_def)
    (cases "(d, s, r)" rule: pass_ok.cases; use assms in \<open>auto simp: untouched_def\<close>)

lemma untouched_dir_ok:
  assumes u: "untouched d s s'" and ok: "dir_ok d s f r"
  shows "dir_ok d s' f r"
proof -
  have "conserves d s' f r"
    using ok u untouched_inspects [OF u] by (auto simp: dir_ok_def conserves_def untouched_def)
  with ok u untouched_inspects [OF u] untouched_ok [OF u] show ?thesis
    by (simp add: dir_ok_def untouched_def)
qed

lemma pass_ready_grows:
  assumes "pass_ready ln cnt used out" "\<forall>p \<in> set (ln_stored ln). packet_ok (ln_heap ln) p"
    and "heap_grows (ln_heap ln) (ln_heap ln')" "ln_stored ln' = ln_stored ln @ new"
  shows "pass_ready ln' cnt used out"
proof -
  obtain ps qs rest where st: "ln_stored ln = ps @ qs"
    and c: "\<forall>xs. clear_handled_packet (ps @ xs) cnt used = Inr (rest @ xs)"
    and b: "out @ stored_bytes (ln_heap ln) rest = stored_bytes (ln_heap ln) ps"
    and p: "\<forall>p \<in> set rest. packet_ok (ln_heap ln) p"
    using assms(1) by (auto simp: pass_ready_def)
  have "\<forall>p \<in> set ps. packet_ok (ln_heap ln) p" using assms(2) st by simp
  from heap_grows_stored(2) [OF assms(3) this] heap_grows_stored [OF assms(3) p] b
  show ?thesis
    unfolding pass_ready_def using st c assms(4)
    by (intro exI [of _ ps] exI [of _ "qs @ new"] exI [of _ rest]) simp
qed

lemma clear_shrinks: "clear_handled_packet ps cnt used = Inr rest \<Longrightarrow> length rest \<le> length ps"
proof -
  have "pop_packets ps n = Inr xs \<Longrightarrow> length xs \<le> length ps" for n xs
    by (induction ps n rule: pop_packets.induct) auto
  then show "clear_handled_packet ps cnt used = Inr rest \<Longrightarrow> length rest \<le> length ps"
    by (fastforce simp: clear_handled_packet_def split: sum.splits list.splits if_splits)
qed

lemma pass_ready_prefix:
  assumes "pass_ready ln cnt used out"
  obtains rest where "clear_handled_packet (ln_stored ln) cnt used = Inr rest"
    "lane_bytes ln = out @ stored_bytes (ln_heap ln) rest"
    "length rest \<le> length (ln_stored ln)"
    "(\<forall>p \<in> set (ln_stored ln). packet_ok (ln_heap ln) p) \<Longrightarrow>
       \<forall>p \<in> set rest. packet_ok (ln_heap ln) p"
proof -
  obtain ps qs rest where st: "ln_stored ln = ps @ qs"
    and c: "clear_handled_packet (ps @ qs) cnt used = Inr (rest @ qs)"
    and b: "out @ stored_bytes (ln_heap ln) rest = stored_bytes (ln_heap ln) ps"
    and p: "\<forall>p \<in> set rest. packet_ok (ln_heap ln) p"
    using assms by (auto simp: pass_ready_def)
  show thesis
    using st c b p clear_shrinks [OF c]
    by (intro that [of "rest @ qs"]) (auto simp: lane_bytes_def b [symmetric])
qed


lemma prepare_block_grows:
  assumes "lane_ok ln"
  shows "heap_grows (ln_heap ln) (ln_heap (prepare_block ln))"
proof -
  have "ln_heap ln (ln_next ln) = None"
    using assms by (cases "ln_heap ln (ln_next ln)") (auto simp: lane_ok_def heap_ok_def)
  then show ?thesis
    by (auto simp: prepare_block_def Let_def heap_grows_def split: option.splits)
qed

lemma untouched_simps [simp]:
  "untouched d s s"
  "untouched d s (grace_close s)" "untouched d s (s\<lparr>eof := b\<rparr>)"
  "untouched d s (sent_process bs s)" "untouched d s (received_process bs s)"
  "untouched d s (cancel_timer s)" "untouched d s (close_process_socket s)"
  "d \<noteq> e \<Longrightarrow> untouched d s (received e bs s)"
  "d \<noteq> e \<Longrightarrow> untouched d s (sent e c s)"
  "d \<noteq> e \<Longrightarrow> untouched d s (upd_lane e f s)"
  "untouched d s (sent e (Injected bs) s)"
  "d \<noteq> e \<Longrightarrow> untouched d s (fst (relay_loop e s))"
  "untouched d s (fst (connect_loop s))" "untouched d s (fst (detect_process_timeout s))"
  by (auto simp: untouched_def taken_def delivered_def relay_loop_lane simp del: relay_loop.simps)

lemma untouched_trans: "untouched d s t \<Longrightarrow> untouched d t u \<Longrightarrow> untouched d s u"
  by (simp add: untouched_def)

definition loop_ok :: "dir \<Rightarrow> session \<Rightarrow> frame option \<Rightarrow> bool" where
  "loop_ok d s r \<longleftrightarrow>
     lane_ok (lane_of d s) \<and> (\<not> inspects d s \<longrightarrow> ln_stored (lane_of d s) = []) \<and>
     pass_ok d s r \<and> conserves d s (Relay d R_process_read) r \<and>
     (r \<noteq> Some Done \<longrightarrow>
        unat (ln_handled (lane_of d s)) + length (lane_bytes (lane_of d s))
          \<le> length (taken d s) + length (pass_inflight d r))"

lemma loop_ok_untouched: "untouched d s s' \<Longrightarrow> loop_ok d s r \<Longrightarrow> loop_ok d s' r"
  using untouched_inspects [of d s s'] untouched_ok(2) [of d s s' r]
  by (auto simp: loop_ok_def untouched_def conserves_def)

lemma pass_ok_lane:
  assumes "pass_ok d s r" "lane_ok (lane_of d s)"
    and "heap_grows (ln_heap (lane_of d s)) (ln_heap (lane_of d s'))"
    and "ln_stored (lane_of d s') = ln_stored (lane_of d s) @ new"
  shows "pass_ok d s' r"
  using assms
  by (cases "(d, s, r)" rule: pass_ok.cases) (auto simp: lane_ok_def intro: pass_ready_grows)

lemma conserves_exact:
  "delivered d s @ bypass_inflight f @ lane_bytes (lane_of d s) = taken d s \<Longrightarrow> conserves d s f r"
  unfolding conserves_def by (intro disjI1 exI [of _ "[]"]) simp

lemma conserves_loop_iff:
  "conserves d s (Relay d R_process_read) r \<longleftrightarrow>
     delivered d s @ lane_bytes (lane_of d s) = taken d s \<or>
     prefix (delivered d s) (taken d s) \<and> has_closed s \<and> r = Some Done \<and> inspects d s"
  by (auto simp: conserves_def)

lemma loop_ok_continue:
  assumes ok: "loop_ok d s r"
  shows "dir_ok d (fst (relay_loop d s)) (snd (relay_loop d s)) r"
proof -
  let ?s = "fst (relay_loop d s)" and ?ln = "lane_of d s"
  have io: "taken d ?s = taken d s" "delivered d ?s = delivered d s" "inspects d ?s = inspects d s"
    by (simp_all add: taken_def delivered_def inspects_def del: relay_loop.simps)
  have ln: "lane_ok ?ln"
    using ok by (simp add: loop_ok_def)
  note pb = prepare_block_spec [OF ln]
  consider "eof s" | "\<not> eof s" "inspects d s" | "\<not> eof s" "\<not> inspects d s" by blast
  then show ?thesis
  proof cases
    case 1
    have lane: "lane_of d ?s = ?ln" and cl: "has_closed ?s" and fr: "snd (relay_loop d s) = Done"
      using 1 by (simp_all add: relay_loop_lane relay_loop_snd del: relay_loop.simps)
    have "pass_ok d ?s r"
      using ok lane by (intro pass_ok_lane [of d s r ?s "[]"]) (simp_all add: loop_ok_def)
    moreover have "conserves d ?s Done r"
      using ok io lane cl conserves_exact [of d ?s Done r]
      unfolding loop_ok_def conserves_loop_iff by (auto simp: conserves_def)
    ultimately show ?thesis
      using ok io lane fr by (simp add: dir_ok_def loop_ok_def)
  next
    case 2
    have "pass_ok d ?s r"
      using ok 2 pb prepare_block_grows [OF ln]
      by (intro pass_ok_lane [of d s r ?s "[]"])
        (auto simp: loop_ok_def relay_loop_lane simp del: relay_loop.simps)
    with ok 2 io pb show ?thesis
      by (auto simp: dir_ok_def loop_ok_def conserves_def relay_loop_snd relay_loop_lane
          block_ready_def simp del: relay_loop.simps)
  next
    case 3
    have "pass_ok d ?s r"
      using ok 3 by (intro pass_ok_lane [of d s r ?s "[]"])
        (auto simp: loop_ok_def relay_loop_lane simp del: relay_loop.simps)
    with ok 3 io show ?thesis
      by (auto simp: dir_ok_def loop_ok_def conserves_def relay_loop_snd relay_loop_lane
          simp del: relay_loop.simps)
  qed
qed


section \<open>The relays keep the invariant\<close>

lemma received_io [simp]:
  "taken e (received d bs s) = taken e s @ (if d = e then bs else [])"
  "delivered e (received d bs s) = delivered e s"
  "taken e (sent d c s) = taken e s"
  "delivered e (sent d c s) = delivered e s @ (if d = e then relayed_bytes [c] else [])"
  "inspects e (received d bs s) = inspects e s" "inspects e (sent d c s) = inspects e s"
  "inspects e (s\<lparr>eof := b\<rparr>) = inspects e s"
  "taken e (s\<lparr>eof := b\<rparr>) = taken e s" "delivered e (s\<lparr>eof := b\<rparr>) = delivered e s"
  "inspects e (upd_lane d f s) = inspects e s"
  "taken e (upd_lane d f s) = taken e s" "delivered e (upd_lane d f s) = delivered e s"
  "inspects e (grace_close s) = inspects e s"
  "taken e (grace_close s) = taken e s" "delivered e (grace_close s) = delivered e s"
  "inspects e (sent_process bs s) = inspects e s"
  "taken e (sent_process bs s) = taken e s" "delivered e (sent_process bs s) = delivered e s"
  by (auto simp: taken_def delivered_def inspects_def)

lemma store_step:
  assumes ok: "dir_ok d s (Relay d R_process_read) r" and len: "length data \<le> read_room (lane_of d s)"
    and t: "t = received d data s \<or> t = (received d data s)\<lparr>eof := True\<rparr>"
  shows "\<exists>s' out. store_and_send d data t = Inr (s', Relay d (R_process_write out), []) \<and>
    dir_ok d s' (Relay d (R_process_write out)) r \<and> (\<forall>e. e \<noteq> d \<longrightarrow> untouched e s s')"
proof -
  let ?ln = "lane_of d s"
  have lt: "lane_of d t = ?ln" "inspects d t = inspects d s" "taken d t = taken d s @ data"
    "delivered d t = delivered d s" "has_closed t = has_closed s"
    using t by auto
  have ln: "lane_ok ?ln"
    using ok by (simp add: dir_ok_def)
  obtain b where b: "current_block ?ln = Some b" "\<not> get_available b < 69"
    using ok by (auto simp: dir_ok_def block_ready_def)
  obtain ln' pk out where st: "store_packet (dir_type d) data ?ln = Inr (ln', out)"
    and ln': "lane_ok ln'" "lane_bytes ln' = lane_bytes ?ln @ data"
      "ln_stored ln' = ln_stored ?ln @ [pk]" "heap_grows (ln_heap ?ln) (ln_heap ln')"
      "ln_handled ln' = ln_handled ?ln"
    using store_packet_spec [OF ln b len, of "dir_type d"] by blast
  let ?s = "upd_lane d (\<lambda>_. ln') t"
  have "pass_ok d s r" using ok by (simp add: dir_ok_def)
  then have "pass_ok d ?s r"
    using ln ln' lt by (intro pass_ok_lane [of d s r ?s "[pk]"]) simp_all
  moreover have "conserves d ?s (Relay d (R_process_write out)) r"
  proof -
    have "delivered d s @ lane_bytes ?ln = taken d s \<or>
        prefix (delivered d s) (taken d s) \<and> has_closed s \<and> r = Some Done \<and> inspects d s"
      using ok by (auto simp: dir_ok_def conserves_loop_iff)
    then show ?thesis
    proof
      assume "delivered d s @ lane_bytes ?ln = taken d s"
      then show ?thesis
        using lt ln' by (intro conserves_exact) simp
    next
      assume "prefix (delivered d s) (taken d s) \<and> has_closed s \<and> r = Some Done \<and> inspects d s"
      then show ?thesis
        using lt by (simp add: conserves_def)
    qed
  qed
  ultimately have "dir_ok d ?s (Relay d (R_process_write out)) r"
    using ok ln' lt by (simp add: dir_ok_def)
  moreover have "\<forall>e. e \<noteq> d \<longrightarrow> untouched e s ?s"
    using t by (auto simp: untouched_def)
  moreover have "store_and_send d data t = Inr (?s, Relay d (R_process_write out), [])"
    using st lt by (simp add: store_and_send_def)
  ultimately show ?thesis by blast
qed

lemma untouched_both:
  assumes "\<forall>e. e \<noteq> d \<longrightarrow> untouched e s t" "e \<noteq> d"
  shows "untouched e s (fst (relay_loop d t))"
  using assms by (metis untouched_simps(12) untouched_trans)

lemma continue_step:
  assumes "loop_ok d t r" "\<forall>e. e \<noteq> d \<longrightarrow> untouched e s t"
  shows "\<exists>s' f. continue_relay d [] t = Inr (s', f, []) \<and> dir_ok d s' f r \<and>
    (\<forall>e. e \<noteq> d \<longrightarrow> untouched e s s')"
  using loop_ok_continue [OF assms(1)] untouched_both [OF assms(2)]
  by (auto simp: continue_relay_def case_prod_unfold simp del: relay_loop.simps)

text \<open>A relay that stops on a failed read or write of its own.\<close>

lemma stop_step:
  assumes ok: "dir_ok d s (Relay d pc) r"
    and t: "lane_of d t = lane_of d s" "inspects d t = inspects d s"
      "length (taken d s) \<le> length (taken d t)"
    and c: "conserves d (grace_close t) Done r"
  shows "dir_ok d (grace_close t) Done r"
proof -
  have "pass_ok d (grace_close t) r"
    using ok t(1) by (intro pass_ok_lane [of d s r "grace_close t" "[]"]) (simp_all add: dir_ok_def)
  moreover have "lane_ok (lane_of d s) \<and> (\<not> inspects d s \<longrightarrow> ln_stored (lane_of d s) = []) \<and>
      (r \<noteq> Some Done \<longrightarrow>
        unat (ln_handled (lane_of d s)) + length (lane_bytes (lane_of d s))
          \<le> length (taken d s) + length (pass_inflight d r))"
    using ok unfolding dir_ok_def by blast
  ultimately show ?thesis
    using t c unfolding dir_ok_def by auto
qed

lemma lane_bytes_Nil: "ln_stored ln = [] \<Longrightarrow> lane_bytes ln = []"
  by (simp add: lane_bytes_def)

lemma bypass_read_step:
  assumes ok: "dir_ok d s (Relay d R_bypass_read) r" and io: "read_some room ev"
  shows "\<exists>s' f. resume_relay s d R_bypass_read ev = Inr (s', f, []) \<and> dir_ok d s' f r \<and>
    (\<forall>e. e \<noteq> d \<longrightarrow> untouched e s s')"
proof -
  have empty: "ln_stored (lane_of d s) = []" "lane_bytes (lane_of d s) = []"
    and same: "delivered d s = taken d s"
    using ok by (auto simp: dir_ok_def conserves_def lane_bytes_def)
  have wr: "dir_ok d t (Relay d (R_bypass_write bs)) r"
    if t: "t = received d bs s \<or> t = (received d bs s)\<lparr>eof := True\<rparr>" for t bs
  proof -
    have "pass_ok d t r"
      using ok t by (intro pass_ok_lane [of d s r t "[]"]) (auto simp: dir_ok_def)
    moreover have "conserves d t (Relay d (R_bypass_write bs)) r"
      using t empty same by (intro conserves_exact) auto
    ultimately show ?thesis
      using ok t empty by (auto simp: dir_ok_def)
  qed
  from io show ?thesis
  proof (cases rule: read_someE)
    case (ok bs)
    with wr [of "received d bs s" bs] show ?thesis
      by (simp add: after_bypass_read_def)
  next
    case (eof bs)
    show ?thesis
    proof (cases "bs = []")
      case True
      have "loop_ok d ((received d bs s)\<lparr>eof := True\<rparr>) r"
        using wr [of "(received d bs s)\<lparr>eof := True\<rparr>" bs] True empty same
        by (auto simp: dir_ok_def loop_ok_def intro: conserves_exact)
      with continue_step [OF this, of s] show ?thesis
        using True eof by (simp add: after_bypass_read_def untouched_def)
    next
      case False
      with wr [of "(received d bs s)\<lparr>eof := True\<rparr>" bs] eof show ?thesis
        by (auto simp: after_bypass_read_def untouched_def)
    qed
  next
    case (error n bs)
    have "conserves d (grace_close (received d bs s)) Done r"
      using empty same by (auto simp: conserves_def)
    then have "dir_ok d (grace_close (received d bs s)) Done r"
      using ok by (intro stop_step [OF ok]) simp_all
    with error show ?thesis
      by (auto simp: after_bypass_read_def untouched_def)
  qed
qed


lemma bypass_write_step:
  assumes ok: "dir_ok d s (Relay d (R_bypass_write data)) r" and io: "wrote data ev"
  shows "\<exists>s' f. resume_relay s d (R_bypass_write data) ev = Inr (s', f, []) \<and> dir_ok d s' f r \<and>
    (\<forall>e. e \<noteq> d \<longrightarrow> untouched e s s')"
proof -
  have empty: "ln_stored (lane_of d s) = []" "lane_bytes (lane_of d s) = []"
    and same: "delivered d s @ data = taken d s"
    using ok by (auto simp: dir_ok_def conserves_def lane_bytes_def)
  from io show ?thesis
  proof (cases rule: wroteE)
    case ok
    let ?t = "sent d (Relayed data) s"
    have "pass_ok d s r"
      using assms(1) by (simp add: dir_ok_def)
    then have "pass_ok d ?t r"
      using assms(1) by (intro pass_ok_lane [of d s r ?t "[]"]) (auto simp: dir_ok_def)
    then have "loop_ok d ?t r"
      using assms(1) empty same by (auto simp: dir_ok_def loop_ok_def intro!: conserves_exact)
    from continue_step [OF this, of s] ok show ?thesis by simp
  next
    case (error e n)
    let ?t = "sent d (Relayed (take n data)) s"
    have "prefix (delivered d s @ take n data) (taken d s)"
      unfolding same [symmetric] by (simp add: take_is_prefix)
    then have "conserves d (grace_close ?t) Done r"
      using empty by (simp add: conserves_def)
    then have "dir_ok d (grace_close ?t) Done r"
      by (intro stop_step [OF ok]) simp_all
    moreover have "\<forall>e. e \<noteq> d \<longrightarrow> untouched e s (grace_close ?t)"
      by (auto simp: untouched_def)
    ultimately show ?thesis
      using error by simp
  qed
qed

lemma head_write_step:
  assumes ok: "dir_ok d s (Relay d R_head_write) r" and io: "wrote out ev"
  shows "\<exists>s' f. resume_relay s d R_head_write ev = Inr (s', f, []) \<and> dir_ok d s' f r \<and>
    (\<forall>e. e \<noteq> d \<longrightarrow> untouched e s s')"
proof -
  have "dir_ok d s (Relay d R_bypass_read) r"
    using ok by (simp add: dir_ok_def conserves_def)
  then have "dir_ok d (sent_process bs s) (Relay d R_bypass_read) r" for bs
    by (rule untouched_dir_ok [rotated]) simp
  with io show ?thesis by (elim wroteE) auto
qed

lemma process_read_step:
  assumes ok: "dir_ok d s (Relay d R_process_read) r"
    and io: "read_some (read_room (lane_of d s)) ev"
  shows "\<exists>s' f. resume_relay s d R_process_read ev = Inr (s', f, []) \<and> dir_ok d s' f r \<and>
    (\<forall>e. e \<noteq> d \<longrightarrow> untouched e s s')"
  using io
proof (cases rule: read_someE)
  case (ok bs)
  with store_step [OF assms(1), of bs "received d bs s"] show ?thesis
    by (auto simp: after_process_read_def)
next
  case (eof bs)
  show ?thesis
  proof (cases "bs = []")
    case True
    let ?t = "(received d bs s)\<lparr>eof := True\<rparr>"
    have "pass_ok d s r" using ok by (simp add: dir_ok_def)
    then have "pass_ok d ?t r"
      using ok by (intro pass_ok_lane [of d s r ?t "[]"]) (auto simp: dir_ok_def)
    then have "loop_ok d ?t r"
      using ok True by (auto simp: dir_ok_def loop_ok_def conserves_loop_iff)
    with continue_step [OF this, of s] show ?thesis
      using True eof by (simp add: after_process_read_def untouched_def)
  next
    case False
    with store_step [OF ok eof(2), of "(received d bs s)\<lparr>eof := True\<rparr>"] eof show ?thesis
      by (auto simp: after_process_read_def)
  qed
next
  case (error n bs)
  let ?t = "received d bs s"
  have "delivered d s @ lane_bytes (lane_of d s) = taken d s \<or>
      prefix (delivered d s) (taken d s) \<and> has_closed s \<and> r = Some Done \<and> inspects d s"
    using ok by (auto simp: dir_ok_def conserves_loop_iff)
  then have "conserves d (grace_close ?t) Done r"
  proof
    assume "delivered d s @ lane_bytes (lane_of d s) = taken d s"
    then have "delivered d s @ lane_bytes (lane_of d s) @ bs = taken d s @ bs"
      by (metis append.assoc)
    then show ?thesis
      unfolding conserves_def by (intro disjI1 exI [of _ bs]) simp
  next
    assume "prefix (delivered d s) (taken d s) \<and> has_closed s \<and> r = Some Done \<and> inspects d s"
    then show ?thesis
      by (simp add: conserves_def)
  qed
  then have "dir_ok d (grace_close ?t) Done r"
    by (intro stop_step [OF ok]) simp_all
  moreover have "\<forall>e. e \<noteq> d \<longrightarrow> untouched e s (grace_close ?t)"
    by (auto simp: untouched_def)
  ultimately show ?thesis
    using error by (simp add: after_process_read_def)
qed

lemma process_write_step:
  assumes ok: "dir_ok d s (Relay d (R_process_write out)) r"
  shows "\<exists>s' f. resume_relay s d (R_process_write out) (Write_done None n) = Inr (s', f, []) \<and>
    dir_ok d s' f r \<and> (\<forall>e. e \<noteq> d \<longrightarrow> untouched e s s')"
proof -
  have "loop_ok d s r"
    using ok by (auto simp: dir_ok_def loop_ok_def conserves_def)
  then have "loop_ok d (sent_process out s) r"
    by (rule loop_ok_untouched [rotated]) simp
  from continue_step [OF this, of s] show ?thesis by simp
qed

lemma relay_step:
  assumes ok: "dir_ok d s (Relay d pc) r" and io: "io_relay s d pc ev"
    and link: "\<And>out. pc = R_process_write out \<Longrightarrow> \<exists>n. ev = Write_done None n"
  shows "\<exists>s' f. resume_relay s d pc ev = Inr (s', f, []) \<and> dir_ok d s' f r \<and>
    (\<forall>e. e \<noteq> d \<longrightarrow> untouched e s s')"
proof (cases pc)
  case (R_process_write out)
  with link obtain n where "ev = Write_done None n" by blast
  with process_write_step [OF ok [unfolded R_process_write], of n] R_process_write
  show ?thesis by simp
next
  case (R_flush out)
  with ok show ?thesis by (simp add: dir_ok_def)
next
  case R_head_write
  then show ?thesis using head_write_step ok io by simp
next
  case R_bypass_read
  then show ?thesis using bypass_read_step ok io by simp
next
  case (R_bypass_write data)
  then show ?thesis using bypass_write_step ok io by simp
next
  case R_process_read
  then show ?thesis using process_read_step ok io by simp
qed

end
