(* ===== verification/Reader_Invariant.thy ===== *)
theory Reader_Invariant
  imports Relay_Invariant
begin

text \<open>
  The reader of verdicts (\<^verbatim>\<open>process_2proxy_2client_or_2server\<close>) keeps \<open>dir_ok\<close> of both
  directions, whatever the relays do between its suspensions.
\<close>

section \<open>The reader keeps the invariant\<close>

fun reader_ok :: "frame \<Rightarrow> bool" where
  "reader_ok (Reader (Rd_flush_server out)) = False"
| "reader_ok (Reader (Rd_flush_client out)) = False"
| "reader_ok (Reader pc) = True"
| "reader_ok Done = True"
| "reader_ok f = False"

fun passing :: "frame \<Rightarrow> bool" where
  "passing (Reader (Rd_pass d cnt used out pbuf)) = True"
| "passing f = False"

lemma not_passing [simp]:
  "\<not> passing r \<Longrightarrow> pass_inflight d (Some r) = []" "\<not> passing r \<Longrightarrow> pass_ok d s (Some r)"
  by (cases "(d, Some r)" rule: pass_inflight.cases; simp)
    (cases "(d, s, Some r)" rule: pass_ok.cases; simp)

lemma dir_ok_swap:
  assumes "dir_ok d s f (Some r)" "r \<noteq> Done" "pass_inflight d (Some r) = []"
    and "pass_inflight d (Some r') = []" "pass_ok d s (Some r')"
  shows "dir_ok d s f (Some r')"
  using assms by (auto simp: dir_ok_def conserves_def)

lemma dir_ok_enter:
  assumes "\<forall>d. dir_ok d s (fr d) (Some r)" "r \<noteq> Done" "\<not> passing r" "\<not> passing r'"
  shows "\<forall>d. dir_ok d s (fr d) (Some r')"
  using assms by (auto intro: dir_ok_swap)

lemma all_untouched:
  assumes "\<forall>d. dir_ok d s (fr d) r" "\<And>d. untouched d s t"
  shows "\<forall>d. dir_ok d t (fr d) r"
  using assms untouched_dir_ok by blast

definition verdict_ok :: "dir \<Rightarrow> session \<Rightarrow> response_head \<Rightarrow> bool" where
  "verdict_ok d s head \<longleftrightarrow>
     unat (ln_handled (lane_of d s)) \<le> unat (rh_handled_total_pkg_len head)"

definition short_history :: "session \<Rightarrow> bool" where
  "short_history s \<longleftrightarrow>
     length (taken C2S s) < 18446744073709551616 \<and> length (taken S2C s) < 18446744073709551616"

lemma short_history_iff:
  "short_history s \<longleftrightarrow> (\<forall>d. length (taken d s) < 18446744073709551616)"
  unfolding short_history_def by (metis dir.exhaust)

lemma handled_frame [simp]:
  "lane_ok (ln\<lparr>ln_handled := h\<rparr>) = lane_ok ln" "lane_bytes (ln\<lparr>ln_handled := h\<rparr>) = lane_bytes ln"
  "pass_ready (ln\<lparr>ln_handled := h\<rparr>) cnt used out = pass_ready ln cnt used out"
  "block_ready (ln\<lparr>ln_handled := h\<rparr>) = block_ready ln"
  by (simp_all add: lane_ok_def lane_bytes_def pass_ready_def block_ready_def current_block_def
      split: option.splits)

lemma reader_pass_step:
  assumes ok: "\<forall>e. dir_ok e s (fr e) (Some r)" and r: "r \<noteq> Done" "\<not> passing r"
    and v: "verdict_ok d s head" and h: "short_history s"
    and act: "rh_act head \<noteq> action_byte Block"
  shows "\<exists>s' r'. reader_action d head pbuf s = Inr (s', r', []) \<and> reader_ok r' \<and>
    (\<forall>e. dir_ok e s' (fr e) (Some r'))"
proof -
  let ?ln = "lane_of d s"
  have d: "dir_ok d s (fr d) (Some r)" using ok by blast
  then have ln: "lane_ok ?ln"
    and bound: "unat (ln_handled ?ln) + length (lane_bytes ?ln) \<le> length (taken d s)"
    using r by (simp_all add: dir_ok_def)
  have "unat (ln_handled ?ln) + length (lane_bytes ?ln) < 18446744073709551616"
    using bound h unfolding short_history_iff by (meson le_less_trans)
  from prepare_clear_spec [OF ln v [unfolded verdict_ok_def] this]
  obtain bufs handled' n used rest k where
    prep: "prepare_transfer_packet head (ln_stored ?ln) (ln_handled ?ln) = (bufs, handled', n, int used)"
    and g: "gather (ln_heap ?ln) bufs = Inr (take k (lane_bytes ?ln))"
    and c: "\<forall>qs. clear_handled_packet (ln_stored ?ln @ qs) n (int used) = Inr (rest @ qs)"
    and left: "stored_bytes (ln_heap ?ln) rest = drop k (lane_bytes ?ln)"
    and rest: "\<forall>p \<in> set rest. packet_ok (ln_heap ?ln) p"
    and handled': "unat handled' + used = unat (ln_handled ?ln) + min k (length (lane_bytes ?ln))"
    by blast
  let ?out = "take k (lane_bytes ?ln)" and ?s = "upd_lane d (\<lambda>l. l\<lparr>ln_handled := handled'\<rparr>) s"
  let ?r = "Reader (Rd_pass d n (int used) ?out pbuf)"
  have ready: "pass_ready ?ln n (int used) ?out"
    unfolding pass_ready_def
    by (intro exI [of _ "ln_stored ?ln"] exI [of _ "[]"] exI [of _ rest])
      (use c left rest in \<open>simp add: lane_bytes_def\<close>)
  have "dir_ok e ?s (fr e) (Some ?r)" for e
  proof (cases "e = d")
    case True
    have "relay_ok d ?s (fr d)"
      using d by (cases "(d, s, fr d)" rule: relay_ok.cases) (simp_all add: dir_ok_def)
    moreover have "conserves d s (fr d) (Some r)" using d by (simp add: dir_ok_def)
    then have "conserves d ?s (fr d) (Some ?r)"
      using r(1) by (simp add: conserves_def)
    moreover have "unat handled' + length (lane_bytes ?ln) \<le> length (taken d s) + length ?out"
      using handled' bound by simp
    moreover have "lane_ok ?ln \<and> (\<not> inspects d s \<longrightarrow> ln_stored ?ln = [])"
      using d by (simp add: dir_ok_def)
    ultimately have "dir_ok d ?s (fr d) (Some ?r)"
      unfolding dir_ok_def using ready by simp
    with True show ?thesis by simp
  next
    case False
    then have "untouched e s ?s" by simp
    from untouched_dir_ok [OF this, of "fr e" "Some r"] ok have "dir_ok e ?s (fr e) (Some r)" by blast
    then show ?thesis
      by (rule dir_ok_swap [OF _ r(1)]) (use r False in simp_all)
  qed
  moreover have "reader_action d head pbuf s = Inr (?s, ?r, [])"
    using act g unfolding reader_action_def Let_def prep by simp
  ultimately show ?thesis by auto
qed

lemma reader_action_step:
  assumes ok: "\<forall>e. dir_ok e s (fr e) (Some r)" and r: "r \<noteq> Done" "\<not> passing r"
    and v: "verdict_ok d s head" and h: "short_history s"
  shows "\<exists>s' r'. reader_action d head pbuf s = Inr (s', r', []) \<and> reader_ok r' \<and>
    (\<forall>e. dir_ok e s' (fr e) (Some r'))"
proof (cases "rh_act head = action_byte Block")
  case True
  have "\<forall>e. dir_ok e (grace_close s) (fr e) (Some Done)"
    using dir_ok_enter [OF ok r, of Done] by (rule all_untouched) simp_all
  with True show ?thesis by (auto simp: reader_action_def)
next
  case False
  from reader_pass_step [OF ok r v h False] show ?thesis .
qed


lemma inflight_empty_store:
  "relay_ok d s f \<Longrightarrow> bypass_inflight f \<noteq> [] \<Longrightarrow> ln_stored (lane_of d s) = []"
  by (cases "(d, s, f)" rule: relay_ok.cases) auto

lemma not_done_not_processing:
  "relay_ok d s f \<Longrightarrow> ln_stored (lane_of d s) \<noteq> [] \<Longrightarrow> f = Done \<or> processing f"
  by (cases "(d, s, f)" rule: relay_ok.cases) auto

lemma relay_ok_shrink:
  assumes "relay_ok d s f" "inspects d s' = inspects d s"
    and "block_ready (lane_of d s) \<Longrightarrow> block_ready (lane_of d s')"
    and "ln_stored (lane_of d s) = [] \<Longrightarrow> ln_stored (lane_of d s') = []"
  shows "relay_ok d s' f"
  using assms by (cases "(d, s, f)" rule: relay_ok.cases) auto

lemma pass_done_step:
  assumes ok: "dir_ok d s f (Some (Reader (Rd_pass d cnt used out pbuf)))"
  shows "\<exists>s'. pass_done d cnt used pbuf (sent d (Relayed out) s) = Inr (s', Reader (Rd_head pbuf), []) \<and>
    dir_ok d s' f (Some (Reader (Rd_head pbuf))) \<and> (\<forall>e. e \<noteq> d \<longrightarrow> untouched e s s')"
proof -
  let ?ln = "lane_of d s"
  have "pass_ready ?ln cnt used out" using ok by (simp add: dir_ok_def)
  then obtain rest where c: "clear_handled_packet (ln_stored ?ln) cnt used = Inr rest"
    and bytes: "lane_bytes ?ln = out @ stored_bytes (ln_heap ?ln) rest"
    and short: "length rest \<le> length (ln_stored ?ln)"
    and rest: "(\<forall>p \<in> set (ln_stored ?ln). packet_ok (ln_heap ?ln) p) \<Longrightarrow>
       \<forall>p \<in> set rest. packet_ok (ln_heap ?ln) p"
    by (erule pass_ready_prefix)
  let ?left = "stored_bytes (ln_heap ?ln) rest"
  let ?s = "upd_lane d (\<lambda>l. l\<lparr>ln_stored := rest\<rparr>) (sent d (Relayed out) s)"
  have rel: "relay_ok d s f" and cons: "conserves d s f (Some (Reader (Rd_pass d cnt used out pbuf)))"
    and ln: "lane_ok ?ln"
    using ok by (simp_all add: dir_ok_def)
  have "relay_ok d ?s f"
    using rel by (rule relay_ok_shrink) (use short in \<open>auto simp: block_ready_def current_block_def\<close>)
  moreover have "lane_ok (lane_of d ?s)"
    using ln rest by (auto simp: lane_ok_def split: option.splits)
  moreover have left: "lane_bytes (lane_of d ?s) = ?left"
    by (simp add: lane_bytes_def)
  moreover have "conserves d ?s f (Some (Reader (Rd_head pbuf)))"
  proof -
    have swap: "bypass_inflight f @ out = out @ bypass_inflight f"
      using inflight_empty_store [OF rel] bytes by (cases "bypass_inflight f = []") (auto simp: lane_bytes_def)
    consider (all) lost where "delivered d s @ bypass_inflight f @ out @ ?left @ lost = taken d s"
        "lost \<noteq> [] \<longrightarrow> f = Done \<and> has_closed s"
      | (stuck) "prefix (delivered d s) (taken d s)" "has_closed s" "f = Done" "ln_stored ?ln = []"
      using cons by (auto simp: conserves_def bytes)
    then show ?thesis
    proof cases
      case all
      then have "(delivered d s @ out) @ bypass_inflight f @ ?left @ lost = taken d s"
        by (metis append.assoc swap)
      then show ?thesis
        using all(2) left unfolding conserves_def by (intro disjI1 exI [of _ lost]) simp
    next
      case stuck
      then show ?thesis
        using short bytes by (simp add: conserves_def lane_bytes_def)
    qed
  qed
  moreover have "\<not> inspects d s \<longrightarrow> rest = []"
    using ok short by (auto simp: dir_ok_def)
  ultimately have "dir_ok d ?s f (Some (Reader (Rd_head pbuf)))"
    using ok bytes by (simp add: dir_ok_def)
  moreover have "\<forall>e. e \<noteq> d \<longrightarrow> untouched e s ?s"
    by (auto simp: untouched_def)
  ultimately show ?thesis
    using c by (auto simp: pass_done_def)
qed

lemma pass_fail_step:
  assumes ok: "dir_ok d s f (Some (Reader (Rd_pass d cnt used out pbuf)))"
  shows "dir_ok d (grace_close (sent d (Relayed (take n out)) s)) f (Some Done)"
proof -
  let ?ln = "lane_of d s" and ?s = "grace_close (sent d (Relayed (take n out)) s)"
  have "pass_ready ?ln cnt used out" using ok by (simp add: dir_ok_def)
  then obtain rest where bytes: "lane_bytes ?ln = out @ stored_bytes (ln_heap ?ln) rest"
    using pass_ready_prefix by blast
  have rel: "relay_ok d s f" and cons: "conserves d s f (Some (Reader (Rd_pass d cnt used out pbuf)))"
    and insp: "\<not> inspects d s \<longrightarrow> ln_stored ?ln = []"
    using ok by (simp_all add: dir_ok_def)
  have "conserves d ?s f (Some Done)"
  proof (cases "out = []")
    case True
    then show ?thesis
      using cons by (auto simp: conserves_def)
  next
    case False
    then have "ln_stored ?ln \<noteq> []"
      using bytes by (auto simp: lane_bytes_def)
    then have f: "inspects d s" "f = Done \<or> processing f" "bypass_inflight f = []"
      using insp not_done_not_processing [OF rel] inflight_empty_store [OF rel] by blast+
    with cons bytes \<open>ln_stored ?ln \<noteq> []\<close> have "prefix (delivered d s @ out) (taken d s)"
      unfolding conserves_def prefix_def by (auto; metis)
    then have "prefix (delivered d s @ take n out) (taken d s)"
      by (metis append_assoc append_take_drop_id append_prefixD)
    with f show ?thesis by (simp add: conserves_def)
  qed
  moreover have "relay_ok d ?s f"
    using rel by (rule relay_ok_shrink) simp_all
  ultimately show ?thesis
    using ok by (simp add: dir_ok_def)
qed


section \<open>A link that holds\<close>

text \<open>
  What the handler process and the link to it are relied on for in this theory: reads
  from it do not fail, writes to it do not fail, and the total in a verdict is not
  smaller than what has been handled of that direction. The connection attempts may
  fail any number of times, the watchdog may fire, and client and server may do anything.
  \<open>setup_proxy\<close> finds its port in the configuration.
\<close>

definition verdict_fits :: "session \<Rightarrow> response_head \<Rightarrow> bool" where
  "verdict_fits s head =
     (case data_type_of (rh_type head) of
        Some From_client_to_server \<Rightarrow> verdict_ok C2S s head
      | Some From_server_to_client \<Rightarrow> verdict_ok S2C s head
      | _ \<Rightarrow> True)"

text \<open>A completion without an error; for a read, with what must hold of the bytes.\<close>

definition read_fine :: "event \<Rightarrow> (byte list \<Rightarrow> bool) \<Rightarrow> bool" where
  "read_fine ev P = (case ev of Read_done None bs \<Rightarrow> P bs | _ \<Rightarrow> False)"

definition write_fine :: "event \<Rightarrow> bool" where
  "write_fine ev = (case ev of Write_done None n \<Rightarrow> True | _ \<Rightarrow> False)"

definition lookup_fine :: "event \<Rightarrow> bool" where
  "lookup_fine ev = (case ev of Lookup (Inr (Some srv)) \<Rightarrow> True | _ \<Rightarrow> False)"

lemma fine_iff [simp]:
  "read_fine ev P \<longleftrightarrow> (\<exists>bs. ev = Read_done None bs \<and> P bs)"
  "write_fine ev \<longleftrightarrow> (\<exists>n. ev = Write_done None n)"
  "lookup_fine ev \<longleftrightarrow> (\<exists>srv. ev = Lookup (Inr (Some srv)))"
  by (auto simp: read_fine_def write_fine_def lookup_fine_def
      split: event.splits option.splits sum.splits)

fun peer_ok :: "session \<Rightarrow> frame \<Rightarrow> event \<Rightarrow> bool" where
  "peer_ok s (Reader pc) ev =
     (case pc of
        Rd_head pbuf \<Rightarrow> read_fine ev (\<lambda>bs. verdict_fits s (decode_head bs))
      | Rd_body head pbuf \<Rightarrow> read_fine ev (\<lambda>bs. verdict_fits s head)
      | Rd_new_data d head out pbuf \<Rightarrow> verdict_ok d s head
      | _ \<Rightarrow> True)"
| "peer_ok s (Relay d pc) ev = (case pc of R_process_write out \<Rightarrow> write_fine ev | _ \<Rightarrow> True)"
| "peer_ok s (Setup pc) ev = (case pc of S_start \<Rightarrow> lookup_fine ev | _ \<Rightarrow> True)"
| "peer_ok s f ev = True"

lemma verdict_untouched: "untouched d s s' \<Longrightarrow> verdict_ok d s' head = verdict_ok d s head"
  by (simp add: verdict_ok_def untouched_def)

lemma verdict_fits_received [simp]: "verdict_fits (received_process bs s) head = verdict_fits s head"
  using verdict_untouched [OF untouched_simps(5)]
  by (simp add: verdict_fits_def split: option.split data_type.split)

lemma short_history_untouched: "(\<And>d. untouched d s s') \<Longrightarrow> short_history s' = short_history s"
  by (simp add: short_history_iff untouched_def)

lemma reader_dispatch_step:
  assumes ok: "\<forall>e. dir_ok e s (fr e) (Some r)" and r: "r \<noteq> Done" "\<not> passing r"
    and v: "verdict_fits s head" and h: "short_history s"
  shows "\<exists>s' r'. reader_dispatch head pbuf s = Inr (s', r', []) \<and> reader_ok r' \<and>
    (\<forall>e. dir_ok e s' (fr e) (Some r'))"
proof -
  have transfer: "\<exists>s' r'. reader_transfer d head pbuf s = Inr (s', r', []) \<and> reader_ok r' \<and>
      (\<forall>e. dir_ok e s' (fr e) (Some r'))" if "verdict_ok d s head" for d
  proof (cases "rh_new_data_len head = 0")
    case True
    with reader_action_step [OF ok r that h, of pbuf] show ?thesis
      by (simp add: reader_transfer_def)
  next
    case False
    with dir_ok_enter [OF ok r, of "Reader (Rd_new_data d head out pbuf)" for out]
    show ?thesis by (simp add: reader_transfer_def)
  qed
  have idle: "\<forall>e. dir_ok e s (fr e) (Some (Reader (Rd_head pbuf)))"
    using dir_ok_enter [OF ok r] by simp
  from all_untouched [OF this, of "cancel_timer s"]
  have beat: "\<forall>e. dir_ok e (cancel_timer s) (fr e) (Some (Reader (Rd_head pbuf)))" by simp
  show ?thesis
    using transfer v idle beat
    by (auto simp: reader_dispatch_def verdict_fits_def split: option.splits data_type.splits)
qed

lemma reader_step:
  assumes ok: "\<forall>e. dir_ok e s (fr e) (Some (Reader pc))" and live: "reader_ok (Reader pc)"
    and io: "io_reader pc ev" and peer: "peer_ok s (Reader pc) ev" and h: "short_history s"
  shows "\<exists>s' r'. resume_reader s pc ev = Inr (s', r', []) \<and> reader_ok r' \<and>
    (\<forall>e. dir_ok e s' (fr e) (Some r'))"
proof (cases pc)
  case (Rd_head pbuf)
  then obtain bs where ev: "ev = Read_done None bs" and v: "verdict_fits s (decode_head bs)"
    using peer by auto
  let ?t = "received_process bs s"
  have t: "\<forall>e. dir_ok e ?t (fr e) (Some (Reader pc))" "short_history ?t"
    using all_untouched [OF ok] h short_history_untouched [of s ?t] by simp_all
  have "\<forall>e. dir_ok e ?t (fr e) (Some (Reader (Rd_body (decode_head bs) pbuf)))"
    using dir_ok_enter [OF t(1)] Rd_head by simp
  with reader_dispatch_step [OF t(1) _ _ _ t(2), of "decode_head bs" pbuf] v Rd_head ev
  show ?thesis by (auto simp: Let_def)
next
  case (Rd_body head pbuf)
  then obtain bs where ev: "ev = Read_done None bs" and v: "verdict_fits s head"
    using peer by auto
  let ?t = "received_process bs s"
  have t: "\<forall>e. dir_ok e ?t (fr e) (Some (Reader pc))" "short_history ?t"
    using all_untouched [OF ok] h short_history_untouched [of s ?t] by simp_all
  from reader_dispatch_step [OF t(1) _ _ _ t(2), of head] v Rd_body ev show ?thesis by simp
next
  case (Rd_new_data d head out pbuf)
  have v: "verdict_ok d s head" using peer Rd_new_data by simp
  have inj: "\<forall>e. dir_ok e (sent d (Injected bs) s) (fr e) (Some (Reader pc))" for bs
    using all_untouched [OF ok] by simp
  have io': "wrote out ev" using io Rd_new_data by simp
  then show ?thesis
  proof (cases rule: wroteE)
    case ok
    have "verdict_ok d (sent d (Injected out) s) head" "short_history (sent d (Injected out) s)"
      using v h short_history_untouched [of s "sent d (Injected out) s"]
        verdict_untouched [of d s "sent d (Injected out) s"] by simp_all
    from reader_action_step [OF inj _ _ this] ok Rd_new_data show ?thesis by simp
  next
    case (error e n)
    let ?t = "sent d (Injected (take n out)) s"
    have "\<forall>e. dir_ok e ?t (fr e) (Some Done)"
      using dir_ok_enter [OF inj] Rd_new_data by simp
    from all_untouched [OF this, of "grace_close ?t"] error Rd_new_data show ?thesis by simp
  qed
next
  case (Rd_pass d cnt used out pbuf)
  have other: "dir_ok e s (fr e) (Some r')" if "e \<noteq> d" "\<not> passing r'" for e r'
    by (rule dir_ok_swap [of e s "fr e" "Reader pc"]) (use ok that Rd_pass in simp_all)
  have d: "dir_ok d s (fr d) (Some (Reader (Rd_pass d cnt used out pbuf)))"
    using ok Rd_pass by blast
  have io': "wrote out ev" using io Rd_pass by simp
  then show ?thesis
  proof (cases rule: wroteE)
    case ok
    from pass_done_step [OF d] obtain s' where
      s': "pass_done d cnt used pbuf (sent d (Relayed out) s) = Inr (s', Reader (Rd_head pbuf), [])"
      and ds: "dir_ok d s' (fr d) (Some (Reader (Rd_head pbuf)))"
      and u: "\<forall>e. e \<noteq> d \<longrightarrow> untouched e s s'" by blast
    have "dir_ok e s' (fr e) (Some (Reader (Rd_head pbuf)))" for e
      using ds other untouched_dir_ok u by (cases "e = d") auto
    with s' ok Rd_pass show ?thesis by simp
  next
    case (error x n)
    let ?s = "grace_close (sent d (Relayed (take n out)) s)"
    have "dir_ok e ?s (fr e) (Some Done)" for e
    proof (cases "e = d")
      case True
      with pass_fail_step [OF d] show ?thesis by simp
    next
      case False
      then have "untouched e s ?s" by (simp add: untouched_def)
      then show ?thesis using other [OF False, of Done] untouched_dir_ok by simp
    qed
    with error Rd_pass show ?thesis by simp
  qed
qed (use live in simp_all)

end
