(* ===== verification/Session_Steady.thy ===== *)
theory Session_Steady
  imports Reader_Invariant
begin

text \<open>
  Runs of a whole session whose link to the handler process holds once it is up: no step
  is undefined, and every byte is forwarded once and in order.
\<close>

section \<open>The whole session\<close>

definition fresh_session :: "session \<Rightarrow> bool" where
  "fresh_session s \<longleftrightarrow>
     (\<forall>d. lane_of d s = empty_lane \<and> taken d s = [] \<and> delivered d s = []) \<and>
     \<not> has_closed s \<and> \<not> eof s \<and> bypass s \<and> \<not> process_connecting s"

fun link_frame :: "frame \<Rightarrow> bool" where
  "link_frame (Connect pc) = True"
| "link_frame f = (f = Done)"

fun watchdog_frame :: "frame \<Rightarrow> bool" where
  "watchdog_frame (Detect g) = True"
| "watchdog_frame f = (f = Done)"

definition by_dir :: "frame \<Rightarrow> frame \<Rightarrow> dir \<Rightarrow> frame" where
  "by_dir f g d = (case d of C2S \<Rightarrow> f | S2C \<Rightarrow> g)"

definition relays_ok :: "session \<Rightarrow> frame \<Rightarrow> frame \<Rightarrow> frame option \<Rightarrow> bool" where
  "relays_ok s f g r \<longleftrightarrow> (\<forall>d. dir_ok d s (by_dir f g d) r)"

text \<open>The four lives of a session whose link holds: not yet set up, given up, without and
  with the handler process.\<close>

definition steady_shape :: "system \<Rightarrow> bool" where
  "steady_shape \<sigma> \<longleftrightarrow>
     (\<exists>pc. coros \<sigma> = [Setup pc] \<and> fresh_session (sess \<sigma>)) \<or>
     coros \<sigma> = [Done] \<and> (\<forall>d. taken d (sess \<sigma>) = [] \<and> delivered d (sess \<sigma>) = [] \<and> lane_bytes (lane_of d (sess \<sigma>)) = []) \<or>
     (\<exists>c f g. coros \<sigma> = [Done, c, f, g] \<and> link_frame c \<and> relays_ok (sess \<sigma>) f g None) \<or>
     (\<exists>f g r t. coros \<sigma> = [Done, Done, f, g, r, t] \<and> reader_ok r \<and> watchdog_frame t \<and>
        relays_ok (sess \<sigma>) f g (Some r))"

lemma relays_ok_iff: "relays_ok s f g r \<longleftrightarrow> dir_ok C2S s f r \<and> dir_ok S2C s g r"
  by (auto simp: relays_ok_def by_dir_def split: dir.split)

lemma relays_ok_untouched:
  "relays_ok s f g r \<Longrightarrow> (\<And>d. untouched d s s') \<Longrightarrow> relays_ok s' f g r"
  by (auto simp: relays_ok_iff intro: untouched_dir_ok)

lemma relay_frame_step:
  assumes "dir_ok d s (Relay e pc) r" "io_ok s (Relay e pc) ev" "peer_ok s (Relay e pc) ev"
  shows "\<exists>s' f. resume dump s (Relay e pc) ev = Inr (s', f, []) \<and> dir_ok d s' f r \<and>
    (\<forall>e. e \<noteq> d \<longrightarrow> untouched e s s')"
proof -
  have "e = d" using assms(1) by (cases pc) (auto simp: dir_ok_def)
  moreover have "\<exists>n. ev = Write_done None n" if "pc = R_process_write out" for out
    using assms(3) that by simp
  ultimately show ?thesis
    using relay_step [of d s pc r ev] assms by simp
qed

text \<open>A step of one of the two relays.\<close>

lemma relay_C2S_step:
  assumes "relays_ok s f g r" "io_ok s f ev" "peer_ok s f ev"
  shows "\<exists>s' f'. resume dump s f ev = Inr (s', f', []) \<and> relays_ok s' f' g r"
proof -
  have f: "dir_ok C2S s f r" and g: "dir_ok S2C s g r"
    using assms(1) by (simp_all add: relays_ok_iff)
  have "f \<noteq> Done" using assms(2) by auto
  with f obtain e pc where "f = Relay e pc"
    by (cases "(C2S, s, f)" rule: relay_ok.cases) (auto simp: dir_ok_def)
  with relay_frame_step [of C2S s e pc r ev dump] f assms(2,3) g show ?thesis
    by (auto simp: relays_ok_iff intro: untouched_dir_ok)
qed

lemma relay_S2C_step:
  assumes "relays_ok s f g r" "io_ok s g ev" "peer_ok s g ev"
  shows "\<exists>s' g'. resume dump s g ev = Inr (s', g', []) \<and> relays_ok s' f g' r"
proof -
  have f: "dir_ok C2S s f r" and g: "dir_ok S2C s g r"
    using assms(1) by (simp_all add: relays_ok_iff)
  have "g \<noteq> Done" using assms(2) by auto
  with g obtain e pc where "g = Relay e pc"
    by (cases "(S2C, s, g)" rule: relay_ok.cases) (auto simp: dir_ok_def)
  with relay_frame_step [of S2C s e pc r ev dump] g assms(2,3) f show ?thesis
    by (auto simp: relays_ok_iff intro: untouched_dir_ok)
qed

lemma relays_ok_start:
  assumes "\<And>d. lane_of d s = empty_lane" "\<And>d. taken d s = []" "\<And>d. delivered d s = []"
  shows "loop_ok d s r \<longleftrightarrow> pass_ok d s r"
  using assms by (auto simp: loop_ok_def conserves_exact empty_lane_def lane_bytes_def lane_ok_def
      heap_ok_def)

lemma setup_connected_step:
  assumes "fresh_session s" "setup_connected srv (Some ep) s = Inr (s', fr, sp)"
  shows "fr = Done \<and> (\<exists>c f g. sp = [c, f, g] \<and> link_frame c \<and> relays_ok s' f g None)"
  using assms(2)
proof (rule setup_connectedE)
  fix u
  assume u: "has_closed u = has_closed s" "eof u = eof s" "bypass u = bypass s"
    "process_connecting u = process_connecting s" "\<And>d. lane_of d u = lane_of d s"
    "\<And>d. src_socket d u = src_socket d s" "\<And>d. dst_socket d u = dst_socket d s"
    and s': "s' = fst (relay_loop S2C (fst (relay_loop C2S (fst (connect_process u)))))" "fr = Done"
    and sp: "sp = [snd (connect_process u), snd (relay_loop C2S (fst (connect_process u))),
       snd (relay_loop S2C (fst (relay_loop C2S (fst (connect_process u)))))]"
  let ?c = "fst (connect_process u)"
  have "lane_of d ?c = empty_lane" "taken d ?c = []" "delivered d ?c = []" for d
    using assms(1) u by (simp_all add: fresh_session_def taken_def delivered_def empty_lane_def)
  then have start: "loop_ok d ?c None" for d
    using relays_ok_start [of ?c d None] by simp
  let ?t = "fst (relay_loop C2S ?c)"
  have f: "dir_ok C2S ?t (snd (relay_loop C2S ?c)) None"
    by (rule loop_ok_continue [OF start])
  have "loop_ok S2C ?t None"
    by (rule loop_ok_untouched [OF _ start]) (rule untouched_simps(12), simp)
  then have g: "dir_ok S2C (fst (relay_loop S2C ?t)) (snd (relay_loop S2C ?t)) None"
    by (rule loop_ok_continue)
  have "dir_ok C2S (fst (relay_loop S2C ?t)) (snd (relay_loop C2S ?c)) None"
    by (rule untouched_dir_ok [OF _ f]) (rule untouched_simps(12), simp)
  with g show ?thesis
    unfolding s' sp by (auto simp: relays_ok_iff connect_process_snd simp del: relay_loop.simps)
qed


text \<open>A session in which connecting succeeded inspects at least what it did before.\<close>

lemma relay_ok_more:
  assumes "relay_ok d s f" "lane_of d s' = lane_of d s" "inspects d s \<Longrightarrow> inspects d s'"
  shows "relay_ok d s' f"
  using assms by (cases "(d, s, f)" rule: relay_ok.cases) auto

lemma dir_ok_connected:
  assumes "dir_ok d s f r" "s' = s\<lparr>bypass := False, process_connecting := False\<rparr>"
  shows "dir_ok d s' f r"
proof -
  have lane: "lane_of d s' = lane_of d s" and io: "taken d s' = taken d s"
    "delivered d s' = delivered d s" "has_closed s' = has_closed s"
    using assms(2) by (simp_all add: taken_def delivered_def)
  have more: "inspects d s \<Longrightarrow> inspects d s'"
    using assms(2) by (simp add: inspects_def)
  have "pass_ok d s' r"
    using assms(1) lane by (intro pass_ok_lane [of d s r s' "[]"]) (simp_all add: dir_ok_def)
  moreover have "conserves d s' f r"
    using assms(1) lane io more by (auto simp: dir_ok_def conserves_def)
  moreover have "relay_ok d s' f"
    using assms(1) relay_ok_more [OF _ lane more] by (simp add: dir_ok_def)
  ultimately show ?thesis
    using assms(1) lane io more unfolding dir_ok_def by auto
qed

lemma dir_ok_reader_start:
  "dir_ok d s f None \<Longrightarrow> dir_ok d s f (Some (Reader (Rd_head [])))"
  by (auto simp: dir_ok_def conserves_def)

lemma relays_ok_reader_start:
  "relays_ok s f g None \<Longrightarrow> relays_ok s f g (Some (Reader (Rd_head [])))"
  by (simp add: relays_ok_iff dir_ok_reader_start)

text \<open>A step of the coroutine that connects to the handler process.\<close>

lemma connect_frame_step:
  assumes "relays_ok s f g None" "io_connect pc ev"
  shows "\<exists>s' c sp. resume_connect dump s pc ev = Inr (s', c, sp) \<and> relays_ok s' f g None \<and>
    (sp = [] \<and> link_frame c \<or>
     c = Done \<and> (\<exists>t. sp = [Reader (Rd_head []), t] \<and> watchdog_frame t))"
proof (cases pc)
  case C_connect
  then obtain ec eps where ev: "ev = Connected ec eps"
    using assms(2) by (cases ev) auto
  show ?thesis
  proof (cases ec)
    case None
    let ?s = "s\<lparr>bypass := False, process_connecting := False\<rparr>"
    have "relays_ok ?s f g None"
      using assms(1) dir_ok_connected [OF _ refl] by (simp add: relays_ok_iff)
    with ev None C_connect show ?thesis by (simp add: Let_def)
  next
    case (Some e)
    with ev C_connect assms(1) show ?thesis by simp
  qed
next
  case C_wait
  then obtain ec where "ev = Timer_done ec"
    using assms(2) by (cases ev) auto
  moreover have "relays_ok (fst (connect_loop s)) f g None"
    by (rule relays_ok_untouched [OF assms(1)]) simp
  ultimately show ?thesis
    using C_wait by (auto simp: case_prod_unfold connect_loop_snd)
next
  case (C_tuple out)
  then have "wrote out ev" using assms(2) by simp
  then show ?thesis
  proof (cases rule: wroteE)
    case ok
    have "relays_ok (sent_process out s) f g None"
      by (rule relays_ok_untouched [OF assms(1)]) simp
    then have "relays_ok (fst (detect_process_timeout (sent_process out s))) f g None"
      by (rule relays_ok_untouched) simp
    moreover have "watchdog_frame (snd (detect_process_timeout (sent_process out s)))"
      using detect_process_timeout_snd [of "sent_process out s"] by auto
    ultimately show ?thesis
      using ok C_tuple by (simp add: Let_def case_prod_unfold)
  next
    case (error e n)
    have "relays_ok (sent_process (take n out) s) f g None"
      by (rule relays_ok_untouched [OF assms(1)]) simp
    with error C_tuple show ?thesis by simp
  qed
qed

lemma detect_frame_step:
  assumes "relays_ok s f g r" "io_ok s (Detect n) ev"
  shows "\<exists>s' t. resume_detect s n ev = Inr (s', t, []) \<and> watchdog_frame t \<and> relays_ok s' f g r"
proof -
  obtain ec where ev: "ev = Timer_done ec"
    using assms(2) by (cases ev) auto
  have "relays_ok (close_process_socket s) f g r" "relays_ok (fst (detect_process_timeout s)) f g r"
    using relays_ok_untouched [OF assms(1)] by simp_all
  moreover have "watchdog_frame (snd (detect_process_timeout s))"
    using detect_process_timeout_snd [of s] by auto
  ultimately show ?thesis
    using ev by (cases ec) (simp_all add: case_prod_unfold)
qed

lemma reader_frame_step:
  assumes "relays_ok s f g (Some (Reader pc))" "reader_ok (Reader pc)"
    and "io_reader pc ev" "peer_ok s (Reader pc) ev" "short_history s"
  shows "\<exists>s' r'. resume_reader s pc ev = Inr (s', r', []) \<and> reader_ok r' \<and> relays_ok s' f g (Some r')"
  unfolding relays_ok_def by (rule reader_step [OF assms(1) [unfolded relays_ok_def] assms(2-5)])

lemma steady_setup: "fresh_session s \<Longrightarrow> steady_shape \<lparr>sess = s, coros = [Setup pc]\<rparr>"
  by (simp add: steady_shape_def)

lemma steady_done:
  "(\<And>d. taken d s = []) \<Longrightarrow> (\<And>d. delivered d s = []) \<Longrightarrow>
     (\<And>d. lane_bytes (lane_of d s) = []) \<Longrightarrow> steady_shape \<lparr>sess = s, coros = [Done]\<rparr>"
  by (simp add: steady_shape_def)

lemma fresh_io:
  "fresh_session s \<Longrightarrow> taken d s = []" "fresh_session s \<Longrightarrow> delivered d s = []"
  "fresh_session s \<Longrightarrow> lane_bytes (lane_of d s) = []"
  by (simp_all add: fresh_session_def empty_lane_def lane_bytes_def)

lemma setup_connected_None:
  assumes "fresh_session s"
  shows "\<exists>s'. setup_connected srv None s = Inr (s', Done, []) \<and>
    steady_shape \<lparr>sess = s', coros = [Done]\<rparr>"
proof -
  let ?s = "s\<lparr>client_buf_size := unat (si_conn_buf_size srv),
      server_buf_size := unat (si_conn_buf_size srv), response_bypass := si_response_bypass srv,
      server_ip := si_ip srv, server_port := si_port srv\<rparr>"
  have "taken d ?s = taken d s" "delivered d ?s = delivered d s" for d
    by (cases d; simp add: taken_def delivered_def src_socket.simps dst_socket.simps)+
  then have "steady_shape \<lparr>sess = ?s, coros = [Done]\<rparr>"
    using fresh_io [OF assms] by (intro steady_done) simp_all
  then show ?thesis by (simp add: setup_connected_def)
qed

lemma setup_connected_steady:
  assumes "fresh_session s"
  shows "\<exists>s' fr sp. setup_connected srv eps s = Inr (s', fr, sp) \<and>
    steady_shape \<lparr>sess = s', coros = fr # sp\<rparr>"
proof (cases eps)
  case None
  with setup_connected_None [OF assms, of srv] show ?thesis by auto
next
  case (Some ep)
  obtain s' fr sp where r: "setup_connected srv (Some ep) s = Inr (s', fr, sp)"
    by (auto simp: setup_connected_def Let_def case_prod_unfold)
  from setup_connected_step [OF assms r] have "steady_shape \<lparr>sess = s', coros = fr # sp\<rparr>"
    by (auto simp: steady_shape_def)
  with r Some show ?thesis by blast
qed

lemma setup_step:
  assumes "fresh_session s" "io_setup pc ev" "peer_ok s (Setup pc) ev"
  shows "\<exists>s' fr sp. resume_setup s pc ev = Inr (s', fr, sp) \<and>
    steady_shape \<lparr>sess = s', coros = fr # sp\<rparr>"
proof (cases pc)
  case S_start
  then obtain srv where "ev = Lookup (Inr (Some srv))"
    using assms(3) by auto
  with S_start steady_setup [OF assms(1)] show ?thesis by simp
next
  case (S_resolve srv)
  let ?s = "s\<lparr>proxy_server_socket := (proxy_server_socket s)\<lparr>sk_open := True\<rparr>\<rparr>"
  have "taken d ?s = taken d s" "delivered d ?s = delivered d s" for d
    by (cases d; simp add: taken_def delivered_def src_socket.simps dst_socket.simps)+
  with assms(1) have "fresh_session ?s" by (simp add: fresh_session_def)
  moreover obtain ec where "ev = Resolved ec"
    using assms(2) S_resolve by (cases ev) auto
  ultimately show ?thesis
    using steady_setup steady_done fresh_io [OF assms(1)] S_resolve by (cases ec) simp_all
next
  case (S_connect srv)
  then obtain ec eps where ev: "ev = Connected ec eps"
    using assms(2) by (cases ev) auto
  show ?thesis
  proof (cases ec)
    case (Some e)
    with ev S_connect steady_done fresh_io [OF assms(1)] show ?thesis by simp
  next
    case None
    with ev S_connect setup_connected_steady [OF assms(1), of srv eps] show ?thesis by simp
  qed
qed


section \<open>Steady runs\<close>

text \<open>Like \<open>reachable\<close>, but each completion is one that a link that holds gives, and
  fewer than $2^{64}$ bytes have been read.\<close>

inductive steady :: "(json \<Rightarrow> byte list) \<Rightarrow> system \<Rightarrow> bool"
  for dump :: "json \<Rightarrow> byte list"
where
  init: "steady dump init_system"
| step: "steady dump \<sigma> \<Longrightarrow> step dump \<sigma> i ev \<sigma>' \<Longrightarrow> peer_ok (sess \<sigma>) (coros \<sigma> ! i) ev \<Longrightarrow>
     short_history (sess \<sigma>) \<Longrightarrow> steady dump \<sigma>'"

fun steady_run :: "(json \<Rightarrow> byte list) \<Rightarrow> system \<Rightarrow> (nat \<times> event) list \<Rightarrow> system option" where
  "steady_run dump \<sigma> [] = Some \<sigma>"
| "steady_run dump \<sigma> ((i, ev) # evs) =
     (if i < length (coros \<sigma>) \<and> io_ok (sess \<sigma>) (coros \<sigma> ! i) ev \<and>
         peer_ok (sess \<sigma>) (coros \<sigma> ! i) ev \<and> short_history (sess \<sigma>)
      then (case step_at dump \<sigma> i ev of Inl f \<Rightarrow> None | Inr \<sigma>' \<Rightarrow> steady_run dump \<sigma>' evs)
      else None)"

lemma steady_run_steady:
  "steady_run dump \<sigma> evs = Some \<sigma>' \<Longrightarrow> steady dump \<sigma> \<Longrightarrow> steady dump \<sigma>'"
proof (induction dump \<sigma> evs rule: steady_run.induct)
  case (2 dump \<sigma> i ev evs)
  then show ?case
    by (auto split: if_splits sum.splits intro: steady.step step.intros)
qed simp

lemma steady_shapeE:
  assumes "steady_shape \<sigma>" "i < length (coros \<sigma>)" "io_ok (sess \<sigma>) (coros \<sigma> ! i) ev"
  obtains (start) pc where "coros \<sigma> = [Setup pc]" "i = 0" "fresh_session (sess \<sigma>)"
    | (alone) c f g where "coros \<sigma> = [Done, c, f, g]" "link_frame c" "relays_ok (sess \<sigma>) f g None"
        "i = 1 \<or> i = 2 \<or> i = 3"
    | (served) f g r t where "coros \<sigma> = [Done, Done, f, g, r, t]" "reader_ok r" "watchdog_frame t"
        "relays_ok (sess \<sigma>) f g (Some r)" "i = 2 \<or> i = 3 \<or> i = 4 \<or> i = 5"
proof -
  have "coros \<sigma> ! i \<noteq> Done" using assms(3) by auto
  from assms(1) consider pc where "coros \<sigma> = [Setup pc]" "fresh_session (sess \<sigma>)"
    | "coros \<sigma> = [Done]"
    | c f g where "coros \<sigma> = [Done, c, f, g]" "link_frame c" "relays_ok (sess \<sigma>) f g None"
    | f g r t where "coros \<sigma> = [Done, Done, f, g, r, t]" "reader_ok r" "watchdog_frame t"
        "relays_ok (sess \<sigma>) f g (Some r)"
    unfolding steady_shape_def by blast
  then show thesis
  proof cases
    case 1
    then have "i = 0" using assms(2) by simp
    with 1 show thesis by (intro start)
  next
    case 2
    then have "i = 0" using assms(2) by simp
    with 2 \<open>coros \<sigma> ! i \<noteq> Done\<close> show thesis by simp
  next
    case 3
    have "i < 4" using assms(2) unfolding 3(1) by simp
    moreover have "i \<noteq> 0" using \<open>coros \<sigma> ! i \<noteq> Done\<close> unfolding 3(1) by (cases i) simp_all
    ultimately have "i = 1 \<or> i = 2 \<or> i = 3" by arith
    with 3 show thesis by (intro alone)
  next
    case 4
    have "i < 6" using assms(2) unfolding 4(1) by simp
    moreover have "i \<noteq> 0" "i \<noteq> 1"
      using \<open>coros \<sigma> ! i \<noteq> Done\<close> unfolding 4(1) by (cases i; cases "i - 1"; simp)+
    ultimately have "i = 2 \<or> i = 3 \<or> i = 4 \<or> i = 5" by arith
    with 4 show thesis by (intro served)
  qed
qed

lemma steady_alone:
  "coros \<sigma> = [Done, c, f, g] \<Longrightarrow> link_frame c \<Longrightarrow> relays_ok (sess \<sigma>) f g None \<Longrightarrow> steady_shape \<sigma>"
  by (simp add: steady_shape_def)

lemma steady_served:
  "coros \<sigma> = [Done, Done, f, g, r, t] \<Longrightarrow> reader_ok r \<Longrightarrow> watchdog_frame t \<Longrightarrow>
     relays_ok (sess \<sigma>) f g (Some r) \<Longrightarrow> steady_shape \<sigma>"
  by (simp add: steady_shape_def)

lemma steady_alone_step:
  assumes co: "coros \<sigma> = [Done, c, f, g]" and c: "link_frame c" and rel: "relays_ok (sess \<sigma>) f g None"
    and i: "i = 1 \<or> i = 2 \<or> i = 3"
    and io: "io_ok (sess \<sigma>) (coros \<sigma> ! i) ev" and peer: "peer_ok (sess \<sigma>) (coros \<sigma> ! i) ev"
  shows "\<exists>\<sigma>'. step_at dump \<sigma> i ev = Inr \<sigma>' \<and> steady_shape \<sigma>'"
  using i
proof (elim disjE)
  assume i: "i = 1"
  with io co c obtain pc where pc: "c = Connect pc"
    by (cases c rule: link_frame.cases) auto
  with connect_frame_step [OF rel, of pc ev dump] io i co
  obtain s' c' sp where r: "resume_connect dump (sess \<sigma>) pc ev = Inr (s', c', sp)"
    and rel': "relays_ok s' f g None"
    and sp: "sp = [] \<and> link_frame c' \<or>
      c' = Done \<and> (\<exists>t. sp = [Reader (Rd_head []), t] \<and> watchdog_frame t)" by auto
  have st: "step_at dump \<sigma> i ev = Inr \<lparr>sess = s', coros = [Done, c', f, g] @ sp\<rparr>"
    using r i co pc by (simp add: step_at_def)
  from sp show ?thesis
  proof
    assume "sp = [] \<and> link_frame c'"
    with st rel' steady_alone [of "\<lparr>sess = s', coros = [Done, c', f, g] @ sp\<rparr>" c' f g] show ?thesis
      by simp
  next
    assume "c' = Done \<and> (\<exists>t. sp = [Reader (Rd_head []), t] \<and> watchdog_frame t)"
    then obtain t where "c' = Done" "sp = [Reader (Rd_head []), t]" "watchdog_frame t" by blast
    with st relays_ok_reader_start [OF rel']
      steady_served [of "\<lparr>sess = s', coros = [Done, c', f, g] @ sp\<rparr>" f g "Reader (Rd_head [])" t]
    show ?thesis by simp
  qed
next
  assume i: "i = 2"
  with relay_C2S_step [OF rel, of ev dump] io peer co
  obtain s' f' where r: "resume dump (sess \<sigma>) f ev = Inr (s', f', [])" and rel': "relays_ok s' f' g None"
    by auto
  with i co c steady_alone [of "\<lparr>sess = s', coros = [Done, c, f', g]\<rparr>" c f' g] show ?thesis
    by (simp add: step_at_def)
next
  assume i: "i = 3"
  with relay_S2C_step [OF rel, of ev dump] io peer co
  obtain s' g' where r: "resume dump (sess \<sigma>) g ev = Inr (s', g', [])" and rel': "relays_ok s' f g' None"
    by auto
  with i co c steady_alone [of "\<lparr>sess = s', coros = [Done, c, f, g']\<rparr>" c f g'] show ?thesis
    by (simp add: step_at_def)
qed

lemma steady_served_step:
  assumes co: "coros \<sigma> = [Done, Done, f, g, r, t]" and rok: "reader_ok r" and t: "watchdog_frame t"
    and rel: "relays_ok (sess \<sigma>) f g (Some r)" and i: "i = 2 \<or> i = 3 \<or> i = 4 \<or> i = 5"
    and io: "io_ok (sess \<sigma>) (coros \<sigma> ! i) ev" and peer: "peer_ok (sess \<sigma>) (coros \<sigma> ! i) ev"
    and h: "short_history (sess \<sigma>)"
  shows "\<exists>\<sigma>'. step_at dump \<sigma> i ev = Inr \<sigma>' \<and> steady_shape \<sigma>'"
  using i
proof (elim disjE)
  assume i: "i = 2"
  with relay_C2S_step [OF rel, of ev dump] io peer co
  obtain s' f' where "resume dump (sess \<sigma>) f ev = Inr (s', f', [])" "relays_ok s' f' g (Some r)"
    by auto
  with i co rok t steady_served [of "\<lparr>sess = s', coros = [Done, Done, f', g, r, t]\<rparr>" f' g r t]
  show ?thesis by (simp add: step_at_def)
next
  assume i: "i = 3"
  with relay_S2C_step [OF rel, of ev dump] io peer co
  obtain s' g' where "resume dump (sess \<sigma>) g ev = Inr (s', g', [])" "relays_ok s' f g' (Some r)"
    by auto
  with i co rok t steady_served [of "\<lparr>sess = s', coros = [Done, Done, f, g', r, t]\<rparr>" f g' r t]
  show ?thesis by (simp add: step_at_def)
next
  assume i: "i = 4"
  with io co rok obtain pc where pc: "r = Reader pc"
    by (cases r rule: reader_ok.cases) auto
  have io': "io_reader pc ev" and peer': "peer_ok (sess \<sigma>) (Reader pc) ev"
    using io peer i co pc by (simp_all del: peer_ok.simps)
  from reader_frame_step [OF rel [unfolded pc] rok [unfolded pc] io' peer' h]
  obtain s' r' where "resume_reader (sess \<sigma>) pc ev = Inr (s', r', [])" "reader_ok r'"
    "relays_ok s' f g (Some r')" by blast
  with i co pc t steady_served [of "\<lparr>sess = s', coros = [Done, Done, f, g, r', t]\<rparr>" f g r' t]
  show ?thesis by (simp add: step_at_def)
next
  assume i: "i = 5"
  with io co t obtain n where n: "t = Detect n"
    by (cases t rule: watchdog_frame.cases) auto
  with detect_frame_step [OF rel, of n ev] io i co
  obtain s' t' where "resume_detect (sess \<sigma>) n ev = Inr (s', t', [])" "watchdog_frame t'"
    "relays_ok s' f g (Some r)" by auto
  with i co n rok steady_served [of "\<lparr>sess = s', coros = [Done, Done, f, g, r, t']\<rparr>" f g r t']
  show ?thesis by (simp add: step_at_def)
qed

lemma steady_shape_step:
  assumes ok: "steady_shape \<sigma>" and i: "i < length (coros \<sigma>)"
    and io: "io_ok (sess \<sigma>) (coros \<sigma> ! i) ev" and peer: "peer_ok (sess \<sigma>) (coros \<sigma> ! i) ev"
    and h: "short_history (sess \<sigma>)"
  shows "\<exists>\<sigma>'. step_at dump \<sigma> i ev = Inr \<sigma>' \<and> steady_shape \<sigma>'"
  using ok i io
proof (cases rule: steady_shapeE)
  case (start pc)
  with setup_step [OF start(3), of pc ev] io peer show ?thesis
    by (auto simp: step_at_def simp del: peer_ok.simps)
next
  case (alone c f g)
  from steady_alone_step [OF alone io peer] show ?thesis .
next
  case (served f g r t)
  from steady_served_step [OF served io peer h] show ?thesis .
qed

lemma fresh_new_session: "fresh_session new_session"
proof -
  have "lane_of d new_session = empty_lane \<and> taken d new_session = [] \<and> delivered d new_session = []" for d
    by (cases d) (simp_all add: new_session_def taken_def delivered_def lane_of.simps
        src_socket.simps dst_socket.simps fresh_socket_def)
  then show ?thesis
    by (simp add: fresh_session_def) (simp add: new_session_def)
qed

lemma steady_steady_shape: "steady dump \<sigma> \<Longrightarrow> steady_shape \<sigma>"
proof (induction rule: steady.induct)
  case init
  show ?case
    using steady_setup [OF fresh_new_session] by (simp add: init_system_def)
next
  case (step \<sigma> i ev \<sigma>')
  from step.hyps(2) have "i < length (coros \<sigma>)" "io_ok (sess \<sigma>) (coros \<sigma> ! i) ev"
    "step_at dump \<sigma> i ev = Inr \<sigma>'" by (auto elim: stepE)
  with steady_shape_step [OF step.IH _ _ step.hyps(3,4), of dump] show ?case by auto
qed

lemma steady_reachable: "steady dump \<sigma> \<Longrightarrow> reachable dump \<sigma>"
  by (induction rule: steady.induct) (auto intro: reachable.intros)

text \<open>What the shape says of the bytes.\<close>

lemma steady_shape_prefix:
  assumes "steady_shape \<sigma>"
  shows "prefix (delivered d (sess \<sigma>)) (taken d (sess \<sigma>))"
proof -
  have rel: "prefix (delivered d (sess \<sigma>)) (taken d (sess \<sigma>))" if "relays_ok (sess \<sigma>) f g r" for f g r
    using that conserves_prefix unfolding relays_ok_def dir_ok_def by blast
  from assms consider pc where "fresh_session (sess \<sigma>)" | "delivered d (sess \<sigma>) = []"
    | f g r where "relays_ok (sess \<sigma>) f g r"
    unfolding steady_shape_def by blast
  then show ?thesis
    using rel by cases (simp_all add: fresh_io)
qed

end
