(* ===== verification/Session_Close.thy ===== *)
theory Session_Close
  imports Session_Connect
begin

text \<open>
  Closing. \<^verbatim>\<open>grace_close\<close> is final under every schedule: the flag stays set, no socket is
  opened again, and completions of the aborted operations let every coroutine return after
  at most \<open>drain_ranks\<close> of them, so that the last reference to the session is dropped.
\<close>

section \<open>A closed session stays closed\<close>

text \<open>Once \<^verbatim>\<open>has_closed_\<close> is set, none of the three sockets is open.\<close>

definition closed_ok :: "session \<Rightarrow> bool" where
  "closed_ok s \<longleftrightarrow> (has_closed s \<longrightarrow>
     \<not> sk_open (proxy_client_socket s) \<and> \<not> sk_open (proxy_server_socket s) \<and>
     \<not> sk_open (proxy_process_socket s))"

text \<open>What every operation guarantees of the flag and the sockets.\<close>

definition keeps_closed :: "session \<Rightarrow> session \<Rightarrow> bool" where
  "keeps_closed s s' \<longleftrightarrow> (has_closed s \<longrightarrow> has_closed s') \<and> (closed_ok s \<longrightarrow> closed_ok s')"

lemma keeps_closedI:
  "has_closed s' = has_closed s \<Longrightarrow>
   sk_open (proxy_client_socket s') = sk_open (proxy_client_socket s) \<Longrightarrow>
   sk_open (proxy_server_socket s') = sk_open (proxy_server_socket s) \<Longrightarrow>
   (sk_open (proxy_process_socket s') \<Longrightarrow> sk_open (proxy_process_socket s)) \<Longrightarrow> keeps_closed s s'"
  by (auto simp: keeps_closed_def closed_ok_def)

lemma keeps_closed_trans [trans]: "keeps_closed s t \<Longrightarrow> keeps_closed t u \<Longrightarrow> keeps_closed s u"
  by (auto simp: keeps_closed_def)

lemma io_open [simp]:
  "sk_open (proxy_client_socket (received d bs s)) = sk_open (proxy_client_socket s)"
  "sk_open (proxy_server_socket (received d bs s)) = sk_open (proxy_server_socket s)"
  "sk_open (proxy_client_socket (sent d c s)) = sk_open (proxy_client_socket s)"
  "sk_open (proxy_server_socket (sent d c s)) = sk_open (proxy_server_socket s)"
  by (cases d; simp add: received.simps sent.simps)+

lemma keeps_closed_simps [simp]:
  "keeps_closed s s" "keeps_closed s (received d bs s)" "keeps_closed s (sent d c s)"
  "keeps_closed s (sent_process bs s)" "keeps_closed s (received_process bs s)"
  "keeps_closed s (upd_lane d f s)" "keeps_closed s (s\<lparr>eof := b\<rparr>)" "keeps_closed s (s\<lparr>bypass := b\<rparr>)"
  "keeps_closed s (s\<lparr>process_connecting := b\<rparr>)" "keeps_closed s (s\<lparr>bypass := b, process_connecting := b'\<rparr>)"
  "keeps_closed s (cancel_timer s)" "keeps_closed s (close_process_socket s)"
  "keeps_closed s (reset_local_socket s)"
  by (rule keeps_closedI; simp add: sent_process_def received_process_def cancel_timer_def
      close_process_socket_def reset_local_socket_def fresh_socket_def)+

lemma keeps_closed_close [simp]: "keeps_closed s (grace_close s)"
  by (simp add: keeps_closed_def closed_ok_def grace_close_def Let_def close_process_socket_def
      cancel_timer_def)

lemma keeps_closed_connect_loop [simp]: "keeps_closed s (fst (connect_loop s))"
  by (simp add: connect_loop_def keeps_closed_def closed_ok_def)

lemma keeps_closed_connect_process [simp]: "keeps_closed s (fst (connect_process s))"
proof (cases "process_connecting s")
  case False
  have "keeps_closed s (cancel_timer (upd_lane e g (upd_lane d f
      (reset_local_socket (s\<lparr>process_connecting := True\<rparr>)))))" for d e f g
    by (rule keeps_closed_trans [OF _ keeps_closed_simps(11)],
        rule keeps_closed_trans [OF _ keeps_closed_simps(6)],
        rule keeps_closed_trans [OF _ keeps_closed_simps(6)],
        rule keeps_closed_trans [OF _ keeps_closed_simps(13)]) simp
  then show ?thesis
    using False keeps_closed_trans [OF _ keeps_closed_connect_loop]
    by (simp add: connect_process_def Let_def)
qed (simp add: connect_process_def)

lemma keeps_closed_loops [simp]:
  "keeps_closed s (fst (relay_loop d s))" "keeps_closed s (fst (detect_process_timeout s))"
  by (cases d; simp add: client_request_loop_def server_response_loop_def)
    (simp add: detect_process_timeout_def Let_def)

text \<open>The same from any earlier state, as introduction rules that peel one operation.\<close>

lemma keeps_closed_peel:
  "keeps_closed s t \<Longrightarrow> keeps_closed s (received d bs t)"
  "keeps_closed s t \<Longrightarrow> keeps_closed s (sent d c t)"
  "keeps_closed s t \<Longrightarrow> keeps_closed s (sent_process bs t)"
  "keeps_closed s t \<Longrightarrow> keeps_closed s (received_process bs t)"
  "keeps_closed s t \<Longrightarrow> keeps_closed s (upd_lane d f t)"
  "keeps_closed s t \<Longrightarrow> keeps_closed s (t\<lparr>eof := b\<rparr>)"
  "keeps_closed s t \<Longrightarrow> keeps_closed s (t\<lparr>bypass := b\<rparr>)"
  "keeps_closed s t \<Longrightarrow> keeps_closed s (grace_close t)"
  "keeps_closed s t \<Longrightarrow> keeps_closed s (cancel_timer t)"
  "keeps_closed s t \<Longrightarrow> keeps_closed s (fst (connect_process t))"
  "keeps_closed s t \<Longrightarrow> keeps_closed s (fst (relay_loop d t))"
  "keeps_closed s t \<Longrightarrow> keeps_closed s (fst (detect_process_timeout t))"
  by (erule keeps_closed_trans, simp)+

lemma keeps_closed_enable_bypass:
  "enable_bypass d t = Inr (t', r) \<Longrightarrow> keeps_closed s t \<Longrightarrow> keeps_closed s t'"
  by (auto dest: enable_bypass_state intro: keeps_closed_peel)

lemma keeps_closed_bypass_done:
  "keeps_closed s t \<Longrightarrow> keeps_closed s (fst (enable_bypass_done d out ec n t))"
  by (auto simp: enable_bypass_done_def split: option.split intro: keeps_closed_peel)

lemma no_setup_loops [simp]:
  "snd (relay_loop d s) \<noteq> Setup pc" "snd (connect_process s) \<noteq> Setup pc"
  "snd (connect_loop s) \<noteq> Setup pc" "snd (detect_process_timeout s) \<noteq> Setup pc"
  "Setup pc \<noteq> snd (relay_loop d s)" "Setup pc \<noteq> snd (connect_process s)"
  "Setup pc \<noteq> snd (connect_loop s)" "Setup pc \<noteq> snd (detect_process_timeout s)"
  using detect_process_timeout_snd [of s]
  by (auto simp: relay_loop_snd connect_process_snd connect_loop_snd)

text \<open>An operation that ends in a given outcome keeps the sockets closed and starts no
  second set-up.\<close>

definition ends_closed :: "session \<Rightarrow> outcome \<Rightarrow> bool" where
  "ends_closed s r \<longleftrightarrow>
     (case r of Inl f \<Rightarrow> True
      | Inr (s', fr, sp) \<Rightarrow> keeps_closed s s' \<and> (\<forall>f \<in> set (fr # sp). \<forall>pc. f \<noteq> Setup pc))"

lemma ends_closed_Inr [simp]:
  "ends_closed s (Inl f)"
  "ends_closed s (Inr (s', fr, sp)) \<longleftrightarrow>
     keeps_closed s s' \<and> (\<forall>f \<in> set (fr # sp). \<forall>pc. f \<noteq> Setup pc)"
  by (simp_all add: ends_closed_def)

lemma ends_closed_continue:
  "keeps_closed s t \<Longrightarrow> (\<forall>f \<in> set sp. \<forall>pc. f \<noteq> Setup pc) \<Longrightarrow> ends_closed s (continue_relay d sp t)"
  by (simp add: continue_relay_def case_prod_unfold keeps_closed_peel del: relay_loop.simps)

lemma ends_closed_reconnect: "keeps_closed s t \<Longrightarrow> ends_closed s (reconnect_relay d t)"
  by (auto simp: reconnect_relay_def case_prod_unfold intro!: ends_closed_continue keeps_closed_peel)

lemma ends_closed_reads:
  "keeps_closed s t \<Longrightarrow> ends_closed s (after_bypass_read d ec bs t)"
  "keeps_closed s t \<Longrightarrow> ends_closed s (store_and_send d bs t)"
  "keeps_closed s t \<Longrightarrow> ends_closed s (after_process_read d ec bs t)"
proof -
  show store: "ends_closed s (store_and_send d bs t)" if "keeps_closed s t" for t bs
    using that by (auto simp: store_and_send_def split: sum.split intro: keeps_closed_peel)
  show "keeps_closed s t \<Longrightarrow> ends_closed s (after_bypass_read d ec bs t)"
    by (auto simp: after_bypass_read_def Let_def split: option.split
        intro!: ends_closed_continue intro: keeps_closed_peel)
  show "keeps_closed s t \<Longrightarrow> ends_closed s (after_process_read d ec bs t)"
    by (auto simp: after_process_read_def Let_def split: option.split
        intro!: ends_closed_continue store keeps_closed_peel)
qed

lemma ends_closed_relay: "ends_closed s (resume_relay s d pc ev)"
  by (cases "(s, d, pc, ev)" rule: resume_relay.cases)
    (auto split: sum.split option.split prod.split
      intro!: ends_closed_continue ends_closed_reconnect ends_closed_reads keeps_closed_peel
      elim: keeps_closed_enable_bypass simp: enable_bypass_done_def)

lemma ends_closed_reader_reconnect: "keeps_closed s t \<Longrightarrow> ends_closed s (reader_reconnect t)"
  by (auto simp: reader_reconnect_def case_prod_unfold intro: keeps_closed_peel)

lemma ends_closed_reader_flush_client: "keeps_closed s t \<Longrightarrow> ends_closed s (reader_flush_client t)"
  by (auto simp: reader_flush_client_def split: sum.split option.split
      intro: ends_closed_reader_reconnect elim: keeps_closed_enable_bypass)

lemma ends_closed_reader_fail: "keeps_closed s t \<Longrightarrow> ends_closed s (reader_fail t)"
  by (auto simp: reader_fail_def split: sum.split option.split
      intro: ends_closed_reader_flush_client elim: keeps_closed_enable_bypass)

lemma ends_closed_reader_action: "keeps_closed s t \<Longrightarrow> ends_closed s (reader_action d h pbuf t)"
  by (auto simp: reader_action_def Let_def split: sum.split prod.split intro: keeps_closed_peel)

lemma ends_closed_reader_dispatch: "keeps_closed s t \<Longrightarrow> ends_closed s (reader_dispatch h pbuf t)"
  by (auto simp: reader_dispatch_def reader_transfer_def split: option.split data_type.split
      intro: ends_closed_reader_action keeps_closed_peel)

lemma ends_closed_reader: "ends_closed s (resume_reader s pc ev)"
  by (cases "(s, pc, ev)" rule: resume_reader.cases)
    (auto simp: Let_def pass_done_def split: sum.split
      intro!: ends_closed_reader_fail ends_closed_reader_dispatch ends_closed_reader_action
        ends_closed_reader_flush_client ends_closed_reader_reconnect keeps_closed_bypass_done
        keeps_closed_peel)

lemma ends_closed_connect: "ends_closed s (resume_connect dump s pc ev)"
  by (cases "(dump, s, pc, ev)" rule: resume_connect.cases)
    (auto simp: Let_def case_prod_unfold intro: keeps_closed_peel)

lemma ends_closed_detect: "ends_closed s (resume_detect s g ev)"
  by (cases "(s, g, ev)" rule: resume_detect.cases) (auto simp: case_prod_unfold)

text \<open>Set-up is the only operation that opens the server socket, and it runs alone.\<close>

definition setting_up :: "system \<Rightarrow> bool" where
  "setting_up \<sigma> \<longleftrightarrow> (\<exists>pc. coros \<sigma> = [Setup pc]) \<and> \<not> has_closed (sess \<sigma>)"

definition set_up :: "system \<Rightarrow> bool" where
  "set_up \<sigma> \<longleftrightarrow> (\<forall>f \<in> set (coros \<sigma>). \<forall>pc. f \<noteq> Setup pc) \<and> closed_ok (sess \<sigma>)"

lemma setup_connected_closes:
  assumes "setup_connected srv eps s = Inr (s', fr, sp)" "\<not> has_closed s"
  shows "closed_ok s' \<and> (\<forall>f \<in> set (fr # sp). \<forall>pc. f \<noteq> Setup pc)"
proof (cases eps)
  case None
  with assms show ?thesis by (auto simp: setup_connected_def closed_ok_def)
next
  case (Some ep)
  from assms(1) [unfolded Some] show ?thesis
  proof (rule setup_connectedE)
    fix u
    assume "has_closed u = has_closed s"
      and s': "s' = fst (relay_loop S2C (fst (relay_loop C2S (fst (connect_process u)))))"
        "fr = Done" "sp = [snd (connect_process u), snd (relay_loop C2S (fst (connect_process u))),
         snd (relay_loop S2C (fst (relay_loop C2S (fst (connect_process u)))))]"
    then have "closed_ok u" using assms(2) by (simp add: closed_ok_def)
    moreover have "keeps_closed u s'"
      unfolding s' by (intro keeps_closed_peel keeps_closed_simps)
    ultimately show ?thesis
      using s' by (simp add: keeps_closed_def del: relay_loop.simps)
  qed
qed

lemma closed_step:
  assumes "step dump \<sigma> i ev \<sigma>'" "setting_up \<sigma> \<or> set_up \<sigma>"
  shows "setting_up \<sigma>' \<or> set_up \<sigma>'" and "has_closed (sess \<sigma>) \<longrightarrow> has_closed (sess \<sigma>')"
proof -
  obtain s fr sp where i: "i < length (coros \<sigma>)" "io_ok (sess \<sigma>) (coros \<sigma> ! i) ev"
    and r: "resume dump (sess \<sigma>) (coros \<sigma> ! i) ev = Inr (s, fr, sp)"
    and \<sigma>': "\<sigma>' = \<lparr>sess = s, coros = (coros \<sigma>)[i := fr] @ sp\<rparr>"
    using assms(1) by (rule step_resumeE)
  have up: "(setting_up \<sigma>' \<or> set_up \<sigma>') \<and> (has_closed (sess \<sigma>) \<longrightarrow> has_closed (sess \<sigma>'))"
    if set_up: "set_up \<sigma>"
  proof -
    have "coros \<sigma> ! i \<noteq> Setup pc" for pc
      using set_up i(1) by (auto simp: set_up_def)
    then have "ends_closed (sess \<sigma>) (resume dump (sess \<sigma>) (coros \<sigma> ! i) ev)"
      by (cases "coros \<sigma> ! i") (auto intro: ends_closed_relay ends_closed_reader
          ends_closed_connect ends_closed_detect)
    then have k: "keeps_closed (sess \<sigma>) s" "\<forall>f \<in> set (fr # sp). \<forall>pc. f \<noteq> Setup pc"
      by (simp_all add: r)
    have "set ((coros \<sigma>)[i := fr] @ sp) \<subseteq> set (coros \<sigma>) \<union> set (fr # sp)"
      using set_update_subset_insert [of "coros \<sigma>" i fr] by auto
    then have "\<forall>f \<in> set ((coros \<sigma>)[i := fr] @ sp). \<forall>pc. f \<noteq> Setup pc"
      using k(2) set_up unfolding set_up_def by (meson UnE subsetD)
    with k set_up show ?thesis
      by (simp add: set_up_def \<sigma>' keeps_closed_def)
  qed
  have new: "(setting_up \<sigma>' \<or> set_up \<sigma>') \<and> (has_closed (sess \<sigma>) \<longrightarrow> has_closed (sess \<sigma>'))"
    if su: "setting_up \<sigma>"
  proof -
    obtain pc where pc: "coros \<sigma> = [Setup pc]" "i = 0" and open': "\<not> has_closed (sess \<sigma>)"
      using su i(1) by (auto simp: setting_up_def)
    with r have rs: "resume_setup (sess \<sigma>) pc ev = Inr (s, fr, sp)" by simp
    have "setting_up \<lparr>sess = s, coros = fr # sp\<rparr> \<or> set_up \<lparr>sess = s, coros = fr # sp\<rparr>"
      using rs open' setup_connected_closes [of _ _ "sess \<sigma>" s fr sp]
      by (cases "(sess \<sigma>, pc, ev)" rule: resume_setup.cases)
        (auto simp: setting_up_def set_up_def closed_ok_def)
    with pc open' \<sigma>' show ?thesis by simp
  qed
  from assms(2) up new show "setting_up \<sigma>' \<or> set_up \<sigma>'"
    and "has_closed (sess \<sigma>) \<longrightarrow> has_closed (sess \<sigma>')" by blast+
qed

lemma reachable_closed: "reachable dump \<sigma> \<Longrightarrow> setting_up \<sigma> \<or> set_up \<sigma>"
proof (induction rule: reachable.induct)
  case init
  show ?case by (simp add: init_system_def setting_up_def new_session_def)
next
  case (step \<sigma> i ev \<sigma>')
  from closed_step(1) [OF step.hyps(2) step.IH] show ?case .
qed

lemma reachable_closed_ok: "reachable dump \<sigma> \<Longrightarrow> closed_ok (sess \<sigma>)"
  using reachable_closed by (auto simp: setting_up_def set_up_def closed_ok_def)


section \<open>A closed session drains\<close>

text \<open>Completions after the sockets were closed: operations are aborted with an error that
  is not the end of the stream and carry no data; a timer may have expired or not.\<close>

fun aborted :: "event \<Rightarrow> bool" where
  "aborted (Read_done ec bs) = (\<exists>n. ec = Some (Io_error n) \<and> bs = [])"
| "aborted (Write_done ec n) = (ec \<noteq> None)"
| "aborted (Connected ec eps) = (ec \<noteq> None)"
| "aborted (Resolved ec) = (ec \<noteq> None)"
| "aborted (Timer_done ec) = True"
| "aborted (Lookup r) = False"

text \<open>How often a coroutine can still be resumed by such a completion.\<close>

fun drain_rank :: "frame \<Rightarrow> nat" where
  "drain_rank Done = 0"
| "drain_rank (Relay d R_head_write) = 2"
| "drain_rank (Relay d (R_process_write out)) = 2"
| "drain_rank (Connect C_connect) = 2"
| "drain_rank (Reader (Rd_flush_server out)) = 2"
| "drain_rank (Setup S_start) = 3"
| "drain_rank (Setup (S_resolve srv)) = 2"
| "drain_rank f = 1"

definition drain_ranks :: "frame list \<Rightarrow> nat" where
  "drain_ranks fs = sum_list (map drain_rank fs)"

lemma drain_rank_0: "drain_rank f = 0 \<longleftrightarrow> f = Done"
  by (cases f rule: drain_rank.cases) auto

lemma drain_ranks_0: "drain_ranks fs = 0 \<longleftrightarrow> (\<forall>f \<in> set fs. f = Done)"
  by (auto simp: drain_ranks_def sum_list_eq_0_iff drain_rank_0)

definition drains :: "nat \<Rightarrow> outcome \<Rightarrow> bool" where
  "drains k r \<longleftrightarrow>
     (case r of Inl f \<Rightarrow> True
      | Inr (s', fr, sp) \<Rightarrow> drain_rank fr + drain_ranks sp < k)"

lemma drains_simps [simp]:
  "drains k (Inl f)"
  "drains k (Inr (s', fr, sp)) \<longleftrightarrow> drain_rank fr + drain_ranks sp < k"
  by (simp_all add: drains_def)

lemma drain_ranks_simps [simp]:
  "drain_ranks [] = 0" "drain_ranks (f # fs) = drain_rank f + drain_ranks fs"
  "drain_ranks (fs @ gs) = drain_ranks fs + drain_ranks gs"
  by (simp_all add: drain_ranks_def)

lemma closed_connect [simp]:
  "has_closed s \<Longrightarrow> snd (connect_process s) = Done" "has_closed s \<Longrightarrow> snd (connect_loop s) = Done"
  "has_closed s \<Longrightarrow> snd (detect_process_timeout s) = Done"
  by (simp_all add: connect_process_snd connect_loop_snd detect_process_timeout_def)

lemma bypass_relay_rank: "bypass s \<Longrightarrow> drain_rank (snd (relay_loop d s)) \<le> 1"
  by (simp add: relay_loop_snd inspects_def)

lemma reconnect_drains:
  assumes "has_closed s" "bypass s"
  shows "drains 2 (reconnect_relay d s)"
  using bypass_relay_rank [of "fst (connect_process s)" d] assms
  by (simp add: reconnect_relay_def continue_relay_def case_prod_unfold del: relay_loop.simps)

lemma relay_drains:
  assumes "has_closed s" "io_relay s d pc ev" "aborted ev"
  shows "drains (drain_rank (Relay d pc)) (resume_relay s d pc ev)"
proof (cases pc)
  case (R_process_write out)
  then obtain e n where ev: "ev = Write_done (Some e) n"
    using assms(2,3) by (auto elim!: wroteE)
  show ?thesis
  proof (cases "enable_bypass d (sent_process (take n out) s)")
    case (Inr r)
    obtain s1 fl where r: "r = (s1, fl)" by (cases r)
    with Inr have "s1 = (sent_process (take n out) s)\<lparr>bypass := True\<rparr>"
      by (auto dest: enable_bypass_state)
    then have "has_closed s1" "bypass s1" using assms(1) by simp_all
    from reconnect_drains [OF this] Inr r ev R_process_write show ?thesis
      by (cases fl) simp_all
  qed (use ev R_process_write in simp)
next
  case (R_flush out)
  then obtain e n where "ev = Write_done (Some e) n"
    using assms(2,3) by (auto elim!: wroteE)
  with R_flush show ?thesis by (simp add: enable_bypass_done_def)
qed (use assms in \<open>auto elim!: wroteE read_someE simp: after_bypass_read_def after_process_read_def\<close>)

lemma reader_reconnect_drains: "has_closed s \<Longrightarrow> 0 < k \<Longrightarrow> drains k (reader_reconnect s)"
  by (simp add: reader_reconnect_def case_prod_unfold)

lemma reader_flush_client_drains: "has_closed s \<Longrightarrow> drains 2 (reader_flush_client s)"
  by (auto simp: reader_flush_client_def dest!: enable_bypass_state split: sum.split option.split
      intro: reader_reconnect_drains)

lemma reader_drains:
  assumes "has_closed s" "io_reader pc ev" "aborted ev"
  shows "drains (drain_rank (Reader pc)) (resume_reader s pc ev)"
  using assms reader_flush_client_drains reader_reconnect_drains
  by (cases pc) (auto elim!: wroteE read_allE simp: reader_fail_def)

lemma resume_drains:
  assumes "has_closed s" "io_ok s f ev" "aborted ev" "\<And>pc. f \<noteq> Setup pc"
  shows "drains (drain_rank f) (resume dump s f ev)"
proof (cases f)
  case (Relay d pc)
  with relay_drains assms show ?thesis by simp
next
  case (Reader pc)
  with reader_drains assms show ?thesis by simp
next
  case (Connect pc)
  with assms show ?thesis
    by (cases pc) (auto simp: case_prod_unfold split: event.splits elim!: wroteE)
next
  case (Detect g)
  with assms show ?thesis
    by (cases "(s, g, ev)" rule: resume_detect.cases) (auto simp: case_prod_unfold)
qed (use assms in simp_all)

lemma step_drains:
  assumes "step dump \<sigma> i ev \<sigma>'" "set_up \<sigma>" "has_closed (sess \<sigma>)" "aborted ev"
  shows "drain_ranks (coros \<sigma>') < drain_ranks (coros \<sigma>)"
proof -
  obtain s fr sp where i: "i < length (coros \<sigma>)" "io_ok (sess \<sigma>) (coros \<sigma> ! i) ev"
    and r: "resume dump (sess \<sigma>) (coros \<sigma> ! i) ev = Inr (s, fr, sp)"
    and \<sigma>': "\<sigma>' = \<lparr>sess = s, coros = (coros \<sigma>)[i := fr] @ sp\<rparr>"
    using assms(1) by (rule step_resumeE)
  have "coros \<sigma> ! i \<noteq> Setup pc" for pc
    using assms(2) i(1) by (auto simp: set_up_def)
  from resume_drains [OF assms(3) i(2) assms(4) this, of dump]
  have less: "drain_rank fr + drain_ranks sp < drain_rank (coros \<sigma> ! i)" by (simp add: r)
  have "coros \<sigma> = take i (coros \<sigma>) @ coros \<sigma> ! i # drop (Suc i) (coros \<sigma>)"
    using i(1) by (rule id_take_nth_drop)
  then have "drain_ranks (coros \<sigma>) = drain_ranks (take i (coros \<sigma>)) +
      (drain_rank (coros \<sigma> ! i) + drain_ranks (drop (Suc i) (coros \<sigma>)))"
    by (metis drain_ranks_simps(2,3))
  with less i(1) show ?thesis
    by (simp add: \<sigma>' upd_conv_take_nth_drop)
qed

text \<open>Such a completion is possible for every coroutine that has not returned.\<close>

lemma abortable:
  assumes "f \<noteq> Done" "\<And>pc. f \<noteq> Setup pc"
  shows "\<exists>ev. io_ok s f ev \<and> aborted ev"
proof -
  have wr: "wrote out (Write_done (Some Eof) 0) \<and> aborted (Write_done (Some Eof) 0)" for out
    by (simp add: write_ok_def)
  have rd: "read_some n (Read_done (Some (Io_error 0)) []) \<and>
      read_all n (Read_done (Some (Io_error 0)) []) \<and> aborted (Read_done (Some (Io_error 0)) [])" for n
    by (simp add: read_some_ok_def read_all_ok_def)
  show ?thesis
  proof (cases f)
    case (Relay d pc)
    with wr rd show ?thesis by (cases pc) (auto simp del: aborted.simps wrote.simps read_some.simps)
  next
    case (Reader pc)
    with wr rd show ?thesis by (cases pc) (auto simp del: aborted.simps wrote.simps read_all.simps)
  next
    case (Connect pc)
    have c: "io_ok s (Connect C_connect) (Connected (Some Eof) None) \<and>
        aborted (Connected (Some Eof) None)"
      and w: "io_ok s (Connect C_wait) (Timer_done None) \<and> aborted (Timer_done None)"
      and t: "io_ok s (Connect (C_tuple out)) (Write_done (Some Eof) 0) \<and>
        aborted (Write_done (Some Eof) 0)" for out
      by (simp_all add: write_ok_def)
    from Connect c w t show ?thesis by (cases pc) blast+
  next
    case (Detect g)
    have "io_ok s f (Timer_done None) \<and> aborted (Timer_done None)" using Detect by simp
    then show ?thesis by blast
  qed (use assms in simp_all)
qed

end
