(* ===== verification/Session_Eval.thy ===== *)
theory Session_Eval
  imports Session_Steady Session_Close
begin

text \<open>
  Evaluating concrete runs: \<open>run_eval\<close> collects the definitions that \<open>simp\<close> unfolds to
  compute what a given sequence of completions does to a session, and the demonstration
  configuration and message builders are shared by the runs of \<open>Session_Properties\<close>.
\<close>

section \<open>Evaluation\<close>

lemma le_bytes_numeral:
  "le_bytes (numeral n) v = of_nat (v mod 256) # le_bytes (pred_numeral n) (v div 256)"
  by (subst numeral_eq_Suc) simp

lemma upt_Cons_numeral:
  "[numeral m ..< numeral n] = (if (numeral m :: nat) < numeral n then numeral m # [Suc (numeral m) ..< numeral n] else [])"
  "[0 ..< numeral n] = 0 # [1 ..< numeral n]"
  "[Suc 0 ..< numeral n] = (if (1 :: nat) < numeral n then 1 # [2 ..< numeral n] else [])"
  by (simp_all add: upt_conv_Cons numeral_2_eq_2)

lemmas run_eval =
  step_at_def init_system_def new_session_def fresh_socket_def empty_lane_def
   server_info_default_def
  setup_connected_def connect_process_def reset_local_socket_def close_process_socket_def
  close_socket_def cancel_timer_def connect_loop_def client_request_loop_def
  server_response_loop_def continue_relay_def after_bypass_read_def after_process_read_def
  store_and_send_def reader_dispatch_def reader_transfer_def reader_action_def pass_done_def
  four_tuple_frame_def detect_process_timeout_def sent_process_def received_process_def
  lane_of.simps upd_lane.simps src_socket.simps dst_socket.simps received.simps sent.simps
  write_ok_def read_some_ok_def read_all_ok_def short_history_def taken_def delivered_def
  verdict_fits_def verdict_ok_def Let_def fine_iff
  prepare_block_def current_block_def read_room_def data_block_new_def default_block_size_def
  get_available_def update_available_def get_current_write_pos_def write_at_def read_at_def
  store_packet_def dir_type.simps data_type_byte.simps
  encode_request_def put_u32_def get_u32_def put_u64_def get_u64_def encode_head_def decode_head_def
  data_type_of_def empty_head_def response_head_len_def
  prepare_transfer_packet_def asio_buffer_def clear_handled_packet_def
  le_bytes_numeral upt_Cons_numeral store_bytes_def load_bytes_def lane_bytes_def stored_bytes_def packet_bytes_def

section \<open>A demonstration session\<close>

definition demo_server :: server_info where
  "demo_server = server_info_default\<lparr>si_ip := ''10.0.0.2'', si_port := 80\<rparr>"

definition demo_endpoints :: endpoints where
  "demo_endpoints = \<lparr>ep_client_ip = ''10.0.0.1'', ep_client_port = 4000,
     ep_proxy_ip = ''10.0.0.3'', ep_proxy_port = 8080\<rparr>"

definition demo_verdict :: "data_type \<Rightarrow> action \<Rightarrow> u64 \<Rightarrow> byte list" where
  "demo_verdict t a n = encode_head (empty_head\<lparr>rh_type := data_type_byte t, rh_act := action_byte a,
     rh_handled_total_pkg_len := n\<rparr>)"

definition demo_events :: "(nat \<times> event) list" where
  "demo_events =
     [(0, Lookup (Inr (Some demo_server))), (0, Resolved None),
      (0, Connected None (Some demo_endpoints)),
      (2, Read_done None [1, 2]), (1, Connected None None), (1, Write_done None 5),
      (2, Write_done None 2), (2, Read_done None [7, 8, 9]), (2, Write_done None 8),
      (4, Read_done None (demo_verdict From_client_to_server Pass 2)), (4, Write_done None 2),
      (3, Read_done None [5])]"

lemmas demo_eval = run_eval demo_server_def demo_endpoints_def demo_verdict_def demo_events_def

end
