(* ===== verification/Session_Drain.thy ===== *)
theory Session_Drain
  imports Session_Eval
begin

text \<open>
  Completions that cannot fault. A failing link makes a coroutine gather the packets it stores,
  which is defined while the stores are intact; from there on a session that was closed is left
  by all its coroutines.
\<close>

section \<open>Intact stores\<close>

definition stores_intact :: "session \<Rightarrow> bool" where
  "stores_intact s \<longleftrightarrow> (\<forall>d. lane_ok (lane_of d s))"

lemma stores_intact_frame [simp]:
  "stores_intact (sent d c s) = stores_intact s" "stores_intact (received d bs s) = stores_intact s"
  "stores_intact (sent_process bs s) = stores_intact s"
  "stores_intact (received_process bs s) = stores_intact s"
  "stores_intact (grace_close s) = stores_intact s" "stores_intact (s\<lparr>bypass := b\<rparr>) = stores_intact s"
  "stores_intact (close_process_socket s) = stores_intact s"
  "stores_intact (fst (connect_process s)) = stores_intact s"
  "stores_intact (fst (detect_process_timeout s)) = stores_intact s"
  by (simp_all add: stores_intact_def)

lemma stores_intact_loops [simp]:
  "bypass s \<Longrightarrow> stores_intact (fst (relay_loop d s)) = stores_intact s"
  "has_closed s \<Longrightarrow> stores_intact (fst (connect_loop s)) = stores_intact s"
  by (simp_all add: stores_intact_def relay_loop_lane inspects_def connect_loop_def)

lemma enable_bypass_runs:
  assumes "stores_intact s"
  obtains r where "enable_bypass d s = Inr (s\<lparr>bypass := True\<rparr>, r)"
proof -
  have "lane_ok (lane_of d s)" using assms by (simp add: stores_intact_def)
  then have "gather (ln_heap (lane_of d s)) (flush_buffers (ln_stored (lane_of d s))) =
      Inr (lane_bytes (lane_of d s))"
    using gather_flush unfolding lane_ok_def lane_bytes_def by blast
  then show thesis
    using that by (cases "bypass s"; cases "ln_stored (lane_of d s) = []") (auto simp: enable_bypass_def Let_def)
qed

text \<open>An outcome without a fault, and one that keeps the stores.\<close>

definition runs :: "outcome \<Rightarrow> bool" where
  "runs r \<longleftrightarrow> (\<exists>x. r = Inr x)"

definition runs_intact :: "outcome \<Rightarrow> bool" where
  "runs_intact r \<longleftrightarrow> (case r of Inl f \<Rightarrow> False | Inr (s, fr, sp) \<Rightarrow> stores_intact s)"

lemma runs_intact_simps [simp]:
  "\<not> runs_intact (Inl f)" "runs_intact (Inr (s, fr, sp)) = stores_intact s"
  by (simp_all add: runs_intact_def)

lemma runs_intact_runs: "runs_intact r \<Longrightarrow> runs r"
  unfolding runs_def by (cases r) (simp, blast)

section \<open>A link that fails\<close>

lemma reconnect_relay_intact:
  "bypass s \<Longrightarrow> stores_intact s \<Longrightarrow> runs_intact (reconnect_relay d s)"
  by (simp add: reconnect_relay_def continue_relay_def case_prod_unfold del: relay_loop.simps)

lemma process_write_failed:
  assumes "stores_intact s"
  shows "runs_intact (resume_relay s d (R_process_write out) (Write_done (Some e) n))"
proof -
  have "stores_intact (sent_process (take n out) s)" using assms by simp
  then obtain r where "enable_bypass d (sent_process (take n out) s) =
      Inr ((sent_process (take n out) s)\<lparr>bypass := True\<rparr>, r)"
    by (rule enable_bypass_runs)
  then show ?thesis using assms reconnect_relay_intact by (cases r) simp_all
qed

lemma reader_reconnect_intact: "stores_intact s \<Longrightarrow> runs_intact (reader_reconnect s)"
  by (simp add: reader_reconnect_def case_prod_unfold)

lemma reader_flush_client_intact: "stores_intact s \<Longrightarrow> runs_intact (reader_flush_client s)"
  by (rule enable_bypass_runs [of s S2C])
    (auto simp: reader_flush_client_def split: option.split intro: reader_reconnect_intact)

lemma reader_fail_intact: "stores_intact s \<Longrightarrow> runs_intact (reader_fail s)"
  by (rule enable_bypass_runs [of s C2S])
    (auto simp: reader_fail_def split: option.split intro: reader_flush_client_intact)

section \<open>A session that was closed\<close>

lemma abort_relay:
  assumes "has_closed s" "stores_intact s" "io_relay s d pc ev" "aborted ev"
  shows "runs_intact (resume_relay s d pc ev)"
proof (cases pc)
  case (R_process_write out)
  then obtain e n where "ev = Write_done (Some e) n" using assms(3,4) by (auto elim!: wroteE)
  then show ?thesis using process_write_failed [OF assms(2)] R_process_write by simp
next
  case (R_flush out)
  then obtain e n where "ev = Write_done (Some e) n" using assms(3,4) by (auto elim!: wroteE)
  then show ?thesis using assms(2) R_flush by (simp add: enable_bypass_done_def)
qed (use assms in \<open>auto elim!: wroteE read_someE simp: after_bypass_read_def after_process_read_def\<close>)

lemma abort_reader:
  assumes "has_closed s" "stores_intact s" "io_reader pc ev" "aborted ev"
  shows "runs_intact (resume_reader s pc ev)"
  using assms reader_flush_client_intact reader_reconnect_intact reader_fail_intact
  by (cases pc) (auto elim!: wroteE read_allE simp: enable_bypass_done_def)

lemma abort_resumes:
  assumes "has_closed s" "stores_intact s" "io_ok s f ev" "aborted ev" "\<And>pc. f \<noteq> Setup pc"
  shows "runs_intact (resume dump s f ev)"
proof (cases f)
  case (Relay d pc)
  with abort_relay assms show ?thesis by simp
next
  case (Reader pc)
  with abort_reader assms show ?thesis by simp
next
  case (Connect pc)
  with assms show ?thesis
    by (cases pc) (auto simp: case_prod_unfold split: event.splits elim!: wroteE)
next
  case (Detect g)
  with assms show ?thesis
    by (cases "(s, g, ev)" rule: resume_detect.cases) (auto simp: case_prod_unfold)
qed (use assms in simp_all)

text \<open>A state from which the coroutines can be drained, and its steps.\<close>

definition draining :: "(json \<Rightarrow> byte list) \<Rightarrow> system \<Rightarrow> bool" where
  "draining dump \<sigma> \<longleftrightarrow> reachable dump \<sigma> \<and> has_closed (sess \<sigma>) \<and> stores_intact (sess \<sigma>)"

lemma draining_set_up: "draining dump \<sigma> \<Longrightarrow> set_up \<sigma>"
  using reachable_closed by (auto simp: draining_def setting_up_def)

lemma draining_step:
  assumes "draining dump \<sigma>" "i < length (coros \<sigma>)" "io_ok (sess \<sigma>) (coros \<sigma> ! i) ev" "aborted ev"
  obtains \<sigma>' where "step_at dump \<sigma> i ev = Inr \<sigma>'" "draining dump \<sigma>'"
    "drain_ranks (coros \<sigma>') < drain_ranks (coros \<sigma>)"
proof -
  have "coros \<sigma> ! i \<noteq> Setup pc" for pc
    using draining_set_up [OF assms(1)] assms(2) by (auto simp: set_up_def)
  then have "runs_intact (resume dump (sess \<sigma>) (coros \<sigma> ! i) ev)"
    using abort_resumes assms by (simp add: draining_def)
  then obtain s fr sp where r: "resume dump (sess \<sigma>) (coros \<sigma> ! i) ev = Inr (s, fr, sp)" "stores_intact s"
    by (cases "resume dump (sess \<sigma>) (coros \<sigma> ! i) ev") auto
  define \<sigma>' where "\<sigma>' = \<lparr>sess = s, coros = (coros \<sigma>)[i := fr] @ sp\<rparr>"
  have at: "step_at dump \<sigma> i ev = Inr \<sigma>'" using r(1) by (simp add: step_at_def \<sigma>'_def)
  have st: "step dump \<sigma> i ev \<sigma>'" by (rule step.intros [OF assms(2,3) at])
  have "reachable dump \<sigma>'" using assms(1) st by (auto simp: draining_def intro: reachable.step)
  moreover have "has_closed (sess \<sigma>')"
    using closed_step(2) [OF st] draining_set_up [OF assms(1)] assms(1) by (simp add: draining_def)
  ultimately have "draining dump \<sigma>'" using r(2) by (simp add: draining_def \<sigma>'_def)
  moreover have "drain_ranks (coros \<sigma>') < drain_ranks (coros \<sigma>)"
    using step_drains [OF st draining_set_up [OF assms(1)] _ assms(4)] assms(1) by (simp add: draining_def)
  ultimately show thesis using at that by blast
qed

lemma draining_run:
  "run dump \<sigma> evs = Some r \<Longrightarrow> draining dump \<sigma> \<Longrightarrow> \<forall>(i, ev) \<in> set evs. aborted ev \<Longrightarrow>
   \<exists>\<sigma>'. r = Inr \<sigma>' \<and> draining dump \<sigma>'"
proof (induction evs arbitrary: \<sigma>)
  case (Cons a evs)
  obtain i ev where a: "a = (i, ev)" by (cases a)
  then have i: "i < length (coros \<sigma>)" "io_ok (sess \<sigma>) (coros \<sigma> ! i) ev"
    using Cons.prems(1) by (simp_all split: if_splits)
  obtain \<sigma>1 where "step_at dump \<sigma> i ev = Inr \<sigma>1" "draining dump \<sigma>1"
    using draining_step [OF Cons.prems(2) i] Cons.prems(3) a by auto
  with Cons a i show ?case by simp
qed auto

lemma draining_ends:
  "draining dump \<sigma> \<Longrightarrow> \<exists>evs \<sigma>'. (\<forall>(i, ev) \<in> set evs. aborted ev) \<and> run dump \<sigma> evs = Some (Inr \<sigma>') \<and>
     (\<forall>f \<in> set (coros \<sigma>'). f = Done)"
proof (induction "drain_ranks (coros \<sigma>)" arbitrary: \<sigma> rule: less_induct)
  case less
  show ?case
  proof (cases "\<forall>f \<in> set (coros \<sigma>). f = Done")
    case True
    then show ?thesis by (intro exI [of _ "[]"] exI [of _ \<sigma>]) simp
  next
    case False
    then obtain i where i: "i < length (coros \<sigma>)" "coros \<sigma> ! i \<noteq> Done" by (metis in_set_conv_nth)
    have "coros \<sigma> ! i \<noteq> Setup pc" for pc
      using draining_set_up [OF less.prems] i(1) by (auto simp: set_up_def)
    then obtain ev where ev: "io_ok (sess \<sigma>) (coros \<sigma> ! i) ev" "aborted ev"
      using abortable [OF i(2)] by blast
    obtain \<sigma>1 where s1: "step_at dump \<sigma> i ev = Inr \<sigma>1" "draining dump \<sigma>1"
      "drain_ranks (coros \<sigma>1) < drain_ranks (coros \<sigma>)"
      by (rule draining_step [OF less.prems i(1) ev])
    from less.hyps [OF s1(3,2)] obtain evs \<sigma>' where "\<forall>(i, ev) \<in> set evs. aborted ev"
      "run dump \<sigma>1 evs = Some (Inr \<sigma>')" "\<forall>f \<in> set (coros \<sigma>'). f = Done" by blast
    then show ?thesis using i(1) ev s1(1)
      by (intro exI [of _ "(i, ev) # evs"] exI [of _ \<sigma>']) simp
  qed
qed

section \<open>What must be sound for a completion not to fault\<close>

text \<open>Where the code trusts what it is given: that the configuration has a server for the port, and
  that the total in a verdict is not below what was released of its direction.\<close>

fun sound_input :: "session \<Rightarrow> frame \<Rightarrow> event \<Rightarrow> bool" where
  "sound_input s (Setup S_start) (Lookup r) = (\<exists>srv. r = Inr (Some srv))"
| "sound_input s (Reader (Rd_head pbuf)) (Read_done None bs) = verdict_fits s (decode_head bs)"
| "sound_input s (Reader (Rd_body head pbuf)) (Read_done None bs) = verdict_fits s head"
| "sound_input s (Reader (Rd_new_data d head out pbuf)) (Write_done None n) = verdict_ok d s head"
| "sound_input s f ev = True"

text \<open>Completions with sound inputs that a link which holds would not give: it fails.\<close>

lemma link_failure:
  assumes "sound_input s f ev" "io_ok s f ev" "\<not> peer_ok s f ev"
  obtains (request) d out e n where "f = Relay d (R_process_write out)" "ev = Write_done (Some e) n"
  | (response) pc e bs where "f = Reader pc" "ev = Read_done (Some e) bs"
      "resume_reader s pc ev = reader_fail (received_process bs s)"
  | (inject) d head out pbuf e n where "f = Reader (Rd_new_data d head out pbuf)" "ev = Write_done (Some e) n"
proof (cases f)
  case (Relay d pc)
  then show thesis using assms request by (cases pc) (auto elim!: wroteE)
next
  case (Reader pc)
  then show thesis using assms response inject
    by (cases pc) (auto elim!: wroteE read_allE)
next
  case (Setup pc)
  then show thesis using assms by (cases pc) (auto split: event.splits)
qed (use assms in simp_all)

lemma failed_link_resumes:
  assumes "stores_intact s" "sound_input s f ev" "io_ok s f ev" "\<not> peer_ok s f ev"
  shows "runs (resume dump s f ev)"
  using assms(2-4)
proof (cases rule: link_failure)
  case request
  then show ?thesis using process_write_failed [OF assms(1)] by (auto intro: runs_intact_runs)
next
  case (response pc e bs)
  then show ?thesis using reader_fail_intact [of "received_process bs s"] assms(1)
    by (simp add: runs_intact_runs)
next
  case inject
  then show ?thesis by (simp add: runs_def)
qed

lemma relays_ok_intact: "relays_ok s f g r \<Longrightarrow> stores_intact s"
  by (simp add: relays_ok_def dir_ok_def stores_intact_def)

lemma steady_shape_intact:
  assumes "steady_shape \<sigma>" "i < length (coros \<sigma>)" "io_ok (sess \<sigma>) (coros \<sigma> ! i) ev" "\<And>pc. coros \<sigma> ! i \<noteq> Setup pc"
  shows "stores_intact (sess \<sigma>)"
  using assms(1-3) by (cases rule: steady_shapeE) (use assms(4) relays_ok_intact in auto)

end
