(* ===== verification/Session_Properties.thy ===== *)
theory Session_Properties
  imports Session_Drain
begin

text \<open>
  What the session keeps over whole runs: byte transparency while the link to the handler
  process holds, and connecting and closing under every schedule.
\<close>

section \<open>Runs whose link holds\<close>

text \<open>C3. In a state of a session whose link held so far, no completion drives it into undefined
  behaviour, whatever client, server, timers, connection attempts and the link itself do next: the
  resumed coroutine reaches its next suspension. Only two inputs are relied on, and the code checks
  neither: that \<^verbatim>\<open>setup_proxy\<close> finds a server for its port in the configuration, and that the total in
  a verdict is not below what was already released of its direction (\<open>sound_input\<close>). Fewer than
  $2^{64}$ bytes have been read so far (\<open>short_history\<close>).\<close>

theorem steady_no_fault:
  assumes "steady dump \<sigma>" "i < length (coros \<sigma>)" "io_ok (sess \<sigma>) (coros \<sigma> ! i) ev"
    and "sound_input (sess \<sigma>) (coros \<sigma> ! i) ev" "short_history (sess \<sigma>)"
  shows "\<exists>\<sigma>'. step_at dump \<sigma> i ev = Inr \<sigma>'"
proof (cases "peer_ok (sess \<sigma>) (coros \<sigma> ! i) ev")
  case True
  from steady_shape_step [OF steady_steady_shape [OF assms(1)] assms(2,3) True assms(5)] show ?thesis by blast
next
  case False
  have "coros \<sigma> ! i \<noteq> Setup pc" for pc
    using False assms(3,4) by (cases pc) (auto split: event.splits)
  from steady_shape_intact [OF steady_steady_shape [OF assms(1)] assms(2,3) this]
  have "runs (resume dump (sess \<sigma>) (coros \<sigma> ! i) ev)"
    using failed_link_resumes assms(3,4) False by blast
  then show ?thesis by (auto simp: runs_def step_at_def)
qed

text \<open>C1. While the link holds, what either peer is sent of the other peer's bytes is at every
  moment a prefix of what that other peer sent: nothing is lost in the middle, duplicated
  or reordered, in both directions, through bypass, inspection, verdicts that cut packets
  anywhere, failed writes and closing.\<close>

theorem steady_in_order:
  "steady dump \<sigma> \<Longrightarrow> prefix (delivered d (sess \<sigma>)) (taken d (sess \<sigma>))"
  by (rule steady_shape_prefix [OF steady_steady_shape])

text \<open>Bytes of bypass writes that were started and have not completed.\<close>

definition in_flight :: "dir \<Rightarrow> frame list \<Rightarrow> byte list" where
  "in_flight d fs =
     concat (map (\<lambda>f. case f of Relay e (R_bypass_write out) \<Rightarrow> if e = d then out else [] | _ \<Rightarrow> []) fs)"

lemma in_flight_simps [simp]:
  "in_flight d [] = []"
  "in_flight d (Relay e (R_bypass_write out) # fs) = (if e = d then out else []) @ in_flight d fs"
  "link_frame f \<or> reader_ok f \<or> watchdog_frame f \<or> f = Setup pc \<Longrightarrow> in_flight d (f # fs) = in_flight d fs"
  by (auto simp: in_flight_def split: frame.split)

lemma in_flight_relay:
  "relay_ok e s f \<Longrightarrow> in_flight d (f # fs) = (if d = e then bypass_inflight f else []) @ in_flight d fs"
  by (cases "(e, s, f)" rule: relay_ok.cases) (auto simp: in_flight_def)


lemma relays_account:
  assumes "relays_ok s f g r" "\<not> has_closed s" "in_flight d fs = []"
  shows "delivered d s @ in_flight d (f # g # fs) @ lane_bytes (lane_of d s) = taken d s"
proof -
  have ok: "relay_ok C2S s f" "relay_ok S2C s g" "conserves C2S s f r" "conserves S2C s g r"
    using assms(1) by (auto simp: relays_ok_iff dir_ok_def)
  show ?thesis
    using conserves_open [OF ok(3) assms(2)] conserves_open [OF ok(4) assms(2)] assms(3)
    by (cases d) (simp_all add: in_flight_relay [OF ok(1)] in_flight_relay [OF ok(2)])
qed

text \<open>C2. While the link holds and the session is open, the bytes taken from a peer are exactly,
  in this order, those delivered to the other peer, those of a write that has not completed,
  and those stored until the handler process has judged them.\<close>

theorem steady_accounts:
  assumes "steady dump \<sigma>" "\<not> has_closed (sess \<sigma>)"
  shows "delivered d (sess \<sigma>) @ in_flight d (coros \<sigma>) @ lane_bytes (lane_of d (sess \<sigma>)) =
    taken d (sess \<sigma>)"
proof -
  have idle: "in_flight d (Done # fs) = in_flight d fs" for fs
    by (simp add: in_flight_def)
  from steady_steady_shape [OF assms(1)] consider pc where "coros \<sigma> = [Setup pc]" "fresh_session (sess \<sigma>)"
    | "coros \<sigma> = [Done]" "taken d (sess \<sigma>) = []" "delivered d (sess \<sigma>) = []"
        "lane_bytes (lane_of d (sess \<sigma>)) = []"
    | c f g where "coros \<sigma> = [Done, c, f, g]" "link_frame c" "relays_ok (sess \<sigma>) f g None"
    | f g r t where "coros \<sigma> = [Done, Done, f, g, r, t]" "reader_ok r" "watchdog_frame t"
        "relays_ok (sess \<sigma>) f g (Some r)"
    unfolding steady_shape_def by blast
  then show ?thesis
  proof cases
    case 1
    then show ?thesis by (simp add: fresh_session_def empty_lane_def lane_bytes_def)
  next
    case 2
    then show ?thesis by (simp add: idle)
  next
    case 3
    from relays_account [OF 3(3) assms(2), of d "[]"] 3 show ?thesis by (simp add: idle)
  next
    case 4
    have "in_flight d [r, t] = []" using 4(2,3) by simp
    from relays_account [OF 4(4) assms(2) this] 4 show ?thesis by (simp add: idle)
  qed
qed

section \<open>Witnesses\<close>

lemma demo_run:
  "\<exists>\<sigma>. steady_run (\<lambda>j. []) init_system demo_events = Some \<sigma> \<and>
     delivered C2S (sess \<sigma>) = [1, 2, 7, 8] \<and> taken C2S (sess \<sigma>) = [1, 2, 7, 8, 9] \<and>
     lane_bytes (lane_of C2S (sess \<sigma>)) = [9] \<and> short_history (sess \<sigma>) \<and>
     delivered S2C (sess \<sigma>) = [] \<and> taken S2C (sess \<sigma>) = [5] \<and> \<not> has_closed (sess \<sigma>) \<and>
     process_connecting (sess \<sigma>) = False \<and>
     coros \<sigma> = [Done, Done, Relay C2S R_process_read, Relay S2C (R_bypass_write [5]),
       Reader (Rd_head []), Detect 2]"
  by (simp add: demo_eval)

lemma demo_steady:
  obtains \<sigma> where "steady (\<lambda>j. []) \<sigma>" "delivered C2S (sess \<sigma>) = [1, 2, 7, 8]"
    "taken C2S (sess \<sigma>) = [1, 2, 7, 8, 9]" "lane_bytes (lane_of C2S (sess \<sigma>)) = [9]"
    "short_history (sess \<sigma>)" "\<not> has_closed (sess \<sigma>)"
    "coros \<sigma> = [Done, Done, Relay C2S R_process_read, Relay S2C (R_bypass_write [5]),
       Reader (Rd_head []), Detect 2]"
  using demo_run steady_run_steady [OF _ steady.init] by blast

theorem steady_no_fault_witness:
  "\<exists>\<sigma> \<sigma>'. steady (\<lambda>j. []) \<sigma> \<and> step_at (\<lambda>j. []) \<sigma> 3 (Write_done None 1) = Inr \<sigma>'"
proof -
  obtain \<sigma> where \<sigma>: "steady (\<lambda>j. []) \<sigma>" "short_history (sess \<sigma>)"
    "coros \<sigma> = [Done, Done, Relay C2S R_process_read, Relay S2C (R_bypass_write [5]),
       Reader (Rd_head []), Detect 2]"
    by (rule demo_steady)
  with steady_no_fault [OF \<sigma>(1), of 3 "Write_done None 1"] show ?thesis
    by (auto simp: write_ok_def)
qed

theorem steady_in_order_witness:
  "\<exists>\<sigma> :: system. delivered C2S (sess \<sigma>) = [1, 2, 7, 8] \<and> prefix (delivered C2S (sess \<sigma>)) (taken C2S (sess \<sigma>))"
proof (rule demo_steady)
  fix \<sigma>
  assume "steady (\<lambda>j. []) \<sigma>" "delivered C2S (sess \<sigma>) = [1, 2, 7, 8]"
  with steady_in_order [of "\<lambda>j. []" \<sigma> C2S] show ?thesis by blast
qed

theorem steady_accounts_witness:
  "\<exists>\<sigma> :: system. delivered C2S (sess \<sigma>) @ in_flight C2S (coros \<sigma>) @ lane_bytes (lane_of C2S (sess \<sigma>)) =
     taken C2S (sess \<sigma>) \<and> lane_bytes (lane_of C2S (sess \<sigma>)) = [9]"
proof (rule demo_steady)
  fix \<sigma>
  assume "steady (\<lambda>j. []) \<sigma>" "\<not> has_closed (sess \<sigma>)" "lane_bytes (lane_of C2S (sess \<sigma>)) = [9]"
  with steady_accounts [of "\<lambda>j. []" \<sigma> C2S] show ?thesis by blast
qed

section \<open>All schedules\<close>

text \<open>C8. Under every schedule, with the link failing at any point, at most one coroutine of a
  session is connecting to the handler process, and while the session is open the flag
  \<^verbatim>\<open>process_connecting_\<close> is set only if exactly one is.\<close>

theorem single_connector:
  assumes "reachable dump \<sigma>"
  shows "connectors (coros \<sigma>) \<le> 1 \<and>
    (process_connecting (sess \<sigma>) \<and> \<not> has_closed (sess \<sigma>) \<longrightarrow> connectors (coros \<sigma>) = 1)"
  using reachable_connect_inv [OF assms]
  by (cases "process_connecting (sess \<sigma>)") (auto simp: connect_inv_def)

theorem single_connector_witness:
  "\<exists>\<sigma> :: system. connectors (coros \<sigma>) \<le> 1 \<and> coros \<sigma> \<noteq> []"
proof (rule demo_steady)
  fix \<sigma>
  assume "steady (\<lambda>j. []) \<sigma>" and "coros \<sigma> = [Done, Done, Relay C2S R_process_read,
    Relay S2C (R_bypass_write [5]), Reader (Rd_head []), Detect 2]"
  with single_connector [OF steady_reachable, of "\<lambda>j. []" \<sigma>] show ?thesis
    by (intro exI [of _ \<sigma>]) simp
qed

text \<open>C5. Closing is final under every schedule: once \<^verbatim>\<open>has_closed_\<close> is set no step clears it,
  and after every step that ends in a closed state, be it the step that closed the session or a
  later one, the client, server and process sockets are shut.\<close>

theorem closing_is_final:
  assumes "reachable dump \<sigma>" "step dump \<sigma> i ev \<sigma>'"
  shows "(has_closed (sess \<sigma>) \<longrightarrow> has_closed (sess \<sigma>')) \<and>
    (has_closed (sess \<sigma>') \<longrightarrow> \<not> sk_open (proxy_client_socket (sess \<sigma>')) \<and>
       \<not> sk_open (proxy_server_socket (sess \<sigma>')) \<and> \<not> sk_open (proxy_process_socket (sess \<sigma>')))"
  using closed_step(2) [OF assms(2) reachable_closed [OF assms(1)]]
    reachable_closed_ok [OF reachable.step [OF assms(1,2)]]
  by (simp add: closed_ok_def)

text \<open>C6. A closed session is let go: from any reachable closed state a run of aborted
  completions is no longer than \<open>drain_ranks\<close> of its coroutines says, and what is left
  after it has accordingly less to go.\<close>

theorem closed_drains:
  assumes "reachable dump \<sigma>" "has_closed (sess \<sigma>)" "\<forall>(i, ev) \<in> set evs. aborted ev"
    and "run dump \<sigma> evs = Some (Inr \<sigma>')"
  shows "length evs + drain_ranks (coros \<sigma>') \<le> drain_ranks (coros \<sigma>)"
  using assms
proof (induction evs arbitrary: \<sigma>)
  case Nil
  then show ?case by simp
next
  case (Cons a evs)
  obtain i ev where a: "a = (i, ev)" by (cases a)
  with Cons.prems obtain \<tau> where st: "step dump \<sigma> i ev \<tau>" and rest: "run dump \<tau> evs = Some (Inr \<sigma>')"
    by (auto split: if_splits sum.splits intro: step.intros)
  have "set_up \<sigma>"
    using reachable_closed [OF Cons.prems(1)] Cons.prems(2) by (auto simp: setting_up_def)
  from step_drains [OF st this Cons.prems(2)] a Cons.prems(3)
  have "drain_ranks (coros \<tau>) < drain_ranks (coros \<sigma>)" by simp
  moreover have "has_closed (sess \<tau>)"
    using closed_step(2) [OF st reachable_closed [OF Cons.prems(1)]] Cons.prems(2) by simp
  then have "length evs + drain_ranks (coros \<sigma>') \<le> drain_ranks (coros \<tau>)"
    using Cons.IH [OF reachable.step [OF Cons.prems(1) st] _ _ rest] Cons.prems(3) by simp
  ultimately show ?case by simp
qed

text \<open>C7. A closed session whose stores are intact (\<open>stores_intact\<close>; \<open>steady_shape_intact\<close> shows it of
  sessions whose link has held) is left by all its coroutines: whatever aborted completions have come, none of them was undefined
  behaviour, and more of them lead to a state in which every coroutine has returned, so that the
  last reference to the session is dropped.\<close>

theorem closed_can_drain:
  assumes "reachable dump \<sigma>" "has_closed (sess \<sigma>)" "stores_intact (sess \<sigma>)"
    and "run dump \<sigma> evs = Some r" "\<forall>(i, ev) \<in> set evs. aborted ev"
  shows "\<exists>\<sigma>' evs' \<sigma>''. r = Inr \<sigma>' \<and> (\<forall>(i, ev) \<in> set evs'. aborted ev) \<and>
    run dump \<sigma>' evs' = Some (Inr \<sigma>'') \<and> (\<forall>f \<in> set (coros \<sigma>''). f = Done)"
proof -
  have "draining dump \<sigma>" using assms(1-3) by (simp add: draining_def)
  from draining_run [OF assms(4) this assms(5)] draining_ends show ?thesis by blast
qed

text \<open>A session whose client read failed while the process was being asked.\<close>

lemma demo_closed:
  obtains \<sigma> where "reachable (\<lambda>j. []) \<sigma>" "has_closed (sess \<sigma>)"
    "coros \<sigma> = [Done, Done, Done, Relay S2C (R_bypass_write [5]), Reader (Rd_head []), Detect 2]"
    "stores_intact (sess \<sigma>)"
proof (rule demo_steady)
  fix \<sigma>
  assume \<sigma>: "steady (\<lambda>j. []) \<sigma>" and co: "coros \<sigma> = [Done, Done, Relay C2S R_process_read,
    Relay S2C (R_bypass_write [5]), Reader (Rd_head []), Detect 2]"
  let ?ev = "Read_done (Some (Io_error 5)) []"
  obtain \<sigma>' where st: "step_at (\<lambda>j. []) \<sigma> 2 ?ev = Inr \<sigma>'" "has_closed (sess \<sigma>')"
    "coros \<sigma>' = [Done, Done, Done, Relay S2C (R_bypass_write [5]), Reader (Rd_head []), Detect 2]"
    "stores_intact (sess \<sigma>') = stores_intact (sess \<sigma>)"
    using co by (simp add: step_at_def after_process_read_def)
  have "stores_intact (sess \<sigma>)"
    using steady_shape_intact [OF steady_steady_shape [OF \<sigma>], of 2 ?ev] co by (simp add: read_some_ok_def)
  have "step (\<lambda>j. []) \<sigma> 2 ?ev \<sigma>'"
    using st(1) co by (intro step.intros) (simp_all add: read_some_ok_def)
  with that st(2-4) \<open>stores_intact (sess \<sigma>)\<close> reachable.step [OF steady_reachable [OF \<sigma>]] show thesis by blast
qed

theorem closing_is_final_witness:
  "\<exists>\<sigma> \<sigma>'. step (\<lambda>j. []) \<sigma> 3 (Write_done (Some Eof) 0) \<sigma>' \<and> has_closed (sess \<sigma>') \<and>
     \<not> sk_open (proxy_client_socket (sess \<sigma>'))"
proof (rule demo_closed)
  fix \<sigma>
  assume \<sigma>: "reachable (\<lambda>j. []) \<sigma>" "has_closed (sess \<sigma>)" and co: "coros \<sigma> =
    [Done, Done, Done, Relay S2C (R_bypass_write [5]), Reader (Rd_head []), Detect 2]"
  have "\<exists>\<sigma>'. step (\<lambda>j. []) \<sigma> 3 (Write_done (Some Eof) 0) \<sigma>'"
    using co by (auto intro!: step.intros simp: step_at_def write_ok_def)
  with closing_is_final [OF \<sigma>(1)] \<sigma>(2) show ?thesis by blast
qed

theorem closed_drains_witness:
  "\<exists>\<sigma> \<sigma>'. has_closed (sess \<sigma>) \<and>
     run (\<lambda>j. []) \<sigma> [(3, Write_done (Some Eof) 0), (5, Timer_done None)] = Some (Inr \<sigma>') \<and>
     2 + drain_ranks (coros \<sigma>') \<le> drain_ranks (coros \<sigma>)"
proof (rule demo_closed)
  fix \<sigma>
  assume \<sigma>: "reachable (\<lambda>j. []) \<sigma>" "has_closed (sess \<sigma>)" and co: "coros \<sigma> =
    [Done, Done, Done, Relay S2C (R_bypass_write [5]), Reader (Rd_head []), Detect 2]"
  let ?evs = "[(3, Write_done (Some Eof) 0), (5, Timer_done None)] :: (nat \<times> event) list"
  obtain \<sigma>' where run: "run (\<lambda>j. []) \<sigma> ?evs = Some (Inr \<sigma>')"
    using co by (simp add: step_at_def write_ok_def)
  with closed_drains [OF \<sigma>, of ?evs \<sigma>'] \<sigma>(2) show ?thesis by (intro exI [of _ \<sigma>] exI [of _ \<sigma>']) simp
qed

theorem closed_can_drain_witness:
  "\<exists>(\<sigma> :: system) evs \<sigma>'. run (\<lambda>j. []) \<sigma> ((3, Write_done (Some Eof) 0) # evs) = Some (Inr \<sigma>') \<and>
     (\<forall>f \<in> set (coros \<sigma>'). f = Done)"
proof (rule demo_closed)
  fix \<sigma>
  assume \<sigma>: "reachable (\<lambda>j. []) \<sigma>" "has_closed (sess \<sigma>)" and co: "coros \<sigma> =
    [Done, Done, Done, Relay S2C (R_bypass_write [5]), Reader (Rd_head []), Detect 2]"
    and intact: "stores_intact (sess \<sigma>)"
  obtain r where r: "run (\<lambda>j. []) \<sigma> [(3, Write_done (Some Eof) 0)] = Some r"
    using co by (simp add: step_at_def write_ok_def)
  with closed_can_drain [OF \<sigma> intact r] obtain \<sigma>1 evs \<sigma>2 where "r = Inr \<sigma>1"
    "run (\<lambda>j. []) \<sigma>1 evs = Some (Inr \<sigma>2)" "\<forall>f \<in> set (coros \<sigma>2). f = Done" by auto
  with r have "run (\<lambda>j. []) \<sigma> ((3, Write_done (Some Eof) 0) # evs) = Some (Inr \<sigma>2)"
    by (auto split: if_splits sum.splits)
  with \<open>\<forall>f \<in> set (coros \<sigma>2). f = Done\<close> show ?thesis by blast
qed

end
