(* ===== verification/Wire_Properties.thy ===== *)
theory Wire_Properties
  imports Session_Eval
begin

text \<open>
  Properties of the messages between the proxy and the handler process and of the packet
  store of one relay direction: framing, storing, releasing.
\<close>

section \<open>Messages\<close>

lemma request_frame_read:
  assumes "length data < 4294967296"
  shows "read_frames decode_request request_head_len (\<lambda>h. unat (rq_len h))
    (encode_request \<lparr>rq_type = t, rq_len = of_nat (length data)\<rparr> @ data) =
    ([(\<lparr>rq_type = t, rq_len = of_nat (length data)\<rparr>, data)], [])"
proof -
  have len: "unat (of_nat (length data) :: u32) = length data"
    using assms by (simp add: unat_of_nat)
  have "read_frames decode_request request_head_len (\<lambda>h. unat (rq_len h)) [] = ([], [])"
    by (subst read_frames.simps) (simp add: request_head_len_def)
  with reqs.read_frames_concat [of "[(\<lparr>rq_type = t, rq_len = of_nat (length data)\<rparr>, data)]" "[]"] len
  show ?thesis by simp
qed

text \<open>C11. What a relay that read \<open>data\<close> writes to the handler process is one request frame of
  its direction with exactly these bytes, for every store in use and every read the block
  has room for; the bytes are queued behind the stored ones, and storing them into the
  shared block changes no byte of a packet that is still queued.\<close>

theorem stored_packet_is_framed:
  assumes "lane_ok ln" "length data \<le> read_room (prepare_block ln)"
  shows "\<exists>ln' out. store_packet t data (prepare_block ln) = Inr (ln', out) \<and>
    read_frames decode_request request_head_len (\<lambda>h. unat (rq_len h)) out =
      ([(\<lparr>rq_type = data_type_byte t, rq_len = of_nat (length data)\<rparr>, data)], []) \<and>
    lane_ok ln' \<and> lane_bytes ln' = lane_bytes ln @ data \<and>
    (\<forall>p \<in> set (ln_stored ln). packet_bytes (ln_heap ln') p = packet_bytes (ln_heap ln) p)"
proof -
  let ?ln = "prepare_block ln"
  note pb = prepare_block_spec [OF assms(1)]
  obtain b where b: "current_block ?ln = Some b" "\<not> get_available b < 69"
    using pb(5) by blast
  from store_packet_spec [OF pb(1) b assms(2), of t] obtain ln' pk where
    st: "store_packet t data ?ln = Inr (ln',
      encode_request \<lparr>rq_type = data_type_byte t, rq_len = of_nat (length data)\<rparr> @ data)"
    and ln': "lane_ok ln'" "lane_bytes ln' = lane_bytes ?ln @ data"
    and g: "heap_grows (ln_heap ?ln) (ln_heap ln')" by blast
  have "length data < 4294967296"
  proof -
    have "read_room ?ln < 4294967296"
      using b(1) unsigned_less [of "get_available b - 5"] by (simp add: read_room_def)
    with assms(2) show ?thesis by simp
  qed
  note fr = request_frame_read [OF this, of "data_type_byte t"]
  have "packet_bytes (ln_heap ln') p = packet_bytes (ln_heap ln) p" if p: "p \<in> set (ln_stored ln)" for p
  proof -
    have ps: "\<forall>q \<in> set [p]. packet_ok (ln_heap ln) q"
      using assms(1) p by (simp add: lane_ok_def)
    note grown = heap_grows_stored [OF prepare_block_grows [OF assms(1)] ps]
    from heap_grows_stored(2) [OF g grown(1)] grown(2) show ?thesis by (simp add: stored_bytes_def)
  qed
  with st fr ln' pb(2) show ?thesis by auto
qed

theorem stored_packet_is_framed_witness:
  "\<exists>ln' out. store_packet From_client_to_server [7, 8, 9] (prepare_block empty_lane) = Inr (ln', out) \<and>
    read_frames decode_request request_head_len (\<lambda>h. unat (rq_len h)) out =
      ([(\<lparr>rq_type = 0, rq_len = 3\<rparr>, [7, 8, 9])], [])"
  using stored_packet_is_framed [of empty_lane "[7, 8, 9]" From_client_to_server]
  by (simp add: read_room_def current_block_def prepare_block_def empty_lane_def
      default_block_size_def lane_ok_def heap_ok_def) blast

section \<open>Verdicts\<close>

text \<open>C10. A pass verdict releases exactly the bytes it newly covers: with \<open>handled\<close> counted so
  far and a total \<open>T\<close> in the verdict, the gathered write consists of the first
  \<open>T - handled\<close> stored bytes, wherever packets begin and end, and after clearing, the rest
  is stored, also when packets were queued during the write.\<close>

theorem verdict_releases_prefix:
  assumes "lane_ok ln" "unat (ln_handled ln) \<le> unat (rh_handled_total_pkg_len vd)"
    and "unat (ln_handled ln) + length (lane_bytes ln) < 18446744073709551616"
  shows "\<exists>bufs handled' cnt used rest.
    prepare_transfer_packet vd (ln_stored ln) (ln_handled ln) = (bufs, handled', cnt, used) \<and>
    gather (ln_heap ln) bufs =
      Inr (take (unat (rh_handled_total_pkg_len vd) - unat (ln_handled ln)) (lane_bytes ln)) \<and>
    (\<forall>queued. clear_handled_packet (ln_stored ln @ queued) cnt used = Inr (rest @ queued)) \<and>
    stored_bytes (ln_heap ln) rest =
      drop (unat (rh_handled_total_pkg_len vd) - unat (ln_handled ln)) (lane_bytes ln)"
  using prepare_clear_spec [OF assms] by blast

lemma demo_lane:
  obtains ln where "lane_ok ln" "lane_bytes ln = [7, 8, 9]" "ln_handled ln = 0"
proof -
  obtain ln where ln: "lane_push From_client_to_server [7, 8, 9] empty_lane = Some ln" "ln_handled ln = 0"
    by (simp add: demo_eval lane_push_def)
  have "lane_fits empty_lane" by (simp add: lane_fits_def) (simp add: empty_lane_def)
  with fifo.push_abs [OF _ ln(1)] ln(2) show thesis by (intro that) (auto simp: lane_fits_def)
qed

theorem verdict_releases_prefix_witness:
  "\<exists>(ln :: lane) bufs handled' cnt used. lane_bytes ln = [7, 8, 9] \<and>
    prepare_transfer_packet (empty_head\<lparr>rh_handled_total_pkg_len := 2\<rparr>)
      (ln_stored ln) (ln_handled ln) = (bufs, handled', cnt, used) \<and>
    gather (ln_heap ln) bufs = Inr [7, 8]"
proof (rule demo_lane)
  fix ln :: lane
  assume ln: "lane_ok ln" "lane_bytes ln = [7, 8, 9]" "ln_handled ln = 0"
  from verdict_releases_prefix [OF ln(1), of "empty_head\<lparr>rh_handled_total_pkg_len := 2\<rparr>"] ln(2,3)
  show ?thesis by auto
qed

text \<open>C12. Over any history of receiving, releasing and counting on one direction, the bytes
  released, followed by the bytes still stored, are the bytes received.\<close>

theorem lane_history_conserves:
  assumes "run_fifo (lane_push t) lane_pull ops empty_lane = Some (out, ln)"
  shows "out @ lane_bytes ln = pushed_bytes ops"
proof -
  have "lane_fits empty_lane" by (simp add: lane_fits_def) (simp add: empty_lane_def)
  from fifo.run_fifo_conserves [OF this assms] show ?thesis by simp
qed

theorem lane_history_conserves_witness:
  "\<exists>ln. run_fifo (lane_push From_client_to_server) lane_pull
      [Push [7, 8, 9], Pull 2, Push [1]] empty_lane = Some ([7, 8], ln) \<and>
    [7, 8] @ lane_bytes ln = [7, 8, 9, 1]"
proof -
  obtain ln where "run_fifo (lane_push From_client_to_server) lane_pull
      [Push [7, 8, 9], Pull 2, Push [1]] empty_lane = Some ([7, 8], ln)"
    by (simp add: demo_eval lane_push_def lane_pull_def)
  with lane_history_conserves [OF this] show ?thesis by auto
qed

end
