(* ===== verification/Session_Behaviour.thy ===== *)
theory Session_Behaviour
  imports Session_Eval
begin

text \<open>
  What a session does when the handler process decides, goes away or stops answering,
  how a connection is announced to it, and runs in which the code goes wrong.
\<close>

section \<open>Verdicts of the handler process\<close>

text \<open>C15. A verdict with a body and the block action: the reader takes the head, then the
  announced body, writes exactly this body to the peer of the direction the head names and
  on completion closes the session and ends, without releasing a stored byte of either
  direction.\<close>

theorem block_with_answer:
  assumes "rh_act h = action_byte Block" "rh_type h = data_type_byte (dir_type d)"
    and "unat (rh_new_data_len h) = length body" "body \<noteq> []"
  shows "\<exists>s1 s2 s3 pbuf'. resume dump s (Reader (Rd_head pbuf)) (Read_done None (encode_head h)) =
      Inr (s1, Reader (Rd_body h pbuf), []) \<and>
    resume dump s1 (Reader (Rd_body h pbuf)) (Read_done None body) =
      Inr (s2, Reader (Rd_new_data d h body pbuf'), []) \<and>
    resume dump s2 (Reader (Rd_new_data d h body pbuf')) (Write_done None (length body)) =
      Inr (s3, Done, []) \<and>
    has_closed s3 \<and> sk_tx (dst_socket d s3) = sk_tx (dst_socket d s) @ [Injected body] \<and>
    (\<forall>e. delivered e s3 = delivered e s \<and> lane_of e s3 = lane_of e s)"
proof -
  let ?s1 = "received_process (encode_head h) s"
  let ?s2 = "received_process body ?s1"
  let ?s3 = "grace_close (sent d (Injected body) ?s2)"
  have ne: "rh_new_data_len h \<noteq> 0"
    using assms(3,4) by auto
  have dt: "data_type_of (rh_type h) = Some (dir_type d)"
    using assms(2) by simp
  have "resume dump s (Reader (Rd_head pbuf)) (Read_done None (encode_head h)) =
      Inr (?s1, Reader (Rd_body h pbuf), [])"
    using ne by (simp add: Let_def)
  moreover have "reader_dispatch h pb s' = reader_transfer d h pb s'" for pb s'
    using dt by (cases d) (simp_all add: reader_dispatch_def)
  then have "resume dump ?s1 (Reader (Rd_body h pbuf)) (Read_done None body) =
      Inr (?s2, Reader (Rd_new_data d h body (body @ drop (length body) pbuf)), [])"
    using ne assms(3) by (simp add: reader_transfer_def)
  moreover have "resume dump ?s2 (Reader (Rd_new_data d h body (body @ drop (length body) pbuf)))
      (Write_done None (length body)) = Inr (?s3, Done, [])"
    using assms(1) by (simp add: reader_action_def)
  moreover have "delivered e ?s3 = delivered e s \<and> lane_of e ?s3 = lane_of e s" for e
    by (simp add: delivered_def)
  moreover have "sk_tx (dst_socket d ?s3) = sk_tx (dst_socket d s) @ [Injected body]" by simp
  ultimately show ?thesis
    by (intro exI [of _ ?s1] exI [of _ ?s2] exI [of _ ?s3] exI) auto
qed

theorem block_with_answer_witness:
  "\<exists>s1. resume (\<lambda>j. []) new_session (Reader (Rd_head []))
     (Read_done None (encode_head (empty_head\<lparr>rh_act := 1, rh_new_data_len := 2\<rparr>))) =
     Inr (s1, Reader (Rd_body (empty_head\<lparr>rh_act := 1, rh_new_data_len := 2\<rparr>) []), [])"
  using block_with_answer [of "empty_head\<lparr>rh_act := 1, rh_new_data_len := 2\<rparr>" C2S "[7, 8]"
      "\<lambda>j. []" new_session "[]"]
  by (simp add: empty_head_def) blast

section \<open>When the handler process goes away\<close>

lemma flush_starts:
  assumes "lane_ok (lane_of d s)" "ln_stored (lane_of d s) \<noteq> []"
  shows "enable_bypass d s = Inr (s\<lparr>bypass := True\<rparr>, Some (lane_bytes (lane_of d s)))"
proof -
  have "gather (ln_heap (lane_of d s)) (flush_buffers (ln_stored (lane_of d s))) =
      Inr (lane_bytes (lane_of d s))"
    using assms(1) gather_flush unfolding lane_ok_def lane_bytes_def by blast
  then show ?thesis
    using assms(2) by (cases "bypass s") (simp_all add: enable_bypass_def Let_def)
qed

text \<open>C9. Falling back to bypass. When reading from the handler process fails in an open session that
  is not connecting already, while bytes of both directions are stored (in well-formed
  stores, \<open>lane_ok\<close>), the reader first writes all stored bytes of the client to the server; if this write succeeds and no other coroutine of
  the session ran meanwhile, it writes all stored bytes of the server to the client; and if this
  write succeeds too and again nothing else ran, both stores are empty, exactly these bytes were
  delivered in addition, the session is in bypass, and the reader ends with exactly one new
  connection attempt, for which both handled counts start from 0. (Relays that run during these
  writes can make the code repeat or lose bytes; the runs below show it.)\<close>

theorem reader_falls_back:
  assumes "lane_ok (lane_of C2S s)" "ln_stored (lane_of C2S s) \<noteq> []"
    and "lane_ok (lane_of S2C s)" "ln_stored (lane_of S2C s) \<noteq> []"
    and "\<not> has_closed s" "\<not> process_connecting s"
  shows "\<exists>s1 s2 s3.
    resume dump s (Reader (Rd_head pbuf)) (Read_done (Some e) bs) =
      Inr (s1, Reader (Rd_flush_server (lane_bytes (lane_of C2S s))), []) \<and>
    resume dump s1 (Reader (Rd_flush_server (lane_bytes (lane_of C2S s)))) (Write_done None n) =
      Inr (s2, Reader (Rd_flush_client (lane_bytes (lane_of S2C s))), []) \<and>
    resume dump s2 (Reader (Rd_flush_client (lane_bytes (lane_of S2C s)))) (Write_done None m) =
      Inr (s3, Done, [Connect C_connect]) \<and>
    bypass s3 \<and> process_connecting s3 \<and>
    (\<forall>d. delivered d s3 = delivered d s @ lane_bytes (lane_of d s) \<and>
         ln_stored (lane_of d s3) = [] \<and> ln_handled (lane_of d s3) = 0)"
proof -
  let ?r = "received_process bs s"
  let ?s1 = "?r\<lparr>bypass := True\<rparr>"
  let ?c = "upd_lane C2S (\<lambda>l. l\<lparr>ln_stored := []\<rparr>) (sent C2S (Relayed (lane_bytes (lane_of C2S s))) ?s1)"
  let ?s2 = "?c\<lparr>bypass := True\<rparr>"
  let ?f = "upd_lane S2C (\<lambda>l. l\<lparr>ln_stored := []\<rparr>) (sent S2C (Relayed (lane_bytes (lane_of S2C s))) ?s2)"
  let ?s3 = "fst (connect_process ?f)"
  have 1: "resume dump s (Reader (Rd_head pbuf)) (Read_done (Some e) bs) =
      Inr (?s1, Reader (Rd_flush_server (lane_bytes (lane_of C2S s))), [])"
    using flush_starts [of C2S ?r] assms by (simp add: reader_fail_def)
  have 2: "resume dump ?s1 (Reader (Rd_flush_server (lane_bytes (lane_of C2S s)))) (Write_done None n) =
      Inr (?s2, Reader (Rd_flush_client (lane_bytes (lane_of S2C s))), [])"
    using flush_starts [of S2C ?c] assms by (simp add: reader_flush_client_def enable_bypass_done_def)
  have 3: "resume dump ?s2 (Reader (Rd_flush_client (lane_bytes (lane_of S2C s)))) (Write_done None m) =
      Inr (?s3, Done, [Connect C_connect])"
    using assms by (simp add: reader_reconnect_def enable_bypass_done_def case_prod_unfold
        connect_process_snd)
  have "delivered d ?s3 = delivered d s @ lane_bytes (lane_of d s) \<and>
      ln_stored (lane_of d ?s3) = [] \<and> ln_handled (lane_of d ?s3) = 0" for d
    using assms(6) by (cases d) (simp_all add: delivered_def)
  with 1 2 3 show ?thesis
    by (intro exI [of _ ?s1] exI [of _ ?s2] exI [of _ ?s3]) simp
qed

lemma both_stored:
  obtains s where "\<And>d. lane_ok (lane_of d s)" "\<And>d. lane_bytes (lane_of d s) = [7, 8, 9]"
    "\<And>d. ln_stored (lane_of d s) \<noteq> []" "\<not> has_closed s" "\<not> process_connecting s"
proof -
  obtain ln where ln: "lane_push From_client_to_server [7, 8, 9] empty_lane = Some ln"
    "ln_stored ln \<noteq> []"
    by (simp add: demo_eval lane_push_def)
  have "lane_fits empty_lane" by (simp add: lane_fits_def) (simp add: empty_lane_def)
  from fifo.push_abs [OF this ln(1)] have ok: "lane_ok ln" "lane_bytes ln = [7, 8, 9]"
    by (auto simp: lane_fits_def)
  let ?s = "upd_lane C2S (\<lambda>_. ln) (upd_lane S2C (\<lambda>_. ln) new_session)"
  have "lane_of d ?s = ln" for d by (cases d) simp_all
  moreover have "\<not> has_closed ?s" "\<not> process_connecting ?s" by (simp_all add: new_session_def)
  ultimately show thesis using ok ln(2) by (intro that [of ?s]) simp_all
qed

theorem reader_falls_back_witness:
  "\<exists>s s1 s2 s3 :: session. (\<forall>d. lane_bytes (lane_of d s) = [7, 8, 9]) \<and>
     resume (\<lambda>j. []) s (Reader (Rd_head [])) (Read_done (Some Eof) []) =
       Inr (s1, Reader (Rd_flush_server [7, 8, 9]), []) \<and>
     resume (\<lambda>j. []) s1 (Reader (Rd_flush_server [7, 8, 9])) (Write_done None 3) =
       Inr (s2, Reader (Rd_flush_client [7, 8, 9]), []) \<and>
     resume (\<lambda>j. []) s2 (Reader (Rd_flush_client [7, 8, 9])) (Write_done None 3) =
       Inr (s3, Done, [Connect C_connect])"
proof (rule both_stored)
  fix s :: session
  assume s: "\<And>d. lane_ok (lane_of d s)" "\<And>d. lane_bytes (lane_of d s) = [7, 8, 9]"
    "\<And>d. ln_stored (lane_of d s) \<noteq> []" "\<not> has_closed s" "\<not> process_connecting s"
  show ?thesis
    using reader_falls_back [OF s(1) s(3) s(1) s(3) s(4,5), of "\<lambda>j. []" "[]" Eof "[]" 3 3] s(2)
    by (metis (no_types, lifting))
qed

lemma reader_fail_cases:
  assumes "\<not> has_closed s" "\<not> process_connecting s"
  shows "ln_stored (lane_of C2S s) = [] \<Longrightarrow> ln_stored (lane_of S2C s) = [] \<Longrightarrow>
      \<exists>s'. reader_fail s = Inr (s', Done, [Connect C_connect]) \<and> bypass s'"
    "lane_ok (lane_of C2S s) \<Longrightarrow> ln_stored (lane_of C2S s) \<noteq> [] \<Longrightarrow>
      \<exists>s'. reader_fail s = Inr (s', Reader (Rd_flush_server (lane_bytes (lane_of C2S s))), []) \<and> bypass s'"
  using assms flush_starts [of C2S s]
  by (auto simp: reader_fail_def reader_flush_client_def reader_reconnect_def enable_bypass_def connect_process_def
      connect_loop_def Let_def)

text \<open>C16. The watchdog, in an open session that is not connecting. A heartbeat of the handler process makes the pending wait stale: the timer has
  a new generation, and when the pending wait is aborted its coroutine waits again under the new
  generation. When the new wait expires, the coroutine ends and closes the process socket; the
  session stays open, and the sockets of the client and the server and both stores are as they
  were. The reader, whose pending read then fails, enters the fallback to bypass: it starts to
  write all stored bytes of the client to the server if there are any (in a well-formed store,
  \<open>lane_ok\<close>), and where nothing is stored it ends with one new connection attempt. (How long a wait lasts is not part of the
  model.)\<close>

theorem watchdog_heartbeat:
  assumes "\<not> has_closed s" "\<not> process_connecting s" "g = detect_timer_gen s"
    and "data_type_of (rh_type h) = Some Heartbeat" "rh_new_data_len h = 0"
  shows "\<exists>s1 s2 s3. resume dump s (Reader (Rd_head pbuf)) (Read_done None (encode_head h)) =
      Inr (s1, Reader (Rd_head pbuf), []) \<and>
    g \<noteq> detect_timer_gen s1 \<and> g \<noteq> detect_timer_gen s2 \<and>
    resume dump s1 (Detect g) (Timer_done (Some e)) = Inr (s2, Detect (detect_timer_gen s2), []) \<and>
    resume dump s2 (Detect (detect_timer_gen s2)) (Timer_done None) = Inr (s3, Done, []) \<and>
    \<not> sk_open (proxy_process_socket s3) \<and> \<not> has_closed s3 \<and>
    (\<forall>d. lane_of d s3 = lane_of d s \<and> src_socket d s3 = src_socket d s \<and>
         dst_socket d s3 = dst_socket d s) \<and>
    (ln_stored (lane_of C2S s) = [] \<and> ln_stored (lane_of S2C s) = [] \<longrightarrow>
       (\<exists>s4. resume dump s3 (Reader (Rd_head pbuf)) (Read_done (Some e') bs) =
          Inr (s4, Done, [Connect C_connect]) \<and> bypass s4)) \<and>
    (lane_ok (lane_of C2S s) \<and> ln_stored (lane_of C2S s) \<noteq> [] \<longrightarrow>
       (\<exists>s4. resume dump s3 (Reader (Rd_head pbuf)) (Read_done (Some e') bs) =
          Inr (s4, Reader (Rd_flush_server (lane_bytes (lane_of C2S s))), []) \<and> bypass s4))"
proof -
  let ?s1 = "cancel_timer (received_process (encode_head h) s)"
  let ?s2 = "cancel_timer ?s1"
  let ?s3 = "close_process_socket ?s2"
  have fail: "resume dump ?s3 (Reader (Rd_head pbuf)) (Read_done (Some e') bs) =
      reader_fail (received_process bs ?s3)"
    by simp
  have open': "\<not> has_closed (received_process bs ?s3)" "\<not> process_connecting (received_process bs ?s3)"
    using assms(1,2) by simp_all
  have "resume dump s (Reader (Rd_head pbuf)) (Read_done None (encode_head h)) =
      Inr (?s1, Reader (Rd_head pbuf), [])"
    using assms by (simp add: Let_def reader_dispatch_def)
  moreover have "resume dump ?s1 (Detect g) (Timer_done (Some e)) =
      Inr (?s2, Detect (detect_timer_gen ?s2), [])"
    using assms by (simp add: detect_process_timeout_def Let_def)
  moreover have "resume dump ?s2 (Detect (detect_timer_gen ?s2)) (Timer_done None) = Inr (?s3, Done, [])"
    by simp
  moreover have "\<not> sk_open (proxy_process_socket ?s3)"
    by (simp add: close_process_socket_def)
  ultimately show ?thesis
    using assms reader_fail_cases [OF open', folded fail]
    by (intro exI [of _ ?s1] exI [of _ ?s2] exI [of _ ?s3]) simp
qed

theorem watchdog_heartbeat_witness:
  "\<exists>s1 s2 s3 s4 g. resume (\<lambda>j. []) new_session (Reader (Rd_head []))
     (Read_done None (encode_head (empty_head\<lparr>rh_type := 3\<rparr>))) = Inr (s1, Reader (Rd_head []), []) \<and>
     resume (\<lambda>j. []) s1 (Detect 0) (Timer_done (Some Eof)) = Inr (s2, Detect g, []) \<and> g \<noteq> 0 \<and>
     resume (\<lambda>j. []) s2 (Detect g) (Timer_done None) = Inr (s3, Done, []) \<and>
     \<not> sk_open (proxy_process_socket s3) \<and>
     resume (\<lambda>j. []) s3 (Reader (Rd_head [])) (Read_done (Some Eof) []) = Inr (s4, Done, [Connect C_connect]) \<and>
     bypass s4"
proof -
  have s: "\<not> has_closed new_session" "\<not> process_connecting new_session" "0 = detect_timer_gen new_session"
    and stores: "ln_stored (lane_of C2S new_session) = []" "ln_stored (lane_of S2C new_session) = []"
    by (simp_all add: new_session_def empty_lane_def lane_of.simps)
  have h: "data_type_of (rh_type (empty_head\<lparr>rh_type := 3\<rparr>)) = Some Heartbeat"
    "rh_new_data_len (empty_head\<lparr>rh_type := 3\<rparr>) = 0"
    by (simp_all add: empty_head_def data_type_of_def)
  show ?thesis
    using watchdog_heartbeat [OF s h, of "\<lambda>j. []" "[]" Eof Eof "[]", unfolded stores]
    by (simp only: simp_thms) (metis (no_types, lifting))
qed

section \<open>Announcing a connection\<close>

text \<open>The first frame on a new process connection is one request frame that announces the
  four-tuple as the JSON library prints it; where the library parses what it printed, the
  receiver gets the addresses and ports of the session.\<close>

theorem four_tuple_announced:
  assumes "length (dump (four_tuple_json s)) < 4294967296"
    and "parse (dump (four_tuple_json s)) = Some (four_tuple_json s)"
  shows "\<exists>h body. read_frames decode_request request_head_len (\<lambda>h. unat (rq_len h))
      (four_tuple_frame dump s) = ([(h, body)], []) \<and>
    rq_type h = data_type_byte Four_tuple \<and> parse body = Some (four_tuple_json s)"
proof -
  let ?body = "dump (four_tuple_json s)"
  let ?h = "\<lparr>rq_type = data_type_byte Four_tuple, rq_len = of_nat (length ?body)\<rparr>"
  have "unat (rq_len ?h) = length ?body" using assms(1) by (simp add: unat_of_nat)
  moreover have "read_frames decode_request request_head_len (\<lambda>h. unat (rq_len h)) [] = ([], [])"
    by (subst read_frames.simps) (simp add: request_head_len_def)
  ultimately have "read_frames decode_request request_head_len (\<lambda>h. unat (rq_len h))
      (four_tuple_frame dump s) = ([(?h, ?body)], [])"
    using reqs.read_frames_concat [of "[(?h, ?body)]" "[]"]
    by (simp add: four_tuple_frame_def Let_def)
  with assms(2) show ?thesis by auto
qed


definition demo_tuple_bytes :: "byte list" where
  "demo_tuple_bytes = map (of_char :: char \<Rightarrow> u8) ''{ four-tuple }''"

theorem four_tuple_announced_witness:
  "\<exists>h body. read_frames decode_request request_head_len (\<lambda>h. unat (rq_len h))
      (four_tuple_frame (\<lambda>j. demo_tuple_bytes) new_session) = ([(h, body)], []) \<and>
    rq_type h = 2"
  using four_tuple_announced [of "\<lambda>j. demo_tuple_bytes" new_session
      "\<lambda>bs. if bs = demo_tuple_bytes then Some (four_tuple_json new_session) else None"]
  by (auto simp: demo_tuple_bytes_def)

section \<open>Runs that go wrong\<close>

text \<open>The demonstration session with three bytes stored and the reader idle.\<close>

definition stored_events :: "(nat \<times> event) list" where
  "stored_events =
     [(0, Lookup (Inr (Some demo_server))), (0, Resolved None),
      (0, Connected None (Some demo_endpoints)),
      (1, Connected None None), (1, Write_done None 5),
      (2, Read_done None [1]), (2, Write_done None 1),
      (2, Read_done None [7, 8, 9]), (2, Write_done None 8)]"

text \<open>What the first part of a packet was released for is forgotten: after a verdict with
  total 2 of 3 stored bytes, the same total once more (nothing new was handled) releases
  the third byte, which the handler process has not judged.\<close>

theorem partial_release_is_forgotten:
  "\<exists>\<sigma>. run (\<lambda>j. []) init_system (stored_events @
      [(4, Read_done None (demo_verdict From_client_to_server Pass 2)), (4, Write_done None 2),
       (4, Read_done None (demo_verdict From_client_to_server Pass 2)), (4, Write_done None 1)]) =
      Some (Inr \<sigma>) \<and>
    delivered C2S (sess \<sigma>) = [1, 7, 8, 9] \<and> ln_handled (lane_of C2S (sess \<sigma>)) = 1"
  by (simp add: demo_eval stored_events_def)

text \<open>A verdict whose total is below what was already released makes the proxy read
  outside the packet: the difference, 1 - 3, becomes a size close to $2^{64}$.\<close>

theorem smaller_total_reads_wild:
  "run (\<lambda>j. []) init_system (stored_events @
      [(4, Read_done None (demo_verdict From_client_to_server Pass 3)), (4, Write_done None 3),
       (2, Read_done None [4]), (2, Write_done None 6),
       (4, Read_done None (demo_verdict From_client_to_server Pass 1))]) = Some (Inl Bad_pointer)"
  by (simp add: demo_eval stored_events_def)

text \<open>The end of the client's stream closes the session at once: bytes that wait for a
  verdict are dropped, although the handler process and the server are still there.\<close>

theorem eof_drops_stored:
  "\<exists>\<sigma>. run (\<lambda>j. []) init_system (stored_events @ [(2, Read_done (Some Eof) [])]) = Some (Inr \<sigma>) \<and>
    has_closed (sess \<sigma>) \<and> taken C2S (sess \<sigma>) = [1, 7, 8, 9] \<and> delivered C2S (sess \<sigma>) = [1] \<and>
    \<not> sk_open (proxy_server_socket (sess \<sigma>))"
  by (simp add: demo_eval stored_events_def grace_close_def)

text \<open>Two coroutines can flush the same store: the reader whose read failed and the relay
  whose write to the process failed each write the stored bytes, so the server receives
  them twice.\<close>

theorem flush_race_duplicates:
  "\<exists>\<sigma>. run (\<lambda>j. []) init_system (stored_events @
      [(4, Read_done (Some Eof) []), (2, Read_done None [4]), (2, Write_done (Some (Io_error 32)) 0),
       (4, Write_done None 3), (2, Write_done None 4)]) = Some (Inr \<sigma>) \<and>
    taken C2S (sess \<sigma>) = [1, 7, 8, 9, 4] \<and> delivered C2S (sess \<sigma>) = [1, 7, 8, 9, 7, 8, 9, 4]"
  by (simp add: demo_eval stored_events_def enable_bypass_def enable_bypass_done_def
      reader_fail_def reader_flush_client_def reader_reconnect_def reconnect_relay_def
      flush_buffers_def)

text \<open>A verdict's write in progress while the store is flushed and cleared ends in
  \<^verbatim>\<open>pop_front\<close> on an empty deque.\<close>

theorem flush_race_pops_empty:
  "run (\<lambda>j. []) init_system (stored_events @
      [(4, Read_done None (demo_verdict From_client_to_server Pass 3)),
       (2, Read_done None [4]), (2, Write_done (Some (Io_error 32)) 0), (2, Write_done None 4),
       (4, Write_done None 3)]) = Some (Inl Pop_of_empty_deque)"
  by (simp add: demo_eval stored_events_def enable_bypass_def enable_bypass_done_def
      reconnect_relay_def flush_buffers_def)

text \<open>A session can have two readers on one process socket: the old reader survives the
  reconnection when it is suspended in a write to a peer.\<close>

theorem two_readers:
  "\<exists>\<sigma>. run (\<lambda>j. []) init_system (stored_events @
      [(4, Read_done None (demo_verdict From_client_to_server Pass 0)),
       (2, Read_done None [4]), (2, Write_done (Some (Io_error 32)) 0), (2, Write_done None 4),
       (6, Connected None None), (6, Write_done None 5), (4, Write_done None 0)]) = Some (Inr \<sigma>) \<and>
    coros \<sigma> ! 4 = Reader (Rd_head []) \<and> coros \<sigma> ! 7 = Reader (Rd_head [])"
  by (simp add: demo_eval stored_events_def enable_bypass_def enable_bypass_done_def
      reconnect_relay_def flush_buffers_def)

text \<open>A connection to a port that the configuration no longer names dereferences a null
  pointer: \<^verbatim>\<open>get_proxy_server\<close> answers with none and \<^verbatim>\<open>setup_proxy\<close> does not ask.\<close>

theorem unknown_port_dereferences_null:
  "run dump init_system [(0, Lookup (Inr None))] = Some (Inl Null_dereference)"
  by (simp add: demo_eval)

end
