(* ===== verification/Io_Context_Pool.thy ===== *)
theory Io_Context_Pool
  imports Prelude
begin

text \<open>
  \<^verbatim>\<open>src/src/io_context_pool.hpp\<close>: the pool of single-threaded \<^verbatim>\<open>io_context\<close>s that
  sessions are spread over. \<open>get_executor\<close> answers with the position of the context it
  picked. The index is a \<^verbatim>\<open>size_t\<close> and is compared with the size cast to \<^verbatim>\<open>int\<close>, as
  in the source.
\<close>

section \<open>The pool\<close>

datatype thread_state = Thread_running | Thread_finished | Thread_joined

record io_context =
  ioc_work :: bool      \<comment> \<open>the work guard of \<^verbatim>\<open>work_vec_\<close> is alive\<close>
  ioc_stopped :: bool

record io_context_pool =
  io_context_index :: u64
  io_context_vec :: "io_context list"
  thread_vec :: "thread_state list"

definition io_context_pool_new :: "u32 \<Rightarrow> io_context_pool" where
  "io_context_pool_new pool_size =
     \<lparr>io_context_index = 0,
      io_context_vec = replicate (unat pool_size) \<lparr>ioc_work = True, ioc_stopped = False\<rparr>,
      thread_vec = []\<rparr>"

definition pool_start :: "io_context_pool \<Rightarrow> io_context_pool" where
  "pool_start p =
     p\<lparr>thread_vec := thread_vec p @ replicate (length (io_context_vec p)) Thread_running\<rparr>"

definition get_executor :: "io_context_pool \<Rightarrow> fault + nat \<times> io_context_pool" where
  "get_executor p =
     (let i = unat (io_context_index p)
      in if length (io_context_vec p) \<le> i then Inl Index_out_of_range
         else let next_index = io_context_index p + 1;
                  wrapped = (if next_index = scast (of_nat (length (io_context_vec p)) :: 32 word)
                             then 0 else next_index)
              in Inr (i, p\<lparr>io_context_index := wrapped\<rparr>))"

text \<open>\<^verbatim>\<open>run()\<close> of context \<open>i\<close> returns once it is stopped, or has no work left.\<close>

definition run_returns :: "io_context \<Rightarrow> bool" where
  "run_returns c \<longleftrightarrow> ioc_stopped c \<or> \<not> ioc_work c"

definition pool_stop :: "io_context_pool \<Rightarrow> io_context_pool" where
  "pool_stop p =
     p\<lparr>io_context_vec := map (\<lambda>c. c\<lparr>ioc_work := False, ioc_stopped := True\<rparr>) (io_context_vec p),
       thread_vec := map (\<lambda>t. if t = Thread_joined then t else Thread_joined) (thread_vec p)\<rparr>"

section \<open>A pool that hands out executors\<close>

text \<open>
  What a client relies on: \<open>get\<close> always answers, and the answers cycle through \<open>n\<close>
  executors. \<open>take_from\<close> is a client that asks \<open>k\<close> times.
\<close>

fun take_from :: "('p \<Rightarrow> 'e + nat \<times> 'p) \<Rightarrow> nat \<Rightarrow> 'p \<Rightarrow> 'e + nat list \<times> 'p" where
  "take_from get 0 p = Inr ([], p)"
| "take_from get (Suc k) p =
     (case get p of
        Inl e \<Rightarrow> Inl e
      | Inr (i, p') \<Rightarrow>
          (case take_from get k p' of
             Inl e \<Rightarrow> Inl e
           | Inr (is, p'') \<Rightarrow> Inr (i # is, p'')))"

lemma add_mod_cancel:
  fixes a :: nat
  assumes "(p + a) mod n = (p + b) mod n" "a < n" "b < n"
  shows "a = b"
proof -
  have less: "x = y" if "(p + x) mod n = (p + y) mod n" "x \<le> y" "y < n" for x y
  proof -
    have "n dvd (p + y) - (p + x)"
      using that(1,2) mod_eq_dvd_iff_nat [of "p + x" "p + y" n] by simp
    with that(2,3) have "y - x = 0"
      by (metis add_diff_cancel_left dvd_imp_le le_less_trans less_imp_diff_less not_le gr_zeroI)
    with that(2) show ?thesis by simp
  qed
  from less [of a b] less [of b a] assms show ?thesis by (metis le_cases)
qed

locale executor_pool =
  fixes get :: "'p \<Rightarrow> 'e + nat \<times> 'p"
    and ready :: "'p \<Rightarrow> bool"
    and width :: "'p \<Rightarrow> nat"
    and pos :: "'p \<Rightarrow> nat"
  assumes ready_pos: "ready p \<Longrightarrow> pos p < width p"
    and get_cycles: "ready p \<Longrightarrow> \<exists>p'. get p = Inr (pos p, p') \<and> ready p' \<and> width p' = width p \<and>
      pos p' = Suc (pos p) mod width p"
begin

lemma take_from_cycles:
  "ready p \<Longrightarrow> \<exists>p'. take_from get k p = Inr (map (\<lambda>j. (pos p + j) mod width p) [0 ..< k], p') \<and>
     ready p' \<and> width p' = width p"
proof (induction k arbitrary: p)
  case 0
  then show ?case by simp
next
  case (Suc k)
  obtain p' where p': "get p = Inr (pos p, p')" "ready p'" "width p' = width p"
    "pos p' = Suc (pos p) mod width p"
    using get_cycles [OF Suc.prems] by blast
  have "map (\<lambda>j. (pos p + j) mod width p) [0 ..< Suc k] =
      pos p # map (\<lambda>j. (pos p' + j) mod width p') [0 ..< k]"
    using ready_pos [OF Suc.prems]
    by (simp add: upt_conv_Cons map_Suc_upt [symmetric] p' mod_add_left_eq
        del: upt_Suc map_Suc_upt)
  with Suc.IH [OF p'(2)] p' show ?case by auto
qed

text \<open>Every \<open>width\<close> consecutive requests meet each executor exactly once.\<close>

lemma round_is_fair:
  assumes "ready p"
  shows "\<exists>is p'. take_from get (width p) p = Inr (is, p') \<and> distinct is \<and> set is = {..< width p} \<and>
    ready p' \<and> width p' = width p"
proof -
  let ?n = "width p" and ?f = "\<lambda>j. (pos p + j) mod width p"
  have n: "0 < ?n" using ready_pos [OF assms] by simp
  have inj: "inj_on ?f {0 ..< ?n}"
    by (intro inj_onI) (auto intro: add_mod_cancel)
  have "set (map ?f [0 ..< ?n]) \<subseteq> {..< ?n}" using n by auto
  moreover have "card (set (map ?f [0 ..< ?n])) = ?n"
    using inj by (simp add: card_image)
  ultimately have "set (map ?f [0 ..< ?n]) = {..< ?n}"
    by (intro card_subset_eq) simp_all
  moreover have "distinct (map ?f [0 ..< ?n])"
    using inj by (simp add: distinct_map)
  ultimately show ?thesis
    using take_from_cycles [OF assms, of ?n] by blast
qed

end

section \<open>The pool keeps the contract\<close>

definition pool_ready :: "io_context_pool \<Rightarrow> bool" where
  "pool_ready p \<longleftrightarrow>
     unat (io_context_index p) < length (io_context_vec p) \<and> length (io_context_vec p) < 2147483648"

lemma scast_small:
  assumes "n < 2147483648"
  shows "(scast (of_nat n :: 32 word) :: 64 word) = of_nat n"
  using assms by (simp add: signed_of_nat signed_take_bit_int_eq_self)

interpretation pool: executor_pool get_executor pool_ready
    "\<lambda>p. length (io_context_vec p)" "\<lambda>p. unat (io_context_index p)"
proof unfold_locales
  fix p
  assume r: "pool_ready p"
  let ?n = "length (io_context_vec p)" and ?i = "io_context_index p"
  show "unat ?i < ?n" using r by (simp add: pool_ready_def)
  have n: "unat ?i < ?n" "?n < 2147483648" using r by (simp_all add: pool_ready_def)
  then have next_i: "unat (?i + 1) = Suc (unat ?i)"
    by (simp add: unat_word_ariths)
  have wrap: "?i + 1 = scast (of_nat ?n :: 32 word) \<longleftrightarrow> Suc (unat ?i) = ?n"
  proof -
    have "unat (of_nat ?n :: 64 word) = ?n" using n(2) by (simp add: unat_of_nat)
    then show ?thesis
      unfolding scast_small [OF n(2)] by (metis next_i unsigned_word_eqI)
  qed
  show "\<exists>p'. get_executor p = Inr (unat ?i, p') \<and> pool_ready p' \<and>
      length (io_context_vec p') = ?n \<and> unat (io_context_index p') = Suc (unat ?i) mod ?n"
    using n next_i wrap by (auto simp: get_executor_def Let_def pool_ready_def)
qed

end
