(* ===== verification/Listener.thy ===== *)
theory Listener
  imports Config Io_Context_Pool
begin

text \<open>
  \<^verbatim>\<open>src/src/cpp_proxy/cpp_proxy.cpp\<close>: the main thread of the proxy. Its \<^verbatim>\<open>io_context\<close>
  runs one \<^verbatim>\<open>listener\<close> coroutine per proxied port and \<^verbatim>\<open>handle_config_change\<close>, which looks
  every three seconds whether the configuration file was written, reloads it, starts
  listeners for the added ports and closes the acceptors of the deleted ones. All of them
  run on one thread; a listener spawned by the watcher runs at once up to its first
  \<^verbatim>\<open>co_await\<close>. The operating system's answers are parameters: which address texts parse
  and whether an endpoint can be bound. An exception that leaves a coroutine spawned with
  \<^verbatim>\<open>asio::detached\<close> ends this coroutine and nothing else.
\<close>

section \<open>State\<close>

record acceptor =
  ac_port :: u16
  ac_ip :: string
  ac_open :: bool

text \<open>An acceptor is referred to by its position in \<open>acceptor_heap\<close>; the map is what
  \<^verbatim>\<open>port_acceptor\<close> holds. A started session is recorded with the port it was accepted
  on and the context it runs on.\<close>

datatype main_frame =
    L_accept u16 nat nat   \<comment> \<open>line 45: port, acceptor and the executor of the socket\<close>
  | W_wait nat             \<comment> \<open>line 67: the time of the last write seen\<close>
  | M_done

record proxy_main =
  pm_config :: config
  port_acceptors :: "u16 \<rightharpoonup> nat"
  acceptor_heap :: "acceptor list"
  pm_pool :: io_context_pool
  started :: "(u16 \<times> nat) list"

record os_net =
  address_parses :: "string \<Rightarrow> bool"
  can_bind :: "string \<Rightarrow> u16 \<Rightarrow> acceptor list \<Rightarrow> bool"

type_synonym main_outcome = "fault + proxy_main \<times> main_frame"

section \<open>The listener\<close>

text \<open>The head of the accept loop: a socket on the next executor, then the accept.\<close>

definition accept_loop :: "u16 \<Rightarrow> nat \<Rightarrow> proxy_main \<Rightarrow> main_outcome" where
  "accept_loop port aid m =
     (case get_executor (pm_pool m) of
        Inl f \<Rightarrow> Inl f
      | Inr (ex, p) \<Rightarrow> Inr (m\<lparr>pm_pool := p\<rparr>, L_accept port aid ex))"

definition open_acceptor :: "os_net \<Rightarrow> u16 \<Rightarrow> string \<Rightarrow> proxy_main \<Rightarrow> main_outcome" where
  "open_acceptor net port ip m =
     (if can_bind net ip port (acceptor_heap m)
      then let aid = length (acceptor_heap m);
               m1 = m\<lparr>acceptor_heap :=
                        acceptor_heap m @ [\<lparr>ac_port = port, ac_ip = ip, ac_open = True\<rparr>]\<rparr>;
               m2 = (if port_acceptors m1 port = None
                     then m1\<lparr>port_acceptors := (port_acceptors m1)(port \<mapsto> aid)\<rparr> else m1)
           in accept_loop port aid m2
      else Inr (m, M_done))"

definition listener :: "os_net \<Rightarrow> u16 \<Rightarrow> string \<Rightarrow> proxy_main \<Rightarrow> main_outcome" where
  "listener net port ip m =
     (if ip = [] then open_acceptor net port ip m
      else if \<not> address_parses net ip then Inr (m, M_done)
      else open_acceptor net port ip m)"

definition accepted :: "u16 \<Rightarrow> nat \<Rightarrow> nat \<Rightarrow> bool \<Rightarrow> proxy_main \<Rightarrow> main_outcome" where
  "accepted port aid ex failed m =
     (if failed
      then (if aid < length (acceptor_heap m) \<and> ac_open (acceptor_heap m ! aid)
            then accept_loop port aid m else Inr (m, M_done))
      else accept_loop port aid (m\<lparr>started := started m @ [(port, ex)]\<rparr>))"

section \<open>Reloading\<close>

fun spawn_listeners ::
  "os_net \<Rightarrow> proxy_entity list \<Rightarrow> proxy_main \<Rightarrow> fault + proxy_main \<times> main_frame list"
where
  "spawn_listeners net [] m = Inr (m, [])"
| "spawn_listeners net (e # es) m =
     (case listener net (listen_port e) (listen_ip e) m of
        Inl f \<Rightarrow> Inl f
      | Inr (m1, fr) \<Rightarrow>
          (case spawn_listeners net es m1 of
             Inl f \<Rightarrow> Inl f
           | Inr (m2, frs) \<Rightarrow> Inr (m2, fr # frs)))"

definition close_acceptor :: "nat \<Rightarrow> acceptor list \<Rightarrow> acceptor list" where
  "close_acceptor aid as =
     (if aid < length as then as[aid := (as ! aid)\<lparr>ac_open := False\<rparr>] else as)"

definition drop_port :: "u16 \<Rightarrow> proxy_main \<Rightarrow> proxy_main" where
  "drop_port port m =
     (case port_acceptors m port of
        None \<Rightarrow> m
      | Some aid \<Rightarrow>
          m\<lparr>acceptor_heap := close_acceptor aid (acceptor_heap m),
            port_acceptors := (port_acceptors m)(port := None)\<rparr>)"

fun drop_ports :: "proxy_entity list \<Rightarrow> proxy_main \<Rightarrow> proxy_main" where
  "drop_ports [] m = m"
| "drop_ports (e # es) m = drop_ports es (drop_port (listen_port e) m)"

definition reload ::
  "os_net \<Rightarrow> conf_file \<Rightarrow> nat \<Rightarrow> proxy_main \<Rightarrow> fault + proxy_main \<times> main_frame \<times> main_frame list"
where
  "reload net file now m =
     (case parse_conf file (pm_config m) of
        (c, Some e) \<Rightarrow> Inr (m\<lparr>pm_config := c\<rparr>, M_done, [])
      | (c, None) \<Rightarrow>
          (case spawn_listeners net (add_entities c) (m\<lparr>pm_config := c\<rparr>) of
             Inl f \<Rightarrow> Inl f
           | Inr (m1, frs) \<Rightarrow>
               Inr (drop_ports (del_entities (pm_config m1)) m1, W_wait now, frs)))"

text \<open>One round of the watcher: the timer, then the file's time, \<open>None\<close> when asking for it
  throws.\<close>

definition handle_config_change ::
  "os_net \<Rightarrow> nat \<Rightarrow> bool \<Rightarrow> nat option \<Rightarrow> conf_file \<Rightarrow> proxy_main \<Rightarrow>
    fault + proxy_main \<times> main_frame \<times> main_frame list"
where
  "handle_config_change net last_time timer_failed now file m =
     (if timer_failed then Inr (m, M_done, [])
      else case now of
             None \<Rightarrow> Inr (m, M_done, [])
           | Some now_time \<Rightarrow>
               if last_time = now_time then Inr (m, W_wait last_time, [])
               else reload net file now_time m)"

section \<open>Start-up\<close>

text \<open>\<^verbatim>\<open>main\<close> up to \<^verbatim>\<open>io_context.run()\<close> and the first resumption of what it posted: the
  listeners in port order, then the watcher. An unusable configuration ends the program
  with an exception, \<open>None\<close>.\<close>

definition log_options :: "config \<Rightarrow> log_info \<times> config" where
  "log_options c = (cfg_log_info c, upd_log (\<lambda>l. l\<lparr>log_dir := [], log_name := []\<rparr>) c)"

definition main_start ::
  "os_net \<Rightarrow> u32 \<Rightarrow> conf_file \<Rightarrow> nat option \<Rightarrow> (fault + proxy_main \<times> main_frame list) option"
where
  "main_start net hardware_concurrency file mtime =
     (case parse_conf file config_new of
        (c, Some e) \<Rightarrow> None
      | (c0, None) \<Rightarrow>
          let c = snd (log_options c0);
              pool = pool_start (io_context_pool_new (get_work_threads hardware_concurrency c));
              m = \<lparr>pm_config = c, port_acceptors = (\<lambda>_. None), acceptor_heap = [],
                   pm_pool = pool, started = []\<rparr>
          in Some (case spawn_listeners net (entities c) m of
                     Inl f \<Rightarrow> Inl f
                   | Inr (m1, frs) \<Rightarrow>
                       Inr (m1, frs @ [case mtime of None \<Rightarrow> M_done | Some t \<Rightarrow> W_wait t])))"


section \<open>The map and the sockets agree\<close>

text \<open>Every entry of the map is an open acceptor of its port, and every open acceptor is
  the entry of its port.\<close>

definition acceptors_ok :: "proxy_main \<Rightarrow> bool" where
  "acceptors_ok m \<longleftrightarrow>
     (\<forall>p aid. port_acceptors m p = Some aid \<longrightarrow>
        aid < length (acceptor_heap m) \<and> ac_port (acceptor_heap m ! aid) = p \<and>
        ac_open (acceptor_heap m ! aid)) \<and>
     (\<forall>aid < length (acceptor_heap m). ac_open (acceptor_heap m ! aid) \<longrightarrow>
        port_acceptors m (ac_port (acceptor_heap m ! aid)) = Some aid)"

definition main_ok :: "proxy_main \<Rightarrow> bool" where
  "main_ok m \<longleftrightarrow> acceptors_ok m \<and> pool_ready (pm_pool m) \<and> entities_sorted (entities (pm_config m)) \<and>
     dom (port_acceptors m) \<subseteq> entity_ports (entities (pm_config m))"

text \<open>How a step extends the acceptors without touching those there are.\<close>

definition acceptors_grow :: "proxy_main \<Rightarrow> proxy_main \<Rightarrow> bool" where
  "acceptors_grow m m' \<longleftrightarrow>
     (\<exists>new. acceptor_heap m' = acceptor_heap m @ new) \<and>
     port_acceptors m \<subseteq>\<^sub>m port_acceptors m' \<and> pm_config m' = pm_config m \<and> started m' = started m"

lemma acceptors_grow_refl [simp]: "acceptors_grow m m"
  by (simp add: acceptors_grow_def)

lemma acceptors_grow_trans: "acceptors_grow m m' \<Longrightarrow> acceptors_grow m' m'' \<Longrightarrow> acceptors_grow m m''"
  by (auto simp: acceptors_grow_def intro: map_le_trans)

lemma acceptors_grow_entry:
  assumes "acceptors_grow m m'" "acceptors_ok m" "port_acceptors m p = Some aid"
  shows "port_acceptors m' p = Some aid" "acceptor_heap m' ! aid = acceptor_heap m ! aid"
  using assms by (auto simp: acceptors_grow_def map_le_def acceptors_ok_def nth_append dom_def)

lemma accept_loop_ok:
  assumes "pool_ready (pm_pool m)"
  shows "\<exists>p ex. accept_loop port aid m = Inr (m\<lparr>pm_pool := p\<rparr>, L_accept port aid ex) \<and>
    pool_ready p \<and> ex < length (io_context_vec p)"
proof -
  obtain p where p: "get_executor (pm_pool m) = Inr (unat (io_context_index (pm_pool m)), p)"
    "pool_ready p" "length (io_context_vec p) = length (io_context_vec (pm_pool m))"
    using pool.get_cycles [OF assms] by blast
  then show ?thesis
    using pool.ready_pos [OF assms] by (intro exI [of _ p] exI) (simp add: accept_loop_def)
qed

text \<open>Starting a listener on a port that has none: it opens an acceptor and waits for a
  connection, or it ends and nothing has changed.\<close>

lemma listener_spec:
  assumes "acceptors_ok m" "pool_ready (pm_pool m)" "port_acceptors m port = None"
  shows "\<exists>m' fr. listener net port ip m = Inr (m', fr) \<and> acceptors_ok m' \<and>
    pool_ready (pm_pool m') \<and> acceptors_grow m m' \<and>
    (fr = M_done \<and> m' = m \<and>
        \<not> ((ip = [] \<or> address_parses net ip) \<and> can_bind net ip port (acceptor_heap m)) \<or>
     (\<exists>aid ex. fr = L_accept port aid ex \<and> port_acceptors m' = (port_acceptors m)(port \<mapsto> aid)))"
proof (cases "(ip = [] \<or> address_parses net ip) \<and> can_bind net ip port (acceptor_heap m)")
  case False
  with assms show ?thesis by (auto simp: listener_def open_acceptor_def)
next
  case True
  let ?aid = "length (acceptor_heap m)"
  let ?m = "m\<lparr>acceptor_heap := acceptor_heap m @ [\<lparr>ac_port = port, ac_ip = ip, ac_open = True\<rparr>],
      port_acceptors := (port_acceptors m)(port \<mapsto> ?aid)\<rparr>"
  from accept_loop_ok [of ?m port ?aid] assms(2) obtain p ex where
    p: "accept_loop port ?aid ?m = Inr (?m\<lparr>pm_pool := p\<rparr>, L_accept port ?aid ex)" "pool_ready p"
    by auto
  have "listener net port ip m = accept_loop port ?aid ?m"
    using True assms(3) by (auto simp: listener_def open_acceptor_def Let_def)
  moreover have "acceptors_ok (?m\<lparr>pm_pool := p\<rparr>)"
    using assms(1,3) unfolding acceptors_ok_def by (auto simp: nth_append less_Suc_eq)
  moreover have "acceptors_grow m (?m\<lparr>pm_pool := p\<rparr>)"
    using assms(3) by (auto simp: acceptors_grow_def map_le_def)
  ultimately show ?thesis
    using p by (intro exI [of _ "?m\<lparr>pm_pool := p\<rparr>"] exI [of _ "L_accept port ?aid ex"]) auto
qed

definition binds_all :: "os_net \<Rightarrow> proxy_entity list \<Rightarrow> bool" where
  "binds_all net es \<longleftrightarrow>
     (\<forall>e \<in> set es. (listen_ip e = [] \<or> address_parses net (listen_ip e)) \<and>
        (\<forall>as. can_bind net (listen_ip e) (listen_port e) as))"

lemma spawn_listeners_spec:
  assumes "acceptors_ok m" "pool_ready (pm_pool m)" "entities_sorted es"
    and "entity_ports es \<inter> dom (port_acceptors m) = {}"
  shows "\<exists>m' frs. spawn_listeners net es m = Inr (m', frs) \<and> acceptors_ok m' \<and>
    pool_ready (pm_pool m') \<and> acceptors_grow m m' \<and> length frs = length es \<and>
    dom (port_acceptors m') \<subseteq> dom (port_acceptors m) \<union> entity_ports es \<and>
    (binds_all net es \<longrightarrow> dom (port_acceptors m') = dom (port_acceptors m) \<union> entity_ports es)"
  using assms
proof (induction es arbitrary: m)
  case Nil
  then show ?case by (simp add: entity_ports_def)
next
  case (Cons e es)
  have "port_acceptors m (listen_port e) = None"
    using Cons.prems(4) by (auto simp: entity_ports_def)
  from listener_spec [OF Cons.prems(1,2) this, of net "listen_ip e"]
  obtain m1 fr where m1: "listener net (listen_port e) (listen_ip e) m = Inr (m1, fr)"
    "acceptors_ok m1" "pool_ready (pm_pool m1)" "acceptors_grow m m1"
    and cases: "fr = M_done \<and> m1 = m \<and>
        \<not> ((listen_ip e = [] \<or> address_parses net (listen_ip e)) \<and>
           can_bind net (listen_ip e) (listen_port e) (acceptor_heap m)) \<or>
      (\<exists>aid ex. fr = L_accept (listen_port e) aid ex \<and>
         port_acceptors m1 = (port_acceptors m)(listen_port e \<mapsto> aid))" by blast
  have dom1: "dom (port_acceptors m1) \<subseteq> insert (listen_port e) (dom (port_acceptors m))"
    "binds_all net (e # es) \<Longrightarrow> dom (port_acceptors m1) = insert (listen_port e) (dom (port_acceptors m))"
    using cases by (auto simp: binds_all_def)
  have "listen_port e \<notin> entity_ports es"
    using Cons.prems(3) by (auto simp: entity_ports_def proxy_entity_less_def)
  moreover have "entity_ports es \<inter> dom (port_acceptors m) = {}"
    using Cons.prems(4) by (auto simp: entity_ports_def)
  ultimately have "entity_ports es \<inter> dom (port_acceptors m1) = {}"
    using dom1(1) by blast
  from Cons.IH [OF m1(2,3) _ this] Cons.prems(3) obtain m2 frs where
    m2: "spawn_listeners net es m1 = Inr (m2, frs)" "acceptors_ok m2" "pool_ready (pm_pool m2)"
      "acceptors_grow m1 m2" "length frs = length es"
      "dom (port_acceptors m2) \<subseteq> dom (port_acceptors m1) \<union> entity_ports es"
      "binds_all net es \<longrightarrow> dom (port_acceptors m2) = dom (port_acceptors m1) \<union> entity_ports es"
    by auto
  have "acceptors_grow m m2"
    using acceptors_grow_trans m1(4) m2(4) by blast
  moreover have "dom (port_acceptors m2) \<subseteq> dom (port_acceptors m) \<union> entity_ports (e # es)"
    using m2(6) dom1(1) by (auto simp: entity_ports_def)
  moreover have "binds_all net es" if "binds_all net (e # es)"
    using that by (simp add: binds_all_def)
  then have "binds_all net (e # es) \<longrightarrow>
      dom (port_acceptors m2) = dom (port_acceptors m) \<union> entity_ports (e # es)"
    using m2(7) dom1(2) by (simp add: entity_ports_def Un_assoc)
  ultimately show ?case
    using m1(1) m2 by simp
qed

lemma drop_port_spec:
  assumes "acceptors_ok m"
  shows "acceptors_ok (drop_port p m)"
    and "port_acceptors (drop_port p m) q = (if q = p then None else port_acceptors m q)"
    and "pm_config (drop_port p m) = pm_config m" "pm_pool (drop_port p m) = pm_pool m"
      "started (drop_port p m) = started m"
    and "length (acceptor_heap (drop_port p m)) = length (acceptor_heap m)"
    and "aid < length (acceptor_heap m) \<Longrightarrow> acceptor_heap (drop_port p m) ! aid =
      (if port_acceptors m p = Some aid then (acceptor_heap m ! aid)\<lparr>ac_open := False\<rparr>
       else acceptor_heap m ! aid)"
proof -
  show "acceptors_ok (drop_port p m)"
    using assms unfolding acceptors_ok_def drop_port_def close_acceptor_def
    by (auto split: option.split simp: nth_list_update) (metis option.sel)+
qed (use assms in \<open>auto simp: drop_port_def close_acceptor_def nth_list_update acceptors_ok_def
    split: option.split\<close>)

lemma drop_ports_spec:
  assumes "acceptors_ok m"
  shows "acceptors_ok (drop_ports es m) \<and>
    (\<forall>q. port_acceptors (drop_ports es m) q =
       (if q \<in> entity_ports es then None else port_acceptors m q)) \<and>
    pm_config (drop_ports es m) = pm_config m \<and> pm_pool (drop_ports es m) = pm_pool m \<and>
    started (drop_ports es m) = started m \<and>
    length (acceptor_heap (drop_ports es m)) = length (acceptor_heap m) \<and>
    (\<forall>aid < length (acceptor_heap m). acceptor_heap (drop_ports es m) ! aid =
       (if \<exists>p \<in> entity_ports es. port_acceptors m p = Some aid
        then (acceptor_heap m ! aid)\<lparr>ac_open := False\<rparr> else acceptor_heap m ! aid))"
  using assms
proof (induction es arbitrary: m)
  case Nil
  then show ?case by (simp add: entity_ports_def)
next
  case (Cons e es)
  note dp = drop_port_spec [OF Cons.prems, where p = "listen_port e"]
  from Cons.IH [OF dp(1)] show ?case
    by (auto simp: entity_ports_def dp)
qed

end
