(* ===== verification/Listener_Properties.thy ===== *)
theory Listener_Properties
  imports Listener
begin

text \<open>
  Properties of the main thread of the proxy: the executor pool, what a configuration file
  installs, and what starting and reloading do to the listeners.
\<close>

section \<open>The pool\<close>

text \<open>The pool spreads connections evenly: from any state of a pool that is ready, as many
  consecutive requests as there are contexts give each context exactly once, and the pool
  is ready again.\<close>

theorem executors_round_robin:
  assumes "pool_ready p"
  shows "\<exists>is p'. take_from get_executor (length (io_context_vec p)) p = Inr (is, p') \<and>
    distinct is \<and> set is = {..< length (io_context_vec p)} \<and> pool_ready p'"
  using pool.round_is_fair [OF assms] by blast

theorem executors_round_robin_witness:
  "\<exists>is p'. take_from get_executor 3 (io_context_pool_new 3) = Inr (is, p') \<and> set is = {..<3}"
  using executors_round_robin [of "io_context_pool_new 3"]
  by (simp add: pool_ready_def io_context_pool_new_def) blast

text \<open>A pool built for \<open>n\<close> threads, from 1 to $2^{31}-1$, is ready; a pool built for none,
  which is what \<^verbatim>\<open>hardware_concurrency()\<close> may ask for, indexes an empty vector at the
  first request.\<close>

theorem pool_needs_threads:
  "(pool_ready (pool_start (io_context_pool_new n)) \<longleftrightarrow> 0 < unat n \<and> unat n < 2147483648) \<and>
   get_executor (pool_start (io_context_pool_new 0)) = Inl Index_out_of_range"
  by (auto simp: pool_ready_def io_context_pool_new_def pool_start_def get_executor_def)

text \<open>Destroying a started pool lets every context's \<^verbatim>\<open>run\<close> return and joins every thread,
  one for each context.\<close>

theorem pool_shuts_down:
  "let p = pool_stop (pool_start (io_context_pool_new n)) in
   (\<forall>c \<in> set (io_context_vec p). run_returns c) \<and>
   length (thread_vec p) = unat n \<and> set (thread_vec p) \<subseteq> {Thread_joined}"
  by (auto simp: Let_def pool_stop_def pool_start_def io_context_pool_new_def run_returns_def)

theorem pool_shuts_down_witness:
  "length (thread_vec (pool_stop (pool_start (io_context_pool_new 2)))) = 2 \<and>
   set (thread_vec (pool_stop (pool_start (io_context_pool_new 2)))) \<subseteq> {Thread_joined}"
  using pool_shuts_down [of 2] by (simp add: Let_def)

section \<open>The configuration\<close>

lemma parse_entities_sorted:
  "parse_entities js es = Inr es' \<Longrightarrow> entities_sorted es \<Longrightarrow> entities_sorted es'"
  by (induction js arbitrary: es) (auto split: sum.splits intro: emplace_sorted)

lemma set_opt_keeps:
  assumes "\<And>v c. get (upd v c) = get c"
  shows "get (fst (set_opt conv j k upd st)) = get (fst st)"
  using assms by (auto simp: set_opt_def split: prod.split option.split sum.split)

lemma parse_settings_entities:
  "entities (fst (parse_settings j c)) = entities c"
  "add_entities (fst (parse_settings j c)) = add_entities c"
  "del_entities (fst (parse_settings j c)) = del_entities c"
  by (simp_all add: parse_settings_def set_opt_keeps upd_log_def)

lemma parse_conf_ok:
  assumes "parse_conf file c = (c', None)"
  obtains es where "entities_sorted es" "entities c' = es"
    "del_entities c' = set_difference (entities c) es" "add_entities c' = set_difference es (entities c)"
proof -
  obtain j where parsed: "file = Parsed j"
    using assms by (cases "file") (simp_all add: parse_conf_def)
  obtain c1 r where c1: "parse_settings j c = (c1, r)" by fastforce
  with assms parsed obtain es where "r = None" and es: "parse_tcp_proxy j = Inr es"
    and c': "c' = install_entities es c1"
    by (auto simp: parse_conf_def split: option.splits sum.splits)
  have "entities c1 = entities c"
    using parse_settings_entities(1) [of j c] c1 by simp
  moreover have "entities_sorted es"
    using es by (auto simp: parse_tcp_proxy_def split: sum.splits intro: parse_entities_sorted)
  ultimately show thesis
    using c' by (intro that [of es]) (simp_all add: install_entities_def)
qed

lemma rejected_conf:
  assumes "parse_conf file c = (c', Some e)"
  shows "entities c' = entities c \<and> add_entities c' = add_entities c \<and>
    del_entities c' = del_entities c"
proof -
  have "c' = c \<or> (\<exists>j. c' = fst (parse_settings j c))"
    using assms by (auto simp: parse_conf_def split: conf_file.splits prod.splits option.splits sum.splits)
      (metis fst_conv)+
  then show ?thesis
    using parse_settings_entities by auto
qed

text \<open>C36. A configuration that is rejected, at whatever point parsing stops, leaves the proxied
  ports, their servers and the last computed differences as they were.\<close>

theorem rejected_config_keeps_entities:
  assumes "parse_conf file c = (c', Some e)"
  shows "entities c' = entities c \<and> add_entities c' = add_entities c \<and>
    del_entities c' = del_entities c"
  using rejected_conf [OF assms] .

theorem rejected_config_keeps_entities_witness:
  "\<exists>c'. parse_conf (Parsed (JObject [(''log_name'', JString ''x''), (''tcp_proxy'', JBool True)]))
      config_new = (c', Some Type_error_305) \<and> entities c' = []"
proof -
  obtain c' where c': "parse_conf (Parsed (JObject [(''log_name'', JString ''x''),
      (''tcp_proxy'', JBool True)])) config_new = (c', Some Type_error_305)"
    by (simp add: parse_conf_def parse_settings_def set_opt_def get_field_def upd_log_def
        parse_tcp_proxy_def parse_proxy_def)
  from rejected_config_keeps_entities [OF c'] c' show ?thesis by (simp add: config_new_def)
qed

text \<open>What an accepted configuration installs is ordered by port without duplicates, and the
  two differences are exact: applying them to the old ports gives the new ones, and a port
  in both configurations is in neither.\<close>

theorem accepted_config_differences:
  assumes "parse_conf file c = (c', None)" "entities_sorted (entities c)"
  shows "entities_sorted (entities c') \<and>
    entity_ports (entities c') =
      entity_ports (entities c) - entity_ports (del_entities c') \<union> entity_ports (add_entities c') \<and>
    (entity_ports (add_entities c') \<union> entity_ports (del_entities c')) \<inter>
      (entity_ports (entities c) \<inter> entity_ports (entities c')) = {}"
proof -
  obtain es where es: "entities_sorted es" "entities c' = es"
    "del_entities c' = set_difference (entities c) es" "add_entities c' = set_difference es (entities c)"
    using assms(1) by (rule parse_conf_ok)
  show ?thesis
    using ents.reload_keys [OF assms(2) es(1)] ents.diff_keys [OF assms(2) es(1)]
      ents.diff_keys [OF es(1) assms(2)] es
    unfolding entity_ports_def by auto
qed

definition demo_conf :: "nat \<Rightarrow> nat \<Rightarrow> conf_file" where
  "demo_conf p q = Parsed (JObject [(''tcp_proxy'', JArray (map (\<lambda>port.
     JObject [(''listen_port'', JUnsigned port),
              (''servers'', JArray [JObject [(''ip'', JString ''10.0.0.2''), (''port'', JUnsigned 80)]])])
     [p, q]))])"

definition demo_entity :: "nat \<Rightarrow> proxy_entity" where
  "demo_entity p = \<lparr>listen_port = of_nat p, listen_ip = [],
     servers = [server_info_default\<lparr>si_ip := ''10.0.0.2'', si_port := 80\<rparr>]\<rparr>"

lemmas conf_eval = demo_conf_def demo_entity_def parse_conf_def parse_settings_def set_opt_def
  get_field_def get_opt_def upd_log_def parse_tcp_proxy_def parse_proxy_def parse_server_def
  install_entities_def proxy_entity_less_def server_info_default_def

lemma demo_parse:
  "\<exists>c'. parse_conf (demo_conf 90 80) config_new = (c', None) \<and>
     entities c' = [demo_entity 80, demo_entity 90] \<and> add_entities c' = entities c'"
  by (simp add: conf_eval config_new_def)

theorem accepted_config_differences_witness:
  "\<exists>c'. parse_conf (demo_conf 90 80) config_new = (c', None) \<and>
     entity_ports (entities c') = {80, 90} \<and> entities_sorted (entities c')"
proof -
  obtain c' where c': "parse_conf (demo_conf 90 80) config_new = (c', None)"
    "entities c' = [demo_entity 80, demo_entity 90]"
    using demo_parse by blast
  from accepted_config_differences [OF c'(1)] c' show ?thesis
    by (auto simp: config_new_def entity_ports_def demo_entity_def)
qed


section \<open>Reloading\<close>

lemma reload_spec:
  assumes ok: "main_ok m" and parsed: "parse_conf file (pm_config m) = (c, None)"
  shows "\<exists>m' frs. reload net file now m = Inr (m', W_wait now, frs) \<and> main_ok m' \<and>
    pm_config m' = c \<and> length frs = length (add_entities c) \<and>
    (\<forall>p aid. p \<in> entity_ports (entities c) \<and> port_acceptors m p = Some aid \<longrightarrow>
       port_acceptors m' p = Some aid \<and> acceptor_heap m' ! aid = acceptor_heap m ! aid) \<and>
    (\<forall>p aid. p \<notin> entity_ports (entities c) \<and> port_acceptors m p = Some aid \<longrightarrow>
       \<not> ac_open (acceptor_heap m' ! aid)) \<and>
    (binds_all net (add_entities c) \<and> dom (port_acceptors m) = entity_ports (entities (pm_config m)) \<longrightarrow>
       dom (port_acceptors m') = entity_ports (entities c))"
proof -
  let ?old = "entities (pm_config m)" and ?m0 = "m\<lparr>pm_config := c\<rparr>"
  have m: "acceptors_ok m" "pool_ready (pm_pool m)" "entities_sorted ?old"
    "dom (port_acceptors m) \<subseteq> entity_ports ?old"
    using ok by (simp_all add: main_ok_def)
  obtain es where es: "entities_sorted es" "entities c = es"
    "del_entities c = set_difference ?old es" "add_entities c = set_difference es ?old"
    using parsed by (rule parse_conf_ok)
  have add: "entity_ports (add_entities c) = entity_ports es - entity_ports ?old"
    and del: "entity_ports (del_entities c) = entity_ports ?old - entity_ports es"
    using ents.diff_keys [OF es(1) m(3)] ents.diff_keys [OF m(3) es(1)] es
    by (simp_all add: entity_ports_def)
  have "entities_sorted (add_entities c)"
    using set_difference_sorted [OF es(1) m(3)] es(4) by simp
  moreover have "entity_ports (add_entities c) \<inter> dom (port_acceptors ?m0) = {}"
    using add m(4) by auto
  moreover have "acceptors_ok ?m0" using m(1) by (simp add: acceptors_ok_def)
  ultimately obtain m1 frs where sp: "spawn_listeners net (add_entities c) ?m0 = Inr (m1, frs)"
    and m1: "acceptors_ok m1" "pool_ready (pm_pool m1)" "acceptors_grow ?m0 m1"
      "length frs = length (add_entities c)"
      "dom (port_acceptors m1) \<subseteq> dom (port_acceptors m) \<union> entity_ports (add_entities c)"
      "binds_all net (add_entities c) \<longrightarrow>
         dom (port_acceptors m1) = dom (port_acceptors m) \<union> entity_ports (add_entities c)"
    using spawn_listeners_spec [of ?m0 "add_entities c" net] m(2) by auto
  have c1: "pm_config m1 = c" using m1(3) by (simp add: acceptors_grow_def)
  let ?m' = "drop_ports (del_entities c) m1"
  from drop_ports_spec [OF m1(1), of "del_entities c"]
  have d: "acceptors_ok ?m'" "\<And>q. port_acceptors ?m' q =
      (if q \<in> entity_ports (del_entities c) then None else port_acceptors m1 q)"
    "pm_config ?m' = c" "pm_pool ?m' = pm_pool m1"
    "\<And>aid. aid < length (acceptor_heap m1) \<Longrightarrow> acceptor_heap ?m' ! aid =
       (if \<exists>p \<in> entity_ports (del_entities c). port_acceptors m1 p = Some aid
        then (acceptor_heap m1 ! aid)\<lparr>ac_open := False\<rparr> else acceptor_heap m1 ! aid)"
    using c1 by simp_all
  have old: "port_acceptors m1 p = Some aid" "acceptor_heap m1 ! aid = acceptor_heap m ! aid"
    "aid < length (acceptor_heap m1)" "p \<in> entity_ports ?old"
    if "port_acceptors m p = Some aid" for p aid
    using that acceptors_grow_entry [OF m1(3), of p aid] m(1,4) m1(1)
    by (auto simp: acceptors_ok_def dom_def)
  have same: "q = p" if "port_acceptors m1 p = Some aid" "port_acceptors m1 q = Some aid" for p q aid
    using that m1(1) unfolding acceptors_ok_def by metis
  have dom': "dom (port_acceptors ?m') = dom (port_acceptors m1) - entity_ports (del_entities c)"
    by (auto simp: d(2) dom_def split: if_splits)
  have "dom (port_acceptors m1) - entity_ports (del_entities c) \<subseteq> entity_ports (entities c)"
    using m(4) m1(5) unfolding add del es(2) by blast
  moreover have "entities_sorted (entities c)" using es(1,2) by simp
  ultimately have ok': "main_ok ?m'"
    using d(1) m1(2) unfolding main_ok_def dom' d(3,4) by (intro conjI)
  have keep: "port_acceptors ?m' p = Some aid \<and> acceptor_heap ?m' ! aid = acceptor_heap m ! aid"
    if p: "p \<in> entity_ports (entities c)" "port_acceptors m p = Some aid" for p aid
  proof -
    have "p \<notin> entity_ports (del_entities c)" using p(1) del es(2) by blast
    moreover have "\<not> (\<exists>q \<in> entity_ports (del_entities c). port_acceptors m1 q = Some aid)"
      using same [OF old(1) [OF p(2)]] calculation by blast
    ultimately show ?thesis
      using old(1,2) [OF p(2)] d(2) [of p] d(5) [OF old(3) [OF p(2)]] by simp
  qed
  have gone: "\<not> ac_open (acceptor_heap ?m' ! aid)"
    if p: "p \<notin> entity_ports (entities c)" "port_acceptors m p = Some aid" for p aid
  proof -
    have "p \<in> entity_ports (del_entities c)" using p del es(2) old(4) by blast
    then have "\<exists>q \<in> entity_ports (del_entities c). port_acceptors m1 q = Some aid"
      using old(1) [OF p(2)] by blast
    then show ?thesis
      using d(5) [OF old(3) [OF p(2)]] by simp
  qed
  have all: "dom (port_acceptors ?m') = entity_ports (entities c)"
    if "binds_all net (add_entities c)" "dom (port_acceptors m) = entity_ports ?old"
  proof -
    have "dom (port_acceptors m1) = entity_ports ?old \<union> (entity_ports es - entity_ports ?old)"
      using m1(6) that add by simp
    then show ?thesis unfolding dom' del es(2) by blast
  qed
  have "reload net file now m = Inr (?m', W_wait now, frs)"
    using parsed sp c1 by (simp add: reload_def)
  moreover have "\<forall>p aid. p \<in> entity_ports (entities c) \<and> port_acceptors m p = Some aid \<longrightarrow>
      port_acceptors ?m' p = Some aid \<and> acceptor_heap ?m' ! aid = acceptor_heap m ! aid"
    by (intro allI impI) (elim conjE, rule keep)
  moreover have "\<forall>p aid. p \<notin> entity_ports (entities c) \<and> port_acceptors m p = Some aid \<longrightarrow>
      \<not> ac_open (acceptor_heap ?m' ! aid)"
    by (intro allI impI) (elim conjE, rule gone)
  moreover have "binds_all net (add_entities c) \<and> dom (port_acceptors m) = entity_ports ?old \<longrightarrow>
      dom (port_acceptors ?m') = entity_ports (entities c)"
    by (intro impI) (elim conjE, rule all)
  ultimately show ?thesis
    using ok' d(3) m1(4) by (intro exI [of _ ?m'] exI [of _ frs] conjI)
qed

text \<open>C13. A reload brings the listeners to the new configuration: if the ports that were
  configured were listened on and the new ones can be bound, then afterwards exactly the
  ports of the new configuration are.\<close>

theorem reload_converges:
  assumes "main_ok m" "parse_conf file (pm_config m) = (c, None)"
    and "dom (port_acceptors m) = entity_ports (entities (pm_config m))"
    and "binds_all net (add_entities c)"
  shows "\<exists>m' frs. reload net file now m = Inr (m', W_wait now, frs) \<and> pm_config m' = c \<and>
    dom (port_acceptors m') = entity_ports (entities c)"
  using reload_spec [OF assms(1,2), of net now] assms(3,4) by blast

text \<open>C14. A reload disturbs no port that stays: whatever the network answers, a port in both
  configurations keeps its open acceptor, bound to the address it was bound to before
  (also when the new configuration names another \<^verbatim>\<open>listen_ip\<close>), a port that is gone has its
  acceptor closed, and afterwards no open acceptor is on a port outside the configuration.\<close>

theorem reload_keeps_the_rest:
  assumes "main_ok m" "parse_conf file (pm_config m) = (c, None)"
  shows "\<exists>m' frs. reload net file now m = Inr (m', W_wait now, frs) \<and> main_ok m' \<and>
    (\<forall>p aid. port_acceptors m p = Some aid \<longrightarrow>
       (if p \<in> entity_ports (entities c)
        then port_acceptors m' p = Some aid \<and> acceptor_heap m' ! aid = acceptor_heap m ! aid
        else \<not> ac_open (acceptor_heap m' ! aid))) \<and>
    (\<forall>aid < length (acceptor_heap m'). ac_open (acceptor_heap m' ! aid) \<longrightarrow>
       ac_port (acceptor_heap m' ! aid) \<in> entity_ports (entities c))"
proof -
  obtain m' frs where r: "reload net file now m = Inr (m', W_wait now, frs)" "main_ok m'"
    "pm_config m' = c"
    and keep: "\<forall>p aid. p \<in> entity_ports (entities c) \<and> port_acceptors m p = Some aid \<longrightarrow>
       port_acceptors m' p = Some aid \<and> acceptor_heap m' ! aid = acceptor_heap m ! aid"
    and gone: "\<forall>p aid. p \<notin> entity_ports (entities c) \<and> port_acceptors m p = Some aid \<longrightarrow>
       \<not> ac_open (acceptor_heap m' ! aid)"
    using reload_spec [OF assms, of net now] by blast
  have "ac_port (acceptor_heap m' ! aid) \<in> entity_ports (entities c)"
    if "aid < length (acceptor_heap m')" "ac_open (acceptor_heap m' ! aid)" for aid
  proof -
    have "port_acceptors m' (ac_port (acceptor_heap m' ! aid)) = Some aid"
      using r(2) that by (simp add: main_ok_def acceptors_ok_def)
    then show ?thesis using r(2,3) by (auto simp: main_ok_def)
  qed
  with r keep gone show ?thesis by (intro exI [of _ m'] exI [of _ frs]) auto
qed

text \<open>A configuration that is rejected while the proxy runs leaves every acceptor and every
  proxied port alone, but it ends the watcher: no later change of the file is noticed.\<close>

theorem rejected_reload_stops_watching:
  assumes "parse_conf file (pm_config m) = (c, Some e)" "last_time \<noteq> now"
  shows "\<exists>m'. handle_config_change net last_time False (Some now) file m = Inr (m', M_done, []) \<and>
    port_acceptors m' = port_acceptors m \<and> acceptor_heap m' = acceptor_heap m \<and>
    entities (pm_config m') = entities (pm_config m)"
  using assms rejected_conf [OF assms(1)] by (simp add: handle_config_change_def reload_def)

text \<open>The proxy started with ports 80 and 90 on a network that binds everything.\<close>

definition demo_net :: os_net where
  "demo_net = \<lparr>address_parses = (\<lambda>ip. True), can_bind = (\<lambda>ip port as. True)\<rparr>"

lemma main_start_spec:
  assumes "main_start net hw file mtime = Some r" "0 < unat (get_work_threads hw (fst (parse_conf file config_new)))"
    and "unat (get_work_threads hw (fst (parse_conf file config_new))) < 2147483648"
  shows "\<exists>m frs. r = Inr (m, frs) \<and> main_ok m \<and>
    entities (pm_config m) = entities (fst (parse_conf file config_new)) \<and>
    (binds_all net (entities (pm_config m)) \<longrightarrow>
       dom (port_acceptors m) = entity_ports (entities (pm_config m)))"
proof -
  obtain c0 where c0: "parse_conf file config_new = (c0, None)"
    using assms(1) by (auto simp: main_start_def split: prod.splits option.splits)
  obtain es where es: "entities_sorted es" "entities c0 = es"
    using c0 by (rule parse_conf_ok)
  let ?c = "snd (log_options c0)"
  let ?pool = "pool_start (io_context_pool_new (get_work_threads hw ?c))"
  let ?m = "\<lparr>pm_config = ?c, port_acceptors = (\<lambda>_. None), acceptor_heap = [],
    pm_pool = ?pool, started = []\<rparr>"
  have c: "entities ?c = es" "get_work_threads hw ?c = get_work_threads hw c0"
    using es by (simp_all add: log_options_def upd_log_def get_work_threads_def)
  have "pool_ready ?pool"
    using assms(2,3) c0 c(2) by (simp add: pool_ready_def pool_start_def io_context_pool_new_def)
  with spawn_listeners_spec [of ?m es net] es obtain m1 frs where
    sp: "spawn_listeners net es ?m = Inr (m1, frs)" "acceptors_ok m1" "pool_ready (pm_pool m1)"
      "acceptors_grow ?m m1" "dom (port_acceptors m1) \<subseteq> entity_ports es"
      "binds_all net es \<longrightarrow> dom (port_acceptors m1) = entity_ports es"
    by (auto simp: acceptors_ok_def)
  have "pm_config m1 = ?c" using sp(4) by (simp add: acceptors_grow_def)
  with sp es c assms(1) c0 show ?thesis
    by (auto simp: main_start_def Let_def main_ok_def)
qed

text \<open>The proxy starts into a consistent state: with a usable configuration and at least one
  worker thread, the ports that could be bound have one open acceptor each, and if all can
  be bound exactly the configured ports have one.\<close>

theorem start_listens:
  assumes "main_start net hw file mtime = Some r"
    and "0 < unat (get_work_threads hw (fst (parse_conf file config_new)))"
    and "unat (get_work_threads hw (fst (parse_conf file config_new))) < 2147483648"
  shows "\<exists>m frs. r = Inr (m, frs) \<and> main_ok m \<and>
    (binds_all net (entities (pm_config m)) \<longrightarrow>
       dom (port_acceptors m) = entity_ports (entities (pm_config m)))"
  using main_start_spec [OF assms] by blast


lemma demo_main:
  obtains m where "main_ok m" "entities (pm_config m) = [demo_entity 80, demo_entity 90]"
    "dom (port_acceptors m) = entity_ports (entities (pm_config m))"
proof -
  have e: "entities (fst (parse_conf (demo_conf 90 80) config_new)) = [demo_entity 80, demo_entity 90]"
    "get_work_threads 2 (fst (parse_conf (demo_conf 90 80) config_new)) = 2"
    by (simp_all add: conf_eval config_new_def get_work_threads_def)
  obtain r where "main_start demo_net 2 (demo_conf 90 80) (Some 1) = Some r"
    using demo_parse by (auto simp: main_start_def Let_def)
  from main_start_spec [OF this] e obtain m where "main_ok m"
    "entities (pm_config m) = [demo_entity 80, demo_entity 90]"
    "binds_all demo_net (entities (pm_config m)) \<longrightarrow>
       dom (port_acceptors m) = entity_ports (entities (pm_config m))"
    by auto
  with that show thesis by (auto simp: binds_all_def demo_net_def)
qed

lemma demo_reload:
  obtains m c where "main_ok m" "parse_conf (demo_conf 70 80) (pm_config m) = (c, None)"
    "entities c = [demo_entity 70, demo_entity 80]" "add_entities c = [demo_entity 70]"
    "dom (port_acceptors m) = entity_ports (entities (pm_config m))" "80 \<in> dom (port_acceptors m)"
proof (rule demo_main)
  fix m
  assume m: "main_ok m" "entities (pm_config m) = [demo_entity 80, demo_entity 90]"
    "dom (port_acceptors m) = entity_ports (entities (pm_config m))"
  then have "80 \<in> dom (port_acceptors m)" by (simp add: entity_ports_def demo_entity_def)
  moreover obtain c where "parse_conf (demo_conf 70 80) (pm_config m) = (c, None)"
    "entities c = [demo_entity 70, demo_entity 80]" "add_entities c = [demo_entity 70]"
    using m(2) by (simp add: conf_eval)
  ultimately show thesis using that m by blast
qed

theorem start_listens_witness:
  "\<exists>m frs. main_start demo_net 2 (demo_conf 90 80) (Some 1) = Some (Inr (m, frs)) \<and> main_ok m"
proof -
  have e: "get_work_threads 2 (fst (parse_conf (demo_conf 90 80) config_new)) = 2"
    by (simp add: conf_eval config_new_def get_work_threads_def)
  obtain r where r: "main_start demo_net 2 (demo_conf 90 80) (Some 1) = Some r"
    using demo_parse by (auto simp: main_start_def Let_def)
  from start_listens [OF this] e obtain m frs where "r = Inr (m, frs)" "main_ok m" by auto
  with r show ?thesis by blast
qed

theorem reload_converges_witness:
  "\<exists>m m' frs. main_ok m \<and> reload demo_net (demo_conf 70 80) 5 m = Inr (m', W_wait 5, frs) \<and>
     dom (port_acceptors m') = {70, 80}"
proof (rule demo_reload)
  fix m c
  assume m: "main_ok m" "parse_conf (demo_conf 70 80) (pm_config m) = (c, None)"
    "entities c = [demo_entity 70, demo_entity 80]" "add_entities c = [demo_entity 70]"
    "dom (port_acceptors m) = entity_ports (entities (pm_config m))"
  have "binds_all demo_net (add_entities c)" by (simp add: binds_all_def demo_net_def)
  from reload_converges [OF m(1,2,5) this, of 5] m(1,3) show ?thesis
    by (auto simp: entity_ports_def demo_entity_def)
qed

theorem reload_keeps_the_rest_witness:
  "\<exists>m m' frs aid. reload demo_net (demo_conf 70 80) 5 m = Inr (m', W_wait 5, frs) \<and>
     port_acceptors m 80 = Some aid \<and> port_acceptors m' 80 = Some aid"
proof (rule demo_reload)
  fix m c
  assume m: "main_ok m" "parse_conf (demo_conf 70 80) (pm_config m) = (c, None)"
    "entities c = [demo_entity 70, demo_entity 80]" "80 \<in> dom (port_acceptors m)"
  then obtain aid where aid: "port_acceptors m 80 = Some aid" by blast
  have "80 \<in> entity_ports (entities c)" using m(3) by (simp add: entity_ports_def demo_entity_def)
  with reload_keeps_the_rest [OF m(1,2), of demo_net 5] aid show ?thesis by metis
qed

theorem rejected_reload_stops_watching_witness:
  "\<exists>(m :: proxy_main) m'. handle_config_change demo_net 1 False (Some 2) Malformed m = Inr (m', M_done, []) \<and>
     dom (port_acceptors m') = {80, 90}"
proof (rule demo_main)
  fix m :: proxy_main
  assume m: "entities (pm_config m) = [demo_entity 80, demo_entity 90]"
    "dom (port_acceptors m) = entity_ports (entities (pm_config m))"
  have "parse_conf Malformed (pm_config m) = (pm_config m, Some Parse_error)"
    by (simp add: parse_conf_def)
  from rejected_reload_stops_watching [OF this, of 1 2 demo_net] obtain m' where
    "handle_config_change demo_net 1 False (Some 2) Malformed m = Inr (m', M_done, [])"
    "port_acceptors m' = port_acceptors m" by auto
  moreover have "entity_ports (entities (pm_config m)) = {80, 90}"
    using m(1) by (simp add: entity_ports_def demo_entity_def)
  ultimately show ?thesis using m(2) by metis
qed


section \<open>Accepting and looking up\<close>

text \<open>A listener starts one session per accepted connection on the executor it had asked
  for and goes on with the next executor; a failed accept starts none, and ends the
  listener exactly if its acceptor was closed.\<close>

theorem listener_accepts:
  assumes "pool_ready (pm_pool m)" "aid < length (acceptor_heap m)"
  shows "\<exists>m' fr. accepted port aid ex failed m = Inr (m', fr) \<and>
    started m' = started m @ (if failed then [] else [(port, ex)]) \<and>
    (if failed \<and> \<not> ac_open (acceptor_heap m ! aid) then fr = M_done \<and> m' = m
     else fr = L_accept port aid (unat (io_context_index (pm_pool m))) \<and> pool_ready (pm_pool m'))"
proof -
  obtain p where "get_executor (pm_pool m) = Inr (unat (io_context_index (pm_pool m)), p)" "pool_ready p"
    using pool.get_cycles [OF assms(1)] by blast
  then show ?thesis
    using assms(2) by (auto simp: accepted_def accept_loop_def)
qed

theorem listener_accepts_witness:
  "\<exists>m m'. accepted 80 0 0 False m = Inr (m', L_accept 80 0 0) \<and> started m' = [(80, 0)]"
proof -
  let ?m = "\<lparr>pm_config = config_new, port_acceptors = Map.empty,
    acceptor_heap = [\<lparr>ac_port = 80, ac_ip = [], ac_open = True\<rparr>],
    pm_pool = io_context_pool_new 2, started = []\<rparr>"
  have "pool_ready (pm_pool ?m)" by (simp add: pool_ready_def io_context_pool_new_def)
  from listener_accepts [OF this, of 0 80 0 False] show ?thesis
    by (auto simp: io_context_pool_new_def)
qed

text \<open>A new session is given the first server of the entity of its port in the
  configuration installed last, none if the port is not configured, and undefined
  behaviour if the entity lists no server.\<close>

theorem proxy_server_lookup:
  assumes "entities_sorted (entities c)"
  shows "(\<forall>e \<in> set (entities c). get_proxy_server (listen_port e) c =
      (if servers e = [] then Inl Index_out_of_range else Inr (Some (servers e ! 0)))) \<and>
    (p \<notin> entity_ports (entities c) \<longrightarrow> get_proxy_server p c = Inr None)"
proof -
  have "find_entity (listen_port e) (entities c) = Some e" if "e \<in> set (entities c)" for e
    using that ents.find_iff [OF assms] by blast
  moreover have "find_entity p (entities c) = None" if "p \<notin> entity_ports (entities c)"
    using that ents.find_None_iff [OF assms, of p] by (simp add: entity_ports_def)
  ultimately show ?thesis
    by (auto simp: get_proxy_server_def split: list.split)
qed

theorem proxy_server_lookup_witness:
  "get_proxy_server 80 (config_new\<lparr>entities := [demo_entity 80]\<rparr>) =
     Inr (Some (server_info_default\<lparr>si_ip := ''10.0.0.2'', si_port := 80\<rparr>)) \<and>
   get_proxy_server 81 (config_new\<lparr>entities := [demo_entity 80]\<rparr>) = Inr None"
  using proxy_server_lookup [of "config_new\<lparr>entities := [demo_entity 80]\<rparr>" 81]
  by (simp add: demo_entity_def entity_ports_def)

end
