(* ===== verification/Process.thy ===== *)
theory Process
  imports Local_Protocol Json
begin

text \<open>
  \<^verbatim>\<open>src/src/process/process.cpp\<close>: the sample handler process. For every connection of the
  proxy, \<^verbatim>\<open>setup\<close> reads request frames and acknowledges packets with the number of bytes
  of their direction so far, and \<^verbatim>\<open>heartbeat\<close> sends a heartbeat every five seconds. As in
  \<open>Coroutines\<close>, a frame is a suspended \<^verbatim>\<open>co_await\<close>; both coroutines run on one thread. An
  exception ends the coroutine it leaves and nothing else.
\<close>

section \<open>State\<close>

datatype proc_error = Proc_eof | Proc_error nat

record proc_session =
  ps_open :: bool
  ps_tx :: "byte list"
  ps_buf :: "byte list"
  ps_has_closed :: bool
  ps_eof :: bool
  ps_timer_gen :: nat
  ps_req_handled :: u64
  ps_res_handled :: u64

definition proc_session_new :: proc_session where
  "proc_session_new =
     \<lparr>ps_open = True, ps_tx = [], ps_buf = [], ps_has_closed = False, ps_eof = False,
      ps_timer_gen = 0, ps_req_handled = 0, ps_res_handled = 0\<rparr>"

datatype proc_frame =
    P_head                     \<comment> \<open>line 112\<close>
  | P_body u8 u32              \<comment> \<open>line 135\<close>
  | P_ack "byte list"          \<comment> \<open>lines 160, 186\<close>
  | P_wait nat                 \<comment> \<open>line 83\<close>
  | P_beat "byte list"         \<comment> \<open>line 90\<close>
  | P_done

datatype proc_event =
    P_read "proc_error option" "byte list"
  | P_write "proc_error option" nat
  | P_timer "proc_error option"

text \<open>What the code finds outside: how a JSON text parses (\<open>None\<close>: it throws), whether
  \<^verbatim>\<open>shutdown\<close> of the socket throws, and what is on the stack where \<^verbatim>\<open>head_buf\<close> lies.\<close>

record proc_env =
  pe_parse :: "byte list \<Rightarrow> json option"
  pe_shutdown_throws :: bool
  pe_stack :: "nat \<Rightarrow> byte"

section \<open>Operations\<close>

definition proc_grace_close :: "proc_env \<Rightarrow> proc_session \<Rightarrow> proc_session" where
  "proc_grace_close env s =
     (if ps_has_closed s then s
      else let s1 = s\<lparr>ps_has_closed := True, ps_timer_gen := Suc (ps_timer_gen s)\<rparr>
           in if pe_shutdown_throws env then s1 else s1\<lparr>ps_open := False\<rparr>)"

text \<open>\<open>True\<close> when the announcement is understood, \<open>False\<close> when an exception is thrown.\<close>

definition handle_init :: "proc_env \<Rightarrow> byte list \<Rightarrow> bool" where
  "handle_init env data =
     (case pe_parse env data of
        None \<Rightarrow> False
      | Some j \<Rightarrow>
          (case (json_at j ''client_ip'', json_at j ''client_port'',
                 json_at j ''server_ip'', json_at j ''server_port'') of
             (Inr cip, Inr cport, Inr sip, Inr sport) \<Rightarrow>
               (case (to_string_field cip, to_arith cport :: json_error + u16,
                      to_string_field sip, to_arith sport :: json_error + u16) of
                  (Inr _, Inr _, Inr _, Inr _) \<Rightarrow> True
                | _ \<Rightarrow> False)
           | _ \<Rightarrow> False))"

definition heartbeat_head :: "byte list" where
  "heartbeat_head = encode_head (empty_head\<lparr>rh_type := data_type_byte Heartbeat\<rparr>)"

definition heartbeat_loop :: "proc_session \<Rightarrow> proc_session \<times> proc_frame" where
  "heartbeat_loop s =
     (if ps_has_closed s then (s, P_done)
      else (s\<lparr>ps_timer_gen := Suc (ps_timer_gen s)\<rparr>, P_wait (Suc (ps_timer_gen s))))"

definition setup_loop :: "proc_env \<Rightarrow> proc_session \<Rightarrow> proc_session \<times> proc_frame" where
  "setup_loop env s = (if ps_eof s then (proc_grace_close env s, P_done) else (s, P_head))"

definition pass_head :: "data_type \<Rightarrow> u64 \<Rightarrow> byte list" where
  "pass_head t handled =
     encode_head (empty_head\<lparr>rh_type := data_type_byte t, rh_act := action_byte Pass,
       rh_handled_total_pkg_len := handled\<rparr>)"

text \<open>The switch over the frame type.\<close>

definition handle_frame :: "proc_env \<Rightarrow> u8 \<Rightarrow> u32 \<Rightarrow> proc_session \<Rightarrow> proc_session \<times> proc_frame" where
  "handle_frame env t body_len s =
     (case data_type_of t of
        Some From_client_to_server \<Rightarrow>
          let handled = ps_req_handled s + ucast body_len
          in (s\<lparr>ps_req_handled := handled\<rparr>, P_ack (pass_head From_client_to_server handled))
      | Some From_server_to_client \<Rightarrow>
          let handled = ps_res_handled s + ucast body_len; s1 = s\<lparr>ps_res_handled := handled\<rparr>
          in if body_len = 0 then setup_loop env s1
             else (s1, P_ack (pass_head From_server_to_client handled))
      | Some Four_tuple \<Rightarrow>
          if handle_init env (take (unat body_len) (ps_buf s)) then setup_loop env s
          else (s, P_done)
      | _ \<Rightarrow> setup_loop env s)"

definition after_head :: "proc_env \<Rightarrow> byte list \<Rightarrow> proc_session \<Rightarrow> proc_session \<times> proc_frame" where
  "after_head env head_buf s =
     (let t = head_buf ! 0;
          body_len = get_u32 (take 4 (drop 1 head_buf));
          n = unat body_len;
          s1 = (if length (ps_buf s) < n
                then s\<lparr>ps_buf := ps_buf s @ replicate (n - length (ps_buf s)) 0\<rparr> else s)
      in if body_len \<noteq> 0 then (s1, P_body t body_len) else handle_frame env t body_len s1)"

text \<open>The five bytes of \<^verbatim>\<open>head_buf\<close> after a read of \<open>bs\<close>.\<close>

definition head_buf_after :: "proc_env \<Rightarrow> byte list \<Rightarrow> byte list" where
  "head_buf_after env bs = bs @ map (pe_stack env) [length bs ..< 5]"

fun proc_resume :: "proc_env \<Rightarrow> proc_session \<Rightarrow> proc_frame \<Rightarrow> proc_event \<Rightarrow> proc_session \<times> proc_frame"
where
  "proc_resume env s P_head (P_read ec bs) =
     (case ec of
        None \<Rightarrow> after_head env (head_buf_after env bs) s
      | Some Proc_eof \<Rightarrow> after_head env (head_buf_after env bs) (s\<lparr>ps_eof := True\<rparr>)
      | Some (Proc_error e) \<Rightarrow> (proc_grace_close env s, P_done))"
| "proc_resume env s (P_body t body_len) (P_read ec bs) =
     (let s1 = s\<lparr>ps_buf := bs @ drop (length bs) (ps_buf s)\<rparr>
      in case ec of
           None \<Rightarrow> handle_frame env t body_len s1
         | Some Proc_eof \<Rightarrow> handle_frame env t body_len (s1\<lparr>ps_eof := True\<rparr>)
         | Some (Proc_error e) \<Rightarrow> (proc_grace_close env s1, P_done))"
| "proc_resume env s (P_ack out) (P_write ec n) =
     (case ec of
        None \<Rightarrow> setup_loop env (s\<lparr>ps_tx := ps_tx s @ out\<rparr>)
      | Some e \<Rightarrow> (proc_grace_close env (s\<lparr>ps_tx := ps_tx s @ take n out\<rparr>), P_done))"
| "proc_resume env s (P_wait g) (P_timer ec) =
     (case ec of None \<Rightarrow> (s, P_beat heartbeat_head) | Some e \<Rightarrow> heartbeat_loop s)"
| "proc_resume env s (P_beat out) (P_write ec n) =
     (case ec of
        None \<Rightarrow> heartbeat_loop (s\<lparr>ps_tx := ps_tx s @ out\<rparr>)
      | Some e \<Rightarrow> (proc_grace_close env (s\<lparr>ps_tx := ps_tx s @ take n out\<rparr>), P_done))"
| "proc_resume env s fr ev = (s, fr)"

fun proc_run ::
  "proc_env \<Rightarrow> proc_session \<times> proc_frame \<Rightarrow> proc_event list \<Rightarrow> proc_session \<times> proc_frame"
where
  "proc_run env st [] = st"
| "proc_run env st (ev # evs) = proc_run env (proc_resume env (fst st) (snd st) ev) evs"

section \<open>The accepting side\<close>

text \<open>\<^verbatim>\<open>listener\<close>: each accepted connection becomes a session whose two coroutines start on
  the executor it was accepted for; a failed accept is tried again.\<close>

definition proc_start :: "proc_env \<Rightarrow> proc_session \<Rightarrow> proc_session \<times> proc_frame \<times> proc_frame" where
  "proc_start env s =
     (let (s1, f) = setup_loop env s; (s2, g) = heartbeat_loop s1 in (s2, f, g))"

definition proc_accept :: "proc_env \<Rightarrow> bool \<Rightarrow> (proc_session \<times> proc_frame \<times> proc_frame) list \<Rightarrow>
    (proc_session \<times> proc_frame \<times> proc_frame) list"
where
  "proc_accept env failed sessions =
     (if failed then sessions else sessions @ [proc_start env proc_session_new])"

section \<open>Well-behaved input\<close>

text \<open>The completions with which a stream of request frames arrives and is answered.\<close>

type_synonym request = "data_type \<times> byte list"

definition acked :: "request \<Rightarrow> bool" where
  "acked r = (case r of (From_client_to_server, b) \<Rightarrow> True | (From_server_to_client, b) \<Rightarrow> b \<noteq> []
              | _ \<Rightarrow> False)"

definition request_wire :: "request \<Rightarrow> byte list" where
  "request_wire r =
     encode_request \<lparr>rq_type = data_type_byte (fst r), rq_len = of_nat (length (snd r))\<rparr>"

definition request_events :: "request \<Rightarrow> proc_event list" where
  "request_events r =
     [P_read None (request_wire r)] @ (if snd r = [] then [] else [P_read None (snd r)]) @
     (if acked r then [P_write None response_head_len] else [])"

text \<open>What is to be answered: for each packet the bytes of its direction up to and with it.\<close>

fun acks :: "u64 \<Rightarrow> u64 \<Rightarrow> request list \<Rightarrow> (data_type \<times> u64) list" where
  "acks req res [] = []"
| "acks req res ((t, b) # rs) =
     (let req' = (if t = From_client_to_server then req + of_nat (length b) else req);
          res' = (if t = From_server_to_client then res + of_nat (length b) else res)
      in (if acked (t, b) then [(t, if t = From_client_to_server then req' else res')] else []) @
         acks req' res' rs)"

end
