(* ===== verification/Process_Properties.thy ===== *)
theory Process_Properties
  imports Process
begin

text \<open>
  Properties of the sample handler process: what it acknowledges, that its closing is
  final, and runs in which it goes wrong.
\<close>

section \<open>Acknowledging\<close>

definition requests_ok :: "proc_env \<Rightarrow> request list \<Rightarrow> bool" where
  "requests_ok env rs \<longleftrightarrow>
     (\<forall>(t, b) \<in> set rs. length b < 4294967296 \<and> (t = Four_tuple \<longrightarrow> handle_init env b))"

lemma length_word_0:
  assumes "length b < 4294967296"
  shows "(of_nat (length b) :: u32) = 0 \<longleftrightarrow> b = []" and "unat (of_nat (length b) :: u32) = length b"
proof -
  show len: "unat (of_nat (length b) :: u32) = length b"
    using assms by (simp add: unat_of_nat)
  have "(of_nat (length b) :: u32) = 0 \<longleftrightarrow> unat (of_nat (length b) :: u32) = 0"
    by (simp only: word_unat_eq_iff unsigned_0)
  then show "(of_nat (length b) :: u32) = 0 \<longleftrightarrow> b = []"
    unfolding len by simp
qed

lemma after_head_request:
  assumes "length b < 4294967296"
  shows "\<exists>buf. after_head env (head_buf_after env (request_wire (t, b))) s =
    (if b = [] then handle_frame env (data_type_byte t) 0 (s\<lparr>ps_buf := buf\<rparr>)
     else (s\<lparr>ps_buf := buf\<rparr>, P_body (data_type_byte t) (of_nat (length b)))) \<and> length b \<le> length buf"
proof -
  let ?h = "\<lparr>rq_type = data_type_byte t, rq_len = of_nat (length b) :: u32\<rparr>"
  note len = length_word_0(2) [OF assms] and ne = length_word_0(1) [OF assms]
  have buf: "head_buf_after env (request_wire (t, b)) = encode_request ?h"
    by (simp add: head_buf_after_def request_wire_def request_head_len_def)
  have "encode_request ?h ! 0 = data_type_byte t" "get_u32 (take 4 (drop 1 (encode_request ?h))) = of_nat (length b)"
    by (simp_all add: encode_request_def)
  note dec = this
  let ?buf = "if length (ps_buf s) < length b
      then ps_buf s @ replicate (length b - length (ps_buf s)) 0 else ps_buf s"
  have "after_head env (head_buf_after env (request_wire (t, b))) s =
    (if b = [] then handle_frame env (data_type_byte t) 0 (s\<lparr>ps_buf := ?buf\<rparr>)
     else (s\<lparr>ps_buf := ?buf\<rparr>, P_body (data_type_byte t) (of_nat (length b))))"
    unfolding buf after_head_def Let_def dec len ne
    by (cases "b = []"; cases "length (ps_buf s) < length b") simp_all
  moreover have "length b \<le> length ?buf" by simp
  ultimately show ?thesis by blast
qed

text \<open>One request: afterwards \<open>setup\<close> waits for the next head, has added the body to the
  count of its direction and has answered if the request is to be answered.\<close>

lemma request_step:
  assumes s: "\<not> ps_eof s" and len: "length b < 4294967296" and ini: "t = Four_tuple \<longrightarrow> handle_init env b"
  defines "req \<equiv> (if t = From_client_to_server then ps_req_handled s + of_nat (length b) else ps_req_handled s)"
    and "res \<equiv> (if t = From_server_to_client then ps_res_handled s + of_nat (length b) else ps_res_handled s)"
  shows "\<exists>s'. proc_run env (s, P_head) (request_events (t, b)) = (s', P_head) \<and> \<not> ps_eof s' \<and>
    ps_req_handled s' = req \<and> ps_res_handled s' = res \<and>
    ps_tx s' = ps_tx s @ (if acked (t, b)
      then pass_head t (if t = From_client_to_server then req else res) else [])"
proof -
  have uc: "ucast (of_nat (length b) :: u32) = (of_nat (length b) :: u64)"
    using len by (simp add: unsigned_of_nat take_bit_nat_eq_self)
  have frame: "\<exists>s' fr. handle_frame env (data_type_byte t) (of_nat (length b)) s1 = (s', fr) \<and>
      \<not> ps_eof s' \<and> ps_req_handled s' = req \<and> ps_res_handled s' = res \<and> ps_tx s' = ps_tx s \<and>
      fr = (if acked (t, b) then P_ack (pass_head t (if t = From_client_to_server then req else res))
            else P_head)"
    if s1: "s1 = s\<lparr>ps_buf := buf\<rparr>" "take (length b) buf = b" for s1 buf
  proof -
    note n = length_word_0 [OF len]
    show ?thesis
      unfolding handle_frame_def data_type_of_byte
      using s1 s ini uc n
      by (cases t) (auto simp: Let_def setup_loop_def acked_def req_def res_def)
  qed
  obtain buf where ah: "after_head env (head_buf_after env (request_wire (t, b))) s =
    (if b = [] then handle_frame env (data_type_byte t) 0 (s\<lparr>ps_buf := buf\<rparr>)
     else (s\<lparr>ps_buf := buf\<rparr>, P_body (data_type_byte t) (of_nat (length b))))"
    and bl: "length b \<le> length buf"
    using after_head_request [OF len] by blast
  let ?buf = "b @ drop (length b) buf"
  obtain s' fr where hf: "handle_frame env (data_type_byte t) (of_nat (length b)) (s\<lparr>ps_buf := ?buf\<rparr>) = (s', fr)"
    "\<not> ps_eof s'" "ps_req_handled s' = req" "ps_res_handled s' = res" "ps_tx s' = ps_tx s"
    "fr = (if acked (t, b) then P_ack (pass_head t (if t = From_client_to_server then req else res))
           else P_head)"
    using frame [of "s\<lparr>ps_buf := ?buf\<rparr>" ?buf] by auto
  have split: "proc_run env (s, P_head) (request_events (t, b)) =
      proc_run env (s', fr) (if acked (t, b) then [P_write None response_head_len] else [])"
    using ah hf(1) by (auto simp: request_events_def Let_def)
  show ?thesis
  proof (cases "acked (t, b)")
    case True
    let ?s = "s'\<lparr>ps_tx := ps_tx s' @ pass_head t (if t = From_client_to_server then req else res)\<rparr>"
    have "proc_run env (s, P_head) (request_events (t, b)) = (?s, P_head)"
      using split True hf(2,6) by (simp add: setup_loop_def)
    then show ?thesis using True hf by simp
  next
    case False
    then show ?thesis using split hf by auto
  qed
qed

lemma proc_run_append: "proc_run env st (xs @ ys) = proc_run env (proc_run env st xs) ys"
  by (induction env st xs rule: proc_run.induct) simp_all

lemma requests_run:
  assumes "\<not> ps_eof s" "requests_ok env rs"
  shows "\<exists>s'. proc_run env (s, P_head) (concat (map request_events rs)) = (s', P_head) \<and> \<not> ps_eof s' \<and>
    ps_tx s' = ps_tx s @ concat (map (\<lambda>(t, n). pass_head t n)
      (acks (ps_req_handled s) (ps_res_handled s) rs))"
  using assms
proof (induction rs arbitrary: s)
  case Nil
  then show ?case by simp
next
  case (Cons r rs)
  obtain t b where r: "r = (t, b)" by (cases r)
  let ?req = "if t = From_client_to_server then ps_req_handled s + of_nat (length b) else ps_req_handled s"
  let ?res = "if t = From_server_to_client then ps_res_handled s + of_nat (length b) else ps_res_handled s"
  from request_step [of s b t env] Cons.prems r obtain s1 where
    s1: "proc_run env (s, P_head) (request_events (t, b)) = (s1, P_head)" "\<not> ps_eof s1"
    "ps_req_handled s1 = ?req" "ps_res_handled s1 = ?res"
    "ps_tx s1 = ps_tx s @ (if acked (t, b)
      then pass_head t (if t = From_client_to_server then ?req else ?res) else [])"
    by (auto simp: requests_ok_def)
  moreover have "requests_ok env rs" using Cons.prems(2) by (simp add: requests_ok_def)
  ultimately obtain s' where "proc_run env (s1, P_head) (concat (map request_events rs)) = (s', P_head)"
    "\<not> ps_eof s'" "ps_tx s' = ps_tx s1 @ concat (map (\<lambda>(t, n). pass_head t n) (acks ?req ?res rs))"
    using Cons.IH [of s1] by auto
  with s1 r show ?case
    by (simp add: proc_run_append Let_def)
qed

text \<open>C17. The handler answers a stream of request frames with the acknowledgements that the
  specification \<open>acks\<close> names, in order and nothing else: one for every packet of the
  client and every non-empty packet of the server, with the total of its direction so far,
  for whatever counts the session has reached. The announcements in the stream are ones that
  the JSON parser accepts with the members that are read of them, and no frame is longer than
  its 32-bit length can say.\<close>

theorem handler_acknowledges:
  assumes "\<not> ps_eof s" "requests_ok env rs"
  shows "\<exists>s'. proc_run env (s, P_head) (concat (map request_events rs)) = (s', P_head) \<and>
    ps_tx s' = ps_tx s @ concat (map (\<lambda>(t, n). pass_head t n)
      (acks (ps_req_handled s) (ps_res_handled s) rs))"
  using requests_run [OF assms] by blast

definition demo_env :: proc_env where
  "demo_env = \<lparr>pe_parse = (\<lambda>bs. if bs = [1] then Some (JObject
     [(''client_ip'', JString ''10.0.0.1''), (''client_port'', JUnsigned 4000),
      (''server_ip'', JString ''10.0.0.2''), (''server_port'', JUnsigned 80)]) else None),
    pe_shutdown_throws = False, pe_stack = (\<lambda>i. if i = 1 then 3 else 0)\<rparr>"

definition demo_requests :: "request list" where
  "demo_requests =
     [(Four_tuple, [1]), (From_client_to_server, [7, 8, 9]), (From_server_to_client, []),
      (From_client_to_server, [4])]"

lemma demo_requests_ok: "requests_ok demo_env demo_requests"
  by (simp add: requests_ok_def demo_requests_def demo_env_def handle_init_def)

theorem handler_acknowledges_witness:
  "\<exists>s'. proc_run demo_env (proc_session_new, P_head) (concat (map request_events demo_requests)) =
      (s', P_head) \<and>
    ps_tx s' = pass_head From_client_to_server 3 @ pass_head From_client_to_server 4"
  using handler_acknowledges [OF _ demo_requests_ok, of proc_session_new]
  by (simp add: proc_session_new_def demo_requests_def acked_def Let_def)

section \<open>Ending\<close>

text \<open>Closing the handler's side is final: no completion of either coroutine clears the
  flag, and after it a heartbeat coroutine is resumed at most once more.\<close>

theorem handler_closing_is_final:
  assumes "ps_has_closed s"
  shows "ps_has_closed (fst (proc_resume env s fr ev)) \<and>
    (fr = P_beat out \<and> ev = P_write ec n \<or> fr = P_wait g \<and> ev = P_timer (Some e) \<longrightarrow>
       snd (proc_resume env s fr ev) = P_done)"
proof -
  have close: "proc_grace_close env t = t" if "ps_has_closed t" for t
    using that by (simp add: proc_grace_close_def)
  have frame: "ps_has_closed (fst (handle_frame env t len u))" if "ps_has_closed u" for t len u
    using that by (auto simp: handle_frame_def setup_loop_def close Let_def
        split: option.split data_type.split)
  have head: "ps_has_closed (fst (after_head env hb u))" if "ps_has_closed u" for hb u
    using that frame by (auto simp: after_head_def Let_def)
  have "ps_has_closed (fst (proc_resume env s fr ev))"
    using assms frame head
    by (cases "(env, s, fr, ev)" rule: proc_resume.cases)
      (auto simp: setup_loop_def heartbeat_loop_def close Let_def
        split: option.split proc_error.split)
  moreover have "snd (proc_resume env s fr ev) = P_done"
    if "fr = P_beat out \<and> ev = P_write ec n \<or> fr = P_wait g \<and> ev = P_timer (Some e)"
    using that assms by (auto simp: heartbeat_loop_def split: option.split)
  ultimately show ?thesis by blast
qed

theorem handler_closing_is_final_witness:
  "snd (proc_resume demo_env (proc_session_new\<lparr>ps_has_closed := True\<rparr>) (P_wait 3)
     (P_timer (Some Proc_eof))) = P_done"
  using handler_closing_is_final [of "proc_session_new\<lparr>ps_has_closed := True\<rparr>" demo_env "P_wait 3"
      "P_timer (Some Proc_eof)" "[]" None 0 3 Proc_eof] by simp

section \<open>Runs that go wrong\<close>

text \<open>At the end of the stream the head buffer is used although nothing was read into it:
  what the stack held, here a length of 3 for direction 0, is taken for a request, and
  three bytes the handler never saw are acknowledged.\<close>

theorem eof_acknowledges_stack:
  "proc_run demo_env (proc_session_new, P_head)
     [P_read (Some Proc_eof) [], P_read (Some Proc_eof) []] =
   (proc_session_new\<lparr>ps_eof := True, ps_buf := [0, 0, 0], ps_req_handled := 3\<rparr>,
    P_ack (pass_head From_client_to_server 3))"
proof -
  have "replicate 3 (0 :: byte) = [0, 0, 0]" by (simp add: numeral_3_eq_3)
  then show ?thesis
    by (simp add: proc_session_new_def demo_env_def head_buf_after_def after_head_def Let_def
        upt_conv_Cons get_u32_def handle_frame_def data_type_of_def)
qed

text \<open>An announcement that does not parse ends the reading coroutine without closing: the
  heartbeat goes on, so the proxy's watchdog never notices that nobody reads.\<close>

theorem bad_announcement_goes_unnoticed:
  "\<exists>s1 s2. proc_run demo_env (proc_session_new, P_head) (request_events (Four_tuple, [2])) = (s1, P_done) \<and>
    \<not> ps_has_closed s1 \<and> ps_open s1 \<and>
    proc_run demo_env (s1, P_wait g) [P_timer None, P_write None n] = (s2, P_wait (ps_timer_gen s2)) \<and>
    ps_tx s2 = ps_tx s1 @ heartbeat_head"
  by (simp add: proc_session_new_def demo_env_def request_events_def request_wire_def head_buf_after_def
      after_head_def Let_def handle_frame_def handle_init_def acked_def heartbeat_loop_def
      encode_request_def request_head_len_def data_type_of_def)

end
