(* ===== verification/Exchange.thy ===== *)
theory Exchange
  imports Session_Eval Process_Properties
begin

text \<open>
  The proxy and the sample handler process together, on one direction: what the relay
  writes is what the handler reads, what the handler answers is what the reader of
  verdicts reads, and applying these verdicts releases every packet.
\<close>

section \<open>Sending and releasing\<close>

text \<open>The relay's side of a sequence of completed reads, none larger than the room offered,
  with the bytes written to the handler process.\<close>

fun send_all :: "data_type \<Rightarrow> byte list list \<Rightarrow> lane \<Rightarrow> (byte list \<times> lane) option" where
  "send_all t [] ln = Some ([], ln)"
| "send_all t (b # bs) ln =
     (if read_room (prepare_block ln) < length b then None
      else (case store_packet t b (prepare_block ln) of
              Inl f \<Rightarrow> None
            | Inr (ln1, out) \<Rightarrow> map_option (\<lambda>(wire, ln2). (out @ wire, ln2)) (send_all t bs ln1)))"

text \<open>The reader's side of a sequence of pass verdicts, with what each releases.\<close>

fun release_all :: "response_head list \<Rightarrow> lane \<Rightarrow> (byte list list \<times> lane) option" where
  "release_all [] ln = Some ([], ln)"
| "release_all (h # hs) ln =
     (case prepare_transfer_packet h (ln_stored ln) (ln_handled ln) of
        (bufs, handled, cnt, used) \<Rightarrow>
          (case gather (ln_heap ln) bufs of
             Inl f \<Rightarrow> None
           | Inr out \<Rightarrow>
               (case clear_handled_packet (ln_stored ln) cnt used of
                  Inl f \<Rightarrow> None
                | Inr rest \<Rightarrow>
                    map_option (\<lambda>(outs, ln2). (out # outs, ln2))
                      (release_all hs (ln\<lparr>ln_stored := rest, ln_handled := handled\<rparr>)))))"

lemma send_all_spec:
  assumes "send_all t bs ln = Some (wire, ln')" "lane_ok ln"
  shows "lane_ok ln' \<and> ln_handled ln' = ln_handled ln \<and>
    map (packet_bytes (ln_heap ln')) (ln_stored ln') =
      map (packet_bytes (ln_heap ln)) (ln_stored ln) @ bs \<and>
    wire = concat (map (\<lambda>b. encode_request \<lparr>rq_type = data_type_byte t, rq_len = of_nat (length b)\<rparr> @ b) bs) \<and>
    (\<forall>b \<in> set bs. length b < 4294967296)"
  using assms
proof (induction bs arbitrary: ln wire)
  case Nil
  then show ?case by simp
next
  case (Cons b bs)
  let ?ln = "prepare_block ln"
  note pb = prepare_block_spec [OF Cons.prems(2)]
  obtain bl where bl: "current_block ?ln = Some bl" "\<not> get_available bl < 69"
    using pb(5) by blast
  have room: "length b \<le> read_room ?ln"
    using Cons.prems(1) by (simp split: if_splits)
  have "read_room ?ln < 4294967296"
    using bl(1) unsigned_less [of "get_available bl - 5"] by (simp add: read_room_def)
  with room have small: "length b < 4294967296" by simp
  from store_packet_spec [OF pb(1) bl room, of t] obtain ln1 pk where
    st: "store_packet t b ?ln = Inr (ln1,
      encode_request \<lparr>rq_type = data_type_byte t, rq_len = of_nat (length b)\<rparr> @ b)"
    and ln1: "lane_ok ln1" "lane_bytes ln1 = lane_bytes ?ln @ b" "ln_stored ln1 = ln_stored ?ln @ [pk]"
      "heap_grows (ln_heap ?ln) (ln_heap ln1)" "ln_handled ln1 = ln_handled ?ln" by blast
  obtain w2 where w2: "send_all t bs ln1 = Some (w2, ln')"
    "wire = (encode_request \<lparr>rq_type = data_type_byte t, rq_len = of_nat (length b)\<rparr> @ b) @ w2"
    using Cons.prems(1) room st by (auto split: if_splits)
  have ok: "\<forall>p \<in> set (ln_stored ln). packet_ok (ln_heap ln) p"
    using Cons.prems(2) by (simp add: lane_ok_def)
  have same: "map (packet_bytes (ln_heap ln1)) (ln_stored ln) = map (packet_bytes (ln_heap ln)) (ln_stored ln)"
  proof (rule map_cong [OF refl])
    fix p
    assume "p \<in> set (ln_stored ln)"
    with ok have p: "\<forall>q \<in> set [p]. packet_ok (ln_heap ln) q" by simp
    note g1 = heap_grows_stored [OF prepare_block_grows [OF Cons.prems(2)] p]
    from g1(2) heap_grows_stored(2) [OF ln1(4) g1(1)]
    show "packet_bytes (ln_heap ln1) p = packet_bytes (ln_heap ln) p"
      by (simp add: stored_bytes_def)
  qed
  have "packet_bytes (ln_heap ln1) pk = b"
    using ln1(2,3) pb(2,3) same by (simp add: lane_bytes_def stored_bytes_def)
  with same ln1(3) pb(3) have "map (packet_bytes (ln_heap ln1)) (ln_stored ln1) =
      map (packet_bytes (ln_heap ln)) (ln_stored ln) @ [b]" by simp
  with Cons.IH [OF w2(1) ln1(1)] w2(2) ln1(5) pb(4) small show ?case by simp
qed

text \<open>A verdict whose total ends with the first stored packet releases this packet alone.\<close>

lemma release_packet:
  assumes ok: "lane_ok ln" and st: "ln_stored ln = p # ps"
    and tot: "rh_handled_total_pkg_len h = ln_handled ln + ucast (pk_len p)"
    and ov: "unat (ln_handled ln) + length (lane_bytes ln) < 18446744073709551616"
    and pos: "\<forall>q \<in> set ps. packet_bytes (ln_heap ln) q \<noteq> []"
  shows "prepare_transfer_packet h (ln_stored ln) (ln_handled ln) =
      ([asio_buffer p (ucast (pk_len p))], ln_handled ln + ucast (pk_len p), 1, 0)"
    and "gather (ln_heap ln) [asio_buffer p (ucast (pk_len p))] = Inr (packet_bytes (ln_heap ln) p)"
    and "clear_handled_packet (ln_stored ln) 1 0 = Inr ps"
proof -
  let ?h = "ln_heap ln" and ?L = "ucast (pk_len p) :: u64"
  have ps: "\<forall>q \<in> set (p # ps). packet_ok ?h q"
    using ok st by (simp add: lane_ok_def)
  have len: "length (packet_bytes ?h q) = unat (pk_len q)" if "q \<in> set (p # ps)" for q
    using ps that by (auto elim: packet_okE)
  have uc: "unat (ucast (pk_len q) :: u64) = unat (pk_len q)" for q
    by simp
  have small: "unat (ln_handled ln) + unat (pk_len p) + sum_list (map (\<lambda>q. unat (pk_len q)) ps)
      < 18446744073709551616"
  proof -
    have "length (stored_bytes ?h qs) = sum_list (map (\<lambda>q. unat (pk_len q)) qs)"
      if "set qs \<subseteq> set (p # ps)" for qs
      using that len by (induction qs) (simp_all add: stored_bytes_def)
    from this [of "p # ps"] ov st show ?thesis by (simp add: lane_bytes_def)
  qed
  then have tot': "unat (ln_handled ln + ?L) = unat (ln_handled ln) + unat (pk_len p)"
    by (simp add: unat_word_ariths)
  have rest: "prepare_loop (ln_handled ln + ?L) ps (ln_handled ln + ?L) 1 = ([], ln_handled ln + ?L, 1, 0)"
  proof (cases ps)
    case (Cons q qs)
    have "0 < unat (pk_len q)"
      using pos len [of q] Cons by (metis length_greater_0_conv list.set_intros(1,2))
    moreover have "unat (ln_handled ln + ?L + ucast (pk_len q)) = unat (ln_handled ln + ?L) + unat (pk_len q)"
      using small tot' Cons by (simp add: unat_word_ariths)
    ultimately have "ln_handled ln + ?L < ln_handled ln + ?L + ucast (pk_len q)"
      by (simp add: word_less_nat_alt)
    then show ?thesis using Cons by simp
  qed simp
  show "prepare_transfer_packet h (ln_stored ln) (ln_handled ln) =
      ([asio_buffer p (ucast (pk_len p))], ln_handled ln + ucast (pk_len p), 1, 0)"
    using rest by (simp add: prepare_transfer_packet_def st tot)
  show "gather ?h [asio_buffer p ?L] = Inr (packet_bytes ?h p)"
    using gather_packet [of ?h p ?L "[]"] ps len [of p] by simp
  show "clear_handled_packet (ln_stored ln) 1 0 = Inr ps"
    by (simp add: clear_handled_packet_def st)
qed

definition ack_head :: "data_type \<times> u64 \<Rightarrow> response_head" where
  "ack_head a = empty_head\<lparr>rh_type := data_type_byte (fst a), rh_act := action_byte Pass,
     rh_handled_total_pkg_len := snd a\<rparr>"

fun running_totals :: "u64 \<Rightarrow> byte list list \<Rightarrow> u64 list" where
  "running_totals n [] = []"
| "running_totals n (b # bs) = (n + of_nat (length b)) # running_totals (n + of_nat (length b)) bs"

lemma release_all_totals:
  assumes "lane_ok ln" "unat (ln_handled ln) + length (lane_bytes ln) < 18446744073709551616"
    and "\<forall>p \<in> set (ln_stored ln). packet_bytes (ln_heap ln) p \<noteq> []"
  shows "\<exists>ln'. release_all (map (\<lambda>n. ack_head (t, n))
      (running_totals (ln_handled ln) (map (packet_bytes (ln_heap ln)) (ln_stored ln)))) ln =
    Some (map (packet_bytes (ln_heap ln)) (ln_stored ln), ln') \<and> ln_stored ln' = []"
  using assms
proof (induction "ln_stored ln" arbitrary: ln)
  case Nil
  then show ?case by simp
next
  case (Cons p ps)
  let ?h = "ln_heap ln" and ?L = "ucast (pk_len p) :: u64"
  have st: "ln_stored ln = p # ps" using Cons.hyps(2) by simp
  have p: "packet_ok ?h p" using Cons.prems(1) st by (simp add: lane_ok_def)
  then have len: "length (packet_bytes ?h p) = unat (pk_len p)" by (rule packet_okE) simp
  have L: "of_nat (length (packet_bytes ?h p)) = ?L"
    unfolding len by (simp add: unsigned_ucast_eq)
  let ?head = "ack_head (t, ln_handled ln + ?L)"
  have "\<forall>q \<in> set ps. packet_bytes ?h q \<noteq> []" using Cons.prems(3) st by simp
  note rel = release_packet [OF Cons.prems(1) st _ Cons.prems(2) this, of ?head]
  let ?ln = "ln\<lparr>ln_stored := ps, ln_handled := ln_handled ln + ?L\<rparr>"
  have bytes: "length (lane_bytes ln) = unat (pk_len p) + length (stored_bytes ?h ps)"
    using len st by (simp add: lane_bytes_def stored_bytes_def)
  have "unat (ln_handled ln + ?L) = unat (ln_handled ln) + unat (pk_len p)"
    using Cons.prems(2) bytes by (simp add: unat_word_ariths)
  then have "unat (ln_handled ?ln) + length (lane_bytes ?ln) < 18446744073709551616"
    using Cons.prems(2) bytes by (simp add: lane_bytes_def)
  moreover have "lane_ok ?ln"
    using Cons.prems(1) st by (auto simp: lane_ok_def split: option.splits)
  ultimately obtain ln' where "release_all (map (\<lambda>n. ack_head (t, n))
      (running_totals (ln_handled ln + ?L) (map (packet_bytes ?h) ps))) ?ln =
    Some (map (packet_bytes ?h) ps, ln')" "ln_stored ln' = []"
    using Cons.hyps(1) [of ?ln] Cons.prems(3) st by auto
  then show ?case
    using rel st L by (simp add: ack_head_def)
qed

lemma acks_running:
  assumes "t = From_client_to_server \<or> t = From_server_to_client" "\<forall>b \<in> set bs. b \<noteq> []"
  shows "acks req res (map (\<lambda>b. (t, b)) bs) =
    map (\<lambda>n. (t, n)) (running_totals (if t = From_client_to_server then req else res) bs)"
  using assms by (induction bs arbitrary: req res) (auto simp: acked_def Let_def)

lemma read_acks:
  "read_frames decode_head response_head_len (\<lambda>h. unat (rh_new_data_len h))
    (concat (map (\<lambda>(t, n). pass_head t n) as)) = (map (\<lambda>a. (ack_head a, [])) as, [])"
proof -
  have nil: "read_frames decode_head response_head_len (\<lambda>h. unat (rh_new_data_len h)) [] = ([], [])"
    by (subst read_frames.simps) (simp add: response_head_len_def)
  have "concat (map (\<lambda>(t, n). pass_head t n) as) =
      concat (map (\<lambda>(h, b). encode_head h @ b) (map (\<lambda>a. (ack_head a, [])) as))"
    by (induction as) (auto simp: pass_head_def ack_head_def)
  moreover have "\<forall>(h, b) \<in> set (map (\<lambda>a. (ack_head a, [])) as). length b = unat (rh_new_data_len h)"
    by (auto simp: ack_head_def empty_head_def)
  ultimately show ?thesis
    using resp.read_frames_concat [of "map (\<lambda>a. (ack_head a, [])) as" "[]"] nil by simp
qed

section \<open>Through the handler and on\<close>

text \<open>C4. End to end: take any packets a relay reads in one direction on a fresh connection to
  the handler process. What the relay writes parses into exactly these packets; the handler,
  fed with them, writes heads that parse into one verdict per packet; and applying these
  verdicts in order hands each packet, whole and once, to the other peer and leaves
  nothing stored.\<close>

theorem inspected_packets_pass:
  assumes "t = From_client_to_server \<or> t = From_server_to_client" "\<forall>b \<in> set bs. b \<noteq> []"
    and "send_all t bs empty_lane = Some (wire, ln)"
    and "length (concat bs) < 18446744073709551616"
  shows "\<exists>frames ps heads ln'.
    read_frames decode_request request_head_len (\<lambda>h. unat (rq_len h)) wire = (frames, []) \<and>
    map (\<lambda>(h, b). (data_type_of (rq_type h), b)) frames = map (\<lambda>b. (Some t, b)) bs \<and>
    proc_run env (proc_session_new, P_head) (concat (map (\<lambda>b. request_events (t, b)) bs)) = (ps, P_head) \<and>
    read_frames decode_head response_head_len (\<lambda>h. unat (rh_new_data_len h)) (ps_tx ps) = (heads, []) \<and>
    release_all (map fst heads) ln = Some (bs, ln') \<and> ln_stored ln' = []"
proof -
  note sent = send_all_spec [OF assms(3) lane_ok_empty(1)]
  have ln: "lane_ok ln" "ln_handled ln = 0" "map (packet_bytes (ln_heap ln)) (ln_stored ln) = bs"
    using sent by (simp_all add: empty_lane_def)
  let ?hd = "\<lambda>b :: byte list. \<lparr>rq_type = data_type_byte t, rq_len = of_nat (length b) :: u32\<rparr>"
  let ?frames = "map (\<lambda>b. (?hd b, b)) bs"
  have small: "\<forall>b \<in> set bs. length b < 4294967296" using sent by blast
  have wire: "wire = concat (map (\<lambda>(h, b). encode_request h @ b) ?frames) @ []"
    using sent by (simp add: comp_def)
  have "\<forall>(h, b) \<in> set ?frames. length b = unat (rq_len h)"
    using small by (auto simp: unat_of_nat)
  from reqs.read_frames_concat [OF this, of "[]"]
  have frames: "read_frames decode_request request_head_len (\<lambda>h. unat (rq_len h)) wire = (?frames, [])"
    unfolding wire by (subst (asm) (2) read_frames.simps) (simp add: request_head_len_def)
  have "requests_ok env (map (\<lambda>b. (t, b)) bs)"
    using small assms(1) by (auto simp: requests_ok_def)
  then obtain ps where run: "proc_run env (proc_session_new, P_head)
      (concat (map request_events (map (\<lambda>b. (t, b)) bs))) = (ps, P_head)"
    and tx: "ps_tx ps = concat (map (\<lambda>(t, n). pass_head t n) (acks 0 0 (map (\<lambda>b. (t, b)) bs)))"
    using requests_run [of proc_session_new env "map (\<lambda>b. (t, b)) bs"]
    by (auto simp: proc_session_new_def)
  let ?as = "map (\<lambda>n. (t, n)) (running_totals 0 bs)"
  have heads: "read_frames decode_head response_head_len (\<lambda>h. unat (rh_new_data_len h)) (ps_tx ps) =
      (map (\<lambda>a. (ack_head a, [])) ?as, [])"
    unfolding tx acks_running [OF assms(1,2)] using read_acks [of ?as] by simp
  have "lane_bytes ln = concat bs"
    using ln(3) by (simp add: lane_bytes_def stored_bytes_def)
  moreover have "\<forall>p \<in> set (ln_stored ln). packet_bytes (ln_heap ln) p \<noteq> []"
    using ln(3) assms(2) by (metis imageI image_set)
  ultimately obtain ln' where "release_all (map (\<lambda>n. ack_head (t, n)) (running_totals 0 bs)) ln = Some (bs, ln')"
    "ln_stored ln' = []"
    using release_all_totals [OF ln(1), of t] ln(2,3) assms(4) by auto
  with frames run heads show ?thesis
    by (intro exI [of _ ?frames] exI [of _ ps] exI [of _ "map (\<lambda>a. (ack_head a, [])) ?as"] exI [of _ ln'])
      (simp add: comp_def)
qed


theorem inspected_packets_pass_witness:
  "\<exists>wire ln ps heads ln'. send_all From_client_to_server [[7, 8, 9], [4]] empty_lane = Some (wire, ln) \<and>
    proc_run demo_env (proc_session_new, P_head)
      (request_events (From_client_to_server, [7, 8, 9]) @ request_events (From_client_to_server, [4])) =
      (ps, P_head) \<and>
    release_all heads ln = Some ([[7, 8, 9], [4]], ln')"
proof -
  obtain wire ln where w: "send_all From_client_to_server [[7, 8, 9], [4]] empty_lane = Some (wire, ln)"
    by (simp add: demo_eval)
  from inspected_packets_pass [OF _ _ w, of demo_env]
  have "\<exists>ps heads ln'. proc_run demo_env (proc_session_new, P_head)
      (request_events (From_client_to_server, [7, 8, 9]) @ request_events (From_client_to_server, [4])) =
      (ps, P_head) \<and>
    release_all (map fst (heads :: (response_head \<times> byte list) list)) ln = Some ([[7, 8, 9], [4]], ln')"
    by simp metis
  with w show ?thesis by blast
qed

end
