(* ===== verification/Easylog.thy ===== *)
theory Easylog
  imports Prelude
begin

text \<open>
  \<^verbatim>\<open>src/src/easylog.hpp\<close>: the registry of logger modules, and of the logging library it
  configures (\<^verbatim>\<open>src/3party/spdlog-1.9.2\<close>) what decides where a message goes: the level
  filters of \<^verbatim>\<open>spdlog::logger\<close> and \<^verbatim>\<open>sinks::sink\<close>, flushing, and the rotating file sink. Sinks are
  shared: a logger refers to them by position. The file system is a map from names to
  contents; opening and writing succeed, renaming may fail.
\<close>

section \<open>Levels\<close>

datatype logger_level = Trace | Debug | Info | Warn | Err | Critical | Off

fun level_value :: "logger_level \<Rightarrow> nat" where
  "level_value Trace = 0"
| "level_value Debug = 1"
| "level_value Info = 2"
| "level_value Warn = 3"
| "level_value Err = 4"
| "level_value Critical = 5"
| "level_value Off = 6"

lemma level_value_inj: "level_value a = level_value b \<Longrightarrow> a = b"
  by (cases a; cases b) simp_all

instantiation logger_level :: linorder
begin

definition less_eq_logger_level :: "logger_level \<Rightarrow> logger_level \<Rightarrow> bool" where
  "less_eq_logger_level a b \<longleftrightarrow> level_value a \<le> level_value b"

definition less_logger_level :: "logger_level \<Rightarrow> logger_level \<Rightarrow> bool" where
  "less_logger_level a b \<longleftrightarrow> level_value a < level_value b"

instance
  by standard (auto simp: less_eq_logger_level_def less_logger_level_def intro: level_value_inj)

end

section \<open>File names\<close>

text \<open>\<^verbatim>\<open>rfind('.')\<close> and \<^verbatim>\<open>find_last_of("/")\<close>.\<close>

fun last_index :: "char \<Rightarrow> string \<Rightarrow> nat option" where
  "last_index c [] = None"
| "last_index c (x # xs) =
     (case last_index c xs of Some i \<Rightarrow> Some (Suc i) | None \<Rightarrow> if x = c then Some 0 else None)"

definition split_by_extension :: "string \<Rightarrow> string \<times> string" where
  "split_by_extension fname =
     (case last_index (CHR ''.'') fname of
        None \<Rightarrow> (fname, [])
      | Some ext_index \<Rightarrow>
          if ext_index = 0 \<or> ext_index = length fname - 1 then (fname, [])
          else (case last_index (CHR ''/'') fname of
                  None \<Rightarrow> (take ext_index fname, drop ext_index fname)
                | Some folder_index \<Rightarrow>
                    if ext_index - 1 \<le> folder_index then (fname, [])
                    else (take ext_index fname, drop ext_index fname)))"

definition calc_filename :: "string \<Rightarrow> nat \<Rightarrow> string" where
  "calc_filename filename index =
     (if index = 0 then filename
      else let (basename, ext) = split_by_extension filename
           in basename @ ''.'' @ nat_to_string index @ ext)"

section \<open>The rotating file sink\<close>

type_synonym filesystem = "string \<rightharpoonup> string"

record rotating_file_sink =
  base_filename :: string
  max_size :: u64
  max_files :: u64
  current_size :: u64

datatype log_error =
    Rename_failed
  | Module_exists
  | Module_unknown
  | Miss_log_dir_or_name

text \<open>\<^verbatim>\<open>file_helper::open\<close>: appending creates a missing file.\<close>

definition open_append :: "string \<Rightarrow> filesystem \<Rightarrow> filesystem" where
  "open_append f fs = (if fs f = None then fs(f \<mapsto> []) else fs)"

definition open_truncate :: "string \<Rightarrow> filesystem \<Rightarrow> filesystem" where
  "open_truncate f fs = fs(f \<mapsto> [])"

definition file_size :: "string \<Rightarrow> filesystem \<Rightarrow> nat" where
  "file_size f fs = (case fs f of None \<Rightarrow> 0 | Some c \<Rightarrow> length c)"

definition rotating_file_sink_new ::
  "string \<Rightarrow> u64 \<Rightarrow> u64 \<Rightarrow> filesystem \<Rightarrow> rotating_file_sink \<times> filesystem"
where
  "rotating_file_sink_new base msize mfiles fs =
     (let fs1 = open_append (calc_filename base 0) fs
      in (\<lparr>base_filename = base, max_size = msize, max_files = mfiles,
           current_size = of_nat (file_size base fs1)\<rparr>, fs1))"

text \<open>\<^verbatim>\<open>rename_file_\<close>: the target is removed first, whatever comes of the renaming.\<close>

definition rename_file :: "bool \<Rightarrow> string \<Rightarrow> string \<Rightarrow> filesystem \<Rightarrow> bool \<times> filesystem" where
  "rename_file fails src target fs =
     (let fs1 = fs(target := None)
      in if fails \<or> fs1 src = None then (False, fs1)
         else (True, fs1(target := fs1 src, src := None)))"

text \<open>The loop of \<^verbatim>\<open>rotate_\<close> from \<open>i\<close> downwards; \<open>fails src\<close> tells for the two attempts whether
  the operating system refuses.\<close>

fun rotate_loop ::
  "(string \<Rightarrow> bool \<times> bool) \<Rightarrow> string \<Rightarrow> nat \<Rightarrow> filesystem \<Rightarrow> bool \<times> filesystem"
where
  "rotate_loop fails base 0 fs = (True, fs)"
| "rotate_loop fails base (Suc i) fs =
     (let src = calc_filename base i; target = calc_filename base (Suc i)
      in if fs src = None then rotate_loop fails base i fs
         else (case rename_file (fst (fails src)) src target fs of
                 (True, fs1) \<Rightarrow> rotate_loop fails base i fs1
               | (False, fs1) \<Rightarrow>
                   (case rename_file (snd (fails src)) src target fs1 of
                      (True, fs2) \<Rightarrow> rotate_loop fails base i fs2
                    | (False, fs2) \<Rightarrow> (False, fs2))))"

definition rotate ::
  "(string \<Rightarrow> bool \<times> bool) \<Rightarrow> rotating_file_sink \<Rightarrow> filesystem \<Rightarrow>
    bool \<times> rotating_file_sink \<times> filesystem"
where
  "rotate fails s fs =
     (case rotate_loop fails (base_filename s) (unat (max_files s)) fs of
        (True, fs1) \<Rightarrow> (True, s, open_truncate (base_filename s) fs1)
      | (False, fs1) \<Rightarrow> (False, s\<lparr>current_size := 0\<rparr>, open_truncate (base_filename s) fs1))"

text \<open>\<^verbatim>\<open>sink_it_\<close> of a formatted message; an exception of \<^verbatim>\<open>rotate_\<close> drops the message.\<close>

definition file_sink_it ::
  "(string \<Rightarrow> bool \<times> bool) \<Rightarrow> string \<Rightarrow> rotating_file_sink \<Rightarrow> filesystem \<Rightarrow>
    rotating_file_sink \<times> filesystem"
where
  "file_sink_it fails msg s fs =
     (let grown = current_size s + of_nat (length msg); s1 = s\<lparr>current_size := grown\<rparr>
      in if max_size s < grown
         then (case rotate fails s1 fs of
                 (True, s2, fs1) \<Rightarrow>
                   (s2\<lparr>current_size := of_nat (length msg)\<rparr>,
                    fs1(base_filename s \<mapsto> the (fs1 (base_filename s)) @ msg))
               | (False, s2, fs1) \<Rightarrow> (s2, fs1))
         else (s1, fs(base_filename s \<mapsto> (case fs (base_filename s) of None \<Rightarrow> [] | Some c \<Rightarrow> c) @ msg)))"

section \<open>Loggers and sinks\<close>

datatype sink =
    File_sink rotating_file_sink logger_level
  | Stderr_sink logger_level string

record spd_logger =
  lg_sinks :: "nat list"
  lg_pattern :: "string option"
  lg_level :: logger_level
  lg_flush_level :: logger_level

definition spd_logger_new :: spd_logger where
  "spd_logger_new = \<lparr>lg_sinks = [], lg_pattern = None, lg_level = Info, lg_flush_level = Off\<rparr>"

record easylog_options =
  opt_log_name :: string
  opt_log_dir :: string
  opt_max_size :: "32 word"
  opt_max_files :: "32 word"
  opt_flush_periodic_ms :: "32 word"

definition easylog_options_default :: easylog_options where
  "easylog_options_default =
     \<lparr>opt_log_name = [], opt_log_dir = [], opt_max_size = 10 * 1024 * 1024,
      opt_max_files = 10, opt_flush_periodic_ms = 3000\<rparr>"

record logger_modules =
  lm_options :: easylog_options
  lm_modules :: "string \<rightharpoonup> spd_logger"
  lm_sinks :: "nat list"
  lm_run :: bool
  sink_heap :: "sink list"
  files :: filesystem
  flushes :: nat   \<comment> \<open>how often a sink was flushed\<close>

definition logger_modules_new :: "filesystem \<Rightarrow> logger_modules" where
  "logger_modules_new fs =
     \<lparr>lm_options = easylog_options_default, lm_modules = (\<lambda>_. None), lm_sinks = [],
      lm_run = True, sink_heap = [], files = fs, flushes = 0\<rparr>"

definition set_options :: "easylog_options \<Rightarrow> logger_modules \<Rightarrow> logger_modules" where
  "set_options opt lm = lm\<lparr>lm_options := opt\<rparr>"

definition add_logger_module :: "string \<Rightarrow> logger_modules \<Rightarrow> log_error + logger_modules" where
  "add_logger_module module_name lm =
     (if lm_modules lm module_name \<noteq> None then Inl Module_exists
      else Inr (lm\<lparr>lm_modules := (lm_modules lm)(module_name \<mapsto> spd_logger_new)\<rparr>))"

definition common_pattern :: string where
  "common_pattern = ''[%Y-%m-%d %T.%e] [%l] [tid:%t %s:%#] %v''"

text \<open>\<^verbatim>\<open>get_sinks\<close>; the process id is a parameter. The options are \<^verbatim>\<open>int\<close>s and become
  \<^verbatim>\<open>size_t\<close> by sign extension.\<close>

definition get_sinks :: "nat \<Rightarrow> logger_modules \<Rightarrow> log_error + nat list \<times> logger_modules" where
  "get_sinks pid lm =
     (let opt = lm_options lm
      in if opt_log_dir opt = [] \<or> opt_log_name opt = [] then Inl Miss_log_dir_or_name
         else let filename = opt_log_dir opt @ opt_log_name opt @ ''_'' @ nat_to_string pid @ ''.log'';
                  (fsink, fs) = rotating_file_sink_new filename (scast (opt_max_size opt))
                    (scast (opt_max_files opt)) (files lm);
                  n = length (sink_heap lm)
              in Inr ([n, Suc n],
                   lm\<lparr>sink_heap := sink_heap lm @ [File_sink fsink Trace, Stderr_sink Info []],
                      files := fs\<rparr>))"

definition set_module_level ::
  "nat \<Rightarrow> string \<Rightarrow> logger_level \<Rightarrow> logger_modules \<Rightarrow> log_error + logger_modules"
where
  "set_module_level pid module_name lvl lm =
     (case lm_modules lm module_name of
        None \<Rightarrow> Inl Module_unknown
      | Some lg \<Rightarrow>
          (case (if lm_sinks lm = [] then get_sinks pid lm else Inr (lm_sinks lm, lm)) of
             Inl e \<Rightarrow> Inl e
           | Inr (sinks, lm1) \<Rightarrow>
               let lm2 = lm1\<lparr>lm_sinks := sinks\<rparr>;
                   lg1 = (if lg_sinks lg = []
                          then lg\<lparr>lg_sinks := sinks, lg_pattern := Some common_pattern,
                                  lg_flush_level := Warn\<rparr>
                          else lg)
               in Inr (lm2\<lparr>lm_modules :=
                    (lm_modules lm2)(module_name \<mapsto> lg1\<lparr>lg_level := lvl\<rparr>)\<rparr>)))"

section \<open>Writing a message\<close>

fun sink_log ::
  "(string \<Rightarrow> bool \<times> bool) \<Rightarrow> logger_level \<Rightarrow> string \<Rightarrow> sink \<Rightarrow> filesystem \<Rightarrow> sink \<times> filesystem"
where
  "sink_log fails lvl msg (File_sink s l) fs =
     (if l \<le> lvl then (case file_sink_it fails msg s fs of (s', fs') \<Rightarrow> (File_sink s' l, fs'))
      else (File_sink s l, fs))"
| "sink_log fails lvl msg (Stderr_sink l out) fs =
     ((if l \<le> lvl then Stderr_sink l (out @ msg) else Stderr_sink l out), fs)"

fun sinks_it ::
  "(string \<Rightarrow> bool \<times> bool) \<Rightarrow> logger_level \<Rightarrow> string \<Rightarrow> nat list \<Rightarrow> logger_modules \<Rightarrow> logger_modules"
where
  "sinks_it fails lvl msg [] lm = lm"
| "sinks_it fails lvl msg (i # is) lm =
     (case sink_log fails lvl msg (sink_heap lm ! i) (files lm) of
        (s, fs) \<Rightarrow>
          sinks_it fails lvl msg is (lm\<lparr>sink_heap := (sink_heap lm)[i := s], files := fs\<rparr>))"

definition logger_flush :: "spd_logger \<Rightarrow> logger_modules \<Rightarrow> logger_modules" where
  "logger_flush lg lm = lm\<lparr>flushes := flushes lm + length (lg_sinks lg)\<rparr>"

text \<open>\<^verbatim>\<open>MODULE_INFO\<close> and its companions: \<^verbatim>\<open>logger::log\<close> of the formatted message.\<close>

definition module_log ::
  "(string \<Rightarrow> bool \<times> bool) \<Rightarrow> string \<Rightarrow> logger_level \<Rightarrow> string \<Rightarrow> logger_modules \<Rightarrow> logger_modules"
where
  "module_log fails module_name lvl msg lm =
     (case lm_modules lm module_name of
        None \<Rightarrow> lm
      | Some lg \<Rightarrow>
          if \<not> lg_level lg \<le> lvl then lm
          else let lm1 = sinks_it fails lvl msg (lg_sinks lg) lm
               in if lg_flush_level lg \<le> lvl \<and> lvl \<noteq> Off then logger_flush lg lm1 else lm1)"

section \<open>The flush thread\<close>

datatype flush_frame = F_wait | F_done

text \<open>The thread wakes when the period is over or it is notified; the predicate is the
  negated flag. It flushes the modules of a copy of the registry, here in the order given.\<close>

definition flush_loop :: "logger_modules \<Rightarrow> flush_frame" where
  "flush_loop lm = (if lm_run lm then F_wait else F_done)"

definition flush_wake :: "string list \<Rightarrow> logger_modules \<Rightarrow> logger_modules \<times> flush_frame" where
  "flush_wake order lm =
     (if \<not> lm_run lm then (lm, F_done)
      else let lm1 = fold (\<lambda>m l. case lm_modules lm m of None \<Rightarrow> l | Some lg \<Rightarrow> logger_flush lg l)
                       order lm
           in (lm1, flush_loop lm1))"

definition logger_modules_destroy :: "logger_modules \<Rightarrow> logger_modules" where
  "logger_modules_destroy lm = lm\<lparr>lm_run := False\<rparr>"

end
