(* ===== verification/Easylog_Properties.thy ===== *)
theory Easylog_Properties
  imports Easylog
begin

text \<open>
  Properties of logging: the numbered files of the rotating sink, its size bound, the level
  filters and the registry.
\<close>

section \<open>Numbered files\<close>

lemma split_by_extension_join:
  "split_by_extension f = (b, e) \<Longrightarrow> b @ e = f"
  by (auto simp: split_by_extension_def split: option.splits if_splits)

lemma calc_filename_inj [simp]: "calc_filename f i = calc_filename f j \<longleftrightarrow> i = j"
proof -
  obtain b e where be: "split_by_extension f = (b, e)" by (cases "split_by_extension f")
  have "f \<noteq> b @ ''.'' @ nat_to_string k @ e" for k
    using split_by_extension_join [OF be] by auto
  then show ?thesis
    using be by (auto simp: calc_filename_def nat_to_string_inj)
qed

section \<open>Rotation\<close>

definition never_fails :: "string \<Rightarrow> bool \<times> bool" where
  "never_fails src = (False, False)"

text \<open>After the loop each file has the content of its predecessor; a gap moves up too.\<close>

lemma rotate_loop_shifts:
  "\<exists>fs'. rotate_loop never_fails base n fs = (True, fs') \<and>
     (\<forall>f. f \<notin> calc_filename base ` {..n} \<longrightarrow> fs' f = fs f) \<and>
     (0 < n \<longrightarrow> fs' (calc_filename base 0) = None) \<and>
     (\<forall>i. 0 < i \<and> i < n \<longrightarrow> fs' (calc_filename base i) = fs (calc_filename base (i - 1))) \<and>
     (0 < n \<longrightarrow> fs' (calc_filename base n) =
        (case fs (calc_filename base (n - 1)) of None \<Rightarrow> fs (calc_filename base n) | Some c \<Rightarrow> Some c))"
proof (induction n arbitrary: fs)
  case 0
  then show ?case by simp
next
  case (Suc n)
  let ?c = "calc_filename base"
  define fs1 where "fs1 = (case fs (?c n) of None \<Rightarrow> fs | Some c \<Rightarrow> fs(?c (Suc n) \<mapsto> c, ?c n := None))"
  have step: "rotate_loop never_fails base (Suc n) fs = rotate_loop never_fails base n fs1"
    by (cases "fs (?c n)")
      (simp_all add: Let_def rename_file_def never_fails_def fs1_def fun_upd_twist)
  have fs1: "fs1 (?c n) = None"
    "fs1 (?c (Suc n)) = (case fs (?c n) of None \<Rightarrow> fs (?c (Suc n)) | Some c \<Rightarrow> Some c)"
    "\<And>f. f \<noteq> ?c n \<Longrightarrow> f \<noteq> ?c (Suc n) \<Longrightarrow> fs1 f = fs f"
    by (auto simp: fs1_def split: option.split)
  obtain fs' where fs': "rotate_loop never_fails base n fs1 = (True, fs')"
    "\<And>f. f \<notin> ?c ` {..n} \<Longrightarrow> fs' f = fs1 f"
    "0 < n \<Longrightarrow> fs' (?c 0) = None"
    "\<And>i. 0 < i \<Longrightarrow> i < n \<Longrightarrow> fs' (?c i) = fs1 (?c (i - 1))"
    "0 < n \<Longrightarrow> fs' (?c n) = (case fs1 (?c (n - 1)) of None \<Rightarrow> fs1 (?c n) | Some c \<Rightarrow> Some c)"
    using Suc.IH [of fs1] by blast
  have "fs' (?c (Suc n)) = fs1 (?c (Suc n))"
    by (rule fs'(2)) auto
  then have last: "fs' (?c (Suc n)) = (case fs (?c n) of None \<Rightarrow> fs (?c (Suc n)) | Some c \<Rightarrow> Some c)"
    using fs1(2) by simp
  have mid: "fs' (?c i) = fs (?c (i - 1))" if "0 < i" "i < Suc n" for i
  proof (cases "i = n")
    case True
    then have "fs' (?c n) = fs1 (?c (n - 1))"
      using fs'(5) fs1(1) that(1) by (auto split: option.split)
    moreover have "fs1 (?c (n - 1)) = fs (?c (n - 1))"
      using that True by (intro fs1(3)) auto
    ultimately show ?thesis using True by simp
  next
    case False
    then have "fs' (?c i) = fs1 (?c (i - 1))" using that by (intro fs'(4)) auto
    moreover have "fs1 (?c (i - 1)) = fs (?c (i - 1))"
      using that False by (intro fs1(3)) auto
    ultimately show ?thesis by simp
  qed
  have first: "fs' (?c 0) = None"
  proof (cases "n = 0")
    case True
    then have "fs' = fs1" using fs'(1) by simp
    with True fs1(1) show ?thesis by simp
  qed (use fs'(3) in simp)
  have rest: "fs' f = fs f" if "f \<notin> ?c ` {..Suc n}" for f
  proof -
    have "f \<notin> ?c ` {..n}" "f \<noteq> ?c n" "f \<noteq> ?c (Suc n)" using that by auto
    then show ?thesis using fs'(2) fs1(3) by simp
  qed
  show ?case
    using step fs'(1) first mid last rest by (intro exI [of _ fs']) simp
qed

text \<open>Rotation keeps the log: unless the operating system refuses, the current file
  becomes number 1, each number below the limit becomes its successor, the oldest is
  dropped, the current file starts empty and no other file is touched.\<close>

theorem rotation_shifts_files:
  assumes "0 < unat (max_files s)"
  shows "\<exists>fs'. rotate never_fails s fs = (True, s, fs') \<and>
    fs' (base_filename s) = Some [] \<and>
    (\<forall>i. 0 < i \<and> i < unat (max_files s) \<longrightarrow>
       fs' (calc_filename (base_filename s) i) = fs (calc_filename (base_filename s) (i - 1))) \<and>
    (\<forall>c. fs (calc_filename (base_filename s) (unat (max_files s) - 1)) = Some c \<longrightarrow>
       fs' (calc_filename (base_filename s) (unat (max_files s))) = Some c) \<and>
    (\<forall>f. f \<notin> calc_filename (base_filename s) ` {..unat (max_files s)} \<longrightarrow> fs' f = fs f)"
proof -
  let ?c = "calc_filename (base_filename s)" and ?n = "unat (max_files s)"
  obtain fs1 where fs1: "rotate_loop never_fails (base_filename s) ?n fs = (True, fs1)"
    "\<forall>f. f \<notin> ?c ` {..?n} \<longrightarrow> fs1 f = fs f"
    "\<forall>i. 0 < i \<and> i < ?n \<longrightarrow> fs1 (?c i) = fs (?c (i - 1))"
    "fs1 (?c ?n) = (case fs (?c (?n - 1)) of None \<Rightarrow> fs (?c ?n) | Some c \<Rightarrow> Some c)"
    using rotate_loop_shifts [of "base_filename s" ?n fs] assms by blast
  have base: "base_filename s = ?c 0" by (simp add: calc_filename_def)
  have other: "i = 0" if "?c i = base_filename s" for i
    using that calc_filename_inj [of "base_filename s" i 0] base by simp
  have "(fs1(base_filename s \<mapsto> [])) (?c i) = fs1 (?c i)" if "0 < i" for i
    using other [of i] that by auto
  moreover have "base_filename s \<in> ?c ` {..?n}" using base by auto
  ultimately show ?thesis
    using fs1 assms
    by (intro exI [of _ "fs1(base_filename s \<mapsto> [])"])
      (auto simp: rotate_def open_truncate_def)
qed

section \<open>The size of the current file\<close>

definition sink_ok :: "rotating_file_sink \<Rightarrow> filesystem \<Rightarrow> bool" where
  "sink_ok s fs \<longleftrightarrow>
     (\<exists>c. fs (base_filename s) = Some c \<and> unat (current_size s) = length c)"

text \<open>The loop gives up only at a file that could not be renamed at once and not after the pause.\<close>

lemma rotate_round_gives_up:
  assumes "\<not> fst (rotate_loop fails base (Suc n) fs)" "\<And>fs'. fst (rotate_loop fails base n fs')"
    "calc_filename base n \<noteq> calc_filename base (Suc n)"
  shows "fails (calc_filename base n) = (True, True)"
proof -
  obtain c where c: "fs (calc_filename base n) = Some c"
    using assms(1,2) by (cases "fs (calc_filename base n)") simp_all
  show ?thesis
    using assms c
    by (cases "fails (calc_filename base n)"; cases "fst (fails (calc_filename base n))";
        cases "snd (fails (calc_filename base n))") (simp_all add: Let_def rename_file_def)
qed

lemma rotate_loop_gives_up:
  "\<not> fst (rotate_loop fails base n fs) \<Longrightarrow> \<exists>i < n. fails (calc_filename base i) = (True, True)"
proof (induction n arbitrary: fs)
  case (Suc n)
  show ?case
  proof (cases "\<exists>fs'. \<not> fst (rotate_loop fails base n fs')")
    case True
    then obtain fs' where "\<not> fst (rotate_loop fails base n fs')" ..
    from Suc.IH [OF this] obtain i where "i < n" "fails (calc_filename base i) = (True, True)" by blast
    then show ?thesis by (intro exI [of _ i]) simp
  next
    case False
    have "calc_filename base n \<noteq> calc_filename base (Suc n)" by (subst calc_filename_inj) simp
    then have "fails (calc_filename base n) = (True, True)"
      using rotate_round_gives_up [OF Suc.prems] False by blast
    then show ?thesis by blast
  qed
qed simp

lemma rotate_truncates:
  obtains fs' where "rotate fails s fs = (True, s, fs')" "fs' (base_filename s) = Some []"
  | i fs' where "rotate fails s fs = (False, s\<lparr>current_size := 0\<rparr>, fs')" "fs' (base_filename s) = Some []"
      "i < unat (max_files s)" "fails (calc_filename (base_filename s) i) = (True, True)"
proof (cases "rotate_loop fails (base_filename s) (unat (max_files s)) fs")
  case (Pair kept fs1)
  then show ?thesis
    using that rotate_loop_gives_up [of fails "base_filename s" "unat (max_files s)" fs]
    by (cases kept) (auto simp: rotate_def open_truncate_def)
qed

text \<open>C37. The current log file is bounded. Take a sink that knows the size of its file, as a new one
  does, and a message with which this size stays below \<open>2 ^ 64\<close>. After the message the sink knows
  the size again and the file is no longer than the configured size or this one message: a message
  that fits is appended whole to the file, any other one is the whole content of a new file,
  unless the operating system refused both attempts to rename one of the files, when the
  message is dropped and the file is empty.\<close>

theorem log_file_bounded:
  assumes "sink_ok s fs" "file_size (base_filename s) fs + length msg < 18446744073709551616"
    and "file_sink_it fails msg s fs = (s', fs')"
  shows "sink_ok s' fs' \<and> max_size s' = max_size s \<and>
    file_size (base_filename s) fs' \<le> max (unat (max_size s)) (length msg) \<and>
    (if file_size (base_filename s) fs + length msg \<le> unat (max_size s)
     then fs' (base_filename s) = Some (the (fs (base_filename s)) @ msg)
     else fs' (base_filename s) = Some msg \<or>
       fs' (base_filename s) = Some [] \<and>
       (\<exists>i < unat (max_files s). fails (calc_filename (base_filename s) i) = (True, True)))"
proof -
  obtain c where c: "fs (base_filename s) = Some c" "unat (current_size s) = length c"
    using assms(1) by (auto simp: sink_ok_def)
  then have len: "unat (current_size s + of_nat (length msg)) = length c + length msg"
    "unat (of_nat (length msg) :: u64) = length msg" "file_size (base_filename s) fs = length c"
    using assms(2) by (simp_all add: file_size_def unat_word_ariths unat_of_nat)
  then have fits: "max_size s < current_size s + of_nat (length msg) \<longleftrightarrow>
      \<not> file_size (base_filename s) fs + length msg \<le> unat (max_size s)"
    by (simp add: word_less_nat_alt not_le)
  let ?s1 = "s\<lparr>current_size := current_size s + of_nat (length msg)\<rparr>"
  show ?thesis
  proof (cases "max_size s < current_size s + of_nat (length msg)")
    case True
    then show ?thesis
      by (cases rule: rotate_truncates [of fails ?s1 fs])
        (use assms(3) fits len(2) in \<open>auto simp: file_sink_it_def Let_def sink_ok_def file_size_def\<close>)
  next
    case False
    then show ?thesis using fits assms(3) c len
      by (auto simp: file_sink_it_def Let_def sink_ok_def file_size_def)
  qed
qed

definition demo_sink :: rotating_file_sink where
  "demo_sink = \<lparr>base_filename = ''l/p.log'', max_size = 4, max_files = 2, current_size = 3\<rparr>"

theorem rotation_shifts_files_witness:
  "\<exists>fs'. rotate never_fails demo_sink [''l/p.log'' \<mapsto> ''abc''] = (True, demo_sink, fs') \<and>
     fs' ''l/p.1.log'' = Some ''abc'' \<and> fs' ''l/p.log'' = Some []"
proof -
  have "calc_filename ''l/p.log'' 0 = ''l/p.log''" "calc_filename ''l/p.log'' 1 = ''l/p.1.log''"
    by code_simp+
  moreover have "unat (max_files demo_sink) = 2" by (simp add: demo_sink_def)
  ultimately show ?thesis
    using rotation_shifts_files [of demo_sink "[''l/p.log'' \<mapsto> ''abc'']"]
    by (auto simp: demo_sink_def)
qed

text \<open>The second message does not fit, and the only older file cannot be renamed.\<close>

theorem log_file_bounded_witness:
  "(\<exists>s' fs'. file_sink_it never_fails ''de'' demo_sink [''l/p.log'' \<mapsto> ''abc''] = (s', fs') \<and>
     fs' ''l/p.log'' = Some ''de'') \<and>
   (\<exists>s' fs'. file_sink_it (\<lambda>src. (True, True)) ''de'' demo_sink [''l/p.log'' \<mapsto> ''abc''] = (s', fs') \<and>
     file_size ''l/p.log'' fs' \<le> 4)"
proof -
  have ok: "sink_ok demo_sink [''l/p.log'' \<mapsto> ''abc'']" by (simp add: sink_ok_def demo_sink_def)
  obtain s1 fs1 s2 fs2 where
    r: "file_sink_it never_fails ''de'' demo_sink [''l/p.log'' \<mapsto> ''abc''] = (s1, fs1)"
    "file_sink_it (\<lambda>src. (True, True)) ''de'' demo_sink [''l/p.log'' \<mapsto> ''abc''] = (s2, fs2)"
    by fastforce
  from log_file_bounded [OF ok _ r(1)] log_file_bounded [OF ok _ r(2)] r show ?thesis
    by (auto simp: file_size_def demo_sink_def never_fails_def)
qed

section \<open>Modules\<close>

text \<open>All modules share one pair of sinks.\<close>

definition modules_ok :: "logger_modules \<Rightarrow> bool" where
  "modules_ok lm \<longleftrightarrow>
     (lm_sinks lm = [] \<and> sink_heap lm = [] \<or>
      lm_sinks lm = [0, 1] \<and> (\<exists>s out. sink_heap lm = [File_sink s Trace, Stderr_sink Info out])) \<and>
     (\<forall>m lg. lm_modules lm m = Some lg \<longrightarrow> lg_sinks lg = [] \<or> lg_sinks lg = [0, 1] \<and> lm_sinks lm = [0, 1])"

lemma modules_ok_set_level:
  assumes ok: "modules_ok lm" and set: "set_module_level pid m lvl lm = Inr lm'"
  shows "modules_ok lm'" and "lm_sinks lm' = [0, 1]"
    and "\<exists>lg. lm_modules lm' m = Some lg \<and> lg_level lg = lvl \<and> lg_sinks lg = [0, 1]"
    and "lm_sinks lm \<noteq> [] \<longrightarrow> sink_heap lm' = sink_heap lm \<and> files lm' = files lm"
proof -
  obtain lg where lg: "lm_modules lm m = Some lg"
    using set by (auto simp: set_module_level_def split: option.splits)
  then have own: "lg_sinks lg = [] \<or> lg_sinks lg = [0, 1]"
    using ok unfolding modules_ok_def by blast
  obtain sinks lm1 where s: "(if lm_sinks lm = [] then get_sinks pid lm else Inr (lm_sinks lm, lm)) =
      Inr (sinks, lm1)"
    using set lg by (auto simp: set_module_level_def split: sum.splits)
  have sinks: "sinks = [0, 1]" "lm_modules lm1 = lm_modules lm"
    "\<exists>s out. sink_heap lm1 = [File_sink s Trace, Stderr_sink Info out]"
    "lm_sinks lm \<noteq> [] \<longrightarrow> lm1 = lm"
    using s ok by (auto simp: modules_ok_def get_sinks_def Let_def split: if_splits prod.splits)
  define lg1 where "lg1 = (if lg_sinks lg = []
      then lg\<lparr>lg_sinks := sinks, lg_pattern := Some common_pattern, lg_flush_level := Warn\<rparr> else lg)"
  have lm': "lm' = lm1\<lparr>lm_sinks := sinks, lm_modules := (lm_modules lm)(m \<mapsto> lg1\<lparr>lg_level := lvl\<rparr>)\<rparr>"
    using set lg s sinks(2) by (simp add: set_module_level_def Let_def lg1_def)
  have lg1: "lg_sinks lg1 = [0, 1]"
    using own sinks(1) by (auto simp: lg1_def)
  have others: "lg_sinks k = [] \<or> lg_sinks k = [0, 1]" if "lm_modules lm n = Some k" for n k
    using ok that unfolding modules_ok_def by blast
  then show "modules_ok lm'"
    using sinks lg1 by (auto simp: modules_ok_def lm')
  show "lm_sinks lm' = [0, 1]" using sinks(1) by (simp add: lm')
  show "\<exists>lg. lm_modules lm' m = Some lg \<and> lg_level lg = lvl \<and> lg_sinks lg = [0, 1]"
    using lg1 by (simp add: lm')
  show "lm_sinks lm \<noteq> [] \<longrightarrow> sink_heap lm' = sink_heap lm \<and> files lm' = files lm"
    using sinks(4) by (simp add: lm')
qed

text \<open>Once its level is set, a module writes a message to the file and, from info on, to
  the error stream if the message is at least of that level, and nowhere otherwise.\<close>

theorem levels_filter:
  assumes "modules_ok lm" "set_module_level pid m lvl lm = Inr lm'"
  shows "\<exists>s out s' out' fs'. sink_heap lm' = [File_sink s Trace, Stderr_sink Info out] \<and>
    sink_heap (module_log fails m l msg lm') = [File_sink s' Trace, Stderr_sink Info out'] \<and>
    files (module_log fails m l msg lm') = fs' \<and>
    (if lvl \<le> l
     then file_sink_it fails msg s (files lm') = (s', fs') \<and> out' = (if Info \<le> l then out @ msg else out)
     else s' = s \<and> fs' = files lm' \<and> out' = out)"
proof -
  note ok = modules_ok_set_level [OF assms]
  obtain lg where lg: "lm_modules lm' m = Some lg" "lg_level lg = lvl" "lg_sinks lg = [0, 1]"
    using ok(3) by blast
  obtain s out where sh: "sink_heap lm' = [File_sink s Trace, Stderr_sink Info out]"
    using ok(1,2) by (auto simp: modules_ok_def)
  obtain s' fs' where f: "file_sink_it fails msg s (files lm') = (s', fs')"
    by fastforce
  have "Trace \<le> l" by (cases l) (simp_all add: less_eq_logger_level_def)
  with lg sh f show ?thesis
    by (auto simp: module_log_def logger_flush_def Let_def)
qed

text \<open>The registry refuses what it cannot do and changes nothing then: a module name a
  second time, a level for an unknown module, and the first level without a log directory
  or name.\<close>

theorem registry_errors:
  "(add_logger_module m lm = Inl Module_exists \<longleftrightarrow> m \<in> dom (lm_modules lm)) \<and>
   (m \<notin> dom (lm_modules lm) \<longrightarrow> set_module_level pid m lvl lm = Inl Module_unknown) \<and>
   (m \<in> dom (lm_modules lm) \<and> lm_sinks lm = [] \<and>
      (opt_log_dir (lm_options lm) = [] \<or> opt_log_name (lm_options lm) = []) \<longrightarrow>
    set_module_level pid m lvl lm = Inl Miss_log_dir_or_name)"
  by (auto simp: add_logger_module_def set_module_level_def get_sinks_def)


definition demo_modules :: logger_modules where
  "demo_modules = (logger_modules_new Map.empty)
     \<lparr>lm_options := easylog_options_default\<lparr>opt_log_name := ''p'', opt_log_dir := ''l/''\<rparr>,
      lm_modules := [''LOG'' \<mapsto> spd_logger_new]\<rparr>"

theorem levels_filter_witness:
  "\<exists>lm' s' out'. set_module_level 7 ''LOG'' Warn demo_modules = Inr lm' \<and>
     sink_heap (module_log never_fails ''LOG'' Info ''x'' lm') = [File_sink s' Trace, Stderr_sink Info out']"
proof -
  have "modules_ok demo_modules"
    by (simp add: modules_ok_def demo_modules_def logger_modules_new_def spd_logger_new_def)
  moreover obtain lm' where "set_module_level 7 ''LOG'' Warn demo_modules = Inr lm'"
    by (simp add: demo_modules_def set_module_level_def get_sinks_def logger_modules_new_def
        Let_def case_prod_unfold)
  ultimately show ?thesis using levels_filter by blast
qed

theorem registry_errors_witness:
  "add_logger_module ''LOG'' demo_modules = Inl Module_exists \<and>
   set_module_level 7 ''X'' Info demo_modules = Inl Module_unknown"
  using registry_errors [of "''LOG''" demo_modules 7 Info] registry_errors [of "''X''" demo_modules 7 Info]
  by (simp add: demo_modules_def)

text \<open>The flush thread ends once the registry is being destroyed and not before, and a
  period that passes flushes the sinks of every registered module.\<close>

theorem flush_thread:
  "flush_loop (logger_modules_destroy lm) = F_done \<and>
   snd (flush_wake order (logger_modules_destroy lm)) = F_done \<and>
   (lm_run lm \<longrightarrow> snd (flush_wake order lm) = F_wait \<and>
      flushes (fst (flush_wake order lm)) = flushes lm +
        sum_list (map (\<lambda>m. case lm_modules lm m of None \<Rightarrow> 0 | Some lg \<Rightarrow> length (lg_sinks lg)) order))"
proof -
  let ?f = "\<lambda>m l. case lm_modules lm m of None \<Rightarrow> l | Some lg \<Rightarrow> logger_flush lg l"
  have "lm_run (fold ?f order l) = lm_run l \<and> flushes (fold ?f order l) = flushes l +
      sum_list (map (\<lambda>m. case lm_modules lm m of None \<Rightarrow> 0 | Some lg \<Rightarrow> length (lg_sinks lg)) order)" for l
    by (induction order arbitrary: l) (auto simp: logger_flush_def split: option.split)
  then show ?thesis
    by (auto simp: flush_loop_def flush_wake_def logger_modules_destroy_def Let_def)
qed


theorem flush_thread_witness:
  "snd (flush_wake [''LOG''] demo_modules) = F_wait"
  using flush_thread [of demo_modules "[''LOG'']"]
  by (simp add: demo_modules_def logger_modules_new_def)

end
