(* ===== verification/Json_Lexer.thy ===== *)
theory Json_Lexer
  imports Json
begin

text \<open>
  The lexical analyser of the JSON library,
  \<^verbatim>\<open>src/3party/json-3.10.5/include/nlohmann/detail/input/lexer.hpp\<close>, that reads the
  configuration file and, in the handler process, the announcement of a connection.

  A \<^verbatim>\<open>std::string\<close> is a list of 8-bit characters. The current character is an \<^verbatim>\<open>int\<close>:
  0 to 255, or -1 at the end of the input. The input adapter is the list of characters not
  read yet. Scanning functions return the token (or whether they succeeded) with the new
  state. Every loop reads a character in each round and stops at the end of the input;
  \<open>lexer_left\<close>, what is left to read, is the measure of their termination. The conversion of
  a floating point literal is a parameter: \<open>strtod s\<close> is the value cut off towards zero,
  \<open>None\<close> if it is not finite. The locale is "C" (no source sets another), so the decimal point
  is a dot.
\<close>

unbundle bit_operations_syntax

section \<open>Tokens\<close>

datatype token_type =
    Uninitialized | Literal_true | Literal_false | Literal_null
  | Value_string | Value_unsigned | Value_integer | Value_float
  | Begin_array | Begin_object | End_array | End_object
  | Name_separator | Value_separator | Token_parse_error | End_of_input | Literal_or_value

fun token_type_name :: "token_type \<Rightarrow> string" where
  "token_type_name Uninitialized = ''<uninitialized>''"
| "token_type_name Literal_true = ''true literal''"
| "token_type_name Literal_false = ''false literal''"
| "token_type_name Literal_null = ''null literal''"
| "token_type_name Value_string = ''string literal''"
| "token_type_name Value_unsigned = ''number literal''"
| "token_type_name Value_integer = ''number literal''"
| "token_type_name Value_float = ''number literal''"
| "token_type_name Begin_array = [CHR 0x27, CHR ''['', CHR 0x27]"
| "token_type_name Begin_object = [CHR 0x27, CHR ''{'', CHR 0x27]"
| "token_type_name End_array = [CHR 0x27, CHR '']'', CHR 0x27]"
| "token_type_name End_object = [CHR 0x27, CHR ''}'', CHR 0x27]"
| "token_type_name Name_separator = [CHR 0x27, CHR '':'', CHR 0x27]"
| "token_type_name Value_separator = [CHR 0x27, CHR '','', CHR 0x27]"
| "token_type_name Token_parse_error = ''<parse error>''"
| "token_type_name End_of_input = ''end of input''"
| "token_type_name Literal_or_value =
     [CHR 0x27, CHR ''['', CHR 0x27] @ '', '' @ [CHR 0x27, CHR ''{'', CHR 0x27] @ '', or a literal''"

section \<open>State and input management\<close>

record lexer =
  lx_ia :: string
  lx_ignore_comments :: bool
  lx_current :: int
  lx_next_unget :: bool
  lx_chars_read_total :: nat
  lx_chars_read_current_line :: nat
  lx_lines_read :: nat
  lx_token_string :: string
  lx_token_buffer :: string
  lx_error_message :: string
  lx_value_integer :: int
  lx_value_unsigned :: nat
  lx_value_float :: "int option"

definition char_eof :: int where
  "char_eof = -1"

definition decimal_point_char :: int where
  "decimal_point_char = 46"

definition lexer_new :: "string \<Rightarrow> bool \<Rightarrow> lexer" where
  "lexer_new adapter ignore_comments =
     \<lparr>lx_ia = adapter, lx_ignore_comments = ignore_comments, lx_current = char_eof,
      lx_next_unget = False, lx_chars_read_total = 0, lx_chars_read_current_line = 0,
      lx_lines_read = 0, lx_token_string = [], lx_token_buffer = [], lx_error_message = [],
      lx_value_integer = 0, lx_value_unsigned = 0, lx_value_float = Some 0\<rparr>"

definition lexer_reset :: "lexer \<Rightarrow> lexer" where
  "lexer_reset lx = lx\<lparr>lx_token_buffer := [], lx_token_string := [char_of (lx_current lx)]\<rparr>"

definition lexer_get :: "lexer \<Rightarrow> lexer" where
  "lexer_get lx =
     (let lx1 = lx\<lparr>lx_chars_read_total := Suc (lx_chars_read_total lx),
                   lx_chars_read_current_line := Suc (lx_chars_read_current_line lx)\<rparr>;
          lx2 = (if lx_next_unget lx1 then lx1\<lparr>lx_next_unget := False\<rparr>
                 else case lx_ia lx1 of
                        [] \<Rightarrow> lx1\<lparr>lx_current := char_eof\<rparr>
                      | c # cs \<Rightarrow> lx1\<lparr>lx_current := of_char c, lx_ia := cs\<rparr>);
          lx3 = (if lx_current lx2 \<noteq> char_eof
                 then lx2\<lparr>lx_token_string := lx_token_string lx2 @ [char_of (lx_current lx2)]\<rparr>
                 else lx2)
      in if lx_current lx3 = 10
         then lx3\<lparr>lx_lines_read := Suc (lx_lines_read lx3), lx_chars_read_current_line := 0\<rparr>
         else lx3)"

definition lexer_unget :: "lexer \<Rightarrow> lexer" where
  "lexer_unget lx =
     (let lx1 = lx\<lparr>lx_next_unget := True, lx_chars_read_total := lx_chars_read_total lx - 1\<rparr>;
          lx2 = (if lx_chars_read_current_line lx1 = 0
                 then (if 0 < lx_lines_read lx1 then lx1\<lparr>lx_lines_read := lx_lines_read lx1 - 1\<rparr>
                       else lx1)
                 else lx1\<lparr>lx_chars_read_current_line := lx_chars_read_current_line lx1 - 1\<rparr>)
      in if lx_current lx2 \<noteq> char_eof
         then lx2\<lparr>lx_token_string := butlast (lx_token_string lx2)\<rparr> else lx2)"

definition lexer_add :: "int \<Rightarrow> lexer \<Rightarrow> lexer" where
  "lexer_add c lx = lx\<lparr>lx_token_buffer := lx_token_buffer lx @ [char_of c]\<rparr>"

definition lexer_error :: "string \<Rightarrow> lexer \<Rightarrow> lexer" where
  "lexer_error msg lx = lx\<lparr>lx_error_message := msg\<rparr>"

text \<open>The last token for messages, control characters as \<^verbatim>\<open><U+%.4X>\<close>.\<close>

definition hex_digit_upper :: "nat \<Rightarrow> char" where
  "hex_digit_upper n = char_of (if n < 10 then 48 + n else 55 + n)"

definition hex4_upper :: "nat \<Rightarrow> string" where
  "hex4_upper n = map (\<lambda>k. hex_digit_upper (n div 16 ^ k mod 16)) [3, 2, 1, 0]"

definition get_token_string :: "lexer \<Rightarrow> string" where
  "get_token_string lx =
     concat (map (\<lambda>c. if (of_char c :: nat) \<le> 31 then ''<U+'' @ hex4_upper (of_char c) @ ''>'' else [c])
       (lx_token_string lx))"

section \<open>What is left to read\<close>

definition lexer_left :: "lexer \<Rightarrow> nat" where
  "lexer_left lx = length (lx_ia lx) +
     (if lx_next_unget lx \<and> lx_current lx \<noteq> char_eof then 1 else 0)"

lemma of_char_not_eof [simp]: "(of_char c :: int) \<noteq> char_eof"
proof -
  have "0 \<le> (of_char c :: int)" by (simp add: of_char_def horner_sum_nonnegative)
  then show ?thesis by (simp add: char_eof_def)
qed

named_theorems lexer_simps \<open>the fields of the lexer after reading, putting back and adding\<close>

lemma lexer_get_sel [lexer_simps]:
  "lx_next_unget (lexer_get lx) = False"
  "lx_ia (lexer_get lx) = (if lx_next_unget lx then lx_ia lx else tl (lx_ia lx))"
  "lx_current (lexer_get lx) =
     (if lx_next_unget lx then lx_current lx
      else case lx_ia lx of [] \<Rightarrow> char_eof | c # cs \<Rightarrow> of_char c)"
  "lx_token_buffer (lexer_get lx) = lx_token_buffer lx"
  "lx_ignore_comments (lexer_get lx) = lx_ignore_comments lx"
  "lx_error_message (lexer_get lx) = lx_error_message lx"
  by (simp_all add: lexer_get_def Let_def split: list.split)

lemma lexer_unget_sel [lexer_simps]:
  "lx_next_unget (lexer_unget lx) = True"
  "lx_ia (lexer_unget lx) = lx_ia lx"
  "lx_current (lexer_unget lx) = lx_current lx"
  "lx_token_buffer (lexer_unget lx) = lx_token_buffer lx"
  "lx_ignore_comments (lexer_unget lx) = lx_ignore_comments lx"
  "lx_error_message (lexer_unget lx) = lx_error_message lx"
  by (simp_all add: lexer_unget_def Let_def)

lemma lexer_get_left_less: "lx_current (lexer_get lx) \<noteq> char_eof \<Longrightarrow> lexer_left (lexer_get lx) < lexer_left lx"
  by (cases "lx_ia lx") (simp_all add: lexer_left_def lexer_simps split: if_splits)

lemma lexer_get_left_le: "lexer_left (lexer_get lx) \<le> lexer_left lx"
  by (simp add: lexer_left_def lexer_simps)

lemma lexer_add_left [simp]: "lexer_left (lexer_add c lx) = lexer_left lx"
  by (simp add: lexer_add_def lexer_left_def)

lemma lexer_error_left [simp]: "lexer_left (lexer_error m lx) = lexer_left lx"
  by (simp add: lexer_error_def lexer_left_def)

lemma lexer_reset_left [simp]: "lexer_left (lexer_reset lx) = lexer_left lx"
  by (simp add: lexer_reset_def lexer_left_def)

text \<open>Putting back the character just read costs one.\<close>

lemma lexer_unget_get_left: "lexer_left (lexer_unget (lexer_get lx)) \<le> lexer_left lx"
  by (cases "lx_ia lx") (simp_all add: lexer_left_def lexer_simps)

end
