(* ===== verification/Json_Scan_String.thy ===== *)
theory Json_Scan_String
  imports Json_Lexer
begin

text \<open>
  \<^verbatim>\<open>scan_string\<close> of the JSON library's lexer: escapes with surrogate pairs, rejected control
  characters, and the byte ranges of well-formed UTF-8.
\<close>

section \<open>Escapes\<close>

text \<open>\<^verbatim>\<open>get_codepoint\<close>: four hexadecimal digits, or -1.\<close>

fun codepoint_loop :: "nat list \<Rightarrow> int \<Rightarrow> lexer \<Rightarrow> int \<times> lexer" where
  "codepoint_loop [] codepoint lx = (codepoint, lx)"
| "codepoint_loop (factor # factors) codepoint lx =
     (let lx1 = lexer_get lx; c = lx_current lx1
      in if 48 \<le> c \<and> c \<le> 57 then codepoint_loop factors (codepoint + (c - 48) * 2 ^ factor) lx1
         else if 65 \<le> c \<and> c \<le> 70 then codepoint_loop factors (codepoint + (c - 55) * 2 ^ factor) lx1
         else if 97 \<le> c \<and> c \<le> 102 then codepoint_loop factors (codepoint + (c - 87) * 2 ^ factor) lx1
         else (-1, lx1))"

definition get_codepoint :: "lexer \<Rightarrow> int \<times> lexer" where
  "get_codepoint lx = codepoint_loop [12, 8, 4, 0] 0 lx"

text \<open>The bytes a code point is translated into.\<close>

definition codepoint_bytes :: "int \<Rightarrow> int list" where
  "codepoint_bytes cp =
     (if cp < 0x80 then [cp]
      else if cp \<le> 0x7FF then [0xC0 OR drop_bit 6 cp, 0x80 OR (cp AND 0x3F)]
      else if cp \<le> 0xFFFF
      then [0xE0 OR drop_bit 12 cp, 0x80 OR (drop_bit 6 cp AND 0x3F), 0x80 OR (cp AND 0x3F)]
      else [0xF0 OR drop_bit 18 cp, 0x80 OR (drop_bit 12 cp AND 0x3F),
            0x80 OR (drop_bit 6 cp AND 0x3F), 0x80 OR (cp AND 0x3F)])"

definition add_codepoint :: "int \<Rightarrow> lexer \<Rightarrow> lexer" where
  "add_codepoint cp lx = fold lexer_add (codepoint_bytes cp) lx"

definition hex_digits_expected :: string where
  "hex_digits_expected =
     ''invalid string: '' @ [CHR 0x27, CHR 0x5C] @ ''u'' @ [CHR 0x27] @
     '' must be followed by 4 hex digits''"

definition low_surrogate_expected :: string where
  "low_surrogate_expected =
     ''invalid string: surrogate U+D800..U+DBFF must be followed by U+DC00..U+DFFF''"

definition lone_low_surrogate :: string where
  "lone_low_surrogate =
     ''invalid string: surrogate U+DC00..U+DFFF must follow U+D800..U+DBFF''"

text \<open>After a high surrogate: another escape with a low one.\<close>

definition scan_low_surrogate :: "int \<Rightarrow> lexer \<Rightarrow> bool \<times> lexer" where
  "scan_low_surrogate codepoint1 lx =
     (let lx1 = lexer_get lx
      in if lx_current lx1 = 92
         then let lx2 = lexer_get lx1
              in if lx_current lx2 = 117
                 then case get_codepoint lx2 of
                        (codepoint2, lx3) \<Rightarrow>
                          if codepoint2 = -1 then (False, lexer_error hex_digits_expected lx3)
                          else if 0xDC00 \<le> codepoint2 \<and> codepoint2 \<le> 0xDFFF
                          then (True, add_codepoint
                                 (codepoint1 * 2 ^ 10 + codepoint2 - 0x35FDC00) lx3)
                          else (False, lexer_error low_surrogate_expected lx3)
                 else (False, lexer_error low_surrogate_expected lx2)
         else (False, lexer_error low_surrogate_expected lx1))"

definition scan_unicode_escape :: "lexer \<Rightarrow> bool \<times> lexer" where
  "scan_unicode_escape lx =
     (case get_codepoint lx of
        (codepoint1, lx1) \<Rightarrow>
          if codepoint1 = -1 then (False, lexer_error hex_digits_expected lx1)
          else if 0xD800 \<le> codepoint1 \<and> codepoint1 \<le> 0xDBFF then scan_low_surrogate codepoint1 lx1
          else if 0xDC00 \<le> codepoint1 \<and> codepoint1 \<le> 0xDFFF
          then (False, lexer_error lone_low_surrogate lx1)
          else (True, add_codepoint codepoint1 lx1))"

definition scan_escape :: "lexer \<Rightarrow> bool \<times> lexer" where
  "scan_escape lx =
     (let lx1 = lexer_get lx; c = lx_current lx1
      in if c = 34 then (True, lexer_add 34 lx1)
         else if c = 92 then (True, lexer_add 92 lx1)
         else if c = 47 then (True, lexer_add 47 lx1)
         else if c = 98 then (True, lexer_add 8 lx1)
         else if c = 102 then (True, lexer_add 12 lx1)
         else if c = 110 then (True, lexer_add 10 lx1)
         else if c = 114 then (True, lexer_add 13 lx1)
         else if c = 116 then (True, lexer_add 9 lx1)
         else if c = 117 then scan_unicode_escape lx1
         else (False, lexer_error ''invalid string: forbidden character after backslash'' lx1))"

section \<open>Raw characters\<close>

text \<open>The control characters by name and the message that rejects them.\<close>

definition control_message :: "string \<Rightarrow> string \<Rightarrow> string \<Rightarrow> string" where
  "control_message code name or_escape =
     ''invalid string: control character U+'' @ code @ '' ('' @ name @ '') must be escaped to '' @
     [CHR 0x5C] @ ''u'' @ code @ or_escape"

definition control_error_low :: "int \<Rightarrow> string" where
  "control_error_low c =
     [control_message ''0000'' ''NUL'' [],
      control_message ''0001'' ''SOH'' [],
      control_message ''0002'' ''STX'' [],
      control_message ''0003'' ''ETX'' [],
      control_message ''0004'' ''EOT'' [],
      control_message ''0005'' ''ENQ'' [],
      control_message ''0006'' ''ACK'' [],
      control_message ''0007'' ''BEL'' [],
      control_message ''0008'' ''BS'' ('' or '' @ [CHR 0x5C] @ ''b''),
      control_message ''0009'' ''HT'' ('' or '' @ [CHR 0x5C] @ ''t''),
      control_message ''000A'' ''LF'' ('' or '' @ [CHR 0x5C] @ ''n''),
      control_message ''000B'' ''VT'' [],
      control_message ''000C'' ''FF'' ('' or '' @ [CHR 0x5C] @ ''f''),
      control_message ''000D'' ''CR'' ('' or '' @ [CHR 0x5C] @ ''r''),
      control_message ''000E'' ''SO'' [],
      control_message ''000F'' ''SI'' []] ! nat c"

definition control_error_high :: "int \<Rightarrow> string" where
  "control_error_high c =
     [control_message ''0010'' ''DLE'' [],
      control_message ''0011'' ''DC1'' [],
      control_message ''0012'' ''DC2'' [],
      control_message ''0013'' ''DC3'' [],
      control_message ''0014'' ''DC4'' [],
      control_message ''0015'' ''NAK'' [],
      control_message ''0016'' ''SYN'' [],
      control_message ''0017'' ''ETB'' [],
      control_message ''0018'' ''CAN'' [],
      control_message ''0019'' ''EM'' [],
      control_message ''001A'' ''SUB'' [],
      control_message ''001B'' ''ESC'' [],
      control_message ''001C'' ''FS'' [],
      control_message ''001D'' ''GS'' [],
      control_message ''001E'' ''RS'' [],
      control_message ''001F'' ''US'' []] ! nat (c - 16)"

text \<open>Everything from U+0020 to U+007F but the quote and the backslash.\<close>

definition plain_char :: "int \<Rightarrow> bool" where
  "plain_char c \<longleftrightarrow> 0x20 \<le> c \<and> c \<le> 0x7F \<and> c \<noteq> 0x22 \<and> c \<noteq> 0x5C"

text \<open>\<^verbatim>\<open>next_byte_in_range\<close>; the ranges of the bytes that follow are pairs.\<close>

fun ranges_loop :: "(int \<times> int) list \<Rightarrow> lexer \<Rightarrow> bool \<times> lexer" where
  "ranges_loop [] lx = (True, lx)"
| "ranges_loop ((lo, hi) # ranges) lx =
     (let lx1 = lexer_get lx; c = lx_current lx1
      in if lo \<le> c \<and> c \<le> hi then ranges_loop ranges (lexer_add c lx1)
         else (False, lexer_error ''invalid string: ill-formed UTF-8 byte'' lx1))"

definition next_byte_in_range :: "(int \<times> int) list \<Rightarrow> lexer \<Rightarrow> bool \<times> lexer" where
  "next_byte_in_range ranges lx = ranges_loop ranges (lexer_add (lx_current lx) lx)"

text \<open>The ranges of the bytes after a lead byte; \<open>None\<close> for a byte that leads no sequence.\<close>

definition utf8_ranges :: "int \<Rightarrow> (int \<times> int) list option" where
  "utf8_ranges c =
     (if 0xC2 \<le> c \<and> c \<le> 0xDF then Some [(0x80, 0xBF)]
      else if c = 0xE0 then Some [(0xA0, 0xBF), (0x80, 0xBF)]
      else if 0xE1 \<le> c \<and> c \<le> 0xEC \<or> c = 0xEE \<or> c = 0xEF then Some [(0x80, 0xBF), (0x80, 0xBF)]
      else if c = 0xED then Some [(0x80, 0x9F), (0x80, 0xBF)]
      else if c = 0xF0 then Some [(0x90, 0xBF), (0x80, 0xBF), (0x80, 0xBF)]
      else if 0xF1 \<le> c \<and> c \<le> 0xF3 then Some [(0x80, 0xBF), (0x80, 0xBF), (0x80, 0xBF)]
      else if c = 0xF4 then Some [(0x80, 0x8F), (0x80, 0xBF), (0x80, 0xBF)]
      else None)"

definition scan_raw :: "lexer \<Rightarrow> bool \<times> lexer" where
  "scan_raw lx =
     (let c = lx_current lx
      in if 0 \<le> c \<and> c \<le> 0x0F then (False, lexer_error (control_error_low c) lx)
         else if 0x10 \<le> c \<and> c \<le> 0x1F then (False, lexer_error (control_error_high c) lx)
         else if plain_char c then (True, lexer_add c lx)
         else case utf8_ranges c of
                Some ranges \<Rightarrow> next_byte_in_range ranges lx
              | None \<Rightarrow> (False, lexer_error ''invalid string: ill-formed UTF-8 byte'' lx))"

section \<open>Reading on costs input\<close>

lemma codepoint_loop_left: "lexer_left (snd (codepoint_loop fs cp lx)) \<le> lexer_left lx"
proof (induction fs arbitrary: cp lx)
  case (Cons f fs)
  note le = le_trans [OF Cons.IH lexer_get_left_le]
  show ?case by (simp add: Let_def le lexer_get_left_le)
qed simp

lemma get_codepoint_left: "get_codepoint lx = (cp, lx') \<Longrightarrow> lexer_left lx' \<le> lexer_left lx"
  using codepoint_loop_left [of "[12, 8, 4, 0]" 0 lx] by (simp add: get_codepoint_def)

lemma add_codepoint_left [simp]: "lexer_left (add_codepoint cp lx) = lexer_left lx"
proof -
  have "lexer_left (fold lexer_add bs l) = lexer_left l" for bs l
    by (induction bs arbitrary: l) simp_all
  then show ?thesis by (simp add: add_codepoint_def)
qed

lemma scan_low_surrogate_left: "lexer_left (snd (scan_low_surrogate cp lx)) \<le> lexer_left lx"
proof -
  have 2: "lexer_left (lexer_get (lexer_get lx)) \<le> lexer_left lx"
    using lexer_get_left_le [of lx] lexer_get_left_le [of "lexer_get lx"] by simp
  obtain cp2 lx3 where g: "get_codepoint (lexer_get (lexer_get lx)) = (cp2, lx3)" by force
  have "lexer_left lx3 \<le> lexer_left lx" using get_codepoint_left [OF g] 2 by simp
  with 2 show ?thesis
    by (simp add: scan_low_surrogate_def Let_def g lexer_get_left_le)
qed

lemma scan_unicode_escape_left: "lexer_left (snd (scan_unicode_escape lx)) \<le> lexer_left lx"
proof -
  obtain cp lx1 where g: "get_codepoint lx = (cp, lx1)" by force
  note le = get_codepoint_left [OF g]
  from le scan_low_surrogate_left [of cp lx1] show ?thesis
    by (simp add: scan_unicode_escape_def g)
qed

lemma scan_escape_left: "lexer_left (snd (scan_escape lx)) \<le> lexer_left lx"
  using le_trans [OF scan_unicode_escape_left [of "lexer_get lx"] lexer_get_left_le [of lx]]
    lexer_get_left_le [of lx]
  by (simp add: scan_escape_def Let_def)

lemma ranges_loop_left: "lexer_left (snd (ranges_loop rs lx)) \<le> lexer_left lx"
proof (induction rs arbitrary: lx)
  case (Cons r rs)
  show ?case
    using le_trans [OF Cons.IH [of "lexer_add (lx_current (lexer_get lx)) (lexer_get lx)"]]
      lexer_get_left_le [of lx]
    by (cases r) (simp add: Let_def)
qed simp

lemma scan_raw_left: "lexer_left (snd (scan_raw lx)) \<le> lexer_left lx"
  using ranges_loop_left [of _ "lexer_add (lx_current lx) lx"]
  by (auto simp: scan_raw_def Let_def next_byte_in_range_def split: option.split)

section \<open>The loop\<close>

function scan_string_loop :: "lexer \<Rightarrow> token_type \<times> lexer" where
  "scan_string_loop lx =
     (let lx1 = lexer_get lx; c = lx_current lx1
      in if c = char_eof
         then (Token_parse_error, lexer_error ''invalid string: missing closing quote'' lx1)
         else if c = 34 then (Value_string, lx1)
         else let (ok, lx2) = (if c = 92 then scan_escape lx1 else scan_raw lx1)
              in if ok then scan_string_loop lx2 else (Token_parse_error, lx2))"
  by pat_completeness auto

termination
proof (relation "measure lexer_left")
  fix lx lx1 c r ok lx2
  assume a: "lx1 = lexer_get lx" "c = lx_current lx1" "c \<noteq> char_eof"
    "r = (if c = 92 then scan_escape lx1 else scan_raw lx1)" "(ok, lx2) = r"
  have "lexer_left lx2 = lexer_left (snd r)" by (simp add: a(5) [symmetric])
  also have "\<dots> \<le> lexer_left lx1" by (simp add: a(4) scan_escape_left scan_raw_left)
  also have "\<dots> < lexer_left lx" using a(1-3) lexer_get_left_less by simp
  finally show "(lx2, lx) \<in> measure lexer_left" by simp
qed simp

declare scan_string_loop.simps [simp del]

definition scan_string :: "lexer \<Rightarrow> token_type \<times> lexer" where
  "scan_string lx = scan_string_loop (lexer_reset lx)"

lemma scan_string_loop_left: "lexer_left (snd (scan_string_loop lx)) \<le> lexer_left lx"
proof (induction lx rule: scan_string_loop.induct)
  case (1 lx)
  let ?r = "if lx_current (lexer_get lx) = 92 then scan_escape (lexer_get lx) else scan_raw (lexer_get lx)"
  have r: "lexer_left (snd ?r) \<le> lexer_left lx"
    using scan_escape_left [of "lexer_get lx"] scan_raw_left [of "lexer_get lx"] lexer_get_left_le [of lx]
    by simp
  show ?case
  proof (cases "lx_current (lexer_get lx) = char_eof \<or> lx_current (lexer_get lx) = 34")
    case True
    then show ?thesis
      using lexer_get_left_le [of lx] by (subst scan_string_loop.simps) (auto simp: Let_def)
  next
    case False
    obtain ok lx2 where p: "?r = (ok, lx2)" by force
    have le: "lexer_left lx2 \<le> lexer_left lx" using r p by simp
    show ?thesis
    proof (cases ok)
      case True
      have "lexer_left (snd (scan_string_loop lx2)) \<le> lexer_left lx2"
        using 1 [OF refl refl _ _ refl p [symmetric] True] False by simp
      with le False p True show ?thesis by (subst scan_string_loop.simps) (auto simp: Let_def)
    next
      case False
      with le p \<open>\<not> (lx_current (lexer_get lx) = char_eof \<or> lx_current (lexer_get lx) = 34)\<close>
      show ?thesis by (subst scan_string_loop.simps) (auto simp: Let_def)
    qed
  qed
qed

end
