(* ===== verification/Json_Serializer.thy ===== *)
theory Json_Serializer
  imports Json
begin

text \<open>
  The serializer of the JSON library,
  \<^verbatim>\<open>src/3party/json-3.10.5/include/nlohmann/detail/output/serializer.hpp\<close>, that prints the
  announcement of a connection: the table-driven UTF-8 decoder, the escaping of strings
  through a buffer of 512 bytes, integers through a buffer of 64, and \<^verbatim>\<open>dump\<close> without
  indentation, which is all that the sources call. What is written to the output adapter is
  the string returned. Printing a floating point number is a parameter.
\<close>

unbundle bit_operations_syntax

section \<open>The UTF-8 decoder\<close>

definition utf8d :: "nat list" where
  "utf8d =
     replicate 128 0 @
     replicate 16 1 @ replicate 16 9 @ replicate 32 7 @
     [8, 8] @ replicate 30 2 @
     [0xA] @ replicate 12 3 @ [4, 3, 3] @
     [0xB, 6, 6, 6, 5] @ replicate 11 8 @
     [0, 1, 2, 3, 5, 8, 7, 1, 1, 1, 4, 6, 1, 1, 1, 1] @
     [1, 1, 1, 1, 1, 1, 1, 1, 1, 1, 1, 1, 1, 1, 1, 1] @ [1, 0, 1, 1, 1, 1, 1, 0, 1, 0, 1, 1, 1, 1, 1, 1] @
     [1, 2, 1, 1, 1, 1, 1, 2, 1, 2, 1, 1, 1, 1, 1, 1] @ [1, 1, 1, 1, 1, 1, 1, 2, 1, 1, 1, 1, 1, 1, 1, 1] @
     [1, 2, 1, 1, 1, 1, 1, 1, 1, 2, 1, 1, 1, 1, 1, 1] @ [1, 1, 1, 1, 1, 1, 1, 3, 1, 3, 1, 1, 1, 1, 1, 1] @
     [1, 3, 1, 1, 1, 1, 1, 3, 1, 3, 1, 1, 1, 1, 1, 1] @ [1, 3, 1, 1, 1, 1, 1, 1, 1, 1, 1, 1, 1, 1, 1, 1]"

definition utf8_accept :: nat where "utf8_accept = 0"
definition utf8_reject :: nat where "utf8_reject = 1"

definition decode :: "nat \<Rightarrow> u32 \<Rightarrow> char \<Rightarrow> nat \<times> u32" where
  "decode state codep c =
     (let b = of_char c :: u32;
          ty = utf8d ! of_char c;
          codep1 = (if state \<noteq> utf8_accept then (b AND 0x3F) OR push_bit 6 codep
                    else drop_bit ty 0xFF AND b)
      in (utf8d ! (256 + state * 16 + ty), codep1))"

section \<open>Escaped strings\<close>

datatype error_handler = Strict | Ignore | Replace

datatype dump_error = Invalid_utf8_byte nat char | Incomplete_utf8_string char

definition hex_digit_lower :: "nat \<Rightarrow> char" where
  "hex_digit_lower n = char_of (if n < 10 then 48 + n else 87 + n)"

text \<open>\<^verbatim>\<open>"\\u%04x"\<close> of a 16-bit value.\<close>

definition unicode_escape :: "u32 \<Rightarrow> string" where
  "unicode_escape x =
     (let n = unat x mod 65536
      in [CHR 0x5C, CHR ''u''] @ map (\<lambda>k. hex_digit_lower (n div 16 ^ k mod 16)) [3, 2, 1, 0])"

text \<open>What is added to the buffer when a code point is complete; \<open>c\<close> is its last byte.\<close>

definition escape_codepoint :: "bool \<Rightarrow> u32 \<Rightarrow> char \<Rightarrow> string" where
  "escape_codepoint ensure_ascii cp c =
     (if cp = 0x08 then [CHR 0x5C, CHR ''b'']
      else if cp = 0x09 then [CHR 0x5C, CHR ''t'']
      else if cp = 0x0A then [CHR 0x5C, CHR ''n'']
      else if cp = 0x0C then [CHR 0x5C, CHR ''f'']
      else if cp = 0x0D then [CHR 0x5C, CHR ''r'']
      else if cp = 0x22 then [CHR 0x5C, CHR 0x22]
      else if cp = 0x5C then [CHR 0x5C, CHR 0x5C]
      else if cp \<le> 0x1F \<or> ensure_ascii \<and> 0x7F \<le> cp
      then (if cp \<le> 0xFFFF then unicode_escape cp
            else unicode_escape (0xD7C0 + drop_bit 10 cp) @ unicode_escape (0xDC00 + (cp AND 0x3FF)))
      else [c])"

text \<open>The locals of \<^verbatim>\<open>dump_escaped\<close>: the first \<^verbatim>\<open>bytes\<close> bytes of \<^verbatim>\<open>string_buffer\<close> and what was
  already written out.\<close>

record escaper =
  es_state :: nat
  es_codepoint :: u32
  es_buffer :: string
  es_bytes_after_last_accept :: nat
  es_undumped_chars :: nat
  es_out :: string

definition escaper_new :: escaper where
  "escaper_new =
     \<lparr>es_state = utf8_accept, es_codepoint = 0, es_buffer = [], es_bytes_after_last_accept = 0,
      es_undumped_chars = 0, es_out = []\<rparr>"

definition string_buffer_size :: nat where
  "string_buffer_size = 512"

definition write_if_full :: "escaper \<Rightarrow> escaper" where
  "write_if_full es =
     (if string_buffer_size - length (es_buffer es) < 13
      then es\<lparr>es_out := es_out es @ es_buffer es, es_buffer := []\<rparr> else es)"

definition remember_accept :: "escaper \<Rightarrow> escaper" where
  "remember_accept es = es\<lparr>es_bytes_after_last_accept := length (es_buffer es)\<rparr>"

definition escape_accept :: "bool \<Rightarrow> char \<Rightarrow> escaper \<Rightarrow> escaper" where
  "escape_accept ensure_ascii c es =
     (remember_accept (write_if_full
        (es\<lparr>es_buffer := es_buffer es @ escape_codepoint ensure_ascii (es_codepoint es) c\<rparr>)))
     \<lparr>es_undumped_chars := 0\<rparr>"

definition replacement :: "bool \<Rightarrow> string" where
  "replacement ensure_ascii =
     (if ensure_ascii then CHR 0x5C # ''ufffd'' else [CHR 0xEF, CHR 0xBF, CHR 0xBD])"

text \<open>An invalid byte under \<^verbatim>\<open>ignore\<close> or \<^verbatim>\<open>replace\<close>.\<close>

definition escape_reject :: "error_handler \<Rightarrow> bool \<Rightarrow> escaper \<Rightarrow> escaper" where
  "escape_reject handler ensure_ascii es =
     (let es1 = es\<lparr>es_buffer := take (es_bytes_after_last_accept es) (es_buffer es)\<rparr>;
          es2 = (if handler = Replace
                 then remember_accept (write_if_full
                        (es1\<lparr>es_buffer := es_buffer es1 @ replacement ensure_ascii\<rparr>))
                 else es1)
      in es2\<lparr>es_undumped_chars := 0, es_state := utf8_accept\<rparr>)"

definition escape_incomplete :: "bool \<Rightarrow> char \<Rightarrow> escaper \<Rightarrow> escaper" where
  "escape_incomplete ensure_ascii c es =
     (let es1 = (if \<not> ensure_ascii then es\<lparr>es_buffer := es_buffer es @ [c]\<rparr> else es)
      in es1\<lparr>es_undumped_chars := Suc (es_undumped_chars es1)\<rparr>)"

definition decode_char :: "char \<Rightarrow> escaper \<Rightarrow> escaper" where
  "decode_char c es =
     (case decode (es_state es) (es_codepoint es) c of
        (st, cp) \<Rightarrow> es\<lparr>es_state := st, es_codepoint := cp\<rparr>)"

lemma decode_char_sel [simp]:
  "es_undumped_chars (decode_char c es) = es_undumped_chars es"
  "es_buffer (decode_char c es) = es_buffer es"
  "es_out (decode_char c es) = es_out es"
  "es_bytes_after_last_accept (decode_char c es) = es_bytes_after_last_accept es"
  by (simp_all add: decode_char_def split: prod.split)

lemma escape_reject_undumped [simp]: "es_undumped_chars (escape_reject handler ascii es) = 0"
  by (simp add: escape_reject_def Let_def)

text \<open>The loop over the string from index \<open>i\<close>. A byte that is invalid after the start of a
  sequence is read again on its own.\<close>

function escape_loop ::
  "error_handler \<Rightarrow> bool \<Rightarrow> nat \<Rightarrow> string \<Rightarrow> escaper \<Rightarrow> dump_error + escaper"
where
  "escape_loop handler ensure_ascii i [] es = Inr es"
| "escape_loop handler ensure_ascii i (c # cs) es =
     (let es1 = decode_char c es
      in if es_state es1 = utf8_accept
         then escape_loop handler ensure_ascii (Suc i) cs (escape_accept ensure_ascii c es1)
         else if es_state es1 = utf8_reject
         then (if handler = Strict then Inl (Invalid_utf8_byte i c)
               else if 0 < es_undumped_chars es1
               then escape_loop handler ensure_ascii i (c # cs) (escape_reject handler ensure_ascii es1)
               else escape_loop handler ensure_ascii (Suc i) cs (escape_reject handler ensure_ascii es1))
         else escape_loop handler ensure_ascii (Suc i) cs (escape_incomplete ensure_ascii c es1))"
  by pat_completeness auto

termination
  by (relation "measure (\<lambda>(_, _, _, cs, es). 2 * length cs + (if 0 < es_undumped_chars es then 1 else 0))")
    auto

declare escape_loop.simps(2) [simp del]

text \<open>What remains when the string ends.\<close>

definition escape_end :: "error_handler \<Rightarrow> bool \<Rightarrow> string \<Rightarrow> escaper \<Rightarrow> dump_error + string" where
  "escape_end handler ensure_ascii s es =
     (if es_state es = utf8_accept then Inr (es_out es @ es_buffer es)
      else case handler of
             Strict \<Rightarrow> Inl (Incomplete_utf8_string (last s))
           | Ignore \<Rightarrow> Inr (es_out es @ take (es_bytes_after_last_accept es) (es_buffer es))
           | Replace \<Rightarrow>
               Inr (es_out es @ take (es_bytes_after_last_accept es) (es_buffer es) @ replacement ensure_ascii))"

definition dump_escaped :: "error_handler \<Rightarrow> bool \<Rightarrow> string \<Rightarrow> dump_error + string" where
  "dump_escaped handler ensure_ascii s =
     (case escape_loop handler ensure_ascii 0 s escaper_new of
        Inl e \<Rightarrow> Inl e
      | Inr es \<Rightarrow> escape_end handler ensure_ascii s es)"

section \<open>Integers\<close>

definition digits_to_99 :: "string list" where
  "digits_to_99 = map (\<lambda>i. [char_of (48 + i div 10), char_of (48 + i mod 10)]) [0 ..< 100]"

function count_digits :: "nat \<Rightarrow> nat \<Rightarrow> nat" where
  "count_digits n_digits x =
     (if x < 10 then n_digits
      else if x < 100 then n_digits + 1
      else if x < 1000 then n_digits + 2
      else if x < 10000 then n_digits + 3
      else count_digits (n_digits + 4) (x div 10000))"
  by pat_completeness auto

termination
  by (relation "measure snd") auto

declare count_digits.simps [simp del]

text \<open>The digits are written backwards from the pointer, two at a time.\<close>

function fill_pairs :: "nat \<Rightarrow> nat \<Rightarrow> string \<Rightarrow> nat \<times> nat \<times> string" where
  "fill_pairs abs_value p buf =
     (if 100 \<le> abs_value
      then let d = digits_to_99 ! (abs_value mod 100)
           in fill_pairs (abs_value div 100) (p - 2) (buf[p - 1 := d ! 1, p - 2 := d ! 0])
      else (abs_value, p, buf))"
  by pat_completeness auto

termination
  by (relation "measure fst") auto

declare fill_pairs.simps [simp del]

definition fill_digits :: "nat \<Rightarrow> nat \<Rightarrow> string \<Rightarrow> string" where
  "fill_digits abs_value p buf =
     (case fill_pairs abs_value p buf of
        (v, q, buf1) \<Rightarrow>
          if 10 \<le> v then let d = digits_to_99 ! v in buf1[q - 1 := d ! 1, q - 2 := d ! 0]
          else buf1[q - 1 := char_of (48 + v)])"

definition remove_sign :: "int \<Rightarrow> nat" where
  "remove_sign x = nat (- (x + 1)) + 1"

definition dump_integer :: "string \<Rightarrow> int \<Rightarrow> string" where
  "dump_integer number_buffer x =
     (if x = 0 then ''0''
      else if x < 0
      then let abs_value = remove_sign x; n_chars = 1 + count_digits 1 abs_value
           in take n_chars (fill_digits abs_value n_chars (number_buffer[0 := CHR ''-'']))
      else let abs_value = nat x; n_chars = count_digits 1 abs_value
           in take n_chars (fill_digits abs_value n_chars number_buffer))"

definition number_buffer :: string where
  "number_buffer = replicate 64 (CHR 0x00)"

section \<open>Values\<close>

record dump_options =
  do_ensure_ascii :: bool
  do_error_handler :: error_handler
  do_float :: "int \<Rightarrow> string"

definition dump_string :: "dump_options \<Rightarrow> string \<Rightarrow> dump_error + string" where
  "dump_string opt s =
     (case dump_escaped (do_error_handler opt) (do_ensure_ascii opt) s of
        Inl e \<Rightarrow> Inl e
      | Inr t \<Rightarrow> Inr ([CHR 0x22] @ t @ [CHR 0x22]))"

text \<open>The elements of an array and the members of an object; \<open>f\<close> prints an element.\<close>

fun dump_elements :: "(json \<Rightarrow> dump_error + string) \<Rightarrow> json list \<Rightarrow> dump_error + string" where
  "dump_elements f [] = Inr []"
| "dump_elements f (v # vs) =
     (case f v of
        Inl e \<Rightarrow> Inl e
      | Inr t \<Rightarrow>
          if vs = [] then Inr t
          else (case dump_elements f vs of Inl e \<Rightarrow> Inl e | Inr u \<Rightarrow> Inr (t @ '','' @ u)))"

fun dump_members ::
  "dump_options \<Rightarrow> (json \<Rightarrow> dump_error + string) \<Rightarrow> (string \<times> json) list \<Rightarrow> dump_error + string"
where
  "dump_members opt f [] = Inr []"
| "dump_members opt f ((k, v) # kvs) =
     (case dump_string opt k of
        Inl e \<Rightarrow> Inl e
      | Inr t \<Rightarrow>
          (case f v of
             Inl e \<Rightarrow> Inl e
           | Inr u \<Rightarrow>
               if kvs = [] then Inr (t @ '':'' @ u)
               else (case dump_members opt f kvs of
                       Inl e \<Rightarrow> Inl e
                     | Inr w \<Rightarrow> Inr (t @ '':'' @ u @ '','' @ w))))"

lemma dump_elements_cong [fundef_cong]:
  "vs = ws \<Longrightarrow> (\<And>v. v \<in> set ws \<Longrightarrow> f v = g v) \<Longrightarrow> dump_elements f vs = dump_elements g ws"
  by (induction vs arbitrary: ws) (auto split: sum.split)

lemma dump_members_cong [fundef_cong]:
  "opt = opt' \<Longrightarrow> kvs = lws \<Longrightarrow> (\<And>v. v \<in> snd ` set lws \<Longrightarrow> f v = g v) \<Longrightarrow>
     dump_members opt f kvs = dump_members opt' g lws"
proof (induction kvs arbitrary: lws)
  case (Cons kv kvs)
  then show ?case by (cases kv) (auto split: sum.split)
qed simp

lemma json_element_size: "v \<in> set js \<Longrightarrow> size v < Suc (size_list size js)"
  using size_list_estimation' [of v js "size v" size] by simp

lemma json_member_size:
  assumes "(k, v) \<in> set kvs"
  shows "size v < Suc (size_list (size_prod (\<lambda>_. 0) size) kvs)"
  using size_list_estimation' [OF assms, of "size v" "size_prod (\<lambda>_. 0) size"] by simp

function dump :: "dump_options \<Rightarrow> json \<Rightarrow> dump_error + string" where
  "dump opt (JObject kvs) =
     (if kvs = [] then Inr ''{}''
      else case dump_members opt (dump opt) kvs of Inl e \<Rightarrow> Inl e | Inr t \<Rightarrow> Inr (''{'' @ t @ ''}''))"
| "dump opt (JArray js) =
     (if js = [] then Inr ''[]''
      else case dump_elements (dump opt) js of Inl e \<Rightarrow> Inl e | Inr t \<Rightarrow> Inr (''['' @ t @ '']''))"
| "dump opt (JString s) = dump_string opt s"
| "dump opt (JBool b) = Inr (if b then ''true'' else ''false'')"
| "dump opt (JInteger i) = Inr (dump_integer number_buffer i)"
| "dump opt (JUnsigned n) = Inr (dump_integer number_buffer (int n))"
| "dump opt (JFloat x) = Inr (do_float opt x)"
| "dump opt JNull = Inr ''null''"
  by pat_completeness auto

termination
  by (relation "measure (\<lambda>(_, v). size v)") (auto intro: json_element_size json_member_size)

text \<open>\<^verbatim>\<open>dump()\<close> with its default arguments.\<close>

definition json_dump :: "(int \<Rightarrow> string) \<Rightarrow> json \<Rightarrow> dump_error + string" where
  "json_dump float_text v =
     dump \<lparr>do_ensure_ascii = False, do_error_handler = Strict, do_float = float_text\<rparr> v"

end
