(* ===== verification/Json_Utf8.thy ===== *)
theory Json_Utf8
  imports Json_Scan_String Json_Serializer
begin

text \<open>
  UTF-8 in the JSON library three times: the byte ranges of the lexer, the table of the
  serializer's decoder, and the encoder of escaped code points. A unit is the bytes of one
  code point.
\<close>

unbundle bit_operations_syntax

section \<open>Characters as integers\<close>

lemma of_char_bounds [simp]: "0 \<le> (of_char c :: int)" "(of_char c :: int) < 256"
proof -
  have "(of_char c :: int) = of_char c mod 256" by simp
  then show "0 \<le> (of_char c :: int)" "(of_char c :: int) < 256"
    by (metis pos_mod_sign zero_less_numeral, metis pos_mod_bound zero_less_numeral)
qed

lemma of_char_char_of_int: "0 \<le> n \<Longrightarrow> n < 256 \<Longrightarrow> (of_char (char_of (n :: int)) :: int) = n"
  by simp

lemma char_eqI: "of_char c = (n :: int) \<Longrightarrow> c = char_of n"
  by (metis char_of_char)

section \<open>Units\<close>

fun in_ranges :: "(int \<times> int) list \<Rightarrow> string \<Rightarrow> bool" where
  "in_ranges [] [] = True"
| "in_ranges ((lo, hi) # rs) (c # cs) = (lo \<le> of_char c \<and> of_char c \<le> hi \<and> in_ranges rs cs)"
| "in_ranges rs cs = False"

definition utf8_unit :: "string \<Rightarrow> bool" where
  "utf8_unit u =
     (case u of
        [] \<Rightarrow> False
      | c # cs \<Rightarrow>
          if (of_char c :: int) < 0x80 then cs = []
          else (case utf8_ranges (of_char c) of None \<Rightarrow> False | Some rs \<Rightarrow> in_ranges rs cs))"

definition valid_utf8 :: "string \<Rightarrow> bool" where
  "valid_utf8 s \<longleftrightarrow> (\<exists>us. (\<forall>u \<in> set us. utf8_unit u) \<and> s = concat us)"

lemma valid_utf8_Nil [simp]: "valid_utf8 []"
  by (auto simp: valid_utf8_def intro: exI [of _ "[]"])

lemma valid_utf8_append: "valid_utf8 s \<Longrightarrow> valid_utf8 t \<Longrightarrow> valid_utf8 (s @ t)"
  unfolding valid_utf8_def by (metis Un_iff concat_append set_append)

lemma valid_utf8_unit: "utf8_unit u \<Longrightarrow> valid_utf8 u"
  by (auto simp: valid_utf8_def intro: exI [of _ "[u]"])

section \<open>The encoder\<close>

lemma or_lead_bytes:
  "0 \<le> x \<Longrightarrow> x < 64 \<Longrightarrow> 0x80 OR x = 0x80 + (x :: int)"
  "0 \<le> x \<Longrightarrow> x < 32 \<Longrightarrow> 0xC0 OR x = 0xC0 + (x :: int)"
  "0 \<le> x \<Longrightarrow> x < 16 \<Longrightarrow> 0xE0 OR x = 0xE0 + (x :: int)"
  "0 \<le> x \<Longrightarrow> x < 8 \<Longrightarrow> 0xF0 OR x = 0xF0 + (x :: int)"
proof -
  have all: "\<forall>x \<in> set [0 .. 63]. 0x80 OR x = 0x80 + (x :: int)"
    "\<forall>x \<in> set [0 .. 31]. 0xC0 OR x = 0xC0 + (x :: int)"
    "\<forall>x \<in> set [0 .. 15]. 0xE0 OR x = 0xE0 + (x :: int)"
    "\<forall>x \<in> set [0 .. 7]. 0xF0 OR x = 0xF0 + (x :: int)"
    by code_simp+
  show "0 \<le> x \<Longrightarrow> x < 64 \<Longrightarrow> 0x80 OR x = 0x80 + x" using all(1) by simp
  show "0 \<le> x \<Longrightarrow> x < 32 \<Longrightarrow> 0xC0 OR x = 0xC0 + x" using all(2) by simp
  show "0 \<le> x \<Longrightarrow> x < 16 \<Longrightarrow> 0xE0 OR x = 0xE0 + x" using all(3) by simp
  show "0 \<le> x \<Longrightarrow> x < 8 \<Longrightarrow> 0xF0 OR x = 0xF0 + x" using all(4) by simp
qed

lemma and_3F: "(x :: int) AND 0x3F = x mod 64"
proof -
  have "x AND mask 6 = take_bit 6 x" by (simp add: take_bit_eq_mask)
  then show ?thesis by (simp add: take_bit_eq_mod mask_eq_exp_minus_1)
qed

lemma codepoint_bytes_arith:
  assumes "0 \<le> cp" "cp \<le> 0x10FFFF"
  shows "codepoint_bytes cp =
    (if cp < 0x80 then [cp]
     else if cp \<le> 0x7FF then [0xC0 + cp div 64, 0x80 + cp mod 64]
     else if cp \<le> 0xFFFF then [0xE0 + cp div 4096, 0x80 + cp div 64 mod 64, 0x80 + cp mod 64]
     else [0xF0 + cp div 262144, 0x80 + cp div 4096 mod 64, 0x80 + cp div 64 mod 64, 0x80 + cp mod 64])"
  using assms
  by (auto simp: codepoint_bytes_def and_3F drop_bit_eq_div intro!: or_lead_bytes)

definition scalar_value :: "int \<Rightarrow> bool" where
  "scalar_value cp \<longleftrightarrow> 0 \<le> cp \<and> cp \<le> 0x10FFFF \<and> \<not> (0xD800 \<le> cp \<and> cp \<le> 0xDFFF)"

text \<open>The units by number of bytes.\<close>

definition unit1 :: "int \<Rightarrow> bool" where
  "unit1 a \<longleftrightarrow> 0 \<le> a \<and> a < 128"

definition unit2 :: "int \<Rightarrow> int \<Rightarrow> bool" where
  "unit2 a b \<longleftrightarrow> 2 \<le> a \<and> a < 32 \<and> 0 \<le> b \<and> b < 64"

definition unit3 :: "int \<Rightarrow> int \<Rightarrow> int \<Rightarrow> bool" where
  "unit3 a b c \<longleftrightarrow> 0 \<le> a \<and> a < 16 \<and> 0 \<le> b \<and> b < 64 \<and> 0 \<le> c \<and> c < 64 \<and>
     (a = 0 \<longrightarrow> 32 \<le> b) \<and> (a = 13 \<longrightarrow> b < 32)"

definition unit4 :: "int \<Rightarrow> int \<Rightarrow> int \<Rightarrow> int \<Rightarrow> bool" where
  "unit4 a b c d \<longleftrightarrow> 0 \<le> a \<and> a < 5 \<and> 0 \<le> b \<and> b < 64 \<and> 0 \<le> c \<and> c < 64 \<and> 0 \<le> d \<and> d < 64 \<and>
     (a = 0 \<longrightarrow> 16 \<le> b) \<and> (a = 4 \<longrightarrow> b < 16)"

lemma unit1I: "unit1 a \<Longrightarrow> utf8_unit [char_of a]"
  by (simp add: unit1_def utf8_unit_def)

lemma unit2I: "unit2 a b \<Longrightarrow> utf8_unit [char_of (0xC0 + a), char_of (0x80 + b)]"
  by (simp add: unit2_def utf8_unit_def utf8_ranges_def)

lemma unit3I: "unit3 a b c \<Longrightarrow> utf8_unit [char_of (0xE0 + a), char_of (0x80 + b), char_of (0x80 + c)]"
  by (auto simp: unit3_def utf8_unit_def utf8_ranges_def)

lemma unit4I:
  "unit4 a b c d \<Longrightarrow>
     utf8_unit [char_of (0xF0 + a), char_of (0x80 + b), char_of (0x80 + c), char_of (0x80 + d)]"
  by (auto simp: unit4_def utf8_unit_def utf8_ranges_def)

lemma in_ranges_Cons:
  "in_ranges ((lo, hi) # rs) cs \<longleftrightarrow>
     (\<exists>d ds. cs = d # ds \<and> lo \<le> of_char d \<and> of_char d \<le> hi \<and> in_ranges rs ds)"
  by (cases cs) auto

lemma in_ranges_Nil: "in_ranges [] cs \<longleftrightarrow> cs = []"
  by (cases cs) auto

lemma unit_cases:
  assumes "utf8_unit u"
  obtains (One) a where "unit1 a" "u = [char_of a]"
    | (Two) a b where "unit2 a b" "u = [char_of (0xC0 + a), char_of (0x80 + b)]"
    | (Three) a b c where "unit3 a b c"
        "u = [char_of (0xE0 + a), char_of (0x80 + b), char_of (0x80 + c)]"
    | (Four) a b c d where "unit4 a b c d"
        "u = [char_of (0xF0 + a), char_of (0x80 + b), char_of (0x80 + c), char_of (0x80 + d)]"
proof -
  obtain x cs where u: "u = x # cs" using assms by (cases u) (auto simp: utf8_unit_def)
  note char = char_of_char [symmetric, where ?'a = int]
  show ?thesis
  proof (cases "(of_char x :: int) < 128")
    case True
    then show ?thesis
      using assms u One [of "of_char x"] by (simp add: utf8_unit_def unit1_def)
  next
    case False
    then obtain rs where rs: "utf8_ranges (of_char x) = Some rs" "in_ranges rs cs"
      using assms u by (auto simp: utf8_unit_def split: option.splits)
    then consider d where "cs = [d]" "rs = [(0x80, 0xBF)]"
      | d e where "cs = [d, e]" "length rs = 2" | d e f where "cs = [d, e, f]" "length rs = 3"
      by (auto simp: utf8_ranges_def in_ranges_Cons in_ranges_Nil split: if_splits)
    then show ?thesis
    proof cases
      case 1
      then show ?thesis
        using rs u char [of x] char [of d] Two [of "of_char x - 0xC0" "of_char d - 0x80"]
        by (auto simp: utf8_ranges_def unit2_def split: if_splits)
    next
      case 2
      then have "unit3 (of_char x - 0xE0) (of_char d - 0x80) (of_char e - 0x80)"
        using rs by (auto simp: utf8_ranges_def unit3_def split: if_splits)
      with 2 u show ?thesis
        using Three [of "of_char x - 0xE0" "of_char d - 0x80" "of_char e - 0x80"] by simp
    next
      case 3
      then have "unit4 (of_char x - 0xF0) (of_char d - 0x80) (of_char e - 0x80) (of_char f - 0x80)"
        using rs by (auto simp: utf8_ranges_def unit4_def split: if_splits)
      with 3 u show ?thesis
        using Four [of "of_char x - 0xF0" "of_char d - 0x80" "of_char e - 0x80" "of_char f - 0x80"] by simp
    qed
  qed
qed

text \<open>Positional notation in base 64.\<close>

lemma digits3:
  fixes cp :: int
  shows "cp = cp div 4096 * 4096 + cp div 64 mod 64 * 64 + cp mod 64"
proof -
  have "cp = cp div 64 * 64 + cp mod 64" "cp div 64 = cp div 64 div 64 * 64 + cp div 64 mod 64"
    by simp_all
  moreover have "cp div 64 div 64 = cp div 4096" by (simp add: zdiv_zmult2_eq [symmetric])
  ultimately show ?thesis by linarith
qed

lemma digits4:
  fixes cp :: int
  shows "cp = cp div 262144 * 262144 + cp div 4096 mod 64 * 4096 + cp div 64 mod 64 * 64 + cp mod 64"
proof -
  have "cp div 4096 = cp div 4096 div 64 * 64 + cp div 4096 mod 64" by simp
  moreover have "cp div 4096 div 64 = cp div 262144" by (simp add: zdiv_zmult2_eq [symmetric])
  ultimately show ?thesis using digits3 [of cp] by linarith
qed

lemma mod64: "0 \<le> (x :: int) mod 64 \<and> x mod 64 < 64"
  by simp

lemma undigits:
  fixes a b c d :: int
  assumes "0 \<le> b" "b < 64" "0 \<le> c" "c < 64" "0 \<le> d" "d < 64"
  shows "(a * 64 + b) div 64 = a" "(a * 64 + b) mod 64 = b"
    "(a * 4096 + b * 64 + c) div 4096 = a" "(a * 4096 + b * 64 + c) div 64 = a * 64 + b"
    "(a * 4096 + b * 64 + c) mod 64 = c"
    "(a * 262144 + b * 4096 + c * 64 + d) div 262144 = a"
    "(a * 262144 + b * 4096 + c * 64 + d) div 4096 = a * 64 + b"
    "(a * 262144 + b * 4096 + c * 64 + d) div 64 = a * 4096 + b * 64 + c"
    "(a * 262144 + b * 4096 + c * 64 + d) mod 64 = d"
proof -
  show "(a * 64 + b) div 64 = a" "(a * 64 + b) mod 64 = b"
    using assms by (auto intro!: int_div_pos_eq [where r = b] int_mod_pos_eq [where q = a])
  show "(a * 4096 + b * 64 + c) div 4096 = a"
    using assms by (intro int_div_pos_eq [where r = "b * 64 + c"]) (simp_all add: algebra_simps)
  show "(a * 4096 + b * 64 + c) div 64 = a * 64 + b"
    using assms by (intro int_div_pos_eq [where r = c]) (simp_all add: algebra_simps)
  show "(a * 4096 + b * 64 + c) mod 64 = c"
    using assms by (intro int_mod_pos_eq [where q = "a * 64 + b"]) (simp_all add: algebra_simps)
  show "(a * 262144 + b * 4096 + c * 64 + d) div 262144 = a"
    using assms by (intro int_div_pos_eq [where r = "b * 4096 + c * 64 + d"]) (simp_all add: algebra_simps)
  show "(a * 262144 + b * 4096 + c * 64 + d) div 4096 = a * 64 + b"
    using assms by (intro int_div_pos_eq [where r = "c * 64 + d"]) (simp_all add: algebra_simps)
  show "(a * 262144 + b * 4096 + c * 64 + d) div 64 = a * 4096 + b * 64 + c"
    using assms by (intro int_div_pos_eq [where r = d]) (simp_all add: algebra_simps)
  show "(a * 262144 + b * 4096 + c * 64 + d) mod 64 = d"
    using assms by (intro int_mod_pos_eq [where q = "a * 4096 + b * 64 + c"]) (simp_all add: algebra_simps)
qed

text \<open>Where the code points of three and four bytes lie.\<close>

lemma unit3_range:
  assumes "unit3 a b c"
  shows "0x800 \<le> a * 4096 + b * 64 + c" "a * 4096 + b * 64 + c \<le> 0xFFFF"
    "\<not> (0xD800 \<le> a * 4096 + b * 64 + c \<and> a * 4096 + b * 64 + c \<le> 0xDFFF)"
proof -
  have u: "0 \<le> a" "a < 16" "0 \<le> b" "b < 64" "0 \<le> c" "c < 64"
    and u0: "a = 0 \<Longrightarrow> 32 \<le> b" and u13: "a = 13 \<Longrightarrow> b < 32"
    using assms by (simp_all add: unit3_def)
  show "0x800 \<le> a * 4096 + b * 64 + c"
  proof (cases "a = 0")
    case True
    with u0 u show ?thesis by simp
  next
    case False
    with u(1) have "1 \<le> a" by simp
    with u(3,5) show ?thesis by linarith
  qed
  show "a * 4096 + b * 64 + c \<le> 0xFFFF" using u by linarith
  show "\<not> (0xD800 \<le> a * 4096 + b * 64 + c \<and> a * 4096 + b * 64 + c \<le> 0xDFFF)"
  proof (cases a "13 :: int" rule: linorder_cases)
    case less
    with u(4,6) have "a * 4096 + b * 64 + c < 0xD800" by linarith
    then show ?thesis by simp
  next
    case equal
    with u u13 show ?thesis by simp
  next
    case greater
    with u(3,5) have "0xDFFF < a * 4096 + b * 64 + c" by linarith
    then show ?thesis by simp
  qed
qed

lemma unit4_range:
  assumes "unit4 a b c d"
  shows "0x10000 \<le> a * 262144 + b * 4096 + c * 64 + d" "a * 262144 + b * 4096 + c * 64 + d \<le> 0x10FFFF"
proof -
  have u: "0 \<le> a" "a < 5" "0 \<le> b" "b < 64" "0 \<le> c" "c < 64" "0 \<le> d" "d < 64"
    and u0: "a = 0 \<Longrightarrow> 16 \<le> b" and u4: "a = 4 \<Longrightarrow> b < 16"
    using assms by (simp_all add: unit4_def)
  show "0x10000 \<le> a * 262144 + b * 4096 + c * 64 + d"
  proof (cases "a = 0")
    case True
    with u0 u show ?thesis by simp
  next
    case False
    with u(1) have "1 \<le> a" by simp
    with u(3,5,7) show ?thesis by linarith
  qed
  show "a * 262144 + b * 4096 + c * 64 + d \<le> 0x10FFFF"
  proof (cases "a = 4")
    case True
    with u4 u show ?thesis by simp
  next
    case False
    with u(2) have "a \<le> 3" by simp
    with u(4,6,8) show ?thesis by linarith
  qed
qed

lemma unit_of_codepoint:
  assumes "scalar_value cp"
  shows "utf8_unit (map char_of (codepoint_bytes cp))"
proof -
  have cp: "0 \<le> cp" "cp \<le> 0x10FFFF" and s: "\<not> (0xD800 \<le> cp \<and> cp \<le> 0xDFFF)"
    using assms by (auto simp: scalar_value_def)
  consider "cp < 0x80" | "0x80 \<le> cp" "cp \<le> 0x7FF" | "0x7FF < cp" "cp \<le> 0xFFFF" | "0xFFFF < cp"
    by linarith
  then show ?thesis
  proof cases
    case 1
    with cp show ?thesis using unit1I [of cp] by (simp add: codepoint_bytes_arith unit1_def)
  next
    case 2
    then have "unit2 (cp div 64) (cp mod 64)" by (simp add: unit2_def) presburger
    with cp 2 show ?thesis using unit2I by (simp add: codepoint_bytes_arith)
  next
    case 3
    have "unit3 (cp div 4096) (cp div 64 mod 64) (cp mod 64)"
      using 3 s digits3 [of cp] mod64 [of "cp div 64"] mod64 [of cp] unfolding unit3_def by linarith
    with cp 3 show ?thesis using unit3I by (simp add: codepoint_bytes_arith)
  next
    case 4
    have "unit4 (cp div 262144) (cp div 4096 mod 64) (cp div 64 mod 64) (cp mod 64)"
      using 4 cp digits4 [of cp] mod64 [of "cp div 4096"] mod64 [of "cp div 64"] mod64 [of cp]
      unfolding unit4_def by linarith
    with cp 4 show ?thesis using unit4I by (simp add: codepoint_bytes_arith)
  qed
qed

lemma codepoint_bytes2:
  assumes "0x80 \<le> cp" "cp \<le> 0x7FF" "cp div 64 = a" "cp mod 64 = b"
  shows "codepoint_bytes cp = [0xC0 + a, 0x80 + b]"
  using assms by (simp add: codepoint_bytes_arith)

lemma codepoint_bytes3:
  assumes "0x800 \<le> cp" "cp \<le> 0xFFFF" "cp div 4096 = a" "cp div 64 mod 64 = b" "cp mod 64 = c"
  shows "codepoint_bytes cp = [0xE0 + a, 0x80 + b, 0x80 + c]"
  using assms by (simp add: codepoint_bytes_arith)

lemma codepoint_bytes4:
  assumes "0x10000 \<le> cp" "cp \<le> 0x10FFFF" "cp div 262144 = a" "cp div 4096 mod 64 = b"
    "cp div 64 mod 64 = c" "cp mod 64 = d"
  shows "codepoint_bytes cp = [0xF0 + a, 0x80 + b, 0x80 + c, 0x80 + d]"
  using assms by (simp add: codepoint_bytes_arith)

lemma codepoint_of_unit:
  assumes "utf8_unit u"
  shows "\<exists>cp. scalar_value cp \<and> u = map char_of (codepoint_bytes cp)"
  using assms
proof (cases rule: unit_cases)
  case (One a)
  then show ?thesis
    by (intro exI [of _ a]) (auto simp: unit1_def scalar_value_def codepoint_bytes_arith)
next
  case (Two a b)
  let ?cp = "a * 64 + b"
  have b: "2 \<le> a" "a < 32" "0 \<le> b" "b < 64" using Two(1) by (simp_all add: unit2_def)
  have r: "0x80 \<le> ?cp" "?cp \<le> 0x7FF" using b by linarith+
  note u = undigits [OF b(3,4) order_refl zero_less_numeral order_refl zero_less_numeral]
  have "u = map char_of (codepoint_bytes ?cp)"
    unfolding codepoint_bytes2 [OF r u(1) u(2)] by (simp only: Two(2) list.map)
  moreover have "scalar_value ?cp" unfolding scalar_value_def using r by linarith
  ultimately show ?thesis by blast
next
  case (Three a b c)
  let ?cp = "a * 4096 + b * 64 + c"
  note r = unit3_range [OF Three(1)]
  have b: "0 \<le> b" "b < 64" "0 \<le> c" "c < 64" using Three(1) by (simp_all add: unit3_def)
  note u = undigits [OF b order_refl zero_less_numeral]
  have m: "?cp div 64 mod 64 = b" unfolding u(4) by (rule u(2))
  have "u = map char_of (codepoint_bytes ?cp)"
    unfolding codepoint_bytes3 [OF r(1,2) u(3) m u(5)] by (simp only: Three(2) list.map)
  moreover have "scalar_value ?cp" unfolding scalar_value_def using r by linarith
  ultimately show ?thesis by blast
next
  case (Four a b c d)
  let ?cp = "a * 262144 + b * 4096 + c * 64 + d"
  note r = unit4_range [OF Four(1)]
  have b: "0 \<le> b" "b < 64" "0 \<le> c" "c < 64" "0 \<le> d" "d < 64"
    using Four(1) by (simp_all add: unit4_def)
  note u = undigits [OF b]
  have m: "?cp div 4096 mod 64 = b" "?cp div 64 mod 64 = c"
    unfolding u(7,8) by (rule u(2), rule u(5))
  have "u = map char_of (codepoint_bytes ?cp)"
    unfolding codepoint_bytes4 [OF r u(6) m u(9)] by (simp only: Four(2) list.map)
  moreover have "scalar_value ?cp" unfolding scalar_value_def using r by linarith
  ultimately show ?thesis by blast
qed

end
