(* ===== verification/Json_Decode.thy ===== *)
theory Json_Decode
  imports Json_Utf8
begin

text \<open>
  The table-driven decoder of the serializer follows the byte ranges of the lexer: every
  state stands for the ranges of the bytes that are still missing, and a whole unit leaves
  its code point behind.
\<close>

unbundle bit_operations_syntax

section \<open>The table of the decoder\<close>

definition utf8_type :: "nat \<Rightarrow> nat" where
  "utf8_type n =
     (if n < 0x80 then 0 else if n < 0x90 then 1 else if n < 0xA0 then 9 else if n < 0xC0 then 7
      else if n < 0xC2 then 8 else if n < 0xE0 then 2 else if n = 0xE0 then 10 else if n = 0xED then 4
      else if n < 0xF0 then 3 else if n = 0xF0 then 11 else if n < 0xF4 then 6 else if n = 0xF4 then 5
      else 8)"

lemma utf8d_types: "map (\<lambda>n. utf8d ! n) [0 ..< 256] = map utf8_type [0 ..< 256]"
  by code_simp

lemma utf8d_type: "n < 256 \<Longrightarrow> utf8d ! n = utf8_type n"
  using arg_cong [OF utf8d_types, of "\<lambda>xs. xs ! n"] by simp

text \<open>A state other than rejection stands for the ranges of the bytes that are still missing.\<close>

definition known_ranges :: "(int \<times> int) list list" where
  "known_ranges =
     [[(0x80, 0xBF)], [(0x80, 0xBF), (0x80, 0xBF)], [(0xA0, 0xBF), (0x80, 0xBF)],
      [(0x80, 0x9F), (0x80, 0xBF)], [(0x90, 0xBF), (0x80, 0xBF), (0x80, 0xBF)],
      [(0x80, 0xBF), (0x80, 0xBF), (0x80, 0xBF)], [(0x80, 0x8F), (0x80, 0xBF), (0x80, 0xBF)]]"

fun index_of :: "'a \<Rightarrow> 'a list \<Rightarrow> nat" where
  "index_of x [] = 0"
| "index_of x (y # ys) = (if x = y then 0 else Suc (index_of x ys))"

definition range_state :: "(int \<times> int) list \<Rightarrow> nat" where
  "range_state rs = (if rs = [] then utf8_accept else 2 + index_of rs known_ranges)"

definition type_bytes :: "nat \<Rightarrow> (int \<times> int) option" where
  "type_bytes t =
     (if t = 1 then Some (0x80, 0x8F) else if t = 9 then Some (0x90, 0x9F)
      else if t = 7 then Some (0xA0, 0xBF) else None)"

definition type_ranges :: "nat \<Rightarrow> (int \<times> int) list option" where
  "type_ranges t =
     (if t = 0 then Some [] else if t = 2 then Some [(0x80, 0xBF)]
      else if t = 10 then Some [(0xA0, 0xBF), (0x80, 0xBF)]
      else if t = 3 then Some [(0x80, 0xBF), (0x80, 0xBF)]
      else if t = 4 then Some [(0x80, 0x9F), (0x80, 0xBF)]
      else if t = 11 then Some [(0x90, 0xBF), (0x80, 0xBF), (0x80, 0xBF)]
      else if t = 6 then Some [(0x80, 0xBF), (0x80, 0xBF), (0x80, 0xBF)]
      else if t = 5 then Some [(0x80, 0x8F), (0x80, 0xBF), (0x80, 0xBF)] else None)"

definition next_state :: "(int \<times> int) list \<Rightarrow> nat \<Rightarrow> nat" where
  "next_state rs t =
     (case rs of
        [] \<Rightarrow> (case type_ranges t of None \<Rightarrow> utf8_reject | Some rs \<Rightarrow> range_state rs)
      | (lo, hi) # rs' \<Rightarrow>
          (case type_bytes t of None \<Rightarrow> utf8_reject
           | Some (l, h) \<Rightarrow> if lo \<le> l \<and> h \<le> hi then range_state rs' else utf8_reject))"

lemma utf8d_steps:
  "map (\<lambda>rs. map (\<lambda>t. utf8d ! (256 + range_state rs * 16 + t)) [0 ..< 12]) ([] # known_ranges) =
   map (\<lambda>rs. map (next_state rs) [0 ..< 12]) ([] # known_ranges)"
  by code_simp

lemma utf8d_step:
  assumes "rs = [] \<or> rs \<in> set known_ranges" "t < 12"
  shows "utf8d ! (256 + range_state rs * 16 + t) = next_state rs t"
proof -
  have "map (\<lambda>t. utf8d ! (256 + range_state rs * 16 + t)) [0 ..< 12] = map (next_state rs) [0 ..< 12]"
    using utf8d_steps assms(1) by (subst (asm) map_eq_conv) auto
  with assms(2) show ?thesis by (subst (asm) map_eq_conv) simp
qed

lemma of_char_int: "int (of_char c) = of_char c"
  by (rule of_nat_of_char)

lemma utf8_type_less: "utf8_type n < 12"
  by (simp add: utf8_type_def)

lemma type_ranges_lead:
  "n < 256 \<Longrightarrow> type_ranges (utf8_type n) = (if int n < 0x80 then Some [] else utf8_ranges (int n))"
  by (simp add: utf8_type_def type_ranges_def utf8_ranges_def)

lemma known_tails: "(lo, hi) # rs \<in> set known_ranges \<Longrightarrow> rs = [] \<or> rs \<in> set known_ranges"
  by (auto simp: known_ranges_def)

lemma type_bytes_in:
  assumes "(lo, hi) # rs \<in> set known_ranges" "n < 256"
  shows "(case type_bytes (utf8_type n) of None \<Rightarrow> False | Some (l, h) \<Rightarrow> lo \<le> l \<and> h \<le> hi) \<longleftrightarrow>
    lo \<le> int n \<and> int n \<le> hi"
proof -
  have "(lo, hi) \<in> {(0x80, 0xBF), (0xA0, 0xBF), (0x80, 0x9F), (0x90, 0xBF), (0x80, 0x8F)}"
    using assms(1) by (auto simp: known_ranges_def)
  with assms(2) show ?thesis by (auto simp: type_bytes_def utf8_type_def)
qed

lemma utf8_ranges_known: "utf8_ranges c = Some rs \<Longrightarrow> rs \<in> set known_ranges"
  by (auto simp: utf8_ranges_def known_ranges_def split: if_splits)

text \<open>The state after a byte.\<close>

definition ranges_after :: "(int \<times> int) list \<Rightarrow> char \<Rightarrow> (int \<times> int) list option" where
  "ranges_after rs c =
     (case rs of
        [] \<Rightarrow> if (of_char c :: int) < 0x80 then Some [] else utf8_ranges (of_char c)
      | (lo, hi) # rs' \<Rightarrow> if lo \<le> of_char c \<and> of_char c \<le> hi then Some rs' else None)"

lemma decode_state:
  assumes "rs = [] \<or> rs \<in> set known_ranges"
  shows "fst (decode (range_state rs) cp c) =
    (case ranges_after rs c of None \<Rightarrow> utf8_reject | Some rs' \<Rightarrow> range_state rs')"
proof -
  let ?n = "of_char c :: nat"
  have "fst (decode (range_state rs) cp c) = next_state rs (utf8_type ?n)"
    using utf8d_step [OF assms utf8_type_less] by (simp add: decode_def Let_def utf8d_type nat_of_char_less_256)
  also have "\<dots> = (case ranges_after rs c of None \<Rightarrow> utf8_reject | Some rs' \<Rightarrow> range_state rs')"
  proof (cases rs)
    case Nil
    then show ?thesis
      using type_ranges_lead [OF nat_of_char_less_256 [of c]] of_char_int [of c]
      by (simp add: next_state_def ranges_after_def)
  next
    case (Cons r rs')
    obtain lo hi where r: "r = (lo, hi)" by force
    have "(lo, hi) # rs' \<in> set known_ranges" using assms Cons r by simp
    from type_bytes_in [OF this nat_of_char_less_256 [of c]] show ?thesis
      by (auto simp: of_char_int next_state_def ranges_after_def Cons r split: option.splits if_splits)
  qed
  finally show ?thesis .
qed

lemma ranges_after_known:
  assumes "rs = [] \<or> rs \<in> set known_ranges" "ranges_after rs c = Some rs'"
  shows "rs' = [] \<or> rs' \<in> set known_ranges"
  using assms known_tails
  by (cases rs) (auto simp: ranges_after_def utf8_ranges_known split: if_splits prod.splits)

lemma range_state_simps [simp]:
  "range_state [] = utf8_accept"
  "rs \<noteq> [] \<Longrightarrow> range_state rs \<noteq> utf8_accept" "range_state rs \<noteq> utf8_reject"
  by (auto simp: range_state_def utf8_accept_def utf8_reject_def)

section \<open>The code point of a unit\<close>

lemma unat_decode_cont:
  assumes "unat cp < 2 ^ 20"
  shows "unat ((of_nat n AND 0x3F) OR push_bit 6 cp :: u32) = n mod 64 + 64 * unat cp"
proof -
  have a: "unat (of_nat n AND 0x3F :: u32) = n mod 64"
  proof -
    have "unat (of_nat n AND mask 6 :: u32) = take_bit 6 (take_bit 32 n)"
      by (simp add: take_bit_eq_mask [symmetric] unsigned_take_bit_eq unsigned_of_nat)
    then show ?thesis by (simp add: mask_eq_exp_minus_1 take_bit_eq_mod mod_mod_cancel)
  qed
  have p: "unat (push_bit 6 cp) = 64 * unat cp"
    using assms by (subst unsigned_push_bit_eq) (simp add: push_bit_eq_mult take_bit_eq_mod)
  have "n mod 64 OR 64 * unat cp = n mod 64 + 64 * unat cp"
  proof -
    have "take_bit 6 n OR push_bit 6 (unat cp) = take_bit 6 n + push_bit 6 (unat cp)"
      by (rule disjunctive_add [symmetric]) (auto simp: bit_simps)
    then show ?thesis by (simp add: take_bit_eq_mod push_bit_eq_mult mult.commute)
  qed
  then show ?thesis by (simp add: unsigned_or_eq a p)
qed

lemma decode_cont:
  assumes "state \<noteq> utf8_accept" "unat cp < 2 ^ 20"
  shows "unat (snd (decode state cp c)) = of_char c mod 64 + 64 * unat cp"
  using assms(1) unat_decode_cont [OF assms(2), of "of_char c"]
  by (simp add: decode_def Let_def of_nat_of_char)

definition lead_value :: "nat \<Rightarrow> nat" where
  "lead_value n =
     (if n < 0x80 then n else if n < 0xE0 then n - 0xC0 else if n < 0xF0 then n - 0xE0 else n - 0xF0)"

lemma lead_values:
  "map (\<lambda>n. unat (drop_bit (utf8_type n) 0xFF AND of_nat n :: u32)) ([0 ..< 0x80] @ [0xC2 ..< 0xF5]) =
   map lead_value ([0 ..< 0x80] @ [0xC2 ..< 0xF5])"
  by code_simp

lemma decode_lead:
  assumes "(of_char c :: nat) < 0x80 \<or> 0xC2 \<le> (of_char c :: nat) \<and> (of_char c :: nat) < 0xF5"
  shows "unat (snd (decode utf8_accept cp c)) = lead_value (of_char c)"
proof -
  have "\<forall>n \<in> set ([0 ..< 0x80] @ [0xC2 ..< 0xF5]).
      unat (drop_bit (utf8_type n) 0xFF AND of_nat n :: u32) = lead_value n"
    using lead_values unfolding map_eq_conv .
  moreover have "of_char c \<in> set ([0 ..< 0x80] @ [0xC2 ..< 0xF5])"
    using assms by (simp only: set_append set_upt Un_iff atLeastLessThan_iff) simp
  ultimately have "unat (drop_bit (utf8_type (of_char c)) 0xFF AND of_nat (of_char c) :: u32) = lead_value (of_char c)"
    by blast
  then show ?thesis
    by (simp add: decode_def Let_def utf8d_type of_nat_of_char)
qed

text \<open>The decoder run over a string.\<close>

definition decode_step :: "nat \<times> u32 \<Rightarrow> char \<Rightarrow> nat \<times> u32" where
  "decode_step = (\<lambda>(state, cp) c. decode state cp c)"

lemma decode_step_eqI:
  assumes "rs = [] \<or> rs \<in> set known_ranges" "ranges_after rs c = Some rs'"
    "unat (snd (decode (range_state rs) cp c)) = v"
  shows "decode_step (range_state rs, cp) c = (range_state rs', of_nat v)"
  using decode_state [OF assms(1), of cp c] assms(2,3)
  by (simp add: decode_step_def prod_eq_iff) (metis of_nat_unat ucast_id)

lemma decode_step_lead:
  assumes "ranges_after [] c = Some rs"
  shows "decode_step (utf8_accept, cp) c = (range_state rs, of_nat (lead_value (of_char c)))"
proof -
  have "(of_char c :: nat) < 0x80 \<or> 0xC2 \<le> (of_char c :: nat) \<and> (of_char c :: nat) < 0xF5"
    using assms by (auto simp: ranges_after_def utf8_ranges_def of_char_int [symmetric] split: if_splits)
  from decode_step_eqI [OF _ assms, of cp] decode_lead [OF this] show ?thesis by simp
qed

lemma decode_step_cont:
  assumes "(lo, hi) # rs \<in> set known_ranges" "lo \<le> of_char c" "of_char c \<le> hi" "v < 2 ^ 20"
  shows "decode_step (range_state ((lo, hi) # rs), of_nat v) c =
    (range_state rs, of_nat (of_char c mod 64 + 64 * v))"
proof (rule decode_step_eqI)
  have "unat (of_nat v :: u32) = v" using assms(4) by (intro unat_of_nat_u32) simp
  then show "unat (snd (decode (range_state ((lo, hi) # rs)) (of_nat v) c)) = of_char c mod 64 + 64 * v"
    using decode_cont [of "range_state ((lo, hi) # rs)" "of_nat v" c] assms(4) by simp
qed (use assms in \<open>auto simp: ranges_after_def\<close>)

fun tail_value :: "nat \<Rightarrow> string \<Rightarrow> nat" where
  "tail_value v [] = v"
| "tail_value v (c # cs) = tail_value (of_char c mod 64 + 64 * v) cs"

lemma tail_bound:
  assumes "Suc v * 64 ^ length (r # rs) \<le> 2 ^ 26"
  shows "v < 2 ^ 20" "Suc (of_char c mod 64 + 64 * v) * 64 ^ length rs \<le> 2 ^ 26"
proof -
  have "Suc v * 64 \<le> Suc v * 64 ^ length (r # rs)"
    by (intro mult_le_mono2 self_le_power) simp_all
  also have "\<dots> \<le> 2 ^ 26" by (rule assms)
  finally show "v < 2 ^ 20" by simp
  have "Suc (of_char c mod 64 + 64 * v) * 64 ^ length rs \<le> (64 * Suc v) * 64 ^ length rs"
    by (intro mult_right_mono) (simp_all add: Suc_le_eq)
  also have "\<dots> = Suc v * 64 ^ length (r # rs)" by (simp add: algebra_simps)
  also have "\<dots> \<le> 2 ^ 26" by (rule assms)
  finally show "Suc (of_char c mod 64 + 64 * v) * 64 ^ length rs \<le> 2 ^ 26" .
qed

lemma decode_tail:
  assumes "rs = [] \<or> rs \<in> set known_ranges" "in_ranges rs cs" "Suc v * 64 ^ length rs \<le> 2 ^ 26"
  shows "foldl decode_step (range_state rs, of_nat v) cs = (utf8_accept, of_nat (tail_value v cs))"
  using assms
proof (induction rs cs arbitrary: v rule: in_ranges.induct)
  case (2 lo hi rs c cs)
  have k: "(lo, hi) # rs \<in> set known_ranges" using 2 by simp
  have c: "lo \<le> of_char c" "of_char c \<le> hi" "in_ranges rs cs" using 2(3) by simp_all
  note b = tail_bound [OF 2(4)]
  note IH = 2(1) [OF known_tails [OF k] c(3) b(2)]
  show ?case
    unfolding foldl.simps decode_step_cont [OF k c(1,2) b(1)] IH by simp
qed simp_all

lemma unit_lead:
  assumes "utf8_unit u"
  obtains c cs rs where "u = c # cs" "ranges_after [] c = Some rs" "in_ranges rs cs"
    "rs = [] \<or> rs \<in> set known_ranges"
  using assms utf8_ranges_known
  by (cases u) (auto simp: utf8_unit_def ranges_after_def in_ranges_Nil split: if_splits option.splits)

lemma lead_bound:
  assumes "ranges_after [] c = Some rs"
  shows "Suc (lead_value (of_char c)) * 64 ^ length rs \<le> 2 ^ 26"
  using assms by (auto simp: ranges_after_def utf8_ranges_def lead_value_def of_char_int [symmetric]
      split: if_splits)

lemma decode_unit:
  assumes "utf8_unit u"
  shows "foldl decode_step (utf8_accept, cp) u =
    (utf8_accept, of_nat (tail_value (lead_value (of_char (hd u))) (tl u)))"
proof -
  obtain c cs rs where u: "u = c # cs" "ranges_after [] c = Some rs" "in_ranges rs cs"
    "rs = [] \<or> rs \<in> set known_ranges"
    using unit_lead [OF assms] .
  then show ?thesis
    using decode_step_lead [OF u(2), of cp] decode_tail [OF u(4,3) lead_bound [OF u(2)]] by simp
qed

lemma nat_char_of:
  assumes "0 \<le> x" "x < 256"
  shows "(of_char (char_of (x :: int)) :: nat) = nat x"
proof -
  have "nat (of_char (char_of x) :: int) = of_char (char_of x)" by (rule nat_of_char)
  with assms show ?thesis by simp
qed

lemma cont_char:
  assumes "0 \<le> x" "x < 64"
  shows "(of_char (char_of (0x80 + x :: int)) :: nat) mod 64 = nat x"
proof -
  obtain n where "x = int n" using assms(1) nonneg_int_cases by blast
  then have n: "n < 64" and "(of_char (char_of (0x80 + x)) :: nat) = n + 2 * 64" "nat x = n"
    using assms nat_char_of [of "0x80 + x"] by (simp_all add: nat_add_distrib)
  moreover have "(n + 2 * 64) mod 64 = n" using n by (simp only: mod_mult_self1) simp
  ultimately show ?thesis by (simp only:)
qed

lemma lead_char:
  "0 \<le> x \<Longrightarrow> x < 0x80 \<Longrightarrow> lead_value (of_char (char_of (x :: int))) = nat x"
  "0 \<le> x \<Longrightarrow> x < 32 \<Longrightarrow> lead_value (of_char (char_of (0xC0 + x :: int))) = nat x"
  "0 \<le> x \<Longrightarrow> x < 16 \<Longrightarrow> lead_value (of_char (char_of (0xE0 + x :: int))) = nat x"
  "0 \<le> x \<Longrightarrow> x < 16 \<Longrightarrow> lead_value (of_char (char_of (0xF0 + x :: int))) = nat x"
  by (simp_all add: nat_char_of lead_value_def nat_add_distrib)

lemma digits_nested:
  fixes cp :: int
  shows "cp div 64 mod 64 + 64 * (cp div 4096) = cp div 64"
    "cp div 4096 mod 64 + 64 * (cp div 262144) = cp div 4096"
proof -
  have "cp div 64 div 64 = cp div 4096" "cp div 4096 div 64 = cp div 262144"
    by (simp_all add: zdiv_zmult2_eq [symmetric])
  then show "cp div 64 mod 64 + 64 * (cp div 4096) = cp div 64"
    "cp div 4096 mod 64 + 64 * (cp div 262144) = cp div 4096"
    using mod_mult_div_eq [of "cp div 64" 64] mod_mult_div_eq [of "cp div 4096" 64] by simp_all
qed

lemma nat_intI: "int m = n \<Longrightarrow> m = nat n"
  by auto

lemma tail_values:
  assumes "0 \<le> a" "a < 16" "0 \<le> b" "b < 64" "0 \<le> c" "c < 64" "0 \<le> d" "d < 64"
  shows "tail_value v [char_of (0x80 + b)] = nat b + 64 * v"
    "tail_value v [char_of (0x80 + b), char_of (0x80 + c)] = nat c + 64 * (nat b + 64 * v)"
    "tail_value v [char_of (0x80 + b), char_of (0x80 + c), char_of (0x80 + d)] =
       nat d + 64 * (nat c + 64 * (nat b + 64 * v))"
  using assms by (simp_all add: cont_char)

lemma unit_value:
  assumes "scalar_value cp" "u = map char_of (codepoint_bytes cp)"
  shows "tail_value (lead_value (of_char (hd u))) (tl u) = nat cp"
proof -
  have cp: "0 \<le> cp" "cp \<le> 0x10FFFF" using assms by (simp_all add: scalar_value_def)
  note m = mod64 [THEN conjunct1] mod64 [THEN conjunct2]
  note tv = tail_values [OF order_refl zero_less_numeral m m m]
  consider "cp < 0x80" | "0x80 \<le> cp" "cp \<le> 0x7FF" | "0x7FF < cp" "cp \<le> 0xFFFF" | "0xFFFF < cp"
    by linarith
  then show ?thesis
  proof cases
    case 1
    with cp show ?thesis by (simp add: assms(2) codepoint_bytes_arith lead_char)
  next
    case 2
    have u: "u = [char_of (0xC0 + cp div 64), char_of (0x80 + cp mod 64)]"
      using 2 cp by (simp add: assms(2) codepoint_bytes_arith)
    have l: "lead_value (of_char (char_of (0xC0 + cp div 64))) = nat (cp div 64)"
      using 2 by (intro lead_char) simp_all
    have "nat (cp mod 64) + 64 * nat (cp div 64) = nat cp"
      using cp by (intro nat_intI) (simp add: pos_imp_zdiv_nonneg_iff)
    then show ?thesis unfolding u list.sel tv l .
  next
    case 3
    have u: "u = [char_of (0xE0 + cp div 4096), char_of (0x80 + cp div 64 mod 64), char_of (0x80 + cp mod 64)]"
      using 3 cp by (simp add: assms(2) codepoint_bytes_arith)
    have l: "lead_value (of_char (char_of (0xE0 + cp div 4096))) = nat (cp div 4096)"
      using 3 by (intro lead_char) simp_all
    have "cp mod 64 + 64 * (cp div 64 mod 64 + 64 * (cp div 4096)) = cp" by (simp add: digits_nested)
    with cp have "nat (cp mod 64) + 64 * (nat (cp div 64 mod 64) + 64 * nat (cp div 4096)) = nat cp"
      by (intro nat_intI) (simp add: pos_imp_zdiv_nonneg_iff)
    then show ?thesis unfolding u list.sel tv l .
  next
    case 4
    have u: "u = [char_of (0xF0 + cp div 262144), char_of (0x80 + cp div 4096 mod 64),
        char_of (0x80 + cp div 64 mod 64), char_of (0x80 + cp mod 64)]"
      using 4 cp by (simp add: assms(2) codepoint_bytes_arith)
    have l: "lead_value (of_char (char_of (0xF0 + cp div 262144))) = nat (cp div 262144)"
      using 4 cp by (intro lead_char) simp_all
    have "cp mod 64 + 64 * (cp div 64 mod 64 + 64 * (cp div 4096 mod 64 + 64 * (cp div 262144))) = cp"
      by (simp add: digits_nested)
    with cp have "nat (cp mod 64) + 64 * (nat (cp div 64 mod 64) + 64 * (nat (cp div 4096 mod 64)
        + 64 * nat (cp div 262144))) = nat cp"
      by (intro nat_intI) (simp add: pos_imp_zdiv_nonneg_iff)
    then show ?thesis unfolding u list.sel tv l .
  qed
qed

text \<open>The decoder inverts the encoder: run over the bytes that the lexer writes for an
  escaped code point, it ends in the accepting state with this code point.\<close>

theorem decoder_inverts_encoder:
  assumes "scalar_value cp"
  shows "foldl decode_step (utf8_accept, x) (map char_of (codepoint_bytes cp)) = (utf8_accept, of_int cp)"
proof -
  have "of_nat (nat cp) = (of_int cp :: u32)" using assms by (simp add: scalar_value_def)
  then show ?thesis
    using decode_unit [OF unit_of_codepoint [OF assms], of x] unit_value [OF assms refl] by simp
qed

theorem decoder_inverts_encoder_witness:
  "foldl decode_step (utf8_accept, 0) (map char_of (codepoint_bytes 0x20AC)) = (utf8_accept, of_int 0x20AC)"
  using decoder_inverts_encoder [of "0x20AC" 0] by (simp add: scalar_value_def)

end
