(* ===== verification/Json_Escape.thy ===== *)
theory Json_Escape
  imports Json_Decode
begin

text \<open>
  Facts on \<^verbatim>\<open>dump_escaped\<close>: a valid string is printed unit by unit whatever the buffer does,
  the strict handler accepts the valid strings only, and the buffer of 512 bytes is never
  written past.
\<close>

section \<open>Strings under the strict handler\<close>

definition es_text :: "escaper \<Rightarrow> string" where
  "es_text es = es_out es @ es_buffer es"

lemma write_if_full_text [simp]: "es_text (write_if_full es) = es_text es"
  by (simp add: write_if_full_def es_text_def)

lemma remember_accept_text [simp]: "es_text (remember_accept es) = es_text es"
  by (simp add: remember_accept_def es_text_def)

lemma escape_state_sel [simp]:
  "es_state (write_if_full es) = es_state es" "es_codepoint (write_if_full es) = es_codepoint es"
  "es_state (remember_accept es) = es_state es" "es_codepoint (remember_accept es) = es_codepoint es"
  "es_state (escape_accept ascii c es) = es_state es"
  "es_codepoint (escape_accept ascii c es) = es_codepoint es"
  "es_state (escape_incomplete ascii c es) = es_state es"
  "es_codepoint (escape_incomplete ascii c es) = es_codepoint es"
  by (simp_all add: write_if_full_def remember_accept_def escape_accept_def escape_incomplete_def Let_def)

lemma escape_accept_text:
  "es_text (escape_accept ascii c es) = es_text es @ escape_codepoint ascii (es_codepoint es) c"
proof -
  have "es_text (e\<lparr>es_undumped_chars := 0\<rparr>) = es_text e" for e by (simp add: es_text_def)
  then show ?thesis by (simp add: escape_accept_def) (simp add: es_text_def)
qed

lemma escape_incomplete_text:
  "es_text (escape_incomplete ascii c es) = es_text es @ (if ascii then [] else [c])"
  by (simp add: escape_incomplete_def es_text_def)

lemma decode_char_step:
  "(es_state (decode_char c es), es_codepoint (decode_char c es)) =
     decode_step (es_state es, es_codepoint es) c"
  "es_text (decode_char c es) = es_text es"
  by (simp_all add: decode_char_def decode_step_def es_text_def split: prod.split)

text \<open>What the printed form of one unit is.\<close>

definition unit_codepoint :: "string \<Rightarrow> nat" where
  "unit_codepoint u = tail_value (lead_value (of_char (hd u))) (tl u)"

definition escape_unit :: "bool \<Rightarrow> string \<Rightarrow> string" where
  "escape_unit ascii u =
     (if ascii then [] else butlast u) @ escape_codepoint ascii (of_nat (unit_codepoint u)) (last u)"

lemma range_state_Cons [simp]:
  "range_state (r # rs) \<noteq> utf8_accept" "range_state (r # rs) \<noteq> 0"
  by (simp_all add: range_state_def utf8_accept_def)

lemma escape_loop_tail:
  assumes "rs \<in> set known_ranges" "in_ranges rs cs" "Suc v * 64 ^ length rs \<le> 2 ^ 26"
    "es_state es = range_state rs" "es_codepoint es = of_nat v"
  shows "\<exists>es'. escape_loop handler ascii i (cs @ s) es = escape_loop handler ascii (i + length cs) s es' \<and>
    es_state es' = utf8_accept \<and>
    es_text es' = es_text es @ (if ascii then [] else butlast cs) @
      escape_codepoint ascii (of_nat (tail_value v cs)) (last cs)"
  using assms
proof (induction rs cs arbitrary: v es i rule: in_ranges.induct)
  case (2 lo hi rs c cs)
  have k: "(lo, hi) # rs \<in> set known_ranges" using 2 by simp
  have c: "lo \<le> of_char c" "of_char c \<le> hi" "in_ranges rs cs" using 2(3) by simp_all
  note b = tail_bound [OF 2(4)]
  let ?es = "decode_char c es"
  have st: "es_state ?es = range_state rs" "es_codepoint ?es = of_nat (of_char c mod 64 + 64 * v)"
    using decode_char_step(1) [of c es] decode_step_cont [OF k c(1,2) b(1)] 2(5,6) by simp_all
  show ?case
  proof (cases rs)
    case Nil
    with c have "cs = []" by (simp add: in_ranges_Nil)
    with Nil st show ?thesis
      by (intro exI [of _ "escape_accept ascii c ?es"])
        (simp add: escape_loop.simps(2) escape_accept_text decode_char_step(2))
  next
    case (Cons r rs')
    have kr: "rs \<in> set known_ranges" using known_tails [OF k] Cons by simp
    have s: "es_state (escape_incomplete ascii c ?es) = range_state rs"
      "es_codepoint (escape_incomplete ascii c ?es) = of_nat (of_char c mod 64 + 64 * v)"
      using st by simp_all
    obtain es' where "escape_loop handler ascii (Suc i) (cs @ s) (escape_incomplete ascii c ?es) =
          escape_loop handler ascii (Suc i + length cs) s es'" "es_state es' = utf8_accept"
        "es_text es' = es_text (escape_incomplete ascii c ?es) @ (if ascii then [] else butlast cs) @
          escape_codepoint ascii (of_nat (tail_value (of_char c mod 64 + 64 * v) cs)) (last cs)"
      using 2(1) [OF kr c(3) b(2) s] by blast
    moreover have "escape_loop handler ascii i ((c # cs) @ s) es =
        escape_loop handler ascii (Suc i) (cs @ s) (escape_incomplete ascii c ?es)"
      using st Cons by (simp add: escape_loop.simps(2))
    moreover have "cs \<noteq> []" using c(3) Cons by (cases r; cases cs) auto
    ultimately show ?thesis
      by (intro exI [of _ es']) (simp add: escape_incomplete_text decode_char_step(2))
  qed
qed (auto simp: known_ranges_def)

lemma escape_loop_unit:
  assumes "utf8_unit u" "es_state es = utf8_accept"
  shows "\<exists>es'. escape_loop handler ascii i (u @ s) es = escape_loop handler ascii (i + length u) s es' \<and>
    es_state es' = utf8_accept \<and> es_text es' = es_text es @ escape_unit ascii u"
proof -
  obtain c cs rs where u: "u = c # cs" "ranges_after [] c = Some rs" "in_ranges rs cs"
    "rs = [] \<or> rs \<in> set known_ranges"
    using unit_lead [OF assms(1)] .
  let ?es = "decode_char c es"
  have st: "es_state ?es = range_state rs" "es_codepoint ?es = of_nat (lead_value (of_char c))"
    using decode_char_step(1) [of c es] decode_step_lead [OF u(2)] assms(2) by simp_all
  show ?thesis
  proof (cases rs)
    case Nil
    with u have "cs = []" by (simp add: in_ranges_Nil)
    with Nil st u show ?thesis
      by (intro exI [of _ "escape_accept ascii c ?es"])
        (simp add: escape_loop.simps(2) escape_accept_text decode_char_step(2) escape_unit_def unit_codepoint_def)
  next
    case (Cons r rs')
    with u have k: "rs \<in> set known_ranges" by simp
    have s: "es_state (escape_incomplete ascii c ?es) = range_state rs"
      "es_codepoint (escape_incomplete ascii c ?es) = of_nat (lead_value (of_char c))"
      using st by simp_all
    from escape_loop_tail [OF k u(3) lead_bound [OF u(2)] s, of handler ascii "Suc i" s]
    obtain es' where "escape_loop handler ascii (Suc i) (cs @ s) (escape_incomplete ascii c ?es) =
          escape_loop handler ascii (Suc i + length cs) s es'" "es_state es' = utf8_accept"
        "es_text es' = es_text (escape_incomplete ascii c ?es) @ (if ascii then [] else butlast cs) @
          escape_codepoint ascii (of_nat (tail_value (lead_value (of_char c)) cs)) (last cs)"
      by blast
    moreover have "escape_loop handler ascii i (u @ s) es =
        escape_loop handler ascii (Suc i) (cs @ s) (escape_incomplete ascii c ?es)"
      using st Cons u(1) by (simp add: escape_loop.simps(2))
    moreover have "cs \<noteq> []" using u(3) Cons by (cases r; cases cs) auto
    ultimately show ?thesis
      by (intro exI [of _ es'])
        (simp add: u(1) escape_incomplete_text decode_char_step(2) escape_unit_def unit_codepoint_def)
  qed
qed

lemma escape_loop_units:
  assumes "\<forall>u \<in> set us. utf8_unit u" "es_state es = utf8_accept"
  shows "\<exists>es'. escape_loop handler ascii i (concat us) es = Inr es' \<and>
    es_state es' = utf8_accept \<and> es_text es' = es_text es @ concat (map (escape_unit ascii) us)"
  using assms
proof (induction us arbitrary: es i)
  case (Cons u us)
  then obtain es1 where 1: "escape_loop handler ascii i (u @ concat us) es =
      escape_loop handler ascii (i + length u) (concat us) es1" "es_state es1 = utf8_accept"
      "es_text es1 = es_text es @ escape_unit ascii u"
    using escape_loop_unit [of u es handler ascii i "concat us"] by auto
  moreover obtain es2 where "escape_loop handler ascii (i + length u) (concat us) es1 = Inr es2"
      "es_state es2 = utf8_accept" "es_text es2 = es_text es1 @ concat (map (escape_unit ascii) us)"
    using Cons.IH [OF _ 1(2), of "i + length u"] Cons.prems by auto
  ultimately show ?case by auto
qed simp

text \<open>With every handler a valid string is printed unit by unit.\<close>

lemma dump_escaped_units:
  assumes "\<forall>u \<in> set us. utf8_unit u"
  shows "dump_escaped handler ascii (concat us) = Inr (concat (map (escape_unit ascii) us))"
proof -
  have "es_state escaper_new = utf8_accept" "es_text escaper_new = []"
    by (simp_all add: escaper_new_def es_text_def)
  with escape_loop_units [OF assms, of escaper_new handler ascii 0] show ?thesis
    by (auto simp: dump_escaped_def escape_end_def es_text_def)
qed

text \<open>What the strict handler accepts is valid.\<close>

lemma strict_loop_valid:
  assumes "escape_loop Strict ascii i s es = Inr es'" "es_state es' = utf8_accept"
    "es_state es = range_state rs" "rs = [] \<or> rs \<in> set known_ranges"
  shows "\<exists>t us. s = t @ concat us \<and> in_ranges rs t \<and> (\<forall>u \<in> set us. utf8_unit u)"
  using assms
proof (induction s arbitrary: i es rs)
  case Nil
  then have "rs = []" by (metis escape_loop.simps(1) range_state_simps(2) sum.inject(2))
  then show ?case by (intro exI [of _ "[]"]) simp
next
  case (Cons c s)
  let ?es = "decode_char c es"
  have "es_state ?es = fst (decode (range_state rs) (es_codepoint es) c)"
    using decode_char_step(1) [of c es] Cons.prems(3) by (simp add: decode_step_def prod_eq_iff)
  then have st: "es_state ?es = (case ranges_after rs c of None \<Rightarrow> utf8_reject | Some rs' \<Rightarrow> range_state rs')"
    using decode_state [OF Cons.prems(4)] by simp
  then obtain rs' where r: "ranges_after rs c = Some rs'" "es_state ?es = range_state rs'"
    using Cons.prems(1)
    by (cases "ranges_after rs c") (auto simp: escape_loop.simps(2) utf8_reject_def utf8_accept_def)
  note k = ranges_after_known [OF Cons.prems(4) r(1)]
  let ?es1 = "if rs' = [] then escape_accept ascii c ?es else escape_incomplete ascii c ?es"
  have "escape_loop Strict ascii (Suc i) s ?es1 = Inr es'"
    using Cons.prems(1) r(2) by (cases rs') (simp_all add: escape_loop.simps(2))
  moreover have "es_state ?es1 = range_state rs'" using r(2) by simp
  ultimately obtain t us where t: "s = t @ concat us" "in_ranges rs' t" "\<forall>u \<in> set us. utf8_unit u"
    using Cons.IH [OF _ Cons.prems(2) _ k] by blast
  show ?case
  proof (cases rs)
    case Nil
    with r(1) t have "utf8_unit (c # t)"
      by (auto simp: ranges_after_def utf8_unit_def in_ranges_Nil split: if_splits)
    with t Nil show ?thesis
      by (intro exI [of _ "[]"] exI [of _ "(c # t) # us"]) simp
  next
    case (Cons q qs)
    with r(1) t show ?thesis
      by (intro exI [of _ "c # t"] exI [of _ us]) (auto simp: ranges_after_def split: prod.splits if_splits)
  qed
qed

lemma strict_dump_valid_utf8: "(\<exists>t. dump_escaped Strict ascii s = Inr t) \<longleftrightarrow> valid_utf8 s"
proof
  assume "\<exists>t. dump_escaped Strict ascii s = Inr t"
  then obtain es where "escape_loop Strict ascii 0 s escaper_new = Inr es" "es_state es = utf8_accept"
    by (auto simp: dump_escaped_def escape_end_def split: sum.splits if_splits)
  from strict_loop_valid [OF this, of "[]"] show "valid_utf8 s"
    by (auto simp: escaper_new_def in_ranges_Nil valid_utf8_def)
next
  assume "valid_utf8 s"
  then show "\<exists>t. dump_escaped Strict ascii s = Inr t"
    by (auto simp: valid_utf8_def dump_escaped_units)
qed

text \<open>C33. Under the strict handler \<^verbatim>\<open>dump_escaped\<close> succeeds for exactly the strings that the
  lexer accepts as UTF-8, with and without \<^verbatim>\<open>ensure_ascii\<close>; for all others it throws.\<close>

theorem strict_dump_iff_valid: "(\<exists>t. dump_escaped Strict ascii s = Inr t) \<longleftrightarrow> valid_utf8 s"
  by (rule strict_dump_valid_utf8)

section \<open>The buffer\<close>

text \<open>
  Between two bytes the buffer has room for the longest escape with the terminating zero of
  \<^verbatim>\<open>snprintf\<close>, less what was copied of an unfinished unit.
\<close>

definition escaper_fits :: "bool \<Rightarrow> escaper \<Rightarrow> bool" where
  "escaper_fits ascii es \<longleftrightarrow>
     es_bytes_after_last_accept es \<le> 499 \<and>
     (\<exists>rs. es_state es = range_state rs \<and> (rs = [] \<or> rs \<in> set known_ranges) \<and>
        length (es_buffer es) \<le> (if rs = [] \<or> ascii then 499 else 503 - length rs))"

lemma write_if_full_fits [simp]: "length (es_buffer (write_if_full es)) \<le> 499"
  by (auto simp: write_if_full_def string_buffer_size_def)

lemma unicode_escape_length: "length (unicode_escape x) = 6"
  by (simp add: unicode_escape_def Let_def)

lemma escape_codepoint_length:
  "length (escape_codepoint ascii cp c) \<le> (if ascii then 12 else 6)"
proof -
  have "cp \<le> 0xFFFF" if "cp \<le> 0x1F" using that by (rule order_trans) simp
  then show ?thesis by (auto simp: escape_codepoint_def unicode_escape_length)
qed

lemma replacement_length: "length (replacement ascii) \<le> 6"
  by (simp add: replacement_def)

lemma known_lengths: "rs \<in> set known_ranges \<Longrightarrow> 1 \<le> length rs \<and> length rs \<le> 3"
  by (auto simp: known_ranges_def)

lemma escaper_fits_new: "escaper_fits ascii escaper_new"
  unfolding escaper_fits_def by (intro conjI exI [of _ "[]"]) (simp_all add: escaper_new_def)

lemma escaper_fits_accept:
  assumes "es_state es = utf8_accept"
  shows "escaper_fits ascii (escape_accept ascii c es)"
  using assms unfolding escaper_fits_def
  by (intro conjI exI [of _ "[]"]) (simp_all add: escape_accept_def remember_accept_def)

lemma escaper_fits_reject:
  assumes "es_bytes_after_last_accept es \<le> 499"
  shows "escaper_fits ascii (escape_reject handler ascii es)"
  using assms unfolding escaper_fits_def
  by (intro conjI exI [of _ "[]"]) (auto simp: escape_reject_def remember_accept_def Let_def min_def)

lemma decode_char_state:
  assumes "es_state es = range_state rs" "rs = [] \<or> rs \<in> set known_ranges"
  shows "es_state (decode_char c es) =
    (case ranges_after rs c of None \<Rightarrow> utf8_reject | Some rs' \<Rightarrow> range_state rs')"
proof -
  have "es_state (decode_char c es) = fst (decode (range_state rs) (es_codepoint es) c)"
    using decode_char_step(1) [of c es] assms(1) by (simp add: decode_step_def prod_eq_iff)
  with decode_state [OF assms(2)] show ?thesis by simp
qed

lemma ranges_after_length:
  assumes "ranges_after rs c = Some rs'" "rs' \<noteq> []"
  shows "(rs = [] \<and> length rs' \<le> 3) \<or> length rs = Suc (length rs')"
  using assms by (auto simp: ranges_after_def utf8_ranges_def split: list.splits prod.splits if_splits)

text \<open>C34. The 512 bytes of \<^verbatim>\<open>string_buffer\<close> are never written past: the room that is left between two
  bytes of the string suffices for what the next byte adds, the zero that \<^verbatim>\<open>snprintf\<close> writes
  included, whatever the error handler, and is there again afterwards.\<close>

theorem string_buffer_suffices:
  assumes "escaper_fits ascii es" "es1 = decode_char c es"
  shows "if es_state es1 = utf8_accept
    then length (es_buffer es1) + length (escape_codepoint ascii (es_codepoint es1) c) < string_buffer_size \<and>
      escaper_fits ascii (escape_accept ascii c es1)
    else if es_state es1 = utf8_reject
    then es_bytes_after_last_accept es1 + length (replacement ascii) < string_buffer_size \<and>
      escaper_fits ascii (escape_reject handler ascii es1)
    else length (es_buffer (escape_incomplete ascii c es1)) \<le> string_buffer_size \<and>
      escaper_fits ascii (escape_incomplete ascii c es1)"
proof -
  obtain rs where rs: "es_bytes_after_last_accept es \<le> 499" "es_state es = range_state rs"
    "rs = [] \<or> rs \<in> set known_ranges"
    "length (es_buffer es) \<le> (if rs = [] \<or> ascii then 499 else 503 - length rs)"
    using assms(1) by (auto simp: escaper_fits_def)
  note st = decode_char_state [OF rs(2,3), of c]
  have len: "length (es_buffer es) \<le> (if ascii then 499 else 502)"
    using rs(3,4) known_lengths [of rs] by (auto split: if_splits)
  note es1_def = assms(2)
  have accept: "length (es_buffer es1) + length (escape_codepoint ascii (es_codepoint es1) c) < string_buffer_size \<and>
      escaper_fits ascii (escape_accept ascii c es1)" if "es_state es1 = utf8_accept"
    using len escape_codepoint_length [of ascii "es_codepoint es1" c] escaper_fits_accept [OF that]
    by (auto simp: es1_def string_buffer_size_def split: if_splits)
  have reject: "es_bytes_after_last_accept es1 + length (replacement ascii) < string_buffer_size \<and>
      escaper_fits ascii (escape_reject handler ascii es1)"
    using rs(1) replacement_length [of ascii] escaper_fits_reject [of es1 ascii handler]
    by (simp add: es1_def string_buffer_size_def)
  have incomplete: "length (es_buffer (escape_incomplete ascii c es1)) \<le> string_buffer_size \<and>
      escaper_fits ascii (escape_incomplete ascii c es1)"
    if ne: "es_state es1 \<noteq> utf8_accept" "es_state es1 \<noteq> utf8_reject"
  proof -
    obtain rs' where r: "ranges_after rs c = Some rs'" "es_state es1 = range_state rs'"
      using st ne by (cases "ranges_after rs c") (auto simp: es1_def)
    then have "rs' \<noteq> []" using ne by auto
    then have k: "rs' \<in> set known_ranges" using ranges_after_known [OF rs(3) r(1)] by simp
    have "length (es_buffer (escape_incomplete ascii c es1)) \<le> (if ascii then 499 else 503 - length rs')"
      using rs(4) ranges_after_length [OF r(1) \<open>rs' \<noteq> []\<close>] known_lengths [OF k]
      by (auto simp: escape_incomplete_def es1_def split: if_splits)
    then show ?thesis
      using rs(1) r(2) k \<open>rs' \<noteq> []\<close>
      by (auto simp: escaper_fits_def string_buffer_size_def escape_incomplete_def es1_def Let_def
          intro!: exI [of _ rs'] split: if_splits)
  qed
  from accept reject incomplete show ?thesis by simp
qed

theorem string_buffer_suffices_witness:
  "escaper_fits False (escape_accept False (CHR ''x'') (decode_char (CHR ''x'') escaper_new))"
proof -
  have "es_state (decode_char (CHR ''x'') escaper_new) = utf8_accept" by code_simp
  then show ?thesis
    using string_buffer_suffices [OF escaper_fits_new refl,
        where ascii = False and c = "CHR ''x''" and handler = Strict] by (simp only: if_True)
qed

end
