(* ===== verification/Json_Read_String.thy ===== *)
theory Json_Read_String
  imports Json_Escape
begin

text \<open>
  What a lexer reads next, and strings: the escapes that \<^verbatim>\<open>dump_escaped\<close> writes, with and
  without \<^verbatim>\<open>ensure_ascii\<close>, are read back by \<^verbatim>\<open>scan_string\<close>.
\<close>

unbundle bit_operations_syntax

section \<open>What will be read\<close>

definition reads :: "lexer \<Rightarrow> string \<Rightarrow> bool" where
  "reads lx cs \<longleftrightarrow>
     (if lx_next_unget lx
      then (case cs of
              [] \<Rightarrow> lx_current lx = char_eof \<and> lx_ia lx = []
            | c # cs' \<Rightarrow> lx_current lx = of_char c \<and> lx_ia lx = cs')
      else lx_ia lx = cs)"

lemma reads_new [simp]: "reads (lexer_new s ignore) s"
  by (simp add: reads_def lexer_new_def)

lemma reads_get:
  assumes "reads lx (c # cs)"
  shows "lx_current (lexer_get lx) = of_char c" "reads (lexer_get lx) cs"
  using assms by (simp_all add: reads_def lexer_simps split: if_splits)

lemma reads_get_end:
  assumes "reads lx []"
  shows "lx_current (lexer_get lx) = char_eof" "reads (lexer_get lx) []"
  using assms by (simp_all add: reads_def lexer_simps split: if_splits)

lemma reads_unget: "reads lx cs \<Longrightarrow> reads (lexer_unget (lexer_get lx)) cs"
  by (cases cs) (simp_all add: reads_def lexer_simps split: if_splits)

lemma reads_sel [simp]:
  "reads (lexer_add c lx) cs = reads lx cs"
  "reads (lexer_error m lx) cs = reads lx cs"
  "reads (lexer_reset lx) cs = reads lx cs"
  by (simp_all add: reads_def lexer_add_def lexer_error_def lexer_reset_def split: list.split)

lemma token_buffer_sel [simp]:
  "lx_token_buffer (lexer_add c lx) = lx_token_buffer lx @ [char_of c]"
  "lx_token_buffer (lexer_get lx) = lx_token_buffer lx"
  "lx_token_buffer (lexer_unget lx) = lx_token_buffer lx"
  "lx_token_buffer (lexer_reset lx) = []"
  "lx_token_buffer (lexer_error m lx) = lx_token_buffer lx"
  by (simp_all add: lexer_add_def lexer_simps lexer_reset_def lexer_error_def)

lemma current_sel [simp]:
  "lx_current (lexer_add c lx) = lx_current lx" "lx_current (lexer_reset lx) = lx_current lx"
  by (simp_all add: lexer_add_def lexer_reset_def)

lemma add_codepoint_sel [simp]:
  "reads (add_codepoint cp lx) cs = reads lx cs"
  "lx_token_buffer (add_codepoint cp lx) = lx_token_buffer lx @ map char_of (codepoint_bytes cp)"
proof -
  have "reads (fold lexer_add bs l) cs = reads l cs" for bs l
    by (induction bs arbitrary: l) simp_all
  moreover have "lx_token_buffer (fold lexer_add bs l) = lx_token_buffer l @ map char_of bs" for bs l
    by (induction bs arbitrary: l) simp_all
  ultimately show "reads (add_codepoint cp lx) cs = reads lx cs"
    "lx_token_buffer (add_codepoint cp lx) = lx_token_buffer lx @ map char_of (codepoint_bytes cp)"
    by (simp_all add: add_codepoint_def)
qed

section \<open>Escapes are read back\<close>

lemma hex_digit_int: "n < 16 \<Longrightarrow> (of_char (hex_digit_lower n) :: int) = (if n < 10 then 48 + int n else 87 + int n)"
  by (simp add: hex_digit_lower_def of_char_int [symmetric])

lemma codepoint_loop_digit:
  assumes "reads lx (hex_digit_lower d # cs)" "d < 16"
  shows "codepoint_loop (f # fs) acc lx = codepoint_loop fs (acc + int d * 2 ^ f) (lexer_get lx)"
  using reads_get(1) [OF assms(1)] hex_digit_int [OF assms(2)] assms(2)
  by (simp add: Let_def)

lemma hex4_digits:
  "n < 65536 \<Longrightarrow> n div 4096 * 4096 + n div 256 mod 16 * 256 + n div 16 mod 16 * 16 + n mod 16 = (n :: nat)"
proof -
  have "n div 256 div 16 = n div 4096" "n div 16 div 16 = n div 256" by (simp_all add: div_mult2_eq [symmetric])
  then show ?thesis
    using mod_div_mult_eq [of n 16] mod_div_mult_eq [of "n div 16" 16] mod_div_mult_eq [of "n div 256" 16]
    by linarith
qed

lemma get_codepoint_hex4:
  assumes "reads lx (map (\<lambda>k. hex_digit_lower (n div 16 ^ k mod 16)) [3, 2, 1, 0] @ cs)" "n < 65536"
  shows "\<exists>lx'. get_codepoint lx = (int n, lx') \<and> reads lx' cs \<and> lx_token_buffer lx' = lx_token_buffer lx"
proof -
  let ?l = "\<lambda>k. (lexer_get ^^ k) lx"
  have r0: "reads lx (hex_digit_lower (n div 4096 mod 16) # hex_digit_lower (n div 256 mod 16) #
      hex_digit_lower (n div 16 mod 16) # hex_digit_lower (n mod 16) # cs)"
    using assms(1) by simp
  note r1 = reads_get(2) [OF r0] note r2 = reads_get(2) [OF r1] note r3 = reads_get(2) [OF r2]
  note r4 = reads_get(2) [OF r3]
  have m: "x mod 16 < (16 :: nat)" for x by simp
  have "get_codepoint lx = (int (n div 4096 mod 16) * 4096 + int (n div 256 mod 16) * 256
      + int (n div 16 mod 16) * 16 + int (n mod 16), lexer_get (lexer_get (lexer_get (lexer_get lx))))"
    unfolding get_codepoint_def codepoint_loop_digit [OF r0 m] codepoint_loop_digit [OF r1 m]
      codepoint_loop_digit [OF r2 m] codepoint_loop_digit [OF r3 m] codepoint_loop.simps(1) by simp
  moreover have "n div 4096 mod 16 = n div 4096" using assms(2) by simp
  ultimately have "get_codepoint lx = (int n, lexer_get (lexer_get (lexer_get (lexer_get lx))))"
    using arg_cong [OF hex4_digits [OF assms(2)], of int] by simp
  with r4 show ?thesis by simp
qed

lemma scan_escape_unicode:
  assumes "reads lx (CHR ''u'' # map (\<lambda>k. hex_digit_lower (n div 16 ^ k mod 16)) [3, 2, 1, 0] @ cs)"
    "n < 65536" "n < 0xD800 \<or> 0xDFFF < n"
  shows "\<exists>lx'. scan_escape lx = (True, lx') \<and> reads lx' cs \<and>
    lx_token_buffer lx' = lx_token_buffer lx @ map char_of (codepoint_bytes (int n))"
proof -
  obtain lx' where "get_codepoint (lexer_get lx) = (int n, lx')" "reads lx' cs"
      "lx_token_buffer lx' = lx_token_buffer lx"
    using get_codepoint_hex4 [OF reads_get(2) [OF assms(1)] assms(2)] by auto
  then show ?thesis
    using assms(3) reads_get(1) [OF assms(1)] by (auto simp: scan_escape_def scan_unicode_escape_def Let_def)
qed

lemma scan_escape_surrogates:
  assumes "reads lx (CHR ''u'' # map (\<lambda>k. hex_digit_lower (hi div 16 ^ k mod 16)) [3, 2, 1, 0] @
      CHR 0x5C # CHR ''u'' # map (\<lambda>k. hex_digit_lower (lo div 16 ^ k mod 16)) [3, 2, 1, 0] @ cs)"
    "0xD800 \<le> hi" "hi \<le> 0xDBFF" "0xDC00 \<le> lo" "lo \<le> 0xDFFF"
  shows "\<exists>lx'. scan_escape lx = (True, lx') \<and> reads lx' cs \<and>
    lx_token_buffer lx' = lx_token_buffer lx @
      map char_of (codepoint_bytes (int hi * 2 ^ 10 + int lo - 0x35FDC00))"
proof -
  have "hi < 65536" "lo < 65536" using assms by simp_all
  then obtain l1 where 1: "get_codepoint (lexer_get lx) = (int hi, l1)"
      "reads l1 (CHR 0x5C # CHR ''u'' # map (\<lambda>k. hex_digit_lower (lo div 16 ^ k mod 16)) [3, 2, 1, 0] @ cs)"
      "lx_token_buffer l1 = lx_token_buffer lx"
    using get_codepoint_hex4 [OF reads_get(2) [OF assms(1)]] by auto
  note g = reads_get [OF 1(2)]
  note h = reads_get [OF g(2)]
  obtain l2 where 2: "get_codepoint (lexer_get (lexer_get l1)) = (int lo, l2)" "reads l2 cs"
      "lx_token_buffer l2 = lx_token_buffer l1"
    using get_codepoint_hex4 [OF h(2)] \<open>lo < 65536\<close> by auto
  have "scan_low_surrogate (int hi) l1 = (True, add_codepoint (int hi * 2 ^ 10 + int lo - 0x35FDC00) l2)"
    using assms g(1) h(1) by (simp add: scan_low_surrogate_def Let_def 2(1))
  then show ?thesis
    using assms reads_get(1) [OF assms(1)] 1 2
    by (simp add: scan_escape_def scan_unicode_escape_def Let_def)
qed

section \<open>Raw units\<close>

lemma ranges_loop_reads:
  assumes "in_ranges rs cs" "reads lx (cs @ s)"
  shows "\<exists>lx'. ranges_loop rs lx = (True, lx') \<and> reads lx' s \<and> lx_token_buffer lx' = lx_token_buffer lx @ cs"
  using assms
proof (induction rs cs arbitrary: lx rule: in_ranges.induct)
  case (2 lo hi rs c cs)
  let ?lx = "lexer_add (of_char c) (lexer_get lx)"
  have r: "lx_current (lexer_get lx) = of_char c" "reads ?lx (cs @ s)"
    using reads_get [of lx c "cs @ s"] 2(3) by simp_all
  have "in_ranges rs cs" using 2(2) by simp
  from 2(1) [OF this r(2)] 2(2) r(1) show ?case by (simp add: Let_def)
qed simp_all

lemma scan_raw_unit:
  assumes "utf8_unit u" "0x20 \<le> (of_char (hd u) :: int)" "(of_char (hd u) :: int) \<noteq> 0x22"
    "(of_char (hd u) :: int) \<noteq> 0x5C" "lx_current lx = of_char (hd u)" "reads lx (tl u @ s)"
  shows "\<exists>lx'. scan_raw lx = (True, lx') \<and> reads lx' s \<and> lx_token_buffer lx' = lx_token_buffer lx @ u"
proof -
  obtain c cs where u: "u = c # cs" using assms(1) by (cases u) (simp_all add: utf8_unit_def)
  show ?thesis
  proof (cases "(of_char c :: int) < 0x80")
    case True
    then have "cs = []" using assms(1) u by (simp add: utf8_unit_def)
    with True u assms show ?thesis by (simp add: scan_raw_def plain_char_def Let_def)
  next
    case False
    then obtain rs where rs: "utf8_ranges (of_char c) = Some rs" "in_ranges rs cs"
      using assms(1) u by (auto simp: utf8_unit_def split: option.splits)
    have "reads (lexer_add (of_char c) lx) (cs @ s)" using assms(6) u by simp
    from ranges_loop_reads [OF rs(2) this] show ?thesis
      using False rs(1) u assms(5)
      by (auto simp: scan_raw_def plain_char_def Let_def next_byte_in_range_def)
  qed
qed

section \<open>A printed unit is read back\<close>

lemma scan_string_loop_round:
  assumes "reads lx (c # cs)" "(of_char c :: int) \<noteq> 34"
    "(if (of_char c :: int) = 92 then scan_escape (lexer_get lx) else scan_raw (lexer_get lx)) = (True, lx')"
  shows "scan_string_loop lx = scan_string_loop lx'"
  using reads_get(1) [OF assms(1)] assms(2,3)
  by (subst scan_string_loop.simps) (auto simp: Let_def split: if_splits)

definition simple_escapes :: "(nat \<times> char) list" where
  "simple_escapes =
     [(8, CHR ''b''), (9, CHR ''t''), (10, CHR ''n''), (12, CHR ''f''), (13, CHR ''r''),
      (34, CHR 0x22), (92, CHR 0x5C)]"

lemma simple_escapes_cases:
  assumes "(n, x) \<in> set simple_escapes"
  obtains "n = 8" "x = CHR ''b''" | "n = 9" "x = CHR ''t''" | "n = 10" "x = CHR ''n''"
    | "n = 12" "x = CHR ''f''" | "n = 13" "x = CHR ''r''" | "n = 34" "x = CHR 0x22" | "n = 92" "x = CHR 0x5C"
  using assms by (auto simp: simple_escapes_def)

lemma char_of_int_numeral: "char_of (numeral k :: int) = char_of (numeral k :: nat)"
  by (metis char_of_nat of_nat_numeral)

lemma unat_u32_numeral: "n < 2 ^ 32 \<Longrightarrow> unat (of_nat n :: u32) = n"
  by (rule unat_of_nat_u32) simp

lemma surrogates_unat:
  fixes w :: u32
  assumes "unat w = n" "n \<le> 0x10FFFF"
  shows "unat (0xD7C0 + drop_bit 10 w) = 0xD7C0 + n div 1024" "unat (0xDC00 + (w AND 0x3FF)) = 0xDC00 + n mod 1024"
proof -
  have d: "unat (drop_bit 10 w) = n div 1024"
    using assms(1) by (simp add: unsigned_drop_bit_eq drop_bit_eq_div unat_div_distrib)
  have "w AND mask 10 = take_bit 10 w" by (simp add: take_bit_eq_mask)
  then have "w AND 0x3FF = take_bit 10 w" by (simp add: mask_eq_exp_minus_1)
  then have m: "unat (w AND 0x3FF) = n mod 1024"
    using assms(1) by (simp add: unsigned_take_bit_eq take_bit_eq_mod unat_mod_distrib)
  have "n div 1024 \<le> 0x10FFFF div 1024" using assms(2) by (rule div_le_mono)
  then show "unat (0xD7C0 + drop_bit 10 w) = 0xD7C0 + n div 1024"
    by (subst unat_add_lem [THEN iffD1]) (simp_all add: d)
  have "n mod 1024 < 1024" by simp
  then show "unat (0xDC00 + (w AND 0x3FF)) = 0xDC00 + n mod 1024"
    by (subst unat_add_lem [THEN iffD1]) (simp_all add: m)
qed

lemma escape_codepoint_cases:
  assumes "w = of_nat n" "n \<le> 0x10FFFF"
  obtains (Simple) x where "(n, x) \<in> set simple_escapes" "escape_codepoint ascii w c = [CHR 0x5C, x]"
    | (Hex) "n < 65536" "n < 0x20 \<or> ascii \<and> 0x7F \<le> n"
        "escape_codepoint ascii w c =
           CHR 0x5C # CHR ''u'' # map (\<lambda>k. hex_digit_lower (n div 16 ^ k mod 16)) [3, 2, 1, 0]"
    | (Surrogates) "ascii" "65536 \<le> n" "escape_codepoint ascii w c =
           CHR 0x5C # CHR ''u'' # map (\<lambda>k. hex_digit_lower ((0xD7C0 + n div 1024) div 16 ^ k mod 16)) [3, 2, 1, 0] @
           CHR 0x5C # CHR ''u'' # map (\<lambda>k. hex_digit_lower ((0xDC00 + n mod 1024) div 16 ^ k mod 16)) [3, 2, 1, 0]"
    | (Copy) "escape_codepoint ascii w c = [c]" "0x20 \<le> n" "n \<noteq> 34" "n \<noteq> 92" "ascii \<longrightarrow> n < 0x7F"
proof -
  have w: "unat w = n" using assms by (simp add: unat_u32_numeral)
  have eq: "w = of_nat k \<longleftrightarrow> n = k" if "k < 2 ^ 32" for k
    using w unat_u32_numeral [OF that] assms(1) by metis
  have eqs: "w = 0x08 \<longleftrightarrow> n = 8" "w = 0x09 \<longleftrightarrow> n = 9" "w = 0x0A \<longleftrightarrow> n = 10" "w = 0x0C \<longleftrightarrow> n = 12"
    "w = 0x0D \<longleftrightarrow> n = 13" "w = 0x22 \<longleftrightarrow> n = 34" "w = 0x5C \<longleftrightarrow> n = 92"
    using eq [of 8] eq [of 9] eq [of 10] eq [of 12] eq [of 13] eq [of 34] eq [of 92] by simp_all
  have le: "w \<le> 0x1F \<longleftrightarrow> n \<le> 0x1F" "w \<le> 0xFFFF \<longleftrightarrow> n \<le> 0xFFFF" "0x7F \<le> w \<longleftrightarrow> 0x7F \<le> n"
    by (simp_all add: word_le_nat_alt w)
  show ?thesis
  proof (cases "n \<in> fst ` set simple_escapes")
    case True
    then obtain x where x: "(n, x) \<in> set simple_escapes" by auto
    then have "escape_codepoint ascii w c = [CHR 0x5C, x]"
      by (elim simple_escapes_cases) (simp_all only: escape_codepoint_def eqs if_True if_False, simp_all)
    with x show ?thesis by (rule Simple)
  next
    case False
    then have c: "escape_codepoint ascii w c =
        (if n \<le> 0x1F \<or> ascii \<and> 0x7F \<le> n
         then (if n \<le> 0xFFFF then unicode_escape w
               else unicode_escape (0xD7C0 + drop_bit 10 w) @ unicode_escape (0xDC00 + (w AND 0x3FF)))
         else [c])"
      by (simp add: simple_escapes_def escape_codepoint_def eqs le)
    show ?thesis
    proof (cases "n \<le> 0x1F \<or> ascii \<and> 0x7F \<le> n")
      case esc: True
      show ?thesis
      proof (cases "n \<le> 0xFFFF")
        case True
        with esc c w show ?thesis by (intro Hex) (auto simp: unicode_escape_def)
      next
        case big: False
        have "n div 1024 \<le> 0x10FFFF div 1024" using assms(2) by (rule div_le_mono)
        then have hi: "(0xD7C0 + n div 1024) mod 65536 = 0xD7C0 + n div 1024" by simp
        have "n mod 1024 < 1024" by simp
        then have lo: "(0xDC00 + n mod 1024) mod 65536 = 0xDC00 + n mod 1024" by simp
        from big esc show ?thesis
          by (intro Surrogates) (simp_all only: c unicode_escape_def Let_def surrogates_unat [OF w assms(2)] hi lo
              if_True if_False append_Cons append_Nil append_assoc, simp_all)
      qed
    next
      case False
      with \<open>n \<notin> fst ` set simple_escapes\<close> c show ?thesis by (intro Copy) (auto simp: simple_escapes_def)
    qed
  qed
qed

lemma scan_escape_simple:
  assumes "(n, x) \<in> set simple_escapes" "reads lx (x # s)"
  shows "\<exists>lx'. scan_escape lx = (True, lx') \<and> reads lx' s \<and> lx_token_buffer lx' = lx_token_buffer lx @ [char_of (int n)]"
  using assms(1) reads_get [OF assms(2)]
  by (elim simple_escapes_cases) (auto simp: scan_escape_def Let_def char_of_int_numeral)

lemma unit_code:
  assumes "utf8_unit u"
  obtains n where "unit_codepoint u = n" "n \<le> 0x10FFFF" "n < 0xD800 \<or> 0xDFFF < n"
    "u = map char_of (codepoint_bytes (int n))"
proof -
  obtain cp where cp: "scalar_value cp" "u = map char_of (codepoint_bytes cp)"
    using codepoint_of_unit [OF assms] by auto
  then have "unit_codepoint u = nat cp" "int (nat cp) = cp"
    using unit_value [OF cp] by (simp_all add: unit_codepoint_def scalar_value_def)
  moreover have "nat cp \<le> 0x10FFFF" "nat cp < 0xD800 \<or> 0xDFFF < nat cp"
    using cp(1) by (auto simp: scalar_value_def)
  ultimately show ?thesis using that [of "nat cp"] cp(2) by simp
qed

lemma unit_single:
  assumes "utf8_unit u" "(of_char (hd u) :: int) < 0x80"
  shows "u = [hd u]" "int (unit_codepoint u) = of_char (hd u)"
proof -
  show u: "u = [hd u]" using assms by (cases u) (simp_all add: utf8_unit_def)
  have "(of_char (hd u) :: nat) < 0x80" using assms(2) by (simp add: of_char_int [symmetric])
  then have "unit_codepoint u = of_char (hd u)"
    by (subst u) (simp add: unit_codepoint_def lead_value_def)
  then show "int (unit_codepoint u) = of_char (hd u)" by (simp only: of_char_int)
qed

lemma small_unit:
  assumes "n < 0x80"
  shows "map char_of (codepoint_bytes (int n)) = [char_of (int n)]"
  using assms by (simp add: codepoint_bytes_def)

lemma scan_unit:
  assumes u: "utf8_unit u" and r: "reads lx (escape_unit ascii u @ s)"
  shows "\<exists>lx'. scan_string_loop lx = scan_string_loop lx' \<and> reads lx' s \<and>
    lx_token_buffer lx' = lx_token_buffer lx @ u"
proof -
  obtain n where n: "unit_codepoint u = n" "n \<le> 0x10FFFF" "n < 0xD800 \<or> 0xDFFF < n"
    "u = map char_of (codepoint_bytes (int n))"
    using unit_code [OF u] .
  have single: "butlast u = []" if "n < 0x80" using n(4) small_unit [OF that] by simp
  have esc: "\<exists>lx'. scan_string_loop lx = scan_string_loop lx' \<and> reads lx' s \<and>
      lx_token_buffer lx' = lx_token_buffer lx @ u"
    if "reads lx (CHR 0x5C # t)" and
      "\<exists>lx'. scan_escape (lexer_get lx) = (True, lx') \<and> reads lx' s \<and>
        lx_token_buffer lx' = lx_token_buffer (lexer_get lx) @ u" for t
  proof -
    from that(2) obtain lx' where l: "scan_escape (lexer_get lx) = (True, lx')" "reads lx' s"
      "lx_token_buffer lx' = lx_token_buffer lx @ u" by auto
    have "scan_string_loop lx = scan_string_loop lx'"
      by (rule scan_string_loop_round [OF that(1)]) (simp_all add: l(1))
    with l show ?thesis by blast
  qed
  from n(1,2) show ?thesis
  proof (cases rule: escape_codepoint_cases [where n = n and w = "of_nat n" and ascii = ascii and c = "last u",
      OF refl n(2), case_names Simple Hex Surrogates Copy])
    case (Simple x)
    then have "n < 0x80" by (auto elim: simple_escapes_cases)
    then have "butlast u = []" by (rule single)
    then have eq: "escape_unit ascii u = [CHR 0x5C, x]"
      using Simple(2) by (simp add: escape_unit_def n(1))
    have eq2: "u = [char_of (int n)]" using n(4) unfolding small_unit [OF \<open>n < 0x80\<close>] .
    have r1: "reads lx (CHR 0x5C # x # s)" using r eq by simp
    show ?thesis
      using esc [OF r1] scan_escape_simple [OF Simple(1) reads_get(2) [OF r1]] unfolding eq2 by blast
  next
    case Hex
    then have eq: "escape_unit ascii u =
        CHR 0x5C # CHR ''u'' # map (\<lambda>k. hex_digit_lower (n div 16 ^ k mod 16)) [3, 2, 1, 0]"
      using single by (auto simp: escape_unit_def n(1))
    note r1 = r [unfolded eq append_Cons]
    show ?thesis
      using esc [OF r1] scan_escape_unicode [OF reads_get(2) [OF r1] Hex(1) n(3)]
      unfolding n(4) [symmetric] by blast
  next
    case Surrogates
    have q: "n div 1024 \<le> 0x10FFFF div 1024" using n(2) by (rule div_le_mono)
    have q2: "65536 div 1024 \<le> n div 1024" using Surrogates(2) by (rule div_le_mono)
    have m: "n mod 1024 < 1024" by simp
    let ?hi = "0xD7C0 + n div 1024" and ?lo = "0xDC00 + n mod 1024"
    have b: "0xD800 \<le> ?hi" "?hi \<le> 0xDBFF" "0xDC00 \<le> ?lo" "?lo \<le> 0xDFFF" using q q2 m by simp_all
    have "int n = int (n div 1024 * 1024 + n mod 1024)" by simp
    then have cp: "int ?hi * 2 ^ 10 + int ?lo - 0x35FDC00 = int n"
      unfolding of_nat_add of_nat_mult by simp
    note eq = Surrogates(3) [folded n(1)]
    have "escape_unit ascii u = escape_codepoint ascii (of_nat n) (last u)"
      using Surrogates(1) by (simp add: escape_unit_def n(1))
    note r1 = r [unfolded this Surrogates(3) append_Cons append_assoc]
    show ?thesis
      using esc [OF r1] scan_escape_surrogates [OF reads_get(2) [OF r1] b]
      unfolding cp n(4) [symmetric] by blast
  next
    case Copy
    have "u \<noteq> []" using u by (auto simp: utf8_unit_def)
    then have eq: "escape_unit ascii u = u"
      using Copy(1,5) single append_butlast_last_id [OF \<open>u \<noteq> []\<close>]
      by (cases ascii) (simp_all add: escape_unit_def n(1))
    have hd: "0x20 \<le> (of_char (hd u) :: int)" "(of_char (hd u) :: int) \<noteq> 0x22" "(of_char (hd u) :: int) \<noteq> 0x5C"
      using unit_single(2) [OF u] Copy(2-4) n(1) by (cases "(of_char (hd u) :: int) < 0x80"; force)+
    have r1: "reads lx (hd u # tl u @ s)" using r eq \<open>u \<noteq> []\<close> by (cases u) simp_all
    obtain lx' where "scan_raw (lexer_get lx) = (True, lx')" "reads lx' s"
      "lx_token_buffer lx' = lx_token_buffer lx @ u"
      using scan_raw_unit [OF u hd reads_get [OF r1]] by auto
    with scan_string_loop_round [OF r1, of lx'] hd show ?thesis by auto
  qed
qed

text \<open>A string printed in quotes is one token.\<close>

lemma scan_string_units:
  assumes "\<forall>u \<in> set us. utf8_unit u" "reads lx (concat (map (escape_unit ascii) us) @ CHR 0x22 # s)"
  shows "\<exists>lx'. scan_string_loop lx = (Value_string, lx') \<and> reads lx' s \<and>
    lx_token_buffer lx' = lx_token_buffer lx @ concat us"
  using assms
proof (induction us arbitrary: lx)
  case Nil
  then have "reads lx (CHR 0x22 # s)" by simp
  from reads_get [OF this] show ?case
    by (subst scan_string_loop.simps) (simp add: Let_def char_eof_def)
next
  case (Cons u us)
  then obtain l1 where 1: "scan_string_loop lx = scan_string_loop l1"
      "reads l1 (concat (map (escape_unit ascii) us) @ CHR 0x22 # s)" "lx_token_buffer l1 = lx_token_buffer lx @ u"
    using scan_unit [of u lx ascii "concat (map (escape_unit ascii) us) @ CHR 0x22 # s"] by auto
  moreover obtain l2 where "scan_string_loop l1 = (Value_string, l2)" "reads l2 s"
      "lx_token_buffer l2 = lx_token_buffer l1 @ concat us"
    using Cons.IH [OF _ 1(2)] Cons.prems(1) by auto
  ultimately show ?case by auto
qed

lemma scan_string_reads_back:
  assumes "dump_escaped Strict ascii s = Inr t" "reads lx (t @ CHR 0x22 # cs)"
  shows "\<exists>lx'. scan_string lx = (Value_string, lx') \<and> reads lx' cs \<and> lx_token_buffer lx' = s"
proof -
  have "valid_utf8 s" using assms(1) strict_dump_valid_utf8 [of ascii s] by blast
  then obtain us where us: "\<forall>u \<in> set us. utf8_unit u" "s = concat us" by (auto simp: valid_utf8_def)
  then have "t = concat (map (escape_unit ascii) us)" using assms(1) dump_escaped_units [OF us(1)] by simp
  then show ?thesis
    using scan_string_units [OF us(1), of "lexer_reset lx" ascii cs] assms(2) us(2)
    by (simp add: scan_string_def)
qed
end
