(* ===== verification/Json_Scan.thy ===== *)
theory Json_Scan
  imports Json_Scan_String
begin

text \<open>
  The rest of the JSON library's lexer: comments, the state machine of number literals,
  literal names, white space, the byte order mark, and \<^verbatim>\<open>scan\<close>, which reads one token.
\<close>

section \<open>Comments\<close>

function scan_line_comment :: "lexer \<Rightarrow> bool \<times> lexer" where
  "scan_line_comment lx =
     (let lx1 = lexer_get lx; c = lx_current lx1
      in if c = 10 \<or> c = 13 \<or> c = char_eof \<or> c = 0 then (True, lx1) else scan_line_comment lx1)"
  by pat_completeness auto

termination
  by (relation "measure lexer_left") (auto simp: lexer_get_left_less)

function scan_block_comment :: "lexer \<Rightarrow> bool \<times> lexer" where
  "scan_block_comment lx =
     (let lx1 = lexer_get lx; c = lx_current lx1
      in if c = char_eof \<or> c = 0
         then (False, lexer_error (''invalid comment; missing closing '' @ [CHR 0x27] @ ''*/'' @ [CHR 0x27]) lx1)
         else if c = 42
         then let lx2 = lexer_get lx1
              in if lx_current lx2 = 47 then (True, lx2) else scan_block_comment (lexer_unget lx2)
         else scan_block_comment lx1)"
  by pat_completeness auto

termination
proof (relation "measure lexer_left", goal_cases)
  case 1
  then show ?case by simp
next
  case (2 lx lx1 c lx2)
  then have "lexer_left lx1 < lexer_left lx" using lexer_get_left_less by simp
  moreover have "lexer_left (lexer_unget lx2) \<le> lexer_left lx1"
    using 2(5) lexer_unget_get_left by simp
  ultimately show ?case by simp
next
  case (3 lx lx1 c)
  then show ?case using lexer_get_left_less by simp
qed

declare scan_line_comment.simps [simp del] scan_block_comment.simps [simp del]

definition scan_comment :: "lexer \<Rightarrow> bool \<times> lexer" where
  "scan_comment lx =
     (let lx1 = lexer_get lx; c = lx_current lx1
      in if c = 47 then scan_line_comment lx1
         else if c = 42 then scan_block_comment lx1
         else (False, lexer_error (''invalid comment; expecting '' @ [CHR 0x27] @ ''/'' @ [CHR 0x27] @
                 '' or '' @ [CHR 0x27] @ ''*'' @ [CHR 0x27] @ '' after '' @ [CHR 0x27] @ ''/'' @ [CHR 0x27]) lx1))"

section \<open>Numbers\<close>

text \<open>The labels \<^verbatim>\<open>scan_number_minus\<close> to \<^verbatim>\<open>scan_number_any2\<close>, and what follows the character
  read there: it is added and a label jumped to, the number ended before it, or it is an
  error.\<close>

datatype number_state =
    N_minus | N_zero | N_any1 | N_decimal1 | N_decimal2 | N_exponent | N_sign | N_any2

datatype number_move = Goto int number_state | Number_done | Number_error string

definition is_digit :: "int \<Rightarrow> bool" where
  "is_digit c \<longleftrightarrow> 48 \<le> c \<and> c \<le> 57"

definition number_init :: "int \<Rightarrow> number_move" where
  "number_init c =
     (if c = 45 then Goto c N_minus else if c = 48 then Goto c N_zero
      else if 49 \<le> c \<and> c \<le> 57 then Goto c N_any1 else Number_error [])"

definition number_minus :: "int \<Rightarrow> number_move" where
  "number_minus c =
     (if c = 48 then Goto c N_zero
      else if 49 \<le> c \<and> c \<le> 57 then Goto c N_any1
      else Number_error (''invalid number; expected digit after '' @ [CHR 0x27] @ ''-'' @ [CHR 0x27]))"

definition number_zero :: "int \<Rightarrow> number_move" where
  "number_zero c =
     (if c = 46 then Goto decimal_point_char N_decimal1
      else if c = 101 \<or> c = 69 then Goto c N_exponent
      else Number_done)"

definition number_any1 :: "int \<Rightarrow> number_move" where
  "number_any1 c =
     (if is_digit c then Goto c N_any1
      else if c = 46 then Goto decimal_point_char N_decimal1
      else if c = 101 \<or> c = 69 then Goto c N_exponent
      else Number_done)"

definition number_decimal1 :: "int \<Rightarrow> number_move" where
  "number_decimal1 c =
     (if is_digit c then Goto c N_decimal2
      else Number_error (''invalid number; expected digit after '' @ [CHR 0x27] @ ''.'' @ [CHR 0x27]))"

definition number_decimal2 :: "int \<Rightarrow> number_move" where
  "number_decimal2 c =
     (if is_digit c then Goto c N_decimal2
      else if c = 101 \<or> c = 69 then Goto c N_exponent
      else Number_done)"

definition number_exponent :: "int \<Rightarrow> number_move" where
  "number_exponent c =
     (if c = 43 \<or> c = 45 then Goto c N_sign
      else if is_digit c then Goto c N_any2
      else Number_error (''invalid number; expected '' @ [CHR 0x27] @ ''+'' @ [CHR 0x27] @ '', '' @
             [CHR 0x27] @ ''-'' @ [CHR 0x27] @ '', or digit after exponent''))"

definition number_sign :: "int \<Rightarrow> number_move" where
  "number_sign c =
     (if is_digit c then Goto c N_any2
      else Number_error ''invalid number; expected digit after exponent sign'')"

definition number_any2 :: "int \<Rightarrow> number_move" where
  "number_any2 c = (if is_digit c then Goto c N_any2 else Number_done)"

fun number_next :: "number_state \<Rightarrow> int \<Rightarrow> number_move" where
  "number_next N_minus c = number_minus c"
| "number_next N_zero c = number_zero c"
| "number_next N_any1 c = number_any1 c"
| "number_next N_decimal1 c = number_decimal1 c"
| "number_next N_decimal2 c = number_decimal2 c"
| "number_next N_exponent c = number_exponent c"
| "number_next N_sign c = number_sign c"
| "number_next N_any2 c = number_any2 c"

lemmas number_next_defs =
  number_init_def number_minus_def number_zero_def number_any1_def number_decimal1_def number_decimal2_def
  number_exponent_def number_sign_def number_any2_def is_digit_def decimal_point_char_def char_eof_def

text \<open>\<^verbatim>\<open>number_type\<close> on entry to a label.\<close>

fun number_type :: "number_state \<Rightarrow> token_type \<Rightarrow> token_type" where
  "number_type N_minus ty = Value_integer"
| "number_type N_decimal1 ty = Value_float"
| "number_type N_exponent ty = Value_float"
| "number_type st ty = ty"

text \<open>The C library's conversions of a string of digits, with a sign for \<^verbatim>\<open>strtoll\<close>: \<open>None\<close> when
  they set \<^verbatim>\<open>errno\<close> because the value is out of range.\<close>

definition strtoull :: "string \<Rightarrow> nat option" where
  "strtoull s = (let v = decimal_value s in if v < 2 ^ 64 then Some v else None)"

definition strtoll :: "string \<Rightarrow> int option" where
  "strtoll s =
     (let v = (if s \<noteq> [] \<and> hd s = CHR ''-'' then - int (decimal_value (tl s)) else int (decimal_value s))
      in if - (2 ^ 63) \<le> v \<and> v < 2 ^ 63 then Some v else None)"

definition scan_number_float :: "(string \<Rightarrow> int option) \<Rightarrow> lexer \<Rightarrow> token_type \<times> lexer" where
  "scan_number_float strtod lx = (Value_float, lx\<lparr>lx_value_float := strtod (lx_token_buffer lx)\<rparr>)"

definition scan_number_done ::
  "(string \<Rightarrow> int option) \<Rightarrow> token_type \<Rightarrow> lexer \<Rightarrow> token_type \<times> lexer"
where
  "scan_number_done strtod ty lx =
     (let lx1 = lexer_unget lx
      in if ty = Value_unsigned
         then (case strtoull (lx_token_buffer lx1) of
                 Some x \<Rightarrow> (Value_unsigned, lx1\<lparr>lx_value_unsigned := x\<rparr>)
               | None \<Rightarrow> scan_number_float strtod lx1)
         else if ty = Value_integer
         then (case strtoll (lx_token_buffer lx1) of
                 Some x \<Rightarrow> (Value_integer, lx1\<lparr>lx_value_integer := x\<rparr>)
               | None \<Rightarrow> scan_number_float strtod lx1)
         else scan_number_float strtod lx1)"

lemma number_next_eof: "number_next st char_eof \<noteq> Goto c st'"
  by (cases st) (auto simp: number_next_defs)

function scan_number_loop ::
  "(string \<Rightarrow> int option) \<Rightarrow> number_state \<Rightarrow> token_type \<Rightarrow> lexer \<Rightarrow> token_type \<times> lexer"
where
  "scan_number_loop strtod st ty lx =
     (let ty1 = number_type st ty; lx1 = lexer_get lx
      in case number_next st (lx_current lx1) of
           Goto c st' \<Rightarrow> scan_number_loop strtod st' ty1 (lexer_add c lx1)
         | Number_done \<Rightarrow> scan_number_done strtod ty1 lx1
         | Number_error msg \<Rightarrow> (Token_parse_error, lexer_error msg lx1))"
  by pat_completeness auto

termination
proof (relation "measure (\<lambda>(_, _, _, lx). lexer_left lx)", goal_cases)
  case (2 strtod st ty lx ty1 lx1 c st')
  then have "lx_current (lexer_get lx) \<noteq> char_eof"
    using number_next_eof by metis
  with 2 show ?case using lexer_get_left_less by simp
qed simp

declare scan_number_loop.simps [simp del]

definition scan_number :: "(string \<Rightarrow> int option) \<Rightarrow> lexer \<Rightarrow> token_type \<times> lexer" where
  "scan_number strtod lx =
     (let lx1 = lexer_reset lx
      in case number_init (lx_current lx1) of
           Goto c st \<Rightarrow> scan_number_loop strtod st Value_unsigned (lexer_add c lx1)
         | Number_done \<Rightarrow> (Token_parse_error, lx1)
         | Number_error msg \<Rightarrow> (Token_parse_error, lexer_error msg lx1))"

section \<open>Literals, white space, tokens\<close>

text \<open>\<^verbatim>\<open>scan_literal\<close>: the first character of the literal is the current one.\<close>

fun literal_loop :: "string \<Rightarrow> token_type \<Rightarrow> lexer \<Rightarrow> token_type \<times> lexer" where
  "literal_loop [] return_type lx = (return_type, lx)"
| "literal_loop (c # cs) return_type lx =
     (let lx1 = lexer_get lx
      in if char_of (lx_current lx1) \<noteq> c then (Token_parse_error, lexer_error ''invalid literal'' lx1)
         else literal_loop cs return_type lx1)"

definition scan_literal :: "string \<Rightarrow> token_type \<Rightarrow> lexer \<Rightarrow> token_type \<times> lexer" where
  "scan_literal literal_text return_type lx = literal_loop (tl literal_text) return_type lx"

definition skip_bom :: "lexer \<Rightarrow> bool \<times> lexer" where
  "skip_bom lx =
     (let lx1 = lexer_get lx
      in if lx_current lx1 = 0xEF
         then let lx2 = lexer_get lx1
              in if lx_current lx2 = 0xBB
                 then let lx3 = lexer_get lx2 in (lx_current lx3 = 0xBF, lx3)
                 else (False, lx2)
         else (True, lexer_unget lx1))"

definition is_whitespace :: "int \<Rightarrow> bool" where
  "is_whitespace c \<longleftrightarrow> c = 32 \<or> c = 9 \<or> c = 10 \<or> c = 13"

function skip_whitespace :: "lexer \<Rightarrow> lexer" where
  "skip_whitespace lx =
     (let lx1 = lexer_get lx in if is_whitespace (lx_current lx1) then skip_whitespace lx1 else lx1)"
  by pat_completeness auto

termination
  by (relation "measure lexer_left") (auto simp: is_whitespace_def char_eof_def intro!: lexer_get_left_less)

declare skip_whitespace.simps [simp del]

lemma skip_whitespace_left_le: "lexer_left (skip_whitespace lx) \<le> lexer_left lx"
proof (induction lx rule: skip_whitespace.induct)
  case (1 lx)
  then show ?case
    using lexer_get_left_le [of lx]
    by (subst skip_whitespace.simps) (auto simp: Let_def intro: le_trans)
qed

lemma skip_whitespace_left_less:
  "lx_current (skip_whitespace lx) \<noteq> char_eof \<Longrightarrow> lexer_left (skip_whitespace lx) < lexer_left lx"
proof (induction lx rule: skip_whitespace.induct)
  case (1 lx)
  show ?case
  proof (cases "is_whitespace (lx_current (lexer_get lx))")
    case True
    have e: "skip_whitespace lx = skip_whitespace (lexer_get lx)"
      using True by (subst skip_whitespace.simps) (simp add: Let_def)
    show ?thesis
      using 1(1) [OF refl True] 1(2) lexer_get_left_le [of lx] by (simp add: e)
  next
    case False
    then have "skip_whitespace lx = lexer_get lx"
      by (subst skip_whitespace.simps) (simp add: Let_def)
    with 1(2) lexer_get_left_less show ?thesis by simp
  qed
qed

lemma scan_line_comment_left: "lexer_left (snd (scan_line_comment lx)) \<le> lexer_left lx"
proof (induction lx rule: scan_line_comment.induct)
  case (1 lx)
  then show ?case
    using lexer_get_left_le [of lx]
    by (subst scan_line_comment.simps) (auto simp: Let_def intro: le_trans)
qed

lemma scan_block_comment_left: "lexer_left (snd (scan_block_comment lx)) \<le> lexer_left lx"
proof (induction lx rule: scan_block_comment.induct)
  case (1 lx)
  let ?a = "lexer_get lx" and ?b = "lexer_get (lexer_get lx)"
  have le: "lexer_left ?a \<le> lexer_left lx" "lexer_left ?b \<le> lexer_left ?a"
    "lexer_left (lexer_unget ?b) \<le> lexer_left ?a"
    by (rule lexer_get_left_le lexer_unget_get_left)+
  show ?case
  proof (cases "lx_current ?a = char_eof \<or> lx_current ?a = 0")
    case True
    then show ?thesis using le by (subst scan_block_comment.simps) (auto simp: Let_def)
  next
    case no_end: False
    show ?thesis
    proof (cases "lx_current ?a = 42")
      case True
      with no_end le 1(1) [OF refl refl no_end True refl] show ?thesis
        by (subst scan_block_comment.simps) (auto simp: Let_def char_eof_def)
    next
      case False
      with no_end le 1(2) [OF refl refl no_end False] show ?thesis
        by (subst scan_block_comment.simps) (auto simp: Let_def)
    qed
  qed
qed

lemma scan_comment_left: "lexer_left (snd (scan_comment lx)) \<le> lexer_left lx"
  using scan_line_comment_left [of "lexer_get lx"] scan_block_comment_left [of "lexer_get lx"]
    lexer_get_left_le [of lx]
  by (simp add: scan_comment_def Let_def)

lemma scan_comment_left_less:
  assumes "scan_comment lx = (True, lx')"
  shows "lexer_left lx' < lexer_left lx"
proof -
  have c: "lx_current (lexer_get lx) \<noteq> char_eof"
    using assms by (auto simp: scan_comment_def Let_def char_eof_def split: if_splits)
  have "lexer_left lx' \<le> lexer_left (lexer_get lx)"
    using assms scan_line_comment_left [of "lexer_get lx"] scan_block_comment_left [of "lexer_get lx"]
    by (auto simp: scan_comment_def Let_def split: if_splits)
  with lexer_get_left_less [OF c] show ?thesis by simp
qed

text \<open>The loop over comments in \<^verbatim>\<open>scan\<close>, from a state after white space.\<close>

function skip_comments :: "lexer \<Rightarrow> bool \<times> lexer" where
  "skip_comments lx =
     (if lx_ignore_comments lx \<and> lx_current lx = 47
      then case scan_comment lx of
             (True, lx1) \<Rightarrow> skip_comments (skip_whitespace lx1)
           | (False, lx1) \<Rightarrow> (False, lx1)
      else (True, lx))"
  by pat_completeness auto

termination
proof (relation "measure lexer_left", goal_cases)
  case (2 lx ok lx1)
  then show ?case
    using scan_comment_left_less [of lx lx1] skip_whitespace_left_le [of lx1] by simp
qed simp

declare skip_comments.simps [simp del]

lemma skip_comments_off [simp]: "\<not> lx_ignore_comments lx \<Longrightarrow> skip_comments lx = (True, lx)"
  by (subst skip_comments.simps) simp

lemma skip_comments_left: "lexer_left (snd (skip_comments lx)) \<le> lexer_left lx"
proof (induction lx rule: skip_comments.induct)
  case (1 lx)
  show ?case
  proof (cases "lx_ignore_comments lx \<and> lx_current lx = 47")
    case True
    obtain ok lx1 where c: "scan_comment lx = (ok, lx1)" by force
    show ?thesis
    proof (cases ok)
      case True
      with c \<open>lx_ignore_comments lx \<and> lx_current lx = 47\<close> 1 [of ok lx1]
        scan_comment_left_less [of lx lx1] skip_whitespace_left_le [of lx1]
      show ?thesis by (subst skip_comments.simps) simp
    next
      case False
      with c \<open>lx_ignore_comments lx \<and> lx_current lx = 47\<close> scan_comment_left [of lx]
      show ?thesis by (subst skip_comments.simps) simp
    qed
  next
    case False
    then show ?thesis by (subst skip_comments.simps) (simp only: if_False snd_conv order_refl)
  qed
qed

text \<open>The switch of \<^verbatim>\<open>scan\<close> over the current character.\<close>

definition scan_token :: "(string \<Rightarrow> int option) \<Rightarrow> lexer \<Rightarrow> token_type \<times> lexer" where
  "scan_token strtod lx =
     (let c = lx_current lx
      in if c = 91 then (Begin_array, lx)
         else if c = 93 then (End_array, lx)
         else if c = 123 then (Begin_object, lx)
         else if c = 125 then (End_object, lx)
         else if c = 58 then (Name_separator, lx)
         else if c = 44 then (Value_separator, lx)
         else if c = 116 then scan_literal ''true'' Literal_true lx
         else if c = 102 then scan_literal ''false'' Literal_false lx
         else if c = 110 then scan_literal ''null'' Literal_null lx
         else if c = 34 then scan_string lx
         else if c = 45 \<or> is_digit c then scan_number strtod lx
         else if c = 0 \<or> c = char_eof then (End_of_input, lx)
         else (Token_parse_error, lexer_error ''invalid literal'' lx))"

definition scan :: "(string \<Rightarrow> int option) \<Rightarrow> lexer \<Rightarrow> token_type \<times> lexer" where
  "scan strtod lx =
     (let (bom_ok, lx1) = (if lx_chars_read_total lx = 0 then skip_bom lx else (True, lx))
      in if \<not> bom_ok
         then (Token_parse_error,
               lexer_error ''invalid BOM; must be 0xEF 0xBB 0xBF if given'' lx1)
         else case skip_comments (skip_whitespace lx1) of
                (False, lx2) \<Rightarrow> (Token_parse_error, lx2)
              | (True, lx2) \<Rightarrow> scan_token strtod lx2)"

section \<open>Each token costs input\<close>

lemma skip_bom_left: "lexer_left (snd (skip_bom lx)) \<le> lexer_left lx"
proof -
  have "lexer_left (lexer_get lx) \<le> lexer_left lx"
    "lexer_left (lexer_get (lexer_get lx)) \<le> lexer_left (lexer_get lx)"
    "lexer_left (lexer_get (lexer_get (lexer_get lx))) \<le> lexer_left (lexer_get (lexer_get lx))"
    "lexer_left (lexer_unget (lexer_get lx)) \<le> lexer_left lx"
    by (rule lexer_get_left_le lexer_unget_get_left)+
  then show ?thesis by (simp add: skip_bom_def Let_def)
qed

lemma literal_loop_left: "lexer_left (snd (literal_loop cs t lx)) \<le> lexer_left lx"
proof (induction cs arbitrary: lx)
  case (Cons c cs)
  show ?case
    using le_trans [OF Cons.IH lexer_get_left_le] lexer_get_left_le [of lx] by (simp add: Let_def)
qed simp

lemma scan_number_done_left: "lexer_left (snd (scan_number_done strtod ty (lexer_get lx))) \<le> lexer_left lx"
proof -
  have "lexer_left (snd (scan_number_done strtod ty l)) = lexer_left (lexer_unget l)" for l
    by (simp add: scan_number_done_def scan_number_float_def Let_def lexer_left_def split: option.split)
  then show ?thesis using lexer_unget_get_left by simp
qed

lemma scan_number_loop_left: "lexer_left (snd (scan_number_loop strtod st ty lx)) \<le> lexer_left lx"
proof (induction strtod st ty lx rule: scan_number_loop.induct)
  case (1 strtod st ty lx)
  show ?case
  proof (cases "number_next st (lx_current (lexer_get lx))")
    case (Goto c st')
    have "lexer_left (snd (scan_number_loop strtod st' (number_type st ty) (lexer_add c (lexer_get lx))))
        \<le> lexer_left lx"
      using 1 [OF refl refl Goto] lexer_get_left_le [of lx] by simp
    with Goto show ?thesis by (subst scan_number_loop.simps) simp
  next
    case Number_done
    then show ?thesis using scan_number_done_left by (subst scan_number_loop.simps) simp
  next
    case (Number_error m)
    then show ?thesis using lexer_get_left_le by (subst scan_number_loop.simps) simp
  qed
qed

lemma scan_token_left: "lexer_left (snd (scan_token strtod lx)) \<le> lexer_left lx"
proof -
  have s: "lexer_left (snd (scan_string lx)) \<le> lexer_left lx"
    using scan_string_loop_left [of "lexer_reset lx"] by (simp add: scan_string_def)
  have n: "lexer_left (snd (scan_number strtod lx)) \<le> lexer_left lx"
  proof (cases "number_init (lx_current (lexer_reset lx))")
    case (Goto c st)
    then show ?thesis
      using scan_number_loop_left [of strtod st Value_unsigned "lexer_add c (lexer_reset lx)"]
      by (simp add: scan_number_def)
  qed (simp_all add: scan_number_def)
  have l: "lexer_left (snd (scan_literal cs t lx)) \<le> lexer_left lx" for cs t
    by (simp only: scan_literal_def literal_loop_left)
  show ?thesis
    by (simp add: scan_token_def Let_def s n l)
qed

lemma scan_left_le: "lexer_left (snd (scan strtod lx)) \<le> lexer_left lx"
proof -
  obtain ok lx1 where b: "(if lx_chars_read_total lx = 0 then skip_bom lx else (True, lx)) = (ok, lx1)"
    by force
  then have 1: "lexer_left lx1 \<le> lexer_left lx"
    using skip_bom_left [of lx] by (auto split: if_splits)
  obtain ok2 lx2 where c: "skip_comments (skip_whitespace lx1) = (ok2, lx2)" by force
  then have 2: "lexer_left lx2 \<le> lexer_left lx1"
    using skip_comments_left [of "skip_whitespace lx1"] skip_whitespace_left_le [of lx1] by simp
  show ?thesis
    using 1 2 scan_token_left [of strtod lx2] by (simp add: scan_def b c split: bool.split)
qed

lemma skip_comments_less:
  assumes "skip_comments (skip_whitespace lx) = (True, lx')" "lx_current lx' \<noteq> char_eof"
  shows "lexer_left lx' < lexer_left lx"
proof (cases "lx_current (skip_whitespace lx) = char_eof")
  case True
  then have "skip_comments (skip_whitespace lx) = (True, skip_whitespace lx)"
    by (subst skip_comments.simps) (simp add: char_eof_def)
  with assms True show ?thesis by simp
next
  case False
  then show ?thesis
    using skip_whitespace_left_less [OF False] skip_comments_left [of "skip_whitespace lx"] assms(1)
    by simp
qed

text \<open>Every token but the end of the input and an error has read at least one character.\<close>

lemma scan_left_less:
  assumes "scan strtod lx = (t, lx')" "t \<noteq> End_of_input" "t \<noteq> Token_parse_error"
  shows "lexer_left lx' < lexer_left lx"
proof -
  obtain ok lx1 where b: "(if lx_chars_read_total lx = 0 then skip_bom lx else (True, lx)) = (ok, lx1)"
    by force
  then have 1: "lexer_left lx1 \<le> lexer_left lx"
    using skip_bom_left [of lx] by (auto split: if_splits)
  obtain ok2 lx2 where c: "skip_comments (skip_whitespace lx1) = (ok2, lx2)" by force
  have ok: "ok" "ok2" and t: "scan_token strtod lx2 = (t, lx')"
    using assms by (auto simp: scan_def b c split: if_splits bool.splits)
  have "lx_current lx2 \<noteq> char_eof"
    using t assms(2) by (auto simp: scan_token_def char_eof_def is_digit_def)
  with c ok have "lexer_left lx2 < lexer_left lx1" using skip_comments_less by simp
  moreover have "lexer_left lx' \<le> lexer_left lx2" using scan_token_left [of strtod lx2] t by simp
  ultimately show ?thesis using 1 by simp
qed

end
