(* ===== verification/Json_Numbers.thy ===== *)
theory Json_Numbers
  imports Json_Read_String Json_Scan
begin

text \<open>
  Integers: \<^verbatim>\<open>dump_integer\<close> writes the decimal representation and stays inside its buffer, and
  \<^verbatim>\<open>scan_number\<close> reads it back.
\<close>

section \<open>Integers are printed in decimal\<close>

lemma nat_to_string_small: "n < 10 \<Longrightarrow> nat_to_string n = [char_of (48 + n)]"
  by (subst nat_to_string.simps) simp

lemma nat_to_string_digit: "10 \<le> n \<Longrightarrow> nat_to_string n = nat_to_string (n div 10) @ [char_of (48 + n mod 10)]"
  by (subst nat_to_string.simps) simp

lemma nat_to_string_pair:
  assumes "100 \<le> n"
  shows "nat_to_string n =
    nat_to_string (n div 100) @ [char_of (48 + n mod 100 div 10), char_of (48 + n mod 100 mod 10)]"
proof -
  have "10 \<le> n div 10" using assms div_le_mono [of 100 n 10] by simp
  then show ?thesis
    using assms by (simp add: nat_to_string_digit [of n] nat_to_string_digit [of "n div 10"] div_mult2_eq [symmetric]
        mod_mult2_eq [of n 10 10, simplified])
qed

lemma length_nat_to_string_4:
  "10000 \<le> n \<Longrightarrow> length (nat_to_string n) = length (nat_to_string (n div 10000)) + 4"
proof -
  assume "10000 \<le> n"
  then have "100 \<le> n div 100" using div_le_mono [of 10000 n 100] by simp
  then show ?thesis
    using \<open>10000 \<le> n\<close> by (simp add: nat_to_string_pair [of n] nat_to_string_pair [of "n div 100"] div_mult2_eq [symmetric])
qed

lemma count_digits_length: "count_digits k x + 1 = k + length (nat_to_string x)"
proof (induction k x rule: count_digits.induct)
  case (1 k x)
  have s: "length (nat_to_string x) = 1" if "x < 10" using that by (simp add: nat_to_string_small)
  have s2: "length (nat_to_string x) = 2" if "10 \<le> x" "x < 100"
    using that by (simp add: nat_to_string_digit [of x] nat_to_string_small)
  have s3: "length (nat_to_string x) = 3" if "100 \<le> x" "x < 1000"
    using that by (simp add: nat_to_string_pair [of x] nat_to_string_small)
  have s4: "length (nat_to_string x) = 4" if "1000 \<le> x" "x < 10000"
  proof -
    have "10 \<le> x div 100" "x div 100 < 100" using that div_le_mono [of 1000 x 100] by simp_all
    then show ?thesis
      using that by (simp add: nat_to_string_pair [of x] nat_to_string_digit [of "x div 100"] nat_to_string_small)
  qed
  show ?case
  proof (cases "x < 10000")
    case True
    then show ?thesis
      using s s2 s3 s4 by (subst count_digits.simps) auto
  next
    case False
    then show ?thesis
      using 1 length_nat_to_string_4 [of x] by (subst count_digits.simps) simp
  qed
qed

lemma digits_to_99_nth:
  "i < 100 \<Longrightarrow> digits_to_99 ! i = [char_of (48 + i div 10), char_of (48 + i mod 10)]"
  by (simp add: digits_to_99_def)

lemma drop_two_updates:
  assumes "2 \<le> p" "p \<le> length buf"
  shows "drop (p - 2) (buf[p - 1 := y, p - 2 := x]) = x # y # drop p buf"
proof (rule nth_equalityI)
  fix i assume "i < length (drop (p - 2) (buf[p - 1 := y, p - 2 := x]))"
  then show "drop (p - 2) (buf[p - 1 := y, p - 2 := x]) ! i = (x # y # drop p buf) ! i"
    using assms by (auto simp: nth_Cons nth_list_update split: nat.split)
qed (use assms in simp)

lemma fill_digits_decimal:
  assumes "p = k + length (nat_to_string v)" "p \<le> length buf"
  shows "fill_digits v p buf = take k buf @ nat_to_string v @ drop p buf"
  using assms
proof (induction v p buf rule: fill_pairs.induct)
  case (1 v p buf)
  show ?case
  proof (cases "100 \<le> v")
    case True
    let ?x = "char_of (48 + v mod 100 div 10)" and ?y = "char_of (48 + v mod 100 mod 10)"
    let ?buf = "buf[p - 1 := ?y, p - 2 := ?x]"
    have d: "digits_to_99 ! (v mod 100) = [?x, ?y]" by (simp add: digits_to_99_nth)
    have p: "p = k + length (nat_to_string (v div 100)) + 2"
      using 1(2) True by (simp add: nat_to_string_pair)
    have "fill_digits v p buf = fill_digits (v div 100) (p - 2) ?buf"
      using True by (simp add: fill_digits_def fill_pairs.simps [of v] d)
    also have "\<dots> = take k ?buf @ nat_to_string (v div 100) @ drop (p - 2) ?buf"
      using 1(1) [OF True refl] p 1(3) by (simp add: d)
    also have "drop (p - 2) ?buf = ?x # ?y # drop p buf"
      using p 1(3) by (intro drop_two_updates) simp_all
    also have "take k ?buf = take k buf" using p by simp
    finally show ?thesis using True by (simp add: nat_to_string_pair)
  next
    case False
    then have f: "fill_pairs v p buf = (v, p, buf)" by (subst fill_pairs.simps) simp
    show ?thesis
    proof (cases "10 \<le> v")
      case True
      then have n: "nat_to_string v = [char_of (48 + v div 10), char_of (48 + v mod 10)]"
        using False by (simp add: nat_to_string_digit [of v] nat_to_string_small)
      then have p: "p = k + 2" using 1(2) by simp
      have "fill_digits v p buf = buf[p - 1 := char_of (48 + v mod 10), p - 2 := char_of (48 + v div 10)]"
        using True False by (simp add: fill_digits_def f digits_to_99_nth)
      also have "\<dots> = take (p - 2) \<dots> @ drop (p - 2) \<dots>" by (rule append_take_drop_id [symmetric])
      also have "\<dots> = take k buf @ nat_to_string v @ drop p buf"
        using drop_two_updates [of p buf] p 1(3) n by simp
      finally show ?thesis .
    next
      case small: False
      then have n: "nat_to_string v = [char_of (48 + v)]" by (simp add: nat_to_string_small)
      then have p: "p = k + 1" using 1(2) by simp
      then have "buf[p - 1 := char_of (48 + v)] = take k buf @ char_of (48 + v) # drop p buf"
        using 1(3) by (simp add: upd_conv_take_nth_drop)
      with small n show ?thesis by (simp add: fill_digits_def f)
    qed
  qed
qed

lemma length_nat_to_string_le: "n < 10 ^ k \<Longrightarrow> 0 < k \<Longrightarrow> length (nat_to_string n) \<le> k"
proof (induction k arbitrary: n)
  case (Suc k)
  show ?case
  proof (cases "n < 10")
    case False
    then have "0 < k" using Suc.prems(1) by (cases k) simp_all
    moreover have "n div 10 < 10 ^ k" using Suc.prems(1) by simp
    ultimately show ?thesis using Suc.IH [of "n div 10"] False by (simp add: nat_to_string_digit [of n])
  qed (simp add: nat_to_string_small)
qed simp

lemma char_zero: "CHR ''0'' = char_of (48 :: nat)"
  by code_simp

definition decimal :: "int \<Rightarrow> string" where
  "decimal x = (if x < 0 then CHR ''-'' # nat_to_string (nat (- x)) else nat_to_string (nat x))"

lemma dump_integer_text:
  assumes "- (2 ^ 63) \<le> x" "x < 2 ^ 64"
  shows "dump_integer number_buffer x = decimal x \<and> length (decimal x) < length number_buffer"
proof -
  have len: "length (nat_to_string (nat \<bar>x\<bar>)) \<le> 20"
    using assms by (intro length_nat_to_string_le) (auto simp: abs_if nat_less_iff)
  have b: "length number_buffer = 64" by (simp add: number_buffer_def)
  consider "x = 0" | "x < 0" | "0 < x" by linarith
  then show ?thesis
  proof cases
    case 1
    then show ?thesis by (simp add: dump_integer_def decimal_def nat_to_string_small b char_zero)
  next
    case 2
    then have s: "remove_sign x = nat (- x)" by (simp add: remove_sign_def)
    have c: "1 + count_digits 1 (nat (- x)) = 1 + length (nat_to_string (nat (- x)))"
      using count_digits_length [of 1 "nat (- x)"] by simp
    have "fill_digits (nat (- x)) (1 + count_digits 1 (nat (- x))) (number_buffer[0 := CHR ''-'']) =
        take 1 (number_buffer[0 := CHR ''-'']) @ nat_to_string (nat (- x)) @
        drop (1 + count_digits 1 (nat (- x))) (number_buffer[0 := CHR ''-''])"
      using c len 2 by (intro fill_digits_decimal) (simp_all add: b)
    moreover have "take 1 (number_buffer[0 := CHR ''-'']) = ''-''" by code_simp
    ultimately show ?thesis
      using 2 c len by (simp add: dump_integer_def decimal_def s b Let_def)
  next
    case 3
    have c: "count_digits 1 (nat x) = length (nat_to_string (nat x))"
      using count_digits_length [of 1 "nat x"] by simp
    have "fill_digits (nat x) (count_digits 1 (nat x)) number_buffer =
        take 0 number_buffer @ nat_to_string (nat x) @ drop (count_digits 1 (nat x)) number_buffer"
      using c len 3 by (intro fill_digits_decimal) (simp_all add: b)
    then show ?thesis
      using 3 c len by (simp add: dump_integer_def decimal_def b Let_def)
  qed
qed

text \<open>C35. Every integer of the two 64-bit types is printed as its decimal representation, the
  smallest one included, and fits into the 64 bytes of \<^verbatim>\<open>number_buffer\<close>.\<close>

theorem dump_integer_decimal:
  assumes "- (2 ^ 63) \<le> x" "x < 2 ^ 64"
  shows "dump_integer number_buffer x = decimal x \<and> length (decimal x) < length number_buffer"
  by (rule dump_integer_text [OF assms])

theorem dump_integer_decimal_witness:
  "dump_integer number_buffer (-9223372036854775808) = decimal (-9223372036854775808)"
  using dump_integer_decimal [of "-9223372036854775808"] by simp

section \<open>Decimal numbers are read back\<close>

lemma digit_chars: "c \<in> set (nat_to_string n) \<Longrightarrow> is_digit (of_char c)"
proof (induction n rule: nat_to_string.induct)
  case (1 n)
  have d: "is_digit (of_char (char_of (48 + k)))" if "k < 10" for k :: nat
    using that by (simp add: is_digit_def of_char_int [symmetric])
  show ?case
  proof (cases "n < 10")
    case True
    with 1(2) d [of n] show ?thesis by (simp add: nat_to_string_small)
  next
    case False
    then have "c \<in> set (nat_to_string (n div 10)) \<or> c = char_of (48 + n mod 10)"
      using 1(2) by (auto simp: nat_to_string_digit [of n])
    then show ?thesis using 1(1) [OF False] d [of "n mod 10"] by auto
  qed
qed

lemma leading_digit: "0 < n \<Longrightarrow> 49 \<le> (of_char (hd (nat_to_string n)) :: int)"
proof (induction n rule: nat_to_string.induct)
  case (1 n)
  show ?case
  proof (cases "n < 10")
    case True
    with 1(2) show ?thesis by (simp add: nat_to_string_small of_char_int [symmetric])
  next
    case False
    with 1 show ?thesis
      by (simp add: nat_to_string_digit [of n] nat_to_string_nonempty)
  qed
qed

lemma reads_values [simp]:
  "reads (lx\<lparr>lx_value_unsigned := n\<rparr>) cs = reads lx cs"
  "reads (lx\<lparr>lx_value_integer := i\<rparr>) cs = reads lx cs"
  by (simp_all add: reads_def split: list.split)

text \<open>What must not follow a number.\<close>

definition number_ends :: "string \<Rightarrow> bool" where
  "number_ends s \<longleftrightarrow>
     (case s of [] \<Rightarrow> True
      | c # cs \<Rightarrow> \<not> is_digit (of_char c) \<and> (of_char c :: int) \<notin> {46, 69, 101})"

lemma number_ends_reads:
  assumes "reads lx s" "number_ends s"
  shows "number_next N_any1 (lx_current (lexer_get lx)) = Number_done"
    "number_next N_zero (lx_current (lexer_get lx)) = Number_done"
proof -
  have "lx_current (lexer_get lx) = char_eof \<or>
      \<not> is_digit (lx_current (lexer_get lx)) \<and> lx_current (lexer_get lx) \<notin> {46, 69, 101}"
  proof (cases s)
    case Nil
    with reads_get_end assms(1) show ?thesis by simp
  next
    case (Cons c cs)
    with reads_get(1) [of lx c cs] assms show ?thesis by (simp add: number_ends_def)
  qed
  then show "number_next N_any1 (lx_current (lexer_get lx)) = Number_done"
    "number_next N_zero (lx_current (lexer_get lx)) = Number_done"
    by (auto simp: number_any1_def number_zero_def char_eof_def is_digit_def)
qed

lemma scan_number_digits:
  assumes "reads lx (ds @ s)" "\<forall>d \<in> set ds. is_digit (of_char d)" "number_ends s"
  shows "\<exists>lx'. scan_number_loop strtod N_any1 ty lx = scan_number_done strtod ty (lexer_get lx') \<and>
    reads lx' s \<and> lx_token_buffer lx' = lx_token_buffer lx @ ds"
  using assms
proof (induction ds arbitrary: lx)
  case Nil
  then have "reads lx s" by simp
  with number_ends_reads(1) [OF this assms(3)] show ?case
    by (intro exI [of _ lx]) (subst scan_number_loop.simps, simp)
next
  case (Cons d ds)
  then have r: "reads lx (d # ds @ s)" by simp
  have d: "is_digit (of_char d)" using Cons.prems(2) by simp
  let ?lx = "lexer_add (of_char d) (lexer_get lx)"
  have "scan_number_loop strtod N_any1 ty lx = scan_number_loop strtod N_any1 ty ?lx"
    using reads_get(1) [OF r] d by (subst scan_number_loop.simps) (simp add: number_any1_def)
  moreover obtain lx' where "scan_number_loop strtod N_any1 ty ?lx = scan_number_done strtod ty (lexer_get lx')"
      "reads lx' s" "lx_token_buffer lx' = lx_token_buffer ?lx @ ds"
    using Cons.IH [of ?lx] reads_get(2) [OF r] Cons.prems by auto
  ultimately show ?case by auto
qed

lemma char_of_int_char [simp]: "char_of (of_char c :: int) = c"
  by (rule char_of_char)

lemma scan_number_nat:
  assumes "reads lx (tl (nat_to_string n) @ s)" "lx_current lx = of_char (hd (nat_to_string n))"
    "number_ends s" "n < 2 ^ 64"
  shows "\<exists>lx'. scan_number strtod lx = (Value_unsigned, lx') \<and> reads lx' s \<and> lx_value_unsigned lx' = n"
proof -
  have finish: "\<exists>lx'. scan_number_done strtod Value_unsigned (lexer_get l) = (Value_unsigned, lx') \<and>
      reads lx' s \<and> lx_value_unsigned lx' = n"
    if "reads l s" "lx_token_buffer l = nat_to_string n" for l
    using reads_unget [OF that(1)] that(2) assms(4)
    by (auto simp: scan_number_done_def Let_def strtoull_def decimal_value_print
        intro!: exI [of _ "lexer_unget (lexer_get l)\<lparr>lx_value_unsigned := n\<rparr>"])
  have hd: "nat_to_string n = hd (nat_to_string n) # tl (nat_to_string n)"
    using nat_to_string_nonempty [of n] by simp
  let ?c = "of_char (hd (nat_to_string n)) :: int"
  let ?lx = "lexer_add ?c (lexer_reset lx)"
  have buf: "lx_token_buffer ?lx = [hd (nat_to_string n)]" by simp
  show ?thesis
  proof (cases "n = 0")
    case True
    then have tl: "tl (nat_to_string n) = []" by (simp add: nat_to_string_small)
    have z: "?c = 48" "reads ?lx s" "lx_token_buffer ?lx = nat_to_string n"
    proof -
      show "?c = 48" using True by (simp add: nat_to_string_small of_char_int [symmetric])
      show "reads ?lx s" using assms(1) tl by simp
      show "lx_token_buffer ?lx = nat_to_string n" unfolding buf by (subst (2) hd) (simp only: tl)
    qed
    have "scan_number strtod lx = scan_number_loop strtod N_zero Value_unsigned ?lx"
      using z(1) assms(2) by (simp add: scan_number_def number_init_def)
    also have "\<dots> = scan_number_done strtod Value_unsigned (lexer_get ?lx)"
      using number_ends_reads(2) [OF z(2) assms(3)] by (subst scan_number_loop.simps) simp
    finally show ?thesis using finish [OF z(2,3)] by simp
  next
    case False
    have "is_digit ?c" using digit_chars [of "hd (nat_to_string n)" n] nat_to_string_nonempty [of n] by simp
    then have d: "49 \<le> ?c" "?c \<le> 57" using leading_digit [of n] False by (simp_all add: is_digit_def)
    have "scan_number strtod lx = scan_number_loop strtod N_any1 Value_unsigned ?lx"
      using d assms(2) by (simp add: scan_number_def number_init_def)
    moreover obtain l where "scan_number_loop strtod N_any1 Value_unsigned ?lx =
        scan_number_done strtod Value_unsigned (lexer_get l)" "reads l s"
        "lx_token_buffer l = lx_token_buffer ?lx @ tl (nat_to_string n)"
      using scan_number_digits [of ?lx "tl (nat_to_string n)" s strtod Value_unsigned] assms(1,3) digit_chars [of _ n]
        list.set_sel(2) [OF nat_to_string_nonempty [of n]] by auto
    ultimately show ?thesis using finish [of l] hd buf by simp
  qed
qed

lemma char_of_int_minus: "char_of (45 :: int) = CHR ''-''"
  by code_simp

lemma scan_number_negative:
  assumes "reads lx (nat_to_string n @ s)" "lx_current lx = 45" "number_ends s" "0 < n" "n \<le> 2 ^ 63"
  shows "\<exists>lx'. scan_number strtod lx = (Value_integer, lx') \<and> reads lx' s \<and> lx_value_integer lx' = - int n"
proof -
  have finish: "\<exists>lx'. scan_number_done strtod Value_integer (lexer_get l) = (Value_integer, lx') \<and>
      reads lx' s \<and> lx_value_integer lx' = - int n"
    if "reads l s" "lx_token_buffer l = CHR ''-'' # nat_to_string n" for l
  proof -
    have "strtoll (CHR ''-'' # nat_to_string n) = Some (- int n)"
      using assms(5) by (simp add: strtoll_def Let_def decimal_value_print)
    then show ?thesis
      using reads_unget [OF that(1)] that(2)
      by (auto simp: scan_number_done_def Let_def
          intro!: exI [of _ "lexer_unget (lexer_get l)\<lparr>lx_value_integer := - int n\<rparr>"])
  qed
  obtain d ds where ds: "nat_to_string n = d # ds" using nat_to_string_nonempty [of n] by (cases "nat_to_string n") auto
  have "is_digit (of_char d)" using digit_chars [of d n] ds by simp
  then have d: "49 \<le> (of_char d :: int)" "(of_char d :: int) \<le> 57"
    using leading_digit [OF assms(4)] ds by (simp_all add: is_digit_def)
  let ?l1 = "lexer_add 45 (lexer_reset lx)"
  let ?l2 = "lexer_add (of_char d) (lexer_get ?l1)"
  have r: "reads ?l1 (d # ds @ s)" using assms(1) ds by simp
  have "scan_number strtod lx = scan_number_loop strtod N_minus Value_unsigned ?l1"
    using assms(2) by (simp add: scan_number_def number_init_def)
  also have "\<dots> = scan_number_loop strtod N_any1 Value_integer ?l2"
    using reads_get(1) [OF r] d by (subst scan_number_loop.simps) (simp add: number_minus_def)
  finally have s: "scan_number strtod lx = scan_number_loop strtod N_any1 Value_integer ?l2" .
  have r2: "reads ?l2 (ds @ s)" using reads_get(2) [OF r] by simp
  have "\<forall>x \<in> set ds. is_digit (of_char x)" using digit_chars [of _ n] ds by simp
  from scan_number_digits [OF r2 this assms(3), of strtod Value_integer] obtain l where
    "scan_number_loop strtod N_any1 Value_integer ?l2 = scan_number_done strtod Value_integer (lexer_get l)"
    "reads l s" "lx_token_buffer l = lx_token_buffer ?l2 @ ds" by auto
  moreover have "lx_token_buffer ?l2 = [CHR ''-'', d]" by (simp add: char_of_int_minus)
  ultimately show ?thesis using finish [of l] s ds by simp
qed
end
