(* ===== verification/Json_Tokens.thy ===== *)
theory Json_Tokens
  imports Json_Numbers
begin

text \<open>What \<^verbatim>\<open>scan\<close> makes of the pieces that \<^verbatim>\<open>dump\<close> writes: each is one token.\<close>

section \<open>Tokens\<close>

lemma scan_first:
  assumes "reads lx (c # cs)" "\<not> is_whitespace (of_char c)" "(of_char c :: int) \<notin> {0xEF, 47}"
  shows "\<exists>l. scan strtod lx = scan_token strtod l \<and> lx_current l = of_char c \<and> reads l cs"
proof -
  obtain l0 where l0: "(if lx_chars_read_total lx = 0 then skip_bom lx else (True, lx)) = (True, l0)"
    "reads l0 (c # cs)"
    using assms(1,3) reads_get(1) [OF assms(1)] reads_unget [OF assms(1)]
    by (cases "lx_chars_read_total lx = 0") (simp_all add: skip_bom_def Let_def)
  note g = reads_get [OF l0(2)]
  have "skip_whitespace l0 = lexer_get l0"
    using g(1) assms(2) by (subst skip_whitespace.simps) (simp add: Let_def)
  moreover have "skip_comments (lexer_get l0) = (True, lexer_get l0)"
    using g(1) assms(3) by (subst skip_comments.simps) simp
  ultimately show ?thesis using g by (auto simp: scan_def l0(1))
qed

lemma scan_end:
  assumes "reads lx []"
  shows "\<exists>l. scan strtod lx = (End_of_input, l) \<and> reads l []"
proof -
  obtain l0 where l0: "(if lx_chars_read_total lx = 0 then skip_bom lx else (True, lx)) = (True, l0)"
    "reads l0 []"
    using assms reads_get_end(1) [OF assms] reads_unget [OF assms]
    by (cases "lx_chars_read_total lx = 0") (simp_all add: skip_bom_def Let_def char_eof_def)
  note g = reads_get_end [OF l0(2)]
  have "skip_whitespace l0 = lexer_get l0"
    using g(1) by (subst skip_whitespace.simps) (simp add: Let_def is_whitespace_def char_eof_def)
  moreover have "skip_comments (lexer_get l0) = (True, lexer_get l0)"
    using g(1) by (subst skip_comments.simps) (simp add: char_eof_def)
  ultimately show ?thesis using g by (auto simp: scan_def l0(1) scan_token_def char_eof_def is_digit_def)
qed

definition punctuation :: "(char \<times> token_type) list" where
  "punctuation =
     [(CHR ''['', Begin_array), (CHR '']'', End_array), (CHR ''{'', Begin_object), (CHR ''}'', End_object),
      (CHR '':'', Name_separator), (CHR '','', Value_separator)]"

lemma scan_punctuation:
  assumes "reads lx (c # cs)" "(c, t) \<in> set punctuation"
  shows "\<exists>l. scan strtod lx = (t, l) \<and> reads l cs"
proof -
  have "\<not> is_whitespace (of_char c)" "(of_char c :: int) \<notin> {0xEF, 47}"
    using assms(2) by (auto simp: punctuation_def is_whitespace_def)
  from scan_first [OF assms(1) this, of strtod] obtain l where
    "scan strtod lx = scan_token strtod l" "lx_current l = of_char c" "reads l cs" by auto
  with assms(2) show ?thesis by (auto simp: punctuation_def scan_token_def)
qed

lemma scan_quoted:
  assumes "dump_escaped Strict ascii s = Inr t" "reads lx (CHR 0x22 # t @ CHR 0x22 # cs)"
  shows "\<exists>l. scan strtod lx = (Value_string, l) \<and> reads l cs \<and> lx_token_buffer l = s"
proof -
  have "\<not> is_whitespace (of_char (CHR 0x22))" "(of_char (CHR 0x22) :: int) \<notin> {0xEF, 47}"
    by (simp_all add: is_whitespace_def)
  from scan_first [OF assms(2) this, of strtod] obtain l where
    "scan strtod lx = scan_token strtod l" "lx_current l = of_char (CHR 0x22)" "reads l (t @ CHR 0x22 # cs)"
    by auto
  with scan_string_reads_back [OF assms(1), of l cs] show ?thesis by (simp add: scan_token_def Let_def)
qed

lemma literal_loop_reads:
  "reads lx (ds @ cs) \<Longrightarrow> \<exists>l. literal_loop ds t lx = (t, l) \<and> reads l cs"
proof (induction ds arbitrary: lx)
  case (Cons d ds)
  then have r: "reads lx (d # ds @ cs)" by simp
  with Cons.IH [OF reads_get(2) [OF r]] reads_get(1) [OF r] show ?case by (simp add: Let_def)
qed simp

definition literals :: "(string \<times> token_type) list" where
  "literals = [(''true'', Literal_true), (''false'', Literal_false), (''null'', Literal_null)]"

lemma scan_literal_text:
  assumes "(w, t) \<in> set literals" "reads lx (w @ cs)"
  shows "\<exists>l. scan strtod lx = (t, l) \<and> reads l cs"
proof -
  obtain c ds where w: "w = c # ds" using assms(1) by (auto simp: literals_def)
  have c: "\<not> is_whitespace (of_char c)" "(of_char c :: int) \<notin> {0xEF, 47}"
    using assms(1) by (auto simp: w literals_def is_whitespace_def)
  have "reads lx (c # ds @ cs)" using assms(2) w by simp
  from scan_first [OF this c, of strtod] obtain l where
    l: "scan strtod lx = scan_token strtod l" "lx_current l = of_char c" "reads l (ds @ cs)" by blast
  have "scan_token strtod l = literal_loop ds t l"
    using assms(1) l(2) by (auto simp: w literals_def scan_token_def scan_literal_def Let_def simp del: literal_loop.simps)
  with literal_loop_reads [OF l(3), of t] l(1) show ?thesis by simp
qed

lemma scan_decimal_nat:
  assumes "reads lx (nat_to_string n @ cs)" "number_ends cs" "n < 2 ^ 64"
  shows "\<exists>l. scan strtod lx = (Value_unsigned, l) \<and> reads l cs \<and> lx_value_unsigned l = n"
proof -
  obtain d ds where ds: "nat_to_string n = d # ds"
    using nat_to_string_nonempty [of n] by (cases "nat_to_string n") auto
  have d: "is_digit (of_char d)" using digit_chars [of d n] ds by simp
  then have "\<not> is_whitespace (of_char d)" "(of_char d :: int) \<notin> {0xEF, 47}"
    by (auto simp: is_digit_def is_whitespace_def)
  moreover have "reads lx (d # ds @ cs)" using assms(1) ds by simp
  ultimately obtain l where l: "scan strtod lx = scan_token strtod l" "lx_current l = of_char d" "reads l (ds @ cs)"
    using scan_first by blast
  moreover have "scan_token strtod l = scan_number strtod l"
    using l(2) d by (auto simp: scan_token_def Let_def is_digit_def)
  ultimately show ?thesis using scan_number_nat [of l n cs strtod] assms(2,3) ds by simp
qed

lemma scan_decimal_negative:
  assumes "reads lx (CHR ''-'' # nat_to_string n @ cs)" "number_ends cs" "0 < n" "n \<le> 2 ^ 63"
  shows "\<exists>l. scan strtod lx = (Value_integer, l) \<and> reads l cs \<and> lx_value_integer l = - int n"
proof -
  have "\<not> is_whitespace (of_char (CHR ''-''))" "(of_char (CHR ''-'') :: int) \<notin> {0xEF, 47}"
    by (simp_all add: is_whitespace_def)
  then obtain l where l: "scan strtod lx = scan_token strtod l" "lx_current l = of_char (CHR ''-'')"
    "reads l (nat_to_string n @ cs)"
    using scan_first [OF assms(1)] by blast
  moreover have "scan_token strtod l = scan_number strtod l"
    using l(2) by (simp add: scan_token_def Let_def is_digit_def)
  ultimately show ?thesis using scan_number_negative [of l n cs strtod] assms(2-4) by simp
qed
end
