(* ===== verification/Json_Parser.thy ===== *)
theory Json_Parser
  imports Json_Scan
begin

text \<open>
  The parser of the JSON library: the handler that builds a value from the parser's events
  (\<^verbatim>\<open>json_sax_dom_parser\<close> in \<^verbatim>\<open>detail/input/json_sax.hpp\<close>) and the loop that reads tokens and
  keeps a stack of the open arrays and objects (\<^verbatim>\<open>sax_parse_internal\<close> in
  \<^verbatim>\<open>detail/input/parser.hpp\<close>), both under \<^verbatim>\<open>src/3party/json-3.10.5/include/nlohmann/\<close>. No
  source installs a parser callback, so that variant of the handler is left out.
\<close>

section \<open>Building the value\<close>

text \<open>
  \<^verbatim>\<open>ref_stack\<close> holds pointers into the value under construction. Here an entry is the
  container itself with the slot of its parent that it lives in, and is stored there when it
  is popped; the handler never looks at a parent in between. \<^verbatim>\<open>object_element\<close> points to the
  value of a key of the innermost object and is represented by this key.
\<close>

datatype dom_slot = Slot_root | Slot_back | Slot_key string

record dom =
  dom_root :: json
  ref_stack :: "(dom_slot \<times> json) list"
  object_element :: string
  dom_errored :: bool

definition dom_new :: dom where
  "dom_new = \<lparr>dom_root = JNull, ref_stack = [], object_element = [], dom_errored = False\<rparr>"

text \<open>Strings are compared by their unsigned bytes; \<^verbatim>\<open>operator[]\<close> of the object inserts a null
  at its place in the order of the keys when the key is new.\<close>

fun key_less :: "string \<Rightarrow> string \<Rightarrow> bool" where
  "key_less [] [] = False"
| "key_less [] (d # ds) = True"
| "key_less (c # cs) [] = False"
| "key_less (c # cs) (d # ds) =
     ((of_char c :: nat) < of_char d \<or> c = d \<and> key_less cs ds)"

fun object_at :: "string \<Rightarrow> (string \<times> json) list \<Rightarrow> (string \<times> json) list" where
  "object_at k [] = [(k, JNull)]"
| "object_at k ((l, v) # kvs) =
     (if key_less k l then (k, JNull) # (l, v) # kvs
      else if key_less l k then (l, v) # object_at k kvs
      else (l, v) # kvs)"

fun object_set :: "string \<Rightarrow> json \<Rightarrow> (string \<times> json) list \<Rightarrow> (string \<times> json) list" where
  "object_set k v [] = []"
| "object_set k v ((l, w) # kvs) = (if l = k then (l, v) # kvs else (l, w) # object_set k v kvs)"

fun store_slot :: "dom_slot \<Rightarrow> json \<Rightarrow> dom \<Rightarrow> dom" where
  "store_slot Slot_root v d = d\<lparr>dom_root := v\<rparr>"
| "store_slot Slot_back v d =
     (case ref_stack d of
        (s, JArray js) # st \<Rightarrow> d\<lparr>ref_stack := (s, JArray (butlast js @ [v])) # st\<rparr>
      | _ \<Rightarrow> d)"
| "store_slot (Slot_key k) v d =
     (case ref_stack d of
        (s, JObject kvs) # st \<Rightarrow> d\<lparr>ref_stack := (s, JObject (object_set k v kvs)) # st\<rparr>
      | _ \<Rightarrow> d)"

definition handle_value :: "json \<Rightarrow> dom \<Rightarrow> dom_slot \<times> dom" where
  "handle_value v d =
     (case ref_stack d of
        [] \<Rightarrow> (Slot_root, d\<lparr>dom_root := v\<rparr>)
      | (s, JArray js) # st \<Rightarrow> (Slot_back, d\<lparr>ref_stack := (s, JArray (js @ [v])) # st\<rparr>)
      | _ # st \<Rightarrow> (Slot_key (object_element d), store_slot (Slot_key (object_element d)) v d))"

text \<open>\<^verbatim>\<open>null\<close>, \<^verbatim>\<open>boolean\<close>, \<^verbatim>\<open>number_integer\<close>, \<^verbatim>\<open>number_unsigned\<close>, \<^verbatim>\<open>number_float\<close> and \<^verbatim>\<open>string\<close>.\<close>

definition dom_value :: "json \<Rightarrow> dom \<Rightarrow> dom" where
  "dom_value v d = snd (handle_value v d)"

definition dom_start :: "json \<Rightarrow> dom \<Rightarrow> dom" where
  "dom_start v d = (case handle_value v d of (slot, d1) \<Rightarrow> d1\<lparr>ref_stack := (slot, v) # ref_stack d1\<rparr>)"

definition dom_start_object :: "dom \<Rightarrow> dom" where
  "dom_start_object d = dom_start (JObject []) d"

definition dom_start_array :: "dom \<Rightarrow> dom" where
  "dom_start_array d = dom_start (JArray []) d"

definition dom_key :: "string \<Rightarrow> dom \<Rightarrow> dom" where
  "dom_key k d =
     (case ref_stack d of
        (s, JObject kvs) # st \<Rightarrow>
          d\<lparr>ref_stack := (s, JObject (object_at k kvs)) # st, object_element := k\<rparr>
      | _ \<Rightarrow> d)"

text \<open>\<^verbatim>\<open>end_object\<close> and \<^verbatim>\<open>end_array\<close>.\<close>

definition dom_end :: "dom \<Rightarrow> dom" where
  "dom_end d =
     (case ref_stack d of
        [] \<Rightarrow> d
      | (slot, v) # st \<Rightarrow> store_slot slot v (d\<lparr>ref_stack := st\<rparr>))"

section \<open>The parser\<close>

record parser =
  pa_lexer :: lexer
  pa_last_token :: token_type
  pa_dom :: dom
  pa_allow_exceptions :: bool

datatype json_exception = Parse_error_101 nat string | Out_of_range_406 string

type_synonym parse_outcome = "json_exception + bool \<times> parser"

definition get_token :: "(string \<Rightarrow> int option) \<Rightarrow> parser \<Rightarrow> parser" where
  "get_token strtod p =
     (case scan strtod (pa_lexer p) of
        (t, lx) \<Rightarrow> p\<lparr>pa_lexer := lx, pa_last_token := t\<rparr>)"

definition parser_new :: "(string \<Rightarrow> int option) \<Rightarrow> string \<Rightarrow> bool \<Rightarrow> bool \<Rightarrow> parser" where
  "parser_new strtod adapter allow_exceptions ignore =
     get_token strtod
       \<lparr>pa_lexer = lexer_new adapter ignore, pa_last_token = Uninitialized,
        pa_dom = dom_new, pa_allow_exceptions = allow_exceptions\<rparr>"

definition exception_message :: "parser \<Rightarrow> token_type \<Rightarrow> string \<Rightarrow> string" where
  "exception_message p expected what =
     ''syntax error '' @
     (if what \<noteq> [] then ''while parsing '' @ what @ '' '' else []) @ ''- '' @
     (if pa_last_token p = Token_parse_error
      then lx_error_message (pa_lexer p) @ ''; last read: '' @ [CHR 0x27] @
           get_token_string (pa_lexer p) @ [CHR 0x27]
      else ''unexpected '' @ token_type_name (pa_last_token p)) @
     (if expected \<noteq> Uninitialized then ''; expected '' @ token_type_name expected else [])"

text \<open>The handler's \<^verbatim>\<open>parse_error\<close>: an exception, or the flag when exceptions are off.\<close>

definition sax_parse_error :: "json_exception \<Rightarrow> parser \<Rightarrow> parse_outcome" where
  "sax_parse_error ex p =
     (if pa_allow_exceptions p then Inl ex
      else Inr (False, p\<lparr>pa_dom := (pa_dom p)\<lparr>dom_errored := True\<rparr>\<rparr>))"

definition syntax_error :: "token_type \<Rightarrow> string \<Rightarrow> parser \<Rightarrow> parse_outcome" where
  "syntax_error expected what p =
     sax_parse_error
       (Parse_error_101 (lx_chars_read_total (pa_lexer p)) (exception_message p expected what)) p"

definition on_dom :: "(dom \<Rightarrow> dom) \<Rightarrow> parser \<Rightarrow> parser" where
  "on_dom f p = p\<lparr>pa_dom := f (pa_dom p)\<rparr>"

text \<open>What a part of the loop's body leads to: \<^verbatim>\<open>return\<close>, \<^verbatim>\<open>continue\<close> with
  \<^verbatim>\<open>skip_to_state_evaluation\<close> and \<^verbatim>\<open>states\<close>, or the evaluation of the state after a value.\<close>

datatype control = Return parse_outcome | Continue bool "bool list" parser | Value_read parser

definition parse_begin_object :: "(string \<Rightarrow> int option) \<Rightarrow> bool list \<Rightarrow> parser \<Rightarrow> control" where
  "parse_begin_object strtod states p =
     (let p1 = get_token strtod (on_dom dom_start_object p)
      in if pa_last_token p1 = End_object then Value_read (on_dom dom_end p1)
         else if pa_last_token p1 \<noteq> Value_string
         then Return (syntax_error Value_string ''object key'' p1)
         else let p2 = get_token strtod (on_dom (dom_key (lx_token_buffer (pa_lexer p1))) p1)
              in if pa_last_token p2 \<noteq> Name_separator
                 then Return (syntax_error Name_separator ''object separator'' p2)
                 else Continue False (False # states) (get_token strtod p2))"

definition parse_begin_array :: "(string \<Rightarrow> int option) \<Rightarrow> bool list \<Rightarrow> parser \<Rightarrow> control" where
  "parse_begin_array strtod states p =
     (let p1 = get_token strtod (on_dom dom_start_array p)
      in if pa_last_token p1 = End_array then Value_read (on_dom dom_end p1)
         else Continue False (True # states) p1)"

definition parse_float :: "parser \<Rightarrow> control" where
  "parse_float p =
     (case lx_value_float (pa_lexer p) of
        None \<Rightarrow>
          Return (sax_parse_error
            (Out_of_range_406 (''number overflow parsing '' @ [CHR 0x27] @
               get_token_string (pa_lexer p) @ [CHR 0x27])) p)
      | Some res \<Rightarrow> Value_read (on_dom (dom_value (JFloat res)) p))"

definition parse_token :: "(string \<Rightarrow> int option) \<Rightarrow> bool list \<Rightarrow> parser \<Rightarrow> control" where
  "parse_token strtod states p =
     (case pa_last_token p of
        Begin_object \<Rightarrow> parse_begin_object strtod states p
      | Begin_array \<Rightarrow> parse_begin_array strtod states p
      | Value_float \<Rightarrow> parse_float p
      | Literal_false \<Rightarrow> Value_read (on_dom (dom_value (JBool False)) p)
      | Literal_null \<Rightarrow> Value_read (on_dom (dom_value JNull) p)
      | Literal_true \<Rightarrow> Value_read (on_dom (dom_value (JBool True)) p)
      | Value_integer \<Rightarrow> Value_read (on_dom (dom_value (JInteger (lx_value_integer (pa_lexer p)))) p)
      | Value_string \<Rightarrow> Value_read (on_dom (dom_value (JString (lx_token_buffer (pa_lexer p)))) p)
      | Value_unsigned \<Rightarrow> Value_read (on_dom (dom_value (JUnsigned (lx_value_unsigned (pa_lexer p)))) p)
      | Token_parse_error \<Rightarrow> Return (syntax_error Uninitialized ''value'' p)
      | _ \<Rightarrow> Return (syntax_error Literal_or_value ''value'' p))"

definition evaluate_array :: "(string \<Rightarrow> int option) \<Rightarrow> bool list \<Rightarrow> parser \<Rightarrow> control" where
  "evaluate_array strtod states p =
     (let p1 = get_token strtod p
      in if pa_last_token p1 = Value_separator then Continue False states (get_token strtod p1)
         else if pa_last_token p1 = End_array then Continue True (tl states) (on_dom dom_end p1)
         else Return (syntax_error End_array ''array'' p1))"

definition evaluate_object :: "(string \<Rightarrow> int option) \<Rightarrow> bool list \<Rightarrow> parser \<Rightarrow> control" where
  "evaluate_object strtod states p =
     (let p1 = get_token strtod p
      in if pa_last_token p1 = Value_separator
         then let p2 = get_token strtod p1
              in if pa_last_token p2 \<noteq> Value_string
                 then Return (syntax_error Value_string ''object key'' p2)
                 else let p3 = get_token strtod (on_dom (dom_key (lx_token_buffer (pa_lexer p2))) p2)
                      in if pa_last_token p3 \<noteq> Name_separator
                         then Return (syntax_error Name_separator ''object separator'' p3)
                         else Continue False states (get_token strtod p3)
         else if pa_last_token p1 = End_object then Continue True (tl states) (on_dom dom_end p1)
         else Return (syntax_error End_object ''object'' p1))"

definition evaluate_state :: "(string \<Rightarrow> int option) \<Rightarrow> bool list \<Rightarrow> parser \<Rightarrow> control" where
  "evaluate_state strtod states p =
     (case states of
        [] \<Rightarrow> Return (Inr (True, p))
      | in_array # _ \<Rightarrow>
          if in_array then evaluate_array strtod states p else evaluate_object strtod states p)"

text \<open>Each round reads a token, except that the opening bracket of an array leaves the token
  after it to the next round; a round that gets the end of the input or an error is the
  last.\<close>

definition last_round :: "token_type \<Rightarrow> bool" where
  "last_round t \<longleftrightarrow> t = End_of_input \<or> t = Token_parse_error"

definition parser_left :: "bool \<Rightarrow> parser \<Rightarrow> nat" where
  "parser_left skip p =
     2 * lexer_left (pa_lexer p) + (if skip \<or> last_round (pa_last_token p) then 0 else 1)"

lemma on_dom_sel [simp]:
  "pa_lexer (on_dom f p) = pa_lexer p" "pa_last_token (on_dom f p) = pa_last_token p"
  "pa_dom (on_dom f p) = f (pa_dom p)" "pa_allow_exceptions (on_dom f p) = pa_allow_exceptions p"
  by (simp_all add: on_dom_def)

lemma get_token_left_le: "lexer_left (pa_lexer (get_token strtod p)) \<le> lexer_left (pa_lexer p)"
  using scan_left_le [of strtod "pa_lexer p"]
  by (cases "scan strtod (pa_lexer p)") (simp add: get_token_def)

lemma get_token_left_less:
  "\<not> last_round (pa_last_token (get_token strtod p)) \<Longrightarrow>
     lexer_left (pa_lexer (get_token strtod p)) < lexer_left (pa_lexer p)"
  using scan_left_less [of strtod "pa_lexer p"]
  by (cases "scan strtod (pa_lexer p)") (simp add: get_token_def last_round_def)

lemma parser_left_get_token:
  assumes "lexer_left (pa_lexer p) < n"
  shows "parser_left skip (get_token strtod p) < 2 * n"
  using assms get_token_left_le [of strtod p] by (auto simp: parser_left_def)

lemma parser_left_skip: "lexer_left (pa_lexer p) < n \<Longrightarrow> parser_left True p < 2 * n"
  by (simp add: parser_left_def)

lemma parse_begin_object_left:
  "parse_begin_object strtod states p = Continue skip states' p' \<Longrightarrow>
     parser_left skip p' < 2 * lexer_left (pa_lexer p)"
  "parse_begin_object strtod states p = Value_read p' \<Longrightarrow>
     lexer_left (pa_lexer p') \<le> lexer_left (pa_lexer p)"
proof -
  let ?p1 = "get_token strtod (on_dom dom_start_object p)"
  let ?p2 = "get_token strtod (on_dom (dom_key (lx_token_buffer (pa_lexer ?p1))) ?p1)"
  have 1: "lexer_left (pa_lexer ?p1) \<le> lexer_left (pa_lexer p)"
    using get_token_left_le [of strtod "on_dom dom_start_object p"] by simp
  show "lexer_left (pa_lexer p') \<le> lexer_left (pa_lexer p)"
    if "parse_begin_object strtod states p = Value_read p'"
    using that 1 by (auto simp: parse_begin_object_def Let_def split: if_splits)
  show "parser_left skip p' < 2 * lexer_left (pa_lexer p)"
    if c: "parse_begin_object strtod states p = Continue skip states' p'"
  proof -
    have p': "p' = get_token strtod ?p2" "skip = False" and t: "pa_last_token ?p1 = Value_string"
      using c by (auto simp: parse_begin_object_def Let_def split: if_splits)
    have "lexer_left (pa_lexer ?p1) < lexer_left (pa_lexer p)"
      using get_token_left_less [of strtod "on_dom dom_start_object p"] t by (simp add: last_round_def)
    moreover have "lexer_left (pa_lexer ?p2) \<le> lexer_left (pa_lexer ?p1)"
      using get_token_left_le [of strtod "on_dom (dom_key (lx_token_buffer (pa_lexer ?p1))) ?p1"] by simp
    ultimately show ?thesis unfolding p' by (intro parser_left_get_token) simp
  qed
qed

lemma parse_token_left:
  assumes "\<not> last_round (pa_last_token p)"
  shows "parse_token strtod states p = Continue skip states' p' \<Longrightarrow>
      parser_left skip p' < parser_left False p"
    and "parse_token strtod states p = Value_read p' \<Longrightarrow>
      lexer_left (pa_lexer p') \<le> lexer_left (pa_lexer p)"
proof -
  let ?p1 = "get_token strtod (on_dom dom_start_array p)"
  have le: "lexer_left (pa_lexer ?p1) \<le> lexer_left (pa_lexer p)"
    using get_token_left_le [of strtod "on_dom dom_start_array p"] by simp
  have less: "\<not> last_round (pa_last_token ?p1) \<Longrightarrow> lexer_left (pa_lexer ?p1) < lexer_left (pa_lexer p)"
    using get_token_left_less [of strtod "on_dom dom_start_array p"] by simp
  show "parser_left skip p' < parser_left False p"
    if "parse_token strtod states p = Continue skip states' p'"
    using that assms le less parse_begin_object_left(1) [of strtod states p skip states' p']
    by (auto simp: parse_token_def parse_begin_array_def parse_float_def Let_def parser_left_def
        split: token_type.splits if_splits option.splits)
  show "lexer_left (pa_lexer p') \<le> lexer_left (pa_lexer p)"
    if "parse_token strtod states p = Value_read p'"
    using that le parse_begin_object_left(2) [of strtod states p p']
    by (auto simp: parse_token_def parse_begin_array_def parse_float_def Let_def
        split: token_type.splits if_splits option.splits)
qed

lemma evaluate_state_left:
  assumes "evaluate_state strtod states p = Continue skip states' p'"
  shows "parser_left skip p' < 2 * lexer_left (pa_lexer p)"
proof -
  let ?p1 = "get_token strtod p"
  have less: "lexer_left (pa_lexer ?p1) < lexer_left (pa_lexer p)"
    if "pa_last_token ?p1 \<in> {Value_separator, End_array, End_object}"
    using that get_token_left_less [of strtod p] by (auto simp: last_round_def)
  show ?thesis
  proof (cases states)
    case Nil
    with assms show ?thesis by (simp add: evaluate_state_def)
  next
    case (Cons in_array rest)
    show ?thesis
    proof (cases in_array)
      case True
      with Cons assms less show ?thesis
        by (auto simp: evaluate_state_def evaluate_array_def Let_def split: if_splits
            intro!: parser_left_get_token parser_left_skip)
    next
      case False
      let ?p2 = "get_token strtod ?p1"
      let ?p3 = "get_token strtod (on_dom (dom_key (lx_token_buffer (pa_lexer ?p2))) ?p2)"
      have "lexer_left (pa_lexer ?p2) \<le> lexer_left (pa_lexer ?p1)"
        "lexer_left (pa_lexer ?p3) \<le> lexer_left (pa_lexer ?p2)"
        using get_token_left_le [of strtod ?p1]
          get_token_left_le [of strtod "on_dom (dom_key (lx_token_buffer (pa_lexer ?p2))) ?p2"] by simp_all
      with Cons False assms less show ?thesis
        by (auto simp: evaluate_state_def evaluate_object_def Let_def split: if_splits
            intro!: parser_left_get_token parser_left_skip)
    qed
  qed
qed

text \<open>The loop of \<^verbatim>\<open>sax_parse_internal\<close>.\<close>

definition round_value :: "(string \<Rightarrow> int option) \<Rightarrow> bool \<Rightarrow> bool list \<Rightarrow> parser \<Rightarrow> control" where
  "round_value strtod skip states p = (if skip then Value_read p else parse_token strtod states p)"

definition sax_round :: "(string \<Rightarrow> int option) \<Rightarrow> bool \<Rightarrow> bool list \<Rightarrow> parser \<Rightarrow> control" where
  "sax_round strtod skip states p =
     (case round_value strtod skip states p of
        Value_read p1 \<Rightarrow> evaluate_state strtod states p1
      | c \<Rightarrow> c)"

lemma sax_round_left:
  assumes "sax_round strtod skip states p = Continue skip' states' p'"
  shows "parser_left skip' p' < parser_left skip p"
proof (cases skip)
  case True
  then show ?thesis
    using assms evaluate_state_left [of strtod states p skip' states' p']
    by (simp add: sax_round_def round_value_def parser_left_def [of True])
next
  case False
  show ?thesis
  proof (cases "last_round (pa_last_token p)")
    case True
    then show ?thesis
      using assms \<open>\<not> skip\<close> by (auto simp: sax_round_def round_value_def parse_token_def last_round_def)
  next
    case run: False
    show ?thesis
    proof (cases "parse_token strtod states p")
      case (Value_read p1)
      then have "parser_left skip' p' < 2 * lexer_left (pa_lexer p1)"
        using assms \<open>\<not> skip\<close> evaluate_state_left by (simp add: sax_round_def round_value_def)
      with parse_token_left(2) [OF run Value_read] \<open>\<not> skip\<close> show ?thesis
        by (simp add: parser_left_def [of _ p])
    qed (use assms \<open>\<not> skip\<close> parse_token_left(1) [OF run] in \<open>auto simp: sax_round_def round_value_def\<close>)
  qed
qed

function sax_parse_loop ::
  "(string \<Rightarrow> int option) \<Rightarrow> bool \<Rightarrow> bool list \<Rightarrow> parser \<Rightarrow> parse_outcome"
where
  "sax_parse_loop strtod skip states p =
     (case sax_round strtod skip states p of
        Return r \<Rightarrow> r
      | Continue skip' states' p' \<Rightarrow> sax_parse_loop strtod skip' states' p'
      | Value_read p' \<Rightarrow> Inr (True, p'))"
  by pat_completeness auto

termination
  by (relation "measure (\<lambda>(_, skip, _, p). parser_left skip p)") (auto dest: sax_round_left)

declare sax_parse_loop.simps [simp del]

definition sax_parse_internal :: "(string \<Rightarrow> int option) \<Rightarrow> parser \<Rightarrow> parse_outcome" where
  "sax_parse_internal strtod p = sax_parse_loop strtod False [] p"

text \<open>\<^verbatim>\<open>parse\<close> in strict mode or not: \<open>None\<close> is the discarded value.\<close>

definition parser_parse ::
  "(string \<Rightarrow> int option) \<Rightarrow> bool \<Rightarrow> parser \<Rightarrow> json_exception + json option"
where
  "parser_parse strtod strict p =
     (case sax_parse_internal strtod p of
        Inl ex \<Rightarrow> Inl ex
      | Inr (_, p1) \<Rightarrow>
          let result = (\<lambda>p. if dom_errored (pa_dom p) then None else Some (dom_root (pa_dom p)))
          in if strict
             then let p2 = get_token strtod p1
                  in if pa_last_token p2 \<noteq> End_of_input
                     then (case syntax_error End_of_input ''value'' p2 of
                             Inl ex \<Rightarrow> Inl ex
                           | Inr (_, p3) \<Rightarrow> Inr (result p3))
                     else Inr (result p2)
             else Inr (result p1))"

text \<open>\<^verbatim>\<open>json::parse(text)\<close>: exceptions on, comments are errors.\<close>

definition json_parse :: "(string \<Rightarrow> int option) \<Rightarrow> string \<Rightarrow> json_exception + json option" where
  "json_parse strtod input = parser_parse strtod True (parser_new strtod input True False)"

end
