(* ===== verification/Json_Round_Trip.thy ===== *)
theory Json_Round_Trip
  imports Json_Tokens Json_Parser
begin

text \<open>
  \<^verbatim>\<open>json::parse\<close> undoes \<^verbatim>\<open>dump\<close>: the loop of the parser reads each dumped value as one
  value and the handler puts it where the value belongs.
\<close>

section \<open>Values\<close>

text \<open>A non-negative number read back is always unsigned.\<close>

primrec json_norm :: "json \<Rightarrow> json" where
  "json_norm JNull = JNull"
| "json_norm (JBool b) = JBool b"
| "json_norm (JUnsigned n) = JUnsigned n"
| "json_norm (JInteger i) = (if 0 \<le> i then JUnsigned (nat i) else JInteger i)"
| "json_norm (JFloat x) = JFloat x"
| "json_norm (JString s) = JString s"
| "json_norm (JArray js) = JArray (map json_norm js)"
| "json_norm (JObject kvs) = JObject (map (map_prod id json_norm) kvs)"

definition norm_member :: "string \<times> json \<Rightarrow> string \<times> json" where
  "norm_member kv = (fst kv, json_norm (snd kv))"

lemma norm_member_pair [simp]: "norm_member (k, v) = (k, json_norm v)"
  by (simp add: norm_member_def)

declare json_norm.simps(8) [simp del]

lemma json_norm_object [simp]: "json_norm (JObject kvs) = JObject (map norm_member kvs)"
  by (simp add: json_norm.simps(8) norm_member_def split_beta map_prod_def)

text \<open>Numbers that fit their types, keys in order, no floating point numbers.\<close>

primrec json_ok :: "json \<Rightarrow> bool" where
  "json_ok JNull = True"
| "json_ok (JBool b) = True"
| "json_ok (JUnsigned n) = (n < 2 ^ 64)"
| "json_ok (JInteger i) = (- (2 ^ 63) \<le> i \<and> i < 2 ^ 63)"
| "json_ok (JFloat x) = False"
| "json_ok (JString s) = True"
| "json_ok (JArray js) = list_all id (map json_ok js)"
| "json_ok (JObject kvs) =
     (sorted_wrt key_less (map fst kvs) \<and> list_all snd (map (map_prod id json_ok) kvs))"

lemma key_less_irrefl [simp]: "\<not> key_less k k"
  by (induction k) auto

lemma key_less_asym: "key_less k l \<Longrightarrow> \<not> key_less l k"
  by (induction k l rule: key_less.induct) auto

lemma object_at_greatest:
  "\<forall>l \<in> fst ` set kvs. key_less l k \<Longrightarrow> object_at k kvs = kvs @ [(k, JNull)]"
  by (induction kvs) (auto dest: key_less_asym)

lemma object_set_last:
  "k \<notin> fst ` set kvs \<Longrightarrow> object_set k v (kvs @ [(k, w)]) = kvs @ [(k, v)]"
  by (induction kvs) auto

lemma object_set_set: "object_set k v (object_set k w kvs) = object_set k v kvs"
  by (induction kvs) auto

section \<open>The handler\<close>

text \<open>A container filled and closed is a value.\<close>

lemma dom_end_start:
  assumes "handle_value v0 d = (slot, d1)"
  shows "dom_end (d1\<lparr>ref_stack := (slot, v) # ref_stack d1, object_element := k\<rparr>) =
    (dom_value v d)\<lparr>object_element := k\<rparr>"
proof (cases "ref_stack d")
  case Nil
  with assms show ?thesis by (auto simp: handle_value_def dom_value_def dom_end_def)
next
  case (Cons e st)
  obtain s w where e: "e = (s, w)" by force
  show ?thesis
    using assms Cons e
    by (cases w) (auto simp: handle_value_def dom_value_def dom_end_def object_set_set)
qed

lemma dom_value_array:
  assumes "ref_stack d = (s, JArray js) # st"
  shows "dom_value v d = d\<lparr>ref_stack := (s, JArray (js @ [v])) # st\<rparr>"
  using assms by (simp add: dom_value_def handle_value_def)

lemma dom_value_member:
  assumes "ref_stack d = (s, JObject kvs) # st" "\<forall>l \<in> fst ` set kvs. key_less l k"
  shows "dom_value v (dom_key k d) = d\<lparr>ref_stack := (s, JObject (kvs @ [(k, v)])) # st, object_element := k\<rparr>"
proof -
  have "k \<notin> fst ` set kvs" using assms(2) by auto
  then show ?thesis
    using assms by (simp add: dom_value_def dom_key_def handle_value_def object_at_greatest object_set_last)
qed

section \<open>The loop\<close>

lemma get_token_eq:
  assumes "scan strtod (pa_lexer p) = (t, l)"
  shows "get_token strtod p = p\<lparr>pa_lexer := l, pa_last_token := t\<rparr>"
  by (simp add: get_token_def assms)

lemma get_token_dom [simp]:
  "pa_dom (get_token strtod p) = pa_dom p"
  by (simp add: get_token_def split: prod.split)

lemma getsI:
  assumes "\<exists>l. scan strtod (pa_lexer p) = (t, l) \<and> reads l cs"
  shows "pa_last_token (get_token strtod p) = t" "reads (pa_lexer (get_token strtod p)) cs"
  using assms by (auto simp: get_token_def)

lemma get_punctuation:
  assumes "reads (pa_lexer p) (c # cs)" "(c, t) \<in> set punctuation"
  shows "pa_last_token (get_token strtod p) = t" "reads (pa_lexer (get_token strtod p)) cs"
  using getsI [OF scan_punctuation [OF assms]] .

lemma loop_value:
  assumes "parse_token strtod states p = Value_read p1"
  shows "sax_parse_loop strtod False states p = sax_parse_loop strtod True states p1"
  by (subst (1 2) sax_parse_loop.simps) (simp add: sax_round_def round_value_def assms)

lemma loop_continue:
  assumes "parse_token strtod states p = Continue skip states' p'"
  shows "sax_parse_loop strtod False states p = sax_parse_loop strtod skip states' p'"
  by (subst sax_parse_loop.simps) (simp add: sax_round_def round_value_def assms)

lemma loop_evaluate:
  assumes "evaluate_state strtod states p = Continue skip states' p'"
  shows "sax_parse_loop strtod True states p = sax_parse_loop strtod skip states' p'"
  by (subst sax_parse_loop.simps) (simp add: sax_round_def round_value_def assms)

text \<open>Reading one value from where the parser stands.\<close>

definition reads_value :: "(string \<Rightarrow> int option) \<Rightarrow> parser \<Rightarrow> bool list \<Rightarrow> json \<Rightarrow> string \<Rightarrow> bool" where
  "reads_value strtod p states v cs \<longleftrightarrow>
     pa_last_token (get_token strtod p) \<noteq> End_array \<and>
     (\<exists>p1 k. sax_parse_loop strtod False states (get_token strtod p) = sax_parse_loop strtod True states p1 \<and>
        reads (pa_lexer p1) cs \<and> pa_dom p1 = (dom_value v (pa_dom p))\<lparr>object_element := k\<rparr>)"

lemma reads_valueI:
  assumes "pa_last_token (get_token strtod p) \<noteq> End_array"
    "sax_parse_loop strtod False states (get_token strtod p) = sax_parse_loop strtod True states p1"
    "reads (pa_lexer p1) cs" "pa_dom p1 = (dom_value v (pa_dom p))\<lparr>object_element := k\<rparr>"
  shows "reads_value strtod p states v cs"
  using assms unfolding reads_value_def by blast

lemma reads_scalar:
  assumes "\<exists>l. scan strtod (pa_lexer p) = (t, l) \<and> reads l cs \<and>
      parse_token strtod states (p\<lparr>pa_lexer := l, pa_last_token := t\<rparr>) =
        Value_read (on_dom (dom_value v) (p\<lparr>pa_lexer := l, pa_last_token := t\<rparr>))"
    "t \<noteq> End_array"
  shows "reads_value strtod p states v cs"
proof -
  obtain l where l: "scan strtod (pa_lexer p) = (t, l)" "reads l cs"
    "parse_token strtod states (p\<lparr>pa_lexer := l, pa_last_token := t\<rparr>) =
        Value_read (on_dom (dom_value v) (p\<lparr>pa_lexer := l, pa_last_token := t\<rparr>))" using assms(1) by blast
  let ?p1 = "on_dom (dom_value v) (p\<lparr>pa_lexer := l, pa_last_token := t\<rparr>)"
  have "sax_parse_loop strtod False states (get_token strtod p) = sax_parse_loop strtod True states ?p1"
    using loop_value [OF l(3)] by (simp add: get_token_eq [OF l(1)])
  moreover have "reads (pa_lexer ?p1) cs" using l(2) by simp
  moreover have "pa_dom ?p1 = (dom_value v (pa_dom p))\<lparr>object_element := object_element (dom_value v (pa_dom p))\<rparr>"
    by simp
  moreover have "pa_last_token (get_token strtod p) \<noteq> End_array"
    using assms(2) by (simp add: get_token_eq [OF l(1)])
  ultimately show ?thesis unfolding reads_value_def by blast
qed

lemma reads_literals:
  "reads (pa_lexer p) (''true'' @ cs) \<Longrightarrow> reads_value strtod p states (JBool True) cs"
  "reads (pa_lexer p) (''false'' @ cs) \<Longrightarrow> reads_value strtod p states (JBool False) cs"
  "reads (pa_lexer p) (''null'' @ cs) \<Longrightarrow> reads_value strtod p states JNull cs"
  using scan_literal_text [of "''true''" Literal_true "pa_lexer p" cs strtod]
    scan_literal_text [of "''false''" Literal_false "pa_lexer p" cs strtod]
    scan_literal_text [of "''null''" Literal_null "pa_lexer p" cs strtod]
  by (auto intro!: reads_scalar simp: literals_def parse_token_def)

lemma reads_nat:
  assumes "reads (pa_lexer p) (nat_to_string n @ cs)" "number_ends cs" "n < 2 ^ 64"
  shows "reads_value strtod p states (JUnsigned n) cs"
  using scan_decimal_nat [OF assms, of strtod] by (intro reads_scalar) (auto simp: parse_token_def)

lemma reads_negative:
  assumes "reads (pa_lexer p) (CHR ''-'' # nat_to_string n @ cs)" "number_ends cs" "0 < n" "n \<le> 2 ^ 63"
  shows "reads_value strtod p states (JInteger (- int n)) cs"
  using scan_decimal_negative [OF assms, of strtod] by (intro reads_scalar) (auto simp: parse_token_def)

lemma reads_string:
  assumes "dump_escaped Strict ascii s = Inr t" "reads (pa_lexer p) (CHR 0x22 # t @ CHR 0x22 # cs)"
  shows "reads_value strtod p states (JString s) cs"
  using scan_quoted [OF assms, of strtod] by (intro reads_scalar) (auto simp: parse_token_def)

section \<open>Arrays\<close>

definition reads_back :: "dump_options \<Rightarrow> (string \<Rightarrow> int option) \<Rightarrow> json \<Rightarrow> bool" where
  "reads_back opt strtod v \<longleftrightarrow>
     (\<forall>t p states cs. dump opt v = Inr t \<longrightarrow> reads (pa_lexer p) (t @ cs) \<longrightarrow> number_ends cs \<longrightarrow>
        reads_value strtod p states (json_norm v) cs)"

lemma number_ends_after [simp]:
  "number_ends (CHR '','' # cs)" "number_ends (CHR '']'' # cs)" "number_ends (CHR ''}'' # cs)" "number_ends []"
  by (simp_all add: number_ends_def is_digit_def)

lemma dump_elements_Cons:
  assumes "dump_elements f (v # vs) = Inr u"
  obtains t where "f v = Inr t" "vs = []" "u = t"
    | t w where "f v = Inr t" "vs \<noteq> []" "dump_elements f vs = Inr w" "u = t @ '','' @ w"
  using assms by (auto split: sum.splits if_splits)

lemma reads_elements:
  assumes "\<forall>v \<in> set js. reads_back opt strtod v" "js \<noteq> []" "dump_elements (dump opt) js = Inr u"
    "reads (pa_lexer q) (u @ CHR '']'' # cs)" "ref_stack (pa_dom q) = (s, JArray acc) # st"
  shows "\<exists>p k. sax_parse_loop strtod False (True # states) (get_token strtod q) = sax_parse_loop strtod True states p \<and>
    reads (pa_lexer p) cs \<and>
    pa_dom p = dom_end ((pa_dom q)\<lparr>ref_stack := (s, JArray (acc @ map json_norm js)) # st, object_element := k\<rparr>)"
  using assms
proof (induction js arbitrary: q acc u)
  case (Cons v vs)
  have v: "reads_back opt strtod v" using Cons.prems(1) by simp
  from Cons.prems(3) show ?case
  proof (cases rule: dump_elements_Cons)
    case (1 t)
    have "reads (pa_lexer q) (t @ CHR '']'' # cs)" using Cons.prems(4) 1(3) by simp
    with v 1(1) have "reads_value strtod q (True # states) (json_norm v) (CHR '']'' # cs)"
      by (simp add: reads_back_def)
    then obtain p1 k where p1:
      "sax_parse_loop strtod False (True # states) (get_token strtod q) = sax_parse_loop strtod True (True # states) p1"
      "reads (pa_lexer p1) (CHR '']'' # cs)" "pa_dom p1 = (dom_value (json_norm v) (pa_dom q))\<lparr>object_element := k\<rparr>"
      by (auto simp: reads_value_def)
    let ?p2 = "get_token strtod p1"
    note g = get_punctuation [OF p1(2), of End_array strtod]
    have "evaluate_state strtod (True # states) p1 = Continue True states (on_dom dom_end ?p2)"
      using g(1) by (simp add: evaluate_state_def evaluate_array_def Let_def punctuation_def)
    from loop_evaluate [OF this] p1 g(2) 1(2) dom_value_array [OF Cons.prems(5)] show ?thesis
      by (intro exI [of _ "on_dom dom_end ?p2"] exI [of _ k]) (simp add: punctuation_def)
  next
    case (2 t w)
    have "reads (pa_lexer q) (t @ CHR '','' # w @ CHR '']'' # cs)" using Cons.prems(4) 2(4) by simp
    with v 2(1) have "reads_value strtod q (True # states) (json_norm v) (CHR '','' # w @ CHR '']'' # cs)"
      by (simp add: reads_back_def)
    then obtain p1 k where p1:
      "sax_parse_loop strtod False (True # states) (get_token strtod q) = sax_parse_loop strtod True (True # states) p1"
      "reads (pa_lexer p1) (CHR '','' # w @ CHR '']'' # cs)"
      "pa_dom p1 = (dom_value (json_norm v) (pa_dom q))\<lparr>object_element := k\<rparr>"
      by (auto simp: reads_value_def)
    let ?p2 = "get_token strtod p1"
    note g = get_punctuation [OF p1(2), of Value_separator strtod]
    have "evaluate_state strtod (True # states) p1 = Continue False (True # states) (get_token strtod ?p2)"
      using g(1) by (simp add: evaluate_state_def evaluate_array_def Let_def punctuation_def)
    note e = loop_evaluate [OF this]
    have d: "pa_dom ?p2 = (pa_dom q)\<lparr>ref_stack := (s, JArray (acc @ [json_norm v])) # st, object_element := k\<rparr>"
      using p1(3) dom_value_array [OF Cons.prems(5)] by simp
    then have "ref_stack (pa_dom ?p2) = (s, JArray (acc @ [json_norm v])) # st" by simp
    moreover have "reads (pa_lexer ?p2) (w @ CHR '']'' # cs)" using g(2) by (simp add: punctuation_def)
    ultimately obtain p k' where "sax_parse_loop strtod False (True # states) (get_token strtod ?p2) =
        sax_parse_loop strtod True states p" "reads (pa_lexer p) cs"
      "pa_dom p = dom_end ((pa_dom ?p2)\<lparr>ref_stack := (s, JArray ((acc @ [json_norm v]) @ map json_norm vs)) # st,
          object_element := k'\<rparr>)"
      using Cons.IH [OF _ 2(2,3)] Cons.prems(1) by (metis list.set_intros(2))
    with e p1(1) d show ?thesis by (intro exI [of _ p] exI [of _ k']) simp
  qed
qed simp

lemma reads_elements_start:
  assumes "\<forall>v \<in> set js. reads_back opt strtod v" "js \<noteq> []" "dump_elements (dump opt) js = Inr u"
    "reads (pa_lexer q) (u @ CHR '']'' # cs)"
  shows "pa_last_token (get_token strtod q) \<noteq> End_array"
proof -
  obtain v vs where js: "js = v # vs" using assms(2) by (cases js) auto
  then have v: "reads_back opt strtod v" using assms(1) by simp
  from assms(3) [unfolded js] show ?thesis
  proof (cases rule: dump_elements_Cons)
    case (1 t)
    with v assms(4) show ?thesis by (force simp: reads_back_def reads_value_def)
  next
    case (2 t w)
    then have "reads (pa_lexer q) (t @ CHR '','' # w @ CHR '']'' # cs)" using assms(4) by simp
    with v 2(1) show ?thesis by (force simp: reads_back_def reads_value_def)
  qed
qed

lemma reads_array:
  assumes "\<forall>v \<in> set js. reads_back opt strtod v"
  shows "reads_back opt strtod (JArray js)"
  unfolding reads_back_def
proof (intro allI impI)
  fix t and p :: parser and states cs
  assume t: "dump opt (JArray js) = Inr t" and r: "reads (pa_lexer p) (t @ cs)" and e: "number_ends cs"
  obtain u where u: "t = CHR ''['' # u @ CHR '']'' # []" "js = [] \<and> u = [] \<or> js \<noteq> [] \<and> dump_elements (dump opt) js = Inr u"
    using t by (auto split: if_splits sum.splits)
  have r1: "reads (pa_lexer p) (CHR ''['' # u @ CHR '']'' # cs)" using r u(1) by simp
  note g = get_punctuation [OF r1, of Begin_array strtod]
  let ?p1 = "get_token strtod p"
  let ?q = "on_dom dom_start_array ?p1"
  obtain slot d1 where h: "handle_value (JArray []) (pa_dom p) = (slot, d1)" by force
  have dq: "pa_dom ?q = d1\<lparr>ref_stack := (slot, JArray []) # ref_stack d1\<rparr>"
    by (simp add: dom_start_array_def dom_start_def h)
  have rq: "reads (pa_lexer ?q) (u @ CHR '']'' # cs)" using g(2) by (simp add: punctuation_def)
  have b: "parse_token strtod states ?p1 = parse_begin_array strtod states ?p1"
    using g(1) by (simp add: parse_token_def punctuation_def)
  from u(2) show "reads_value strtod p states (json_norm (JArray js)) cs"
  proof
    assume e: "js = [] \<and> u = []"
    then have rq: "reads (pa_lexer ?q) (CHR '']'' # cs)" using rq by simp
    note g2 = get_punctuation [OF rq, of End_array strtod]
    let ?p2 = "on_dom dom_end (get_token strtod ?q)"
    have "parse_token strtod states ?p1 = Value_read ?p2"
      using b g2(1) by (simp add: parse_begin_array_def Let_def punctuation_def)
    note l = loop_value [OF this]
    have "pa_dom ?p2 = (dom_value (JArray []) (pa_dom p))\<lparr>object_element := object_element d1\<rparr>"
      using dom_end_start [OF h, where v = "JArray []" and k = "object_element d1"] dq by simp
    with l g(1) g2(2) e show ?thesis
      by (intro reads_valueI [of strtod p states ?p2]) (simp_all add: punctuation_def)
  next
    assume ne: "js \<noteq> [] \<and> dump_elements (dump opt) js = Inr u"
    have stack: "ref_stack (pa_dom ?q) = (slot, JArray []) # ref_stack d1" using dq by simp
    from reads_elements [OF assms _ _ rq stack] ne obtain p2 k where p2:
      "sax_parse_loop strtod False (True # states) (get_token strtod ?q) = sax_parse_loop strtod True states p2"
      "reads (pa_lexer p2) cs" "pa_dom p2 = dom_end ((pa_dom ?q)\<lparr>ref_stack := (slot, JArray (map json_norm js)) # ref_stack d1,
         object_element := k\<rparr>)" by (metis append_Nil)
    have "pa_last_token (get_token strtod ?q) \<noteq> End_array"
      using reads_elements_start [OF assms _ _ rq] ne by blast
    then have "parse_token strtod states ?p1 = Continue False (True # states) (get_token strtod ?q)"
      using b by (simp add: parse_begin_array_def Let_def)
    note l = loop_continue [OF this]
    have "pa_dom p2 = (dom_value (JArray (map json_norm js)) (pa_dom p))\<lparr>object_element := k\<rparr>"
      using p2(3) dom_end_start [OF h, where v = "JArray (map json_norm js)" and k = k] dq by simp
    with l g(1) p2(1,2) show ?thesis
      by (intro reads_valueI [of strtod p states p2]) (simp_all add: punctuation_def)
  qed
qed

section \<open>Objects\<close>

definition after_key :: "(string \<Rightarrow> int option) \<Rightarrow> parser \<Rightarrow> parser" where
  "after_key strtod q =
     (let p1 = get_token strtod q in get_token strtod (on_dom (dom_key (lx_token_buffer (pa_lexer p1))) p1))"

lemma dump_string_Inr:
  assumes "dump_string opt s = Inr q" "do_error_handler opt = Strict"
  obtains t where "dump_escaped Strict (do_ensure_ascii opt) s = Inr t" "q = CHR 0x22 # t @ [CHR 0x22]"
  using assms by (auto simp: dump_string_def split: sum.splits)

lemma dump_members_Cons:
  assumes "dump_members opt f ((k, v) # kvs) = Inr u" "do_error_handler opt = Strict"
  obtains q t where "dump_escaped Strict (do_ensure_ascii opt) k = Inr q" "f v = Inr t"
      "kvs = []" "u = CHR 0x22 # q @ CHR 0x22 # CHR '':'' # t"
    | q t w where "dump_escaped Strict (do_ensure_ascii opt) k = Inr q" "f v = Inr t"
      "kvs \<noteq> []" "dump_members opt f kvs = Inr w" "u = CHR 0x22 # q @ CHR 0x22 # CHR '':'' # t @ CHR '','' # w"
proof -
  obtain d where d: "dump_string opt k = Inr d" using assms(1) by (auto split: sum.splits)
  obtain t where t: "f v = Inr t" using assms(1) d by (auto split: sum.splits)
  obtain q where q: "dump_escaped Strict (do_ensure_ascii opt) k = Inr q" "d = CHR 0x22 # q @ [CHR 0x22]"
    using dump_string_Inr [OF d assms(2)] .
  show ?thesis
  proof (cases "kvs = []")
    case True
    with assms(1) d t q that(1) show ?thesis by simp
  next
    case False
    then obtain w where "dump_members opt f kvs = Inr w" using assms(1) d t by (auto split: sum.splits)
    with False assms(1) d t q that(2) show ?thesis by simp
  qed
qed

lemma reads_key:
  assumes "dump_escaped Strict ascii k = Inr t" "reads (pa_lexer q) (CHR 0x22 # t @ CHR 0x22 # CHR '':'' # cs)"
  shows "pa_last_token (get_token strtod q) = Value_string"
    "pa_last_token (after_key strtod q) = Name_separator"
    "reads (pa_lexer (after_key strtod q)) cs" "pa_dom (after_key strtod q) = dom_key k (pa_dom q)"
proof -
  obtain l where l: "scan strtod (pa_lexer q) = (Value_string, l)" "reads l (CHR '':'' # cs)" "lx_token_buffer l = k"
    using scan_quoted [OF assms] by blast
  note e = get_token_eq [OF l(1)]
  let ?p = "on_dom (dom_key k) (q\<lparr>pa_lexer := l, pa_last_token := Value_string\<rparr>)"
  have a: "after_key strtod q = get_token strtod ?p" by (simp add: after_key_def Let_def e l(3))
  have "reads (pa_lexer ?p) (CHR '':'' # cs)" using l(2) by simp
  note g = get_punctuation [OF this, of Name_separator strtod]
  show "pa_last_token (get_token strtod q) = Value_string" by (simp add: e)
  show "pa_last_token (after_key strtod q) = Name_separator" "reads (pa_lexer (after_key strtod q)) cs"
    using g by (simp_all add: a punctuation_def)
  show "pa_dom (after_key strtod q) = dom_key k (pa_dom q)" by (simp add: a)
qed

lemma reads_members:
  assumes "\<forall>v \<in> snd ` set kvs. reads_back opt strtod v" "kvs \<noteq> []"
    "dump_members opt (dump opt) kvs = Inr u" "do_error_handler opt = Strict"
    "reads (pa_lexer q) (u @ CHR ''}'' # cs)" "ref_stack (pa_dom q) = (s, JObject acc) # st"
    "sorted_wrt key_less (map fst acc @ map fst kvs)"
  shows "pa_last_token (get_token strtod q) = Value_string \<and>
    pa_last_token (after_key strtod q) = Name_separator \<and>
    (\<exists>p k. sax_parse_loop strtod False (False # states) (get_token strtod (after_key strtod q)) =
        sax_parse_loop strtod True states p \<and> reads (pa_lexer p) cs \<and>
      pa_dom p = dom_end ((pa_dom q)\<lparr>ref_stack := (s, JObject (acc @ map norm_member kvs)) # st,
        object_element := k\<rparr>))"
  using assms
proof (induction kvs arbitrary: q acc u)
  case (Cons kv kvs)
  obtain k v where kv: "kv = (k, v)" by force
  have v: "reads_back opt strtod v" using Cons.prems(1) kv by simp
  have less: "\<forall>l \<in> fst ` set acc. key_less l k"
    using Cons.prems(7) kv by (auto simp: sorted_wrt_append)
  let ?q = "after_key strtod q"
  have dom: "dom_value (json_norm v) (dom_key k (pa_dom q)) =
      (pa_dom q)\<lparr>ref_stack := (s, JObject (acc @ [(k, json_norm v)])) # st, object_element := k\<rparr>"
    using dom_value_member [OF Cons.prems(6) less] .
  from Cons.prems(3) [unfolded kv] Cons.prems(4) show ?case
  proof (cases rule: dump_members_Cons)
    case (1 kt t)
    have "reads (pa_lexer q) (CHR 0x22 # kt @ CHR 0x22 # CHR '':'' # t @ CHR ''}'' # cs)"
      using Cons.prems(5) 1(4) by simp
    note key = reads_key [OF 1(1) this, of strtod]
    have "reads_value strtod ?q (False # states) (json_norm v) (CHR ''}'' # cs)"
      using v 1(2) key(3) by (simp add: reads_back_def)
    then obtain p1 k1 where p1:
      "sax_parse_loop strtod False (False # states) (get_token strtod ?q) = sax_parse_loop strtod True (False # states) p1"
      "reads (pa_lexer p1) (CHR ''}'' # cs)" "pa_dom p1 = (dom_value (json_norm v) (pa_dom ?q))\<lparr>object_element := k1\<rparr>"
      by (auto simp: reads_value_def)
    let ?p2 = "get_token strtod p1"
    note g = get_punctuation [OF p1(2), of End_object strtod]
    have "evaluate_state strtod (False # states) p1 = Continue True states (on_dom dom_end ?p2)"
      using g(1) by (simp add: evaluate_state_def evaluate_object_def Let_def punctuation_def)
    note e = loop_evaluate [OF this]
    have "pa_dom (on_dom dom_end ?p2) = dom_end ((pa_dom q)\<lparr>ref_stack :=
        (s, JObject (acc @ map norm_member (kv # kvs))) # st, object_element := k1\<rparr>)"
      using p1(3) key(4) dom 1(3) kv by simp
    with e p1(1) g(2) key(1,2) show ?thesis
      by (intro conjI exI [of _ "on_dom dom_end ?p2"] exI [of _ k1]) (simp_all add: punctuation_def)
  next
    case (2 kt t w)
    have "reads (pa_lexer q) (CHR 0x22 # kt @ CHR 0x22 # CHR '':'' # t @ CHR '','' # w @ CHR ''}'' # cs)"
      using Cons.prems(5) 2(5) by simp
    note key = reads_key [OF 2(1) this, of strtod]
    have "reads_value strtod ?q (False # states) (json_norm v) (CHR '','' # w @ CHR ''}'' # cs)"
      using v 2(2) key(3) by (simp add: reads_back_def)
    then obtain p1 k1 where p1:
      "sax_parse_loop strtod False (False # states) (get_token strtod ?q) = sax_parse_loop strtod True (False # states) p1"
      "reads (pa_lexer p1) (CHR '','' # w @ CHR ''}'' # cs)"
      "pa_dom p1 = (dom_value (json_norm v) (pa_dom ?q))\<lparr>object_element := k1\<rparr>"
      by (auto simp: reads_value_def)
    let ?p2 = "get_token strtod p1"
    note g = get_punctuation [OF p1(2), of Value_separator strtod]
    have d: "pa_dom ?p2 = (pa_dom q)\<lparr>ref_stack := (s, JObject (acc @ [(k, json_norm v)])) # st, object_element := k1\<rparr>"
      using p1(3) key(4) dom by simp
    then have stack: "ref_stack (pa_dom ?p2) = (s, JObject (acc @ [(k, json_norm v)])) # st" by simp
    have r2: "reads (pa_lexer ?p2) (w @ CHR ''}'' # cs)" using g(2) by (simp add: punctuation_def)
    have prems: "\<forall>v \<in> snd ` set kvs. reads_back opt strtod v"
      "sorted_wrt key_less (map fst (acc @ [(k, json_norm v)]) @ map fst kvs)"
      using Cons.prems(1,7) kv by simp_all
    from Cons.IH [OF prems(1) 2(3,4) Cons.prems(4) r2 stack prems(2)] obtain p k' where p:
      "pa_last_token (get_token strtod ?p2) = Value_string" "pa_last_token (after_key strtod ?p2) = Name_separator"
      "sax_parse_loop strtod False (False # states) (get_token strtod (after_key strtod ?p2)) = sax_parse_loop strtod True states p"
      "reads (pa_lexer p) cs"
      "pa_dom p = dom_end ((pa_dom ?p2)\<lparr>ref_stack := (s, JObject ((acc @ [(k, json_norm v)]) @
          map norm_member kvs)) # st, object_element := k'\<rparr>)"
      by blast
    have "evaluate_state strtod (False # states) p1 =
        Continue False (False # states) (get_token strtod (after_key strtod ?p2))"
      using g(1) p(1,2) by (simp add: evaluate_state_def evaluate_object_def after_key_def Let_def punctuation_def)
    note e = loop_evaluate [OF this]
    have "pa_dom p = dom_end ((pa_dom q)\<lparr>ref_stack :=
        (s, JObject (acc @ map norm_member (kv # kvs))) # st, object_element := k'\<rparr>)"
      using p(5) d kv by simp
    with e p1(1) p(3,4) key(1,2) show ?thesis
      by (intro conjI exI [of _ p] exI [of _ k']) simp_all
  qed
qed simp

lemma reads_object:
  assumes "\<forall>v \<in> snd ` set kvs. reads_back opt strtod v" "do_error_handler opt = Strict"
    "sorted_wrt key_less (map fst kvs)"
  shows "reads_back opt strtod (JObject kvs)"
  unfolding reads_back_def
proof (intro allI impI)
  fix t and p :: parser and states cs
  assume t: "dump opt (JObject kvs) = Inr t" and r: "reads (pa_lexer p) (t @ cs)" and e: "number_ends cs"
  obtain u where u: "t = CHR ''{'' # u @ CHR ''}'' # []"
    "kvs = [] \<and> u = [] \<or> kvs \<noteq> [] \<and> dump_members opt (dump opt) kvs = Inr u"
    using t by (auto split: if_splits sum.splits)
  have r1: "reads (pa_lexer p) (CHR ''{'' # u @ CHR ''}'' # cs)" using r u(1) by simp
  note g = get_punctuation [OF r1, of Begin_object strtod]
  let ?p1 = "get_token strtod p"
  let ?q = "on_dom dom_start_object ?p1"
  obtain slot d1 where h: "handle_value (JObject []) (pa_dom p) = (slot, d1)" by force
  have dq: "pa_dom ?q = d1\<lparr>ref_stack := (slot, JObject []) # ref_stack d1\<rparr>"
    by (simp add: dom_start_object_def dom_start_def h)
  have rq: "reads (pa_lexer ?q) (u @ CHR ''}'' # cs)" using g(2) by (simp add: punctuation_def)
  have b: "parse_token strtod states ?p1 = parse_begin_object strtod states ?p1"
    using g(1) by (simp add: parse_token_def punctuation_def)
  from u(2) show "reads_value strtod p states (json_norm (JObject kvs)) cs"
  proof
    assume e: "kvs = [] \<and> u = []"
    then have rq: "reads (pa_lexer ?q) (CHR ''}'' # cs)" using rq by simp
    note g2 = get_punctuation [OF rq, of End_object strtod]
    let ?p2 = "on_dom dom_end (get_token strtod ?q)"
    have "parse_token strtod states ?p1 = Value_read ?p2"
      using b g2(1) by (simp add: parse_begin_object_def Let_def punctuation_def)
    note l = loop_value [OF this]
    have "pa_dom ?p2 = (dom_value (JObject []) (pa_dom p))\<lparr>object_element := object_element d1\<rparr>"
      using dom_end_start [OF h, where v = "JObject []" and k = "object_element d1"] dq by simp
    with l g(1) g2(2) e show ?thesis
      by (intro reads_valueI [of strtod p states ?p2]) (simp_all add: punctuation_def)
  next
    assume ne: "kvs \<noteq> [] \<and> dump_members opt (dump opt) kvs = Inr u"
    have stack: "ref_stack (pa_dom ?q) = (slot, JObject []) # ref_stack d1" using dq by simp
    have sorted: "sorted_wrt key_less (map fst ([] :: (string \<times> json) list) @ map fst kvs)"
      using assms(3) by simp
    from reads_members [OF assms(1) _ _ assms(2) rq stack sorted] ne obtain p2 k where p2:
      "pa_last_token (get_token strtod ?q) = Value_string" "pa_last_token (after_key strtod ?q) = Name_separator"
      "sax_parse_loop strtod False (False # states) (get_token strtod (after_key strtod ?q)) =
         sax_parse_loop strtod True states p2"
      "reads (pa_lexer p2) cs" "pa_dom p2 = dom_end ((pa_dom ?q)\<lparr>ref_stack := (slot, JObject (map norm_member kvs)) # ref_stack d1,
         object_element := k\<rparr>)" by (metis append_Nil)
    have "parse_token strtod states ?p1 = Continue False (False # states) (get_token strtod (after_key strtod ?q))"
      using b p2(1,2) by (simp add: parse_begin_object_def after_key_def Let_def)
    note l = loop_continue [OF this]
    have "pa_dom p2 = (dom_value (JObject (map norm_member kvs)) (pa_dom p))\<lparr>object_element := k\<rparr>"
      using p2(5) dom_end_start [OF h, where v = "JObject (map norm_member kvs)" and k = k] dq by simp
    with l g(1) p2(3,4) show ?thesis
      by (intro reads_valueI [of strtod p states p2]) (simp_all add: punctuation_def)
  qed
qed

section \<open>Every value\<close>

lemma reads_integer:
  assumes "reads (pa_lexer p) (decimal i @ cs)" "number_ends cs" "- (2 ^ 63) \<le> i" "i < 2 ^ 64"
  shows "reads_value strtod p states (if 0 \<le> i then JUnsigned (nat i) else JInteger i) cs"
proof (cases "0 \<le> i")
  case True
  then show ?thesis using assms reads_nat [of p "nat i" cs strtod states] by (simp add: decimal_def)
next
  case False
  then show ?thesis
    using assms reads_negative [of p "nat (- i)" cs strtod states] by (simp add: decimal_def)
qed

lemma json_ok_children:
  "json_ok (JArray js) \<longleftrightarrow> (\<forall>v \<in> set js. json_ok v)"
  "json_ok (JObject kvs) \<longleftrightarrow> sorted_wrt key_less (map fst kvs) \<and> (\<forall>v \<in> snd ` set kvs. json_ok v)"
  by (auto simp: list_all_iff map_prod_def split_beta)

lemma json_reads_back:
  assumes "do_error_handler opt = Strict"
  shows "json_ok v \<Longrightarrow> reads_back opt strtod v"
proof (induction v)
  case JNull
  show ?case using reads_literals(3) by (auto simp: reads_back_def)
next
  case (JBool b)
  show ?case using reads_literals(1,2) by (cases b) (auto simp: reads_back_def)
next
  case (JUnsigned n)
  then have n: "int n < 2 ^ 64" by simp
  then have "dump_integer number_buffer (int n) = decimal (int n)"
    using dump_integer_text [of "int n"] by simp
  with n reads_integer [where i = "int n"] show ?case by (simp add: reads_back_def)
next
  case (JInteger i)
  then have i: "- (2 ^ 63) \<le> i" "i < 2 ^ 64" by simp_all
  then have "dump_integer number_buffer i = decimal i" using dump_integer_text [of i] by simp
  with i reads_integer [where i = i] show ?case by (simp add: reads_back_def)
next
  case (JFloat x)
  then show ?case by simp
next
  case (JString s)
  show ?case
    unfolding reads_back_def
  proof (intro allI impI)
    fix t and p :: parser and states cs
    assume "dump opt (JString s) = Inr t" and r: "reads (pa_lexer p) (t @ cs)"
    then obtain q where "dump_escaped Strict (do_ensure_ascii opt) s = Inr q" "t = CHR 0x22 # q @ [CHR 0x22]"
      using dump_string_Inr [of opt s t] assms by auto
    with r reads_string show "reads_value strtod p states (json_norm (JString s)) cs" by simp
  qed
next
  case (JArray js)
  then show ?case by (intro reads_array) (simp add: json_ok_children del: json_ok.simps)
next
  case (JObject kvs)
  then show ?case
    using assms by (intro reads_object) (auto simp: json_ok_children simp del: json_ok.simps)
qed

text \<open>The whole text: one value, then the end of the input.\<close>

lemma dumped_text_parses:
  assumes "json_ok v" "dump opt v = Inr t" "do_error_handler opt = Strict"
  shows "json_parse strtod t = Inr (Some (json_norm v))"
proof -
  let ?p = "\<lparr>pa_lexer = lexer_new t False, pa_last_token = Uninitialized, pa_dom = dom_new, pa_allow_exceptions = True\<rparr>"
  have "reads_value strtod ?p [] (json_norm v) []"
    using json_reads_back [OF assms(3,1), of strtod] assms(2) by (simp add: reads_back_def)
  then obtain p1 k where p1:
    "sax_parse_loop strtod False [] (get_token strtod ?p) = sax_parse_loop strtod True [] p1"
    "reads (pa_lexer p1) []" "pa_dom p1 = (dom_value (json_norm v) dom_new)\<lparr>object_element := k\<rparr>"
    by (auto simp: reads_value_def)
  have "sax_parse_loop strtod True [] p1 = Inr (True, p1)"
    by (subst sax_parse_loop.simps) (simp add: sax_round_def round_value_def evaluate_state_def)
  moreover have "pa_last_token (get_token strtod p1) = End_of_input"
    using getsI [OF scan_end [OF p1(2)]] by simp
  moreover have "dom_root (pa_dom p1) = json_norm v" "\<not> dom_errored (pa_dom p1)"
    using p1(3) by (simp_all add: dom_value_def handle_value_def dom_new_def)
  ultimately show ?thesis
    using p1(1) by (simp add: json_parse_def parser_parse_def sax_parse_internal_def parser_new_def Let_def)
qed

text \<open>C31. What \<^verbatim>\<open>dump\<close> prints of a value without floating point numbers, \<^verbatim>\<open>json::parse\<close> reads back as
  the same value, where a non-negative number comes back as an unsigned one: with escaped and raw
  strings, numbers up to the limits of their types and containers nested to any depth. The value
  has its numbers in the range of their 64-bit types and the keys of its objects in the order of
  the map that holds them, and it is printed by the strict error handler, the default of
  \<^verbatim>\<open>dump\<close>, without an exception; whether the other characters than ASCII are escaped is free.\<close>

theorem dump_parse_round_trip:
  assumes "json_ok v" "dump opt v = Inr t" "do_error_handler opt = Strict"
  shows "json_parse strtod t = Inr (Some (json_norm v))"
  by (rule dumped_text_parses [OF assms])

definition demo_value :: json where
  "demo_value = JObject [(''a'', JArray [JInteger (-7), JBool True, JNull]), (''b'', JString [CHR 0x22])]"

definition demo_options :: dump_options where
  "demo_options = \<lparr>do_ensure_ascii = False, do_error_handler = Strict, do_float = \<lambda>x. []\<rparr>"

definition demo_text :: string where
  "demo_text = ''{'' @ [CHR 0x22] @ ''a'' @ [CHR 0x22] @ '':[-7,true,null],'' @ [CHR 0x22] @ ''b'' @
     [CHR 0x22] @ '':'' @ [CHR 0x22, CHR 0x5C, CHR 0x22, CHR 0x22] @ ''}''"

lemma demo_dump: "dump demo_options demo_value = Inr demo_text"
  by code_simp

theorem dump_parse_round_trip_witness:
  "json_parse (\<lambda>s. None) demo_text = Inr (Some demo_value)"
proof -
  have "json_ok demo_value" "json_norm demo_value = demo_value" "do_error_handler demo_options = Strict"
    by (simp_all add: demo_value_def demo_options_def)
  with dump_parse_round_trip [OF _ demo_dump, of "\<lambda>s. None"] show ?thesis by simp
qed

end
