(* ===== verification/Json_Read_Valid.thy ===== *)
theory Json_Read_Valid
  imports Json_Read_String
begin

text \<open>Every string that \<^verbatim>\<open>scan_string\<close> returns is valid UTF-8, whatever the input.\<close>

section \<open>Strings read are valid\<close>

lemma codepoint_loop_range:
  assumes "codepoint_loop fs acc lx = (cp, lx')" "cp \<noteq> -1"
  shows "acc \<le> cp \<and> cp \<le> acc + 15 * (\<Sum>f \<leftarrow> fs. 2 ^ f) \<and> lx_token_buffer lx' = lx_token_buffer lx"
  using assms
proof (induction fs arbitrary: acc lx)
  case (Cons f fs)
  then obtain d where d: "0 \<le> d" "d \<le> 15" "codepoint_loop fs (acc + d * 2 ^ f) (lexer_get lx) = (cp, lx')"
  proof -
    let ?c = "lx_current (lexer_get lx)"
    show thesis
    proof (cases "48 \<le> ?c \<and> ?c \<le> 57")
      case True
      with Cons.prems that [of "?c - 48"] show ?thesis by (simp add: Let_def)
    next
      case no_digit: False
      show ?thesis
      proof (cases "65 \<le> ?c \<and> ?c \<le> 70")
        case True
        with no_digit Cons.prems that [of "?c - 55"] show ?thesis by (simp add: Let_def)
      next
        case False
        with no_digit Cons.prems that [of "?c - 87"] show ?thesis
          by (simp add: Let_def split: if_splits)
      qed
    qed
  qed
  have "0 \<le> d * 2 ^ f" "d * 2 ^ f \<le> 15 * 2 ^ f" using d(1,2) by simp_all
  with Cons.IH [OF d(3) Cons.prems(2)] show ?case
    unfolding list.map sum_list.Cons distrib_left token_buffer_sel by linarith
qed simp

lemma get_codepoint_range:
  assumes "get_codepoint lx = (cp, lx')" "cp \<noteq> -1"
  shows "0 \<le> cp" "cp \<le> 0xFFFF" "lx_token_buffer lx' = lx_token_buffer lx"
  using codepoint_loop_range [OF assms [unfolded get_codepoint_def]] by simp_all

lemma valid_utf8_add_codepoint:
  assumes "valid_utf8 (lx_token_buffer lx)" "scalar_value cp"
  shows "valid_utf8 (lx_token_buffer (add_codepoint cp lx))"
  using valid_utf8_append [OF assms(1) valid_utf8_unit [OF unit_of_codepoint [OF assms(2)]]] by simp

lemma scan_low_surrogate_valid:
  assumes "scan_low_surrogate hi lx = (True, lx')" "0xD800 \<le> hi" "hi \<le> 0xDBFF"
    "valid_utf8 (lx_token_buffer lx)"
  shows "valid_utf8 (lx_token_buffer lx')"
proof -
  obtain lo l where g: "get_codepoint (lexer_get (lexer_get lx)) = (lo, l)" by force
  with assms(1) have "lo \<noteq> -1" "0xDC00 \<le> lo" "lo \<le> 0xDFFF"
    and l: "lx' = add_codepoint (hi * 2 ^ 10 + lo - 0x35FDC00) l"
    by (auto simp: scan_low_surrogate_def Let_def split: if_splits)
  then have "scalar_value (hi * 2 ^ 10 + lo - 0x35FDC00)"
    using assms(2,3) by (auto simp: scalar_value_def)
  moreover have "valid_utf8 (lx_token_buffer l)"
    using get_codepoint_range(3) [OF g \<open>lo \<noteq> -1\<close>] assms(4) by simp
  ultimately show ?thesis using valid_utf8_add_codepoint l by simp
qed

lemma valid_utf8_ascii:
  assumes "valid_utf8 s" "0 \<le> c" "c < 128"
  shows "valid_utf8 (s @ [char_of (c :: int)])"
  using valid_utf8_append [OF assms(1) valid_utf8_unit [OF unit1I [of c]]] assms(2,3) by (simp add: unit1_def)

lemma scan_escape_valid:
  assumes "scan_escape lx = (True, lx')" "valid_utf8 (lx_token_buffer lx)"
  shows "valid_utf8 (lx_token_buffer lx')"
proof (cases "lx_current (lexer_get lx) = 117")
  case False
  then show ?thesis
    using assms valid_utf8_ascii [OF assms(2)] by (auto simp: scan_escape_def Let_def split: if_splits)
next
  case True
  obtain cp l where g: "get_codepoint (lexer_get lx) = (cp, l)" by force
  have "scan_unicode_escape (lexer_get lx) = (True, lx')"
    using assms(1) True by (simp add: scan_escape_def Let_def)
  then have cp: "cp \<noteq> -1" and r:
    "(if 0xD800 \<le> cp \<and> cp \<le> 0xDBFF then scan_low_surrogate cp l else (True, add_codepoint cp l)) = (True, lx')"
    "\<not> (0xDC00 \<le> cp \<and> cp \<le> 0xDFFF)"
    by (auto simp: scan_unicode_escape_def g split: if_splits)
  have v: "valid_utf8 (lx_token_buffer l)" using get_codepoint_range(3) [OF g cp] assms(2) by simp
  show ?thesis
  proof (cases "0xD800 \<le> cp \<and> cp \<le> 0xDBFF")
    case True
    with r v scan_low_surrogate_valid show ?thesis by simp
  next
    case False
    then have "scalar_value cp"
      using get_codepoint_range [OF g cp] r(2) by (auto simp: scalar_value_def)
    moreover have "lx' = add_codepoint cp l" using False r by auto
    ultimately show ?thesis using v valid_utf8_add_codepoint by simp
  qed
qed

lemma ranges_loop_valid:
  assumes "ranges_loop rs lx = (True, lx')" "rs = [] \<or> rs \<in> set known_ranges"
  shows "\<exists>cs. in_ranges rs cs \<and> lx_token_buffer lx' = lx_token_buffer lx @ cs"
  using assms
proof (induction rs arbitrary: lx)
  case (Cons r rs)
  obtain lo hi where r: "r = (lo, hi)" by force
  let ?c = "lx_current (lexer_get lx)"
  have l: "ranges_loop rs (lexer_add ?c (lexer_get lx)) = (True, lx')" and c: "lo \<le> ?c" "?c \<le> hi"
    using Cons.prems(1) r by (auto simp: Let_def split: if_splits)
  have k: "(lo, hi) # rs \<in> set known_ranges" using Cons.prems(2) r by simp
  then have "0 \<le> lo" "hi < 256" by (auto simp: known_ranges_def)
  then have "(of_char (char_of ?c) :: int) = ?c" using c by simp
  moreover obtain cs where "in_ranges rs cs"
      "lx_token_buffer lx' = (lx_token_buffer lx @ [char_of ?c]) @ cs"
    using Cons.IH [OF l known_tails [OF k]] by auto
  ultimately show ?case using c r by (intro exI [of _ "char_of ?c # cs"]) simp
qed simp

lemma scan_raw_valid:
  assumes "scan_raw lx = (True, lx')" "valid_utf8 (lx_token_buffer lx)"
  shows "valid_utf8 (lx_token_buffer lx')"
proof (cases "plain_char (lx_current lx)")
  case True
  then show ?thesis
    using assms valid_utf8_ascii [OF assms(2)]
    by (auto simp: scan_raw_def Let_def plain_char_def split: if_splits)
next
  case False
  let ?c = "lx_current lx"
  obtain rs where rs: "utf8_ranges ?c = Some rs" "ranges_loop rs (lexer_add ?c lx) = (True, lx')"
    using assms(1) False
    by (auto simp: scan_raw_def Let_def next_byte_in_range_def split: if_splits option.splits)
  obtain cs where cs: "in_ranges rs cs" "lx_token_buffer lx' = lx_token_buffer lx @ char_of ?c # cs"
    using ranges_loop_valid [OF rs(2)] utf8_ranges_known [OF rs(1)] by auto
  have "0x80 \<le> ?c" "?c < 256" using rs(1) by (auto simp: utf8_ranges_def split: if_splits)
  then have "utf8_unit (char_of ?c # cs)" using rs(1) cs(1) by (simp add: utf8_unit_def)
  then show ?thesis using valid_utf8_append [OF assms(2)] valid_utf8_unit cs(2) by simp
qed

lemma scan_string_loop_valid:
  "scan_string_loop lx = (Value_string, lx') \<Longrightarrow> valid_utf8 (lx_token_buffer lx) \<Longrightarrow>
     valid_utf8 (lx_token_buffer lx')"
proof (induction lx rule: scan_string_loop.induct)
  case (1 lx)
  let ?l = "lexer_get lx" and ?c = "lx_current (lexer_get lx)"
  show ?case
  proof (cases "?c = char_eof \<or> ?c = 34")
    case True
    then show ?thesis
      using 1(2,3) by (subst (asm) scan_string_loop.simps) (auto simp: Let_def split: if_splits)
  next
    case False
    obtain ok l2 where s: "(if ?c = 92 then scan_escape ?l else scan_raw ?l) = (ok, l2)" by force
    then have ok: "ok" and r: "scan_string_loop l2 = (Value_string, lx')"
      using 1(2) False by (subst (asm) scan_string_loop.simps; auto simp: Let_def split: if_splits)+
    have "valid_utf8 (lx_token_buffer l2)"
      using s ok 1(3) scan_escape_valid [of ?l l2] scan_raw_valid [of ?l l2] by (auto split: if_splits)
    with 1(1) [OF refl refl _ _ s [symmetric] refl ok r] False show ?thesis by simp
  qed
qed

theorem scan_string_valid:
  "scan_string lx = (Value_string, lx') \<Longrightarrow> valid_utf8 (lx_token_buffer lx')"
  using scan_string_loop_valid [of "lexer_reset lx" lx'] by (simp add: scan_string_def)
end
