(* ===== verification/Json_Parse_Dump.thy ===== *)
theory Json_Parse_Dump
  imports Json_Round_Trip Json_Read_Valid
begin

text \<open>
  Whatever \<^verbatim>\<open>json::parse\<close> returns can be dumped again: strings are valid UTF-8, integers fit
  their types and the keys of an object are in order.
\<close>

section \<open>Values that a parser can return\<close>

primrec json_wf :: "json \<Rightarrow> bool" where
  "json_wf JNull = True"
| "json_wf (JBool b) = True"
| "json_wf (JUnsigned n) = (n < 2 ^ 64)"
| "json_wf (JInteger i) = (- (2 ^ 63) \<le> i \<and> i < 2 ^ 63)"
| "json_wf (JFloat x) = True"
| "json_wf (JString s) = valid_utf8 s"
| "json_wf (JArray js) = list_all id (map json_wf js)"
| "json_wf (JObject kvs) =
     (sorted_wrt key_less (map fst kvs) \<and> (\<forall>k \<in> fst ` set kvs. valid_utf8 k) \<and>
      list_all snd (map (map_prod id json_wf) kvs))"

primrec float_free :: "json \<Rightarrow> bool" where
  "float_free JNull = True"
| "float_free (JBool b) = True"
| "float_free (JUnsigned n) = True"
| "float_free (JInteger i) = True"
| "float_free (JFloat x) = False"
| "float_free (JString s) = True"
| "float_free (JArray js) = list_all id (map float_free js)"
| "float_free (JObject kvs) = list_all snd (map (map_prod id float_free) kvs)"

declare json_wf.simps(7,8) [simp del] float_free.simps(7,8) [simp del]

lemma json_wf_children [simp]:
  "json_wf (JArray js) \<longleftrightarrow> (\<forall>v \<in> set js. json_wf v)"
  "json_wf (JObject kvs) \<longleftrightarrow> sorted_wrt key_less (map fst kvs) \<and> (\<forall>k \<in> fst ` set kvs. valid_utf8 k) \<and>
     (\<forall>v \<in> snd ` set kvs. json_wf v)"
  by (auto simp: json_wf.simps(7,8) list_all_iff map_prod_def split_beta)

lemma float_free_children [simp]:
  "float_free (JArray js) \<longleftrightarrow> (\<forall>v \<in> set js. float_free v)"
  "float_free (JObject kvs) \<longleftrightarrow> (\<forall>v \<in> snd ` set kvs. float_free v)"
  by (auto simp: float_free.simps(7,8) list_all_iff map_prod_def split_beta)

lemma json_wf_ok: "json_wf v \<Longrightarrow> float_free v \<Longrightarrow> json_ok v"
proof (induction v)
  case (JObject kvs)
  have "json_ok v" if "v \<in> snd ` set kvs" for v
  proof -
    from that obtain k where "(k, v) \<in> set kvs" by auto
    then have "float_free v" "json_wf v" using JObject.prems by auto
    with JObject.IH [OF \<open>(k, v) \<in> set kvs\<close>, of v] show ?thesis by (simp add: snds.simps)
  qed
  with JObject.prems show ?case by (simp add: json_ok_children del: json_ok.simps(7,8))
qed (simp_all add: json_ok_children del: json_ok.simps(7,8))

text \<open>Such a value can be dumped.\<close>

lemma dump_elements_Inr:
  "\<forall>v \<in> set vs. \<exists>t. f v = Inr t \<Longrightarrow> \<exists>u. dump_elements f vs = Inr u"
  by (induction vs) (auto split: sum.split)

lemma dump_string_valid: "valid_utf8 s \<Longrightarrow> do_error_handler opt = Strict \<Longrightarrow> \<exists>t. dump_string opt s = Inr t"
  using strict_dump_valid_utf8 [of "do_ensure_ascii opt" s] by (auto simp: dump_string_def)

lemma dump_members_Inr:
  assumes "\<forall>v \<in> snd ` set kvs. \<exists>t. f v = Inr t" "\<forall>k \<in> fst ` set kvs. valid_utf8 k"
    "do_error_handler opt = Strict"
  shows "\<exists>u. dump_members opt f kvs = Inr u"
  using assms
proof (induction kvs)
  case (Cons kv kvs)
  obtain k v where kv: "kv = (k, v)" by force
  obtain q where "dump_string opt k = Inr q"
    using dump_string_valid [of k opt] Cons.prems kv by auto
  moreover obtain t where "f v = Inr t" using Cons.prems(1) kv by auto
  moreover obtain w where "dump_members opt f kvs = Inr w" using Cons by auto
  ultimately show ?case using kv by simp
qed simp

lemma dump_wf:
  assumes "do_error_handler opt = Strict"
  shows "json_wf v \<Longrightarrow> \<exists>t. dump opt v = Inr t"
proof (induction v)
  case (JString s)
  then show ?case using dump_string_valid assms by simp
next
  case (JArray js)
  then have "\<forall>v \<in> set js. \<exists>t. dump opt v = Inr t" by simp
  from dump_elements_Inr [OF this] show ?case by (auto split: sum.split)
next
  case (JObject kvs)
  then have "\<forall>v \<in> snd ` set kvs. \<exists>t. dump opt v = Inr t" by (auto simp: snds.simps)
  from dump_members_Inr [OF this _ assms] JObject.prems show ?case by (auto split: sum.split)
qed simp_all

section \<open>Tokens\<close>

lemma scan_token_cases:
  assumes "scan strtod lx = (t, l)"
  obtains l2 where "scan_token strtod l2 = (t, l)" | "t = Token_parse_error"
  using assms by (auto simp: scan_def Let_def split: prod.splits if_splits bool.splits)

lemma literal_loop_token: "literal_loop cs t lx = (t', l) \<Longrightarrow> t' = t \<or> t' = Token_parse_error"
  by (induction cs arbitrary: lx) (auto simp: Let_def split: if_splits)

definition token_value_ok :: "token_type \<Rightarrow> lexer \<Rightarrow> bool" where
  "token_value_ok t l \<longleftrightarrow>
     (t = Value_string \<longrightarrow> valid_utf8 (lx_token_buffer l)) \<and>
     (t = Value_unsigned \<longrightarrow> lx_value_unsigned l < 2 ^ 64) \<and>
     (t = Value_integer \<longrightarrow> - (2 ^ 63) \<le> lx_value_integer l \<and> lx_value_integer l < 2 ^ 63)"

lemma scan_number_done_ok: "scan_number_done strtod ty lx = (t, l) \<Longrightarrow> token_value_ok t l"
  by (auto simp: scan_number_done_def scan_number_float_def token_value_ok_def strtoull_def strtoll_def Let_def
      split: if_splits option.splits)

lemma scan_number_loop_ok: "scan_number_loop strtod st ty lx = (t, l) \<Longrightarrow> token_value_ok t l"
proof (induction strtod st ty lx rule: scan_number_loop.induct)
  case (1 strtod st ty lx)
  show ?case
  proof (cases "number_next st (lx_current (lexer_get lx))")
    case (Goto c st')
    with 1 show ?thesis by (subst (asm) (2) scan_number_loop.simps) simp
  next
    case Number_done
    then show ?thesis
      using 1(2) scan_number_done_ok by (subst (asm) scan_number_loop.simps) simp
  next
    case (Number_error m)
    then show ?thesis
      using 1(2) by (subst (asm) scan_number_loop.simps) (auto simp: token_value_ok_def)
  qed
qed

lemma scan_number_ok: "scan_number strtod lx = (t, l) \<Longrightarrow> token_value_ok t l"
  by (auto simp: scan_number_def Let_def token_value_ok_def dest: scan_number_loop_ok split: number_move.splits)

lemma scan_string_token: "scan_string lx = (t, l) \<Longrightarrow> t = Value_string \<or> t = Token_parse_error"
proof -
  have "scan_string_loop lx = (t, l) \<Longrightarrow> t = Value_string \<or> t = Token_parse_error" for lx
  proof (induction lx rule: scan_string_loop.induct)
    case (1 lx)
    let ?l = "lexer_get lx" and ?c = "lx_current (lexer_get lx)"
    obtain ok l2 where s: "(if ?c = 92 then scan_escape ?l else scan_raw ?l) = (ok, l2)" by force
    from 1(2) have e: "(if ?c = char_eof
         then (Token_parse_error, lexer_error ''invalid string: missing closing quote'' ?l)
         else if ?c = 34 then (Value_string, ?l)
         else if ok then scan_string_loop l2 else (Token_parse_error, l2)) = (t, l)"
      by (subst (asm) scan_string_loop.simps) (simp only: Let_def s prod.case)
    then show ?case
      using 1(1) [OF refl refl _ _ s [symmetric] refl] by (auto split: if_splits)
  qed
  then show "scan_string lx = (t, l) \<Longrightarrow> t = Value_string \<or> t = Token_parse_error"
    by (simp add: scan_string_def)
qed

lemma scan_string_ok: "scan_string lx = (t, l) \<Longrightarrow> token_value_ok t l"
  using scan_string_token scan_string_valid by (fastforce simp: token_value_ok_def)

lemma scan_literal_ok:
  assumes "scan_literal w ty lx = (t, l)" "ty \<in> {Literal_true, Literal_false, Literal_null}"
  shows "token_value_ok t l"
  using literal_loop_token [OF assms(1) [unfolded scan_literal_def]] assms(2) by (auto simp: token_value_ok_def)

lemma scan_ok:
  assumes "scan strtod lx = (t, l)"
  shows "token_value_ok t l"
  using assms
proof (cases rule: scan_token_cases)
  case (1 l2)
  then show ?thesis
    by (auto simp: scan_token_def Let_def token_value_ok_def [of End_array] token_value_ok_def [of Begin_array]
        token_value_ok_def [of End_object] token_value_ok_def [of Begin_object]
        token_value_ok_def [of Name_separator] token_value_ok_def [of Value_separator]
        token_value_ok_def [of End_of_input] token_value_ok_def [of Token_parse_error]
        dest: scan_string_ok scan_number_ok scan_literal_ok split: if_splits)
qed (simp add: token_value_ok_def)

section \<open>The handler\<close>

definition dom_wf :: "dom \<Rightarrow> bool" where
  "dom_wf d \<longleftrightarrow> json_wf (dom_root d) \<and> (\<forall>v \<in> snd ` set (ref_stack d). json_wf v)"

lemma dom_wf_new [simp]: "dom_wf dom_new"
  by (simp add: dom_wf_def dom_new_def)

lemma key_less_trans: "key_less a b \<Longrightarrow> key_less b c \<Longrightarrow> key_less a c"
proof (induction a b arbitrary: c rule: key_less.induct)
  case (4 x xs y ys)
  then show ?case by (cases c) auto
qed (case_tac c; simp)+

lemma object_at_elems: "kv \<in> set (object_at k kvs) \<Longrightarrow> kv = (k, JNull) \<or> kv \<in> set kvs"
  by (induction kvs) (auto split: if_splits)

lemma object_set_elems: "kv \<in> set (object_set k v kvs) \<Longrightarrow> kv = (k, v) \<or> kv \<in> set kvs"
  by (induction kvs) (auto split: if_splits)

lemma object_at_sorted:
  "sorted_wrt key_less (map fst kvs) \<Longrightarrow> sorted_wrt key_less (map fst (object_at k kvs))"
proof (induction kvs)
  case (Cons kv kvs)
  obtain l v where kv: "kv = (l, v)" by force
  have tail: "\<forall>m \<in> fst ` set kvs. key_less l m" "sorted_wrt key_less (map fst (object_at k kvs))"
    using Cons kv by auto
  have "\<forall>m \<in> fst ` set (object_at k kvs). key_less l m" if "key_less l k"
    using object_at_elems [of _ k kvs] tail(1) that by fastforce
  with tail Cons.prems show ?case by (auto simp: kv intro: key_less_trans)
qed simp

lemma object_set_keys [simp]: "map fst (object_set k v kvs) = map fst kvs"
  by (induction kvs) auto

lemma object_set_wf:
  assumes "json_wf (JObject kvs)" "json_wf v"
  shows "json_wf (JObject (object_set k v kvs))"
proof -
  have keys: "fst ` set (object_set k v kvs) = fst ` set kvs" by (metis list.set_map object_set_keys)
  have "\<forall>w \<in> snd ` set (object_set k v kvs). json_wf w"
    using assms object_set_elems [of _ k v kvs] by fastforce
  with assms(1) show ?thesis unfolding json_wf_children object_set_keys keys by blast
qed

lemma store_slot_wf:
  assumes "dom_wf d" "json_wf v"
  shows "dom_wf (store_slot slot v d)"
proof (cases "\<exists>s w st. ref_stack d = (s, w) # st")
  case False
  then have "ref_stack d = []" by (cases "ref_stack d") auto
  with assms show ?thesis by (cases slot) (simp_all add: dom_wf_def)
next
  case True
  then obtain s w st where r: "ref_stack d = (s, w) # st" by blast
  then have w: "json_wf w" using assms(1) by (simp add: dom_wf_def)
  show ?thesis
  proof (cases slot)
    case Slot_root
    with assms show ?thesis by (simp add: dom_wf_def)
  next
    case Slot_back
    with r w assms show ?thesis by (cases w) (auto simp: dom_wf_def dest: in_set_butlastD)
  next
    case (Slot_key k)
    with r w assms object_set_wf [OF _ assms(2)] show ?thesis
      by (cases w) (simp_all add: dom_wf_def del: json_wf_children)
  qed
qed

lemma handle_value_wf:
  assumes "dom_wf d" "json_wf v"
  shows "dom_wf (snd (handle_value v d))"
proof (cases "ref_stack d")
  case Nil
  with assms show ?thesis by (simp add: handle_value_def dom_wf_def)
next
  case (Cons e st)
  then show ?thesis
    using assms store_slot_wf [OF assms, of "Slot_key (object_element d)"]
    by (cases e; cases "snd e") (auto simp: handle_value_def dom_wf_def)
qed

lemma dom_value_wf: "dom_wf d \<Longrightarrow> json_wf v \<Longrightarrow> dom_wf (dom_value v d)"
  by (simp add: dom_value_def handle_value_wf)

lemma dom_start_wf: "dom_wf d \<Longrightarrow> json_wf v \<Longrightarrow> dom_wf (dom_start v d)"
  using handle_value_wf [of d v] by (auto simp: dom_start_def dom_wf_def split: prod.split)

lemma dom_end_wf: "dom_wf d \<Longrightarrow> dom_wf (dom_end d)"
proof -
  assume d: "dom_wf d"
  show "dom_wf (dom_end d)"
  proof (cases "ref_stack d")
    case (Cons e st)
    obtain slot v where e: "e = (slot, v)" by force
    have "dom_wf (d\<lparr>ref_stack := st\<rparr>)" "json_wf v" using d Cons e by (simp_all add: dom_wf_def)
    from store_slot_wf [OF this, of slot] show ?thesis by (simp add: dom_end_def Cons e)
  qed (use d in \<open>simp add: dom_end_def\<close>)
qed

lemma dom_key_wf: "dom_wf d \<Longrightarrow> valid_utf8 k \<Longrightarrow> dom_wf (dom_key k d)"
proof -
  assume d: "dom_wf d" and k: "valid_utf8 k"
  show "dom_wf (dom_key k d)"
  proof (cases "\<exists>s kvs st. ref_stack d = (s, JObject kvs) # st")
    case True
    then obtain s kvs st where r: "ref_stack d = (s, JObject kvs) # st" by blast
    have kvs: "json_wf (JObject kvs)" using d r by (simp add: dom_wf_def)
    have "json_wf (JObject (object_at k kvs))"
      using kvs k object_at_elems [of _ k kvs] object_at_sorted [of kvs k] by fastforce
    then show ?thesis using d r by (simp add: dom_key_def dom_wf_def)
  next
    case False
    then have "dom_key k d = d" by (auto simp: dom_key_def split: list.split json.split)
    with d show ?thesis by simp
  qed
qed

section \<open>The parser\<close>

definition parser_wf :: "parser \<Rightarrow> bool" where
  "parser_wf p \<longleftrightarrow> dom_wf (pa_dom p) \<and> token_value_ok (pa_last_token p) (pa_lexer p)"

fun control_wf :: "control \<Rightarrow> bool" where
  "control_wf (Return (Inl ex)) = True"
| "control_wf (Return (Inr (ok, p))) = dom_wf (pa_dom p)"
| "control_wf (Continue skip states p) = parser_wf p"
| "control_wf (Value_read p) = dom_wf (pa_dom p)"

lemma get_token_wf: "dom_wf (pa_dom p) \<Longrightarrow> parser_wf (get_token strtod p)"
  using scan_ok [of strtod "pa_lexer p"] by (auto simp: parser_wf_def get_token_def split: prod.split)

lemma parser_wf_dom: "parser_wf p \<Longrightarrow> dom_wf (pa_dom p)"
  by (simp add: parser_wf_def)

lemma parser_wf_on_dom: "parser_wf p \<Longrightarrow> dom_wf (f (pa_dom p)) \<Longrightarrow> parser_wf (on_dom f p)"
  by (simp add: parser_wf_def)

lemma sax_parse_error_wf [simp]: "dom_wf (pa_dom p) \<Longrightarrow> control_wf (Return (sax_parse_error ex p))"
  by (simp add: sax_parse_error_def dom_wf_def)

lemma syntax_error_wf [simp]: "dom_wf (pa_dom p) \<Longrightarrow> control_wf (Return (syntax_error e w p))"
  by (simp add: syntax_error_def)

lemma dom_start_container_wf:
  "dom_wf d \<Longrightarrow> dom_wf (dom_start_object d)" "dom_wf d \<Longrightarrow> dom_wf (dom_start_array d)"
  by (simp_all add: dom_start_object_def dom_start_array_def dom_start_wf)

lemma key_wf:
  assumes "dom_wf (pa_dom p)" "pa_last_token (get_token strtod p) = Value_string"
  shows "dom_wf (dom_key (lx_token_buffer (pa_lexer (get_token strtod p))) (pa_dom p))"
  using get_token_wf [OF assms(1), of strtod] assms by (intro dom_key_wf) (simp_all add: parser_wf_def token_value_ok_def)

lemma parse_begin_object_wf:
  assumes "dom_wf (pa_dom p)"
  shows "control_wf (parse_begin_object strtod states p)"
proof -
  let ?q = "on_dom dom_start_object p"
  have q: "dom_wf (pa_dom ?q)" using assms by (simp add: dom_start_container_wf)
  show ?thesis
    using q key_wf [OF q, of strtod]
    by (auto simp: parse_begin_object_def Let_def dom_end_wf intro!: get_token_wf)
qed

lemma parse_begin_array_wf:
  assumes "dom_wf (pa_dom p)"
  shows "control_wf (parse_begin_array strtod states p)"
  using assms by (auto simp: parse_begin_array_def Let_def dom_end_wf dom_start_container_wf intro!: get_token_wf)

lemma parse_token_wf:
  assumes "parser_wf p"
  shows "control_wf (parse_token strtod states p)"
  using assms parse_begin_object_wf [of p strtod states] parse_begin_array_wf [of p strtod states]
  by (cases "pa_last_token p")
    (auto simp: parse_token_def parser_wf_def token_value_ok_def dom_value_wf parse_float_def split: option.split)

lemma evaluate_state_wf:
  assumes "dom_wf (pa_dom p)"
  shows "control_wf (evaluate_state strtod states p)"
proof -
  let ?p1 = "get_token strtod p"
  let ?p2 = "get_token strtod ?p1"
  have p1: "parser_wf ?p1" using assms by (rule get_token_wf)
  have p2: "dom_wf (pa_dom ?p1)" using p1 by (rule parser_wf_dom)
  have e: "parser_wf (on_dom dom_end ?p1)"
    using parser_wf_on_dom [OF p1] dom_end_wf [OF p2] by simp
  show ?thesis
    using assms e key_wf [OF p2, of strtod]
    by (auto simp: evaluate_state_def evaluate_array_def evaluate_object_def Let_def split: list.split
        intro!: get_token_wf)
qed

lemma sax_parse_loop_wf:
  "(if skip then dom_wf (pa_dom p) else parser_wf p) \<Longrightarrow>
     control_wf (Return (sax_parse_loop strtod skip states p))"
proof (induction strtod skip states p rule: sax_parse_loop.induct)
  case (1 strtod skip states p)
  have v: "control_wf (round_value strtod skip states p)"
    using 1(2) parse_token_wf by (simp add: round_value_def split: if_splits)
  have r: "control_wf (sax_round strtod skip states p)"
    using v evaluate_state_wf by (auto simp: sax_round_def split: control.splits)
  show ?case
  proof (cases "sax_round strtod skip states p")
    case (Return x)
    with r show ?thesis by (subst sax_parse_loop.simps) simp
  next
    case (Continue skip' states' p')
    have "if skip' then dom_wf (pa_dom p') else parser_wf p'"
      using r Continue by (simp add: parser_wf_def)
    from 1(1) [OF Continue this] Continue show ?thesis by (subst sax_parse_loop.simps) simp
  next
    case (Value_read p')
    with r show ?thesis by (subst sax_parse_loop.simps) simp
  qed
qed

theorem parsed_is_wf:
  assumes "json_parse strtod t = Inr (Some v)"
  shows "json_wf v"
proof -
  let ?p = "parser_new strtod t True False"
  have "parser_wf ?p" unfolding parser_new_def by (rule get_token_wf) simp
  then have "control_wf (Return (sax_parse_internal strtod ?p))"
    using sax_parse_loop_wf [of False ?p strtod "[]"] by (simp add: sax_parse_internal_def)
  then show ?thesis
    using assms
    by (auto simp: json_parse_def parser_parse_def Let_def syntax_error_def sax_parse_error_def dom_wf_def
        split: sum.splits if_splits prod.splits)
qed

text \<open>C32. Whatever a text \<^verbatim>\<open>json::parse\<close> accepts, its value can be dumped without an exception,
  and unless it has floating point numbers the dumped text parses into this value again.\<close>

theorem parsed_can_be_dumped:
  assumes "json_parse strtod t = Inr (Some v)"
  shows "\<exists>s. json_dump float_text v = Inr s \<and>
    (float_free v \<longrightarrow> json_parse strtod' s = Inr (Some (json_norm v)))"
proof -
  let ?opt = "\<lparr>do_ensure_ascii = False, do_error_handler = Strict, do_float = float_text\<rparr>"
  note wf = parsed_is_wf [OF assms]
  obtain s where s: "dump ?opt v = Inr s" using dump_wf [of ?opt, OF _ wf] by auto
  with dumped_text_parses [OF json_wf_ok [OF wf] s] show ?thesis by (auto simp: json_dump_def)
qed

lemma demo_parsed: "json_parse (\<lambda>s. None) ''[-2]'' = Inr (Some (JArray [JInteger (-2)]))"
  by code_simp

theorem parsed_can_be_dumped_witness:
  "\<exists>s. json_dump (\<lambda>x. []) (JArray [JInteger (-2)]) = Inr s \<and>
     json_parse (\<lambda>s. None) s = Inr (Some (JArray [JInteger (-2)]))"
  using parsed_can_be_dumped [OF demo_parsed, of "\<lambda>x. []" "\<lambda>s. None"] by simp

end
