(* ===== verification/Announcement.thy ===== *)
theory Announcement
  imports Json_Parse_Dump Session_Behaviour Process Config
begin

text \<open>
  The JSON library in its two uses: the announcement of a connection that a session dumps
  and the handler process parses, and the text of the configuration file. The sessions and
  the handler are stated for any printer and parser of JSON values; here they get the
  library's own.
\<close>

section \<open>JSON text as bytes\<close>

text \<open>\<^verbatim>\<open>j.dump()\<close> into the buffer of a write. When \<^verbatim>\<open>dump\<close> throws nothing is written.\<close>

definition dump_bytes :: "(int \<Rightarrow> string) \<Rightarrow> json \<Rightarrow> byte list" where
  "dump_bytes float_text j = (case json_dump float_text j of Inl e \<Rightarrow> [] | Inr t \<Rightarrow> map of_char t)"

text \<open>\<^verbatim>\<open>json::parse(data)\<close> of a \<^verbatim>\<open>string_view\<close>; \<open>None\<close> when it throws.\<close>

definition parse_bytes :: "(string \<Rightarrow> int option) \<Rightarrow> byte list \<Rightarrow> json option" where
  "parse_bytes strtod data =
     (case json_parse strtod (map (\<lambda>b. char_of (unat b)) data) of Inl e \<Rightarrow> None | Inr v \<Rightarrow> v)"

lemma char_of_byte [simp]: "char_of (unat (of_char c :: byte)) = c"
proof -
  have "(of_char c :: byte) = of_nat (of_char c)" by (simp add: of_nat_of_char)
  then show ?thesis by (simp add: unat_of_nat)
qed

lemma parse_bytes_text: "parse_bytes strtod (map of_char t) = (case json_parse strtod t of Inl e \<Rightarrow> None | Inr v \<Rightarrow> v)"
  by (simp add: parse_bytes_def o_def)

lemma parse_dump_bytes:
  assumes "json_wf v" "float_free v"
  shows "parse_bytes strtod (dump_bytes float_text v) = Some (json_norm v)"
proof -
  let ?opt = "\<lparr>do_ensure_ascii = False, do_error_handler = Strict, do_float = float_text\<rparr>"
  obtain t where t: "dump ?opt v = Inr t" using dump_wf [OF _ assms(1), of ?opt] by auto
  with dumped_text_parses [OF json_wf_ok [OF assms] t]
  show ?thesis by (simp add: dump_bytes_def json_dump_def parse_bytes_text)
qed

section \<open>The length of a text\<close>

lemma escape_unit_length:
  assumes "utf8_unit u"
  shows "length (escape_unit False u) \<le> 6 * length u"
proof -
  have "0 < length u" using assms by (auto simp: utf8_unit_def)
  moreover have "length (escape_codepoint False (of_nat (unit_codepoint u)) (last u)) \<le> 6"
    using escape_codepoint_length [of False] by simp
  then have "length (escape_unit False u) \<le> length u - 1 + 6" by (simp add: escape_unit_def)
  ultimately show ?thesis by linarith
qed

lemma dump_escaped_length:
  assumes "dump_escaped Strict False s = Inr t"
  shows "length t \<le> 6 * length s"
proof -
  obtain us where us: "\<forall>u \<in> set us. utf8_unit u" "s = concat us"
    using assms strict_dump_valid_utf8 [of False s] by (auto simp: valid_utf8_def)
  have "length (concat (map (escape_unit False) us)) \<le> 6 * length (concat us)"
    using us(1) by (induction us) (auto dest: escape_unit_length)
  with us dump_escaped_units [OF us(1), of Strict False] assms show ?thesis by simp
qed

lemma decimal_u16_length:
  assumes "n < 65536"
  shows "length (dump_integer number_buffer (int n)) \<le> 5"
proof -
  have "length (nat_to_string n) \<le> 5" using assms by (intro length_nat_to_string_le) simp_all
  moreover have "dump_integer number_buffer (int n) = decimal (int n)"
    using dump_integer_text [of "int n"] assms by simp
  ultimately show ?thesis by (simp add: decimal_def)
qed

section \<open>Announcing a connection\<close>

lemma valid_utf8_ascii_text: "\<forall>c \<in> set s. (of_char c :: int) < 128 \<Longrightarrow> valid_utf8 s"
proof (induction s)
  case (Cons c s)
  have "utf8_unit [c]" using Cons.prems by (simp add: utf8_unit_def)
  with Cons valid_utf8_append [OF valid_utf8_unit, of "[c]" s] show ?case by simp
qed simp

lemma four_tuple_wf:
  assumes "valid_utf8 (client_ip s)" "valid_utf8 (server_ip s)"
  shows "json_wf (four_tuple_json s)" "float_free (four_tuple_json s)"
    "json_norm (four_tuple_json s) = four_tuple_json s"
proof -
  have ascii: "valid_utf8 ''client_ip''" "valid_utf8 ''client_port''" "valid_utf8 ''server_ip''"
    "valid_utf8 ''server_port''"
    by (simp_all add: valid_utf8_ascii_text)
  have n: "unat p < 2 ^ 64" for p :: u16 using unat_less_width(2) [of p] by simp
  show "json_wf (four_tuple_json s)"
    using assms ascii n [of "client_port s"] n [of "server_port s"]
    by (simp add: four_tuple_json_def)
  show "float_free (four_tuple_json s)" "json_norm (four_tuple_json s) = four_tuple_json s"
    by (simp_all add: four_tuple_json_def)
qed

lemma dump_string_length:
  assumes "dump_string opt s = Inr t" "do_error_handler opt = Strict" "\<not> do_ensure_ascii opt"
  shows "length t \<le> 6 * length s + 2"
proof -
  obtain q where "dump_escaped Strict (do_ensure_ascii opt) s = Inr q" "t = CHR 0x22 # q @ [CHR 0x22]"
    using dump_string_Inr [OF assms(1,2)] .
  with dump_escaped_length [of s q] assms(3) show ?thesis by simp
qed

lemma dump_members_length:
  assumes "do_error_handler opt = Strict" "\<not> do_ensure_ascii opt"
    "\<forall>v \<in> snd ` set kvs. \<forall>t. f v = Inr t \<longrightarrow> length t \<le> b v" "dump_members opt f kvs = Inr w"
  shows "length w \<le> (\<Sum>(k, v) \<leftarrow> kvs. 6 * length k + b v + 4)"
  using assms(3,4)
proof (induction kvs arbitrary: w)
  case (Cons kv kvs)
  obtain k v where kv: "kv = (k, v)" by force
  obtain q where q: "dump_string opt k = Inr q" using Cons.prems(2) kv by (auto split: sum.splits)
  obtain t where t: "f v = Inr t" using Cons.prems(2) kv q by (auto split: sum.splits)
  have "length q \<le> 6 * length k + 2" "length t \<le> b v"
    using dump_string_length [OF q assms(1,2)] Cons.prems(1) kv t by simp_all
  moreover have "length w \<le> length q + 1 + length t + 1 + (\<Sum>(k, v) \<leftarrow> kvs. 6 * length k + b v + 4)"
  proof (cases "kvs = []")
    case True
    with Cons.prems(2) kv q t show ?thesis by auto
  next
    case False
    then obtain u where "dump_members opt f kvs = Inr u" "w = q @ '':'' @ t @ '','' @ u"
      using Cons.prems(2) kv q t by (auto split: sum.splits)
    with Cons.IH Cons.prems(1) show ?thesis by simp
  qed
  ultimately show ?case using kv by simp
qed simp

fun scalar_length :: "json \<Rightarrow> nat" where
  "scalar_length (JString s) = 6 * length s + 2"
| "scalar_length v = 5"

lemma four_tuple_text_length:
  assumes "valid_utf8 (client_ip s)" "valid_utf8 (server_ip s)"
  shows "length (dump_bytes float_text (four_tuple_json s)) \<le>
    6 * (length (client_ip s) + length (server_ip s)) + 300"
proof -
  let ?opt = "\<lparr>do_ensure_ascii = False, do_error_handler = Strict, do_float = float_text\<rparr>"
  obtain kvs where j: "four_tuple_json s = JObject kvs" and kvs: "kvs =
      [(''client_ip'', JString (client_ip s)), (''client_port'', JUnsigned (unat (client_port s))),
       (''server_ip'', JString (server_ip s)), (''server_port'', JUnsigned (unat (server_port s)))]"
    by (simp add: four_tuple_json_def)
  obtain t where t: "dump ?opt (four_tuple_json s) = Inr t"
    using dump_wf [of ?opt, OF _ four_tuple_wf(1) [OF assms]] by auto
  then obtain w where w: "dump_members ?opt (dump ?opt) kvs = Inr w" "length t = length w + 2"
    unfolding j using kvs by (auto split: sum.splits simp del: dump_members.simps)
  have b: "\<forall>v \<in> snd ` set kvs. \<forall>t. dump ?opt v = Inr t \<longrightarrow> length t \<le> scalar_length v"
    using decimal_u16_length [OF unat_less_width(2)] dump_string_length [of ?opt]
    by (auto simp: kvs simp del: of_nat_unat)
  have "length w \<le> (\<Sum>(k, v) \<leftarrow> kvs. 6 * length k + scalar_length v + 4)"
    by (rule dump_members_length [OF _ _ b w(1)]) simp_all
  then show ?thesis using w(2) t by (simp add: dump_bytes_def json_dump_def kvs)
qed

text \<open>C29. When the connection to the handler process stands, the session announces the
  connection: what it writes is one frame of the four-tuple type, its body parses into the
  addresses and ports of the session, and the handler accepts it.\<close>

theorem connection_announced:
  assumes "valid_utf8 (client_ip s)" "valid_utf8 (server_ip s)"
    "length (client_ip s) + length (server_ip s) < 65536" "pe_parse env = parse_bytes strtod"
  shows "\<exists>s1 out h body. resume_connect (dump_bytes float_text) s C_connect (Connected None eps) =
      Inr (s1, Connect (C_tuple out), []) \<and>
    read_frames decode_request request_head_len (\<lambda>h. unat (rq_len h)) out = ([(h, body)], []) \<and>
    rq_type h = data_type_byte Four_tuple \<and>
    parse_bytes strtod body = Some (four_tuple_json s) \<and> handle_init env body"
proof -
  let ?s1 = "s\<lparr>bypass := False, process_connecting := False\<rparr>"
  have eq: "four_tuple_json ?s1 = four_tuple_json s" by (simp add: four_tuple_json_def)
  note wf = four_tuple_wf [OF assms(1,2)]
  have "length (dump_bytes float_text (four_tuple_json ?s1)) < 4294967296"
    using four_tuple_text_length [OF assms(1,2), of float_text] assms(3) eq by simp
  moreover have "parse_bytes strtod (dump_bytes float_text (four_tuple_json ?s1)) = Some (four_tuple_json ?s1)"
    using parse_dump_bytes [OF wf(1,2)] wf(3) eq by simp
  ultimately obtain h body where "read_frames decode_request request_head_len (\<lambda>h. unat (rq_len h))
      (four_tuple_frame (dump_bytes float_text) ?s1) = ([(h, body)], [])" "rq_type h = data_type_byte Four_tuple"
      "parse_bytes strtod body = Some (four_tuple_json s)"
    using four_tuple_announced [of "dump_bytes float_text" ?s1 "parse_bytes strtod"] eq by auto
  moreover from this(3) have "handle_init env body"
    by (simp add: handle_init_def assms(4) four_tuple_json_def)
  moreover have "resume_connect (dump_bytes float_text) s C_connect (Connected None eps) =
      Inr (?s1, Connect (C_tuple (four_tuple_frame (dump_bytes float_text) ?s1)), [])"
    by (simp add: Let_def)
  ultimately show ?thesis by blast
qed

section \<open>From the text of the configuration\<close>

text \<open>The head of \<^verbatim>\<open>parse_conf\<close>: \<open>None\<close> when the size of the file cannot be found out, else its
  content, which is parsed.\<close>

definition read_conf :: "(string \<Rightarrow> int option) \<Rightarrow> string option \<Rightarrow> conf_file" where
  "read_conf strtod file =
     (case file of
        None \<Rightarrow> Unreadable
      | Some content \<Rightarrow>
          (case json_parse strtod content of Inr (Some j) \<Rightarrow> Parsed j | _ \<Rightarrow> Malformed))"

lemma json_at_wf: "json_wf j \<Longrightarrow> json_at j k = Inr v \<Longrightarrow> json_wf v"
  by (cases "(j, k)" rule: json_at.cases) (auto split: option.splits dest!: map_of_SomeD)

lemma json_elements_wf: "json_wf j \<Longrightarrow> \<forall>v \<in> set (json_elements j). json_wf v"
  by (cases j rule: json_elements.cases) auto

lemma parse_server_valid:
  assumes "json_wf j" "parse_server j = Inr srv"
  shows "valid_utf8 (si_ip srv)"
proof -
  obtain ip where ip: "get_field to_string_field j ''ip'' = Inr ip" "si_ip srv = ip"
    using assms(2) by (auto simp: parse_server_def split: sum.splits)
  then obtain v where v: "json_at j ''ip'' = Inr v" "to_string_field v = Inr ip"
    by (auto simp: get_field_def split: sum.splits)
  with json_at_wf [OF assms(1) v(1)] ip show ?thesis by (cases v) simp_all
qed

lemma parse_servers_valid:
  "\<forall>v \<in> set js. json_wf v \<Longrightarrow> parse_servers js = Inr ss \<Longrightarrow> \<forall>srv \<in> set ss. valid_utf8 (si_ip srv)"
  by (induction js arbitrary: ss) (auto split: sum.splits dest: parse_server_valid)

definition servers_valid :: "proxy_entity list \<Rightarrow> bool" where
  "servers_valid es \<longleftrightarrow> (\<forall>e \<in> set es. \<forall>srv \<in> set (servers e). valid_utf8 (si_ip srv))"

lemma parse_proxy_valid:
  assumes "json_wf j" "parse_proxy j = Inr e"
  shows "\<forall>srv \<in> set (servers e). valid_utf8 (si_ip srv)"
proof -
  obtain sj where sj: "json_at j ''servers'' = Inr sj" "parse_servers (json_elements sj) = Inr (servers e)"
    using assms(2) by (auto simp: parse_proxy_def split: sum.splits)
  from parse_servers_valid [OF json_elements_wf [OF json_at_wf [OF assms(1) sj(1)]] sj(2)] show ?thesis .
qed

lemma emplace_subset: "set (emplace e es) \<subseteq> Set.insert e (set es)"
  by (induction es) auto

lemma parse_entities_valid:
  "\<forall>v \<in> set js. json_wf v \<Longrightarrow> servers_valid es \<Longrightarrow> parse_entities js es = Inr es' \<Longrightarrow> servers_valid es'"
proof (induction js arbitrary: es)
  case (Cons j js)
  obtain e where e: "parse_proxy j = Inr e" "parse_entities js (emplace e es) = Inr es'"
    using Cons.prems(3) by (auto split: sum.splits)
  have "servers_valid (emplace e es)"
    using parse_proxy_valid [OF _ e(1)] Cons.prems(1,2) emplace_subset [of e es] by (auto simp: servers_valid_def)
  with Cons.IH e(2) Cons.prems(1) show ?case by simp
qed simp

lemma find_entity_in: "find_entity p es = Some e \<Longrightarrow> e \<in> set es"
  by (induction es) (auto split: if_splits)

lemma parsed_servers_valid:
  assumes "parse_conf (read_conf strtod file) c = (c', None)"
  shows "servers_valid (entities c')"
proof -
  obtain j where j: "read_conf strtod file = Parsed j"
    using assms by (cases "read_conf strtod file") (auto simp: parse_conf_def)
  then have "json_wf j"
    using parsed_is_wf by (auto simp: read_conf_def split: option.splits sum.splits)
  obtain ps where ps: "json_at j ''tcp_proxy'' = Inr ps" "parse_entities (json_elements ps) [] = Inr (entities c')"
    using assms by (auto simp: j parse_conf_def parse_tcp_proxy_def install_entities_def
        split: prod.splits option.splits sum.splits)
  from parse_entities_valid [OF json_elements_wf [OF json_at_wf [OF \<open>json_wf j\<close> ps(1)]] _ ps(2)]
  show ?thesis by (simp add: servers_valid_def)
qed

text \<open>C30. A server of an accepted configuration file never makes the announcement throw: its
  address is valid UTF-8 because the parser of the file let no other string through, so the
  four-tuple of a connection to it can be dumped, and parses back.\<close>

theorem configured_server_announced:
  assumes "parse_conf (read_conf strtod file) c = (c', None)"
    "get_proxy_server port c' = Inr (Some srv)" "server_ip s = si_ip srv" "valid_utf8 (client_ip s)"
  shows "\<exists>t. json_dump float_text (four_tuple_json s) = Inr t \<and>
    json_parse strtod t = Inr (Some (four_tuple_json s))"
proof -
  let ?opt = "\<lparr>do_ensure_ascii = False, do_error_handler = Strict, do_float = float_text\<rparr>"
  obtain e where e: "find_entity port (entities c') = Some e" "srv \<in> set (servers e)"
    using assms(2) by (auto simp: get_proxy_server_def split: option.splits list.splits)
  have "valid_utf8 (server_ip s)"
    using parsed_servers_valid [OF assms(1)] find_entity_in [OF e(1)] e(2) assms(3)
    by (auto simp: servers_valid_def)
  note wf = four_tuple_wf [OF assms(4) this]
  obtain t where t: "dump ?opt (four_tuple_json s) = Inr t" using dump_wf [of ?opt, OF _ wf(1)] by auto
  with dumped_text_parses [OF json_wf_ok [OF wf(1,2)] t, of strtod] wf(3) show ?thesis
    by (simp add: json_dump_def)
qed

section \<open>Witnesses\<close>

definition demo_tuple_session :: session where
  "demo_tuple_session = new_session\<lparr>client_ip := ''10.0.0.1'', client_port := 5000,
     server_ip := ''10.0.0.2'', server_port := 80\<rparr>"

definition demo_tuple_env :: proc_env where
  "demo_tuple_env = \<lparr>pe_parse = parse_bytes (\<lambda>s. None), pe_shutdown_throws = False, pe_stack = (\<lambda>i. 0)\<rparr>"

lemma demo_texts: "valid_utf8 ''10.0.0.1''" "valid_utf8 ''10.0.0.2''"
  by (simp_all add: valid_utf8_ascii_text)

theorem connection_announced_witness:
  "\<exists>s1 out. resume_connect (dump_bytes (\<lambda>x. [])) demo_tuple_session C_connect (Connected None None) =
     Inr (s1, Connect (C_tuple out), []) \<and>
   (\<exists>body. handle_init demo_tuple_env body \<and>
      parse_bytes (\<lambda>s. None) body = Some (four_tuple_json demo_tuple_session))"
proof -
  have "client_ip demo_tuple_session = ''10.0.0.1''" "server_ip demo_tuple_session = ''10.0.0.2''"
    "pe_parse demo_tuple_env = parse_bytes (\<lambda>s. None)"
    by (simp_all add: demo_tuple_session_def demo_tuple_env_def)
  with connection_announced [of demo_tuple_session demo_tuple_env "\<lambda>s. None" "\<lambda>x. []" None] demo_texts
  show ?thesis by fastforce
qed

definition demo_conf_json :: json where
  "demo_conf_json = JObject [(''tcp_proxy'', JArray [JObject [(''listen_port'', JUnsigned 90),
     (''servers'', JArray [JObject [(''ip'', JString ''10.0.0.2''), (''port'', JUnsigned 80)]])]])]"

lemma demo_conf_text:
  "\<exists>t. json_parse (\<lambda>s. None) t = Inr (Some demo_conf_json)"
proof -
  let ?opt = "\<lparr>do_ensure_ascii = False, do_error_handler = Strict, do_float = \<lambda>x. []\<rparr>"
  have wf: "json_wf demo_conf_json" "float_free demo_conf_json" "json_norm demo_conf_json = demo_conf_json"
    by (simp_all add: demo_conf_json_def valid_utf8_ascii_text)
  obtain t where "dump ?opt demo_conf_json = Inr t" using dump_wf [of ?opt, OF _ wf(1)] by auto
  from dumped_text_parses [OF json_wf_ok [OF wf(1,2)] this] wf(3) show ?thesis by auto
qed

theorem configured_server_announced_witness:
  "\<exists>content c' srv. parse_conf (read_conf (\<lambda>s. None) (Some content)) config_new = (c', None) \<and>
     get_proxy_server 90 c' = Inr (Some srv) \<and>
     (\<exists>t. json_dump (\<lambda>x. []) (four_tuple_json (new_session\<lparr>server_ip := si_ip srv\<rparr>)) = Inr t)"
proof -
  obtain content where content: "json_parse (\<lambda>s. None) content = Inr (Some demo_conf_json)"
    using demo_conf_text by blast
  then have conf: "read_conf (\<lambda>s. None) (Some content) = Parsed demo_conf_json" by (simp add: read_conf_def)
  obtain c' srv where c: "parse_conf (Parsed demo_conf_json) config_new = (c', None)"
    "get_proxy_server 90 c' = Inr (Some srv)"
    by (simp add: demo_conf_json_def parse_conf_def parse_settings_def set_opt_def get_field_def get_opt_def
        upd_log_def parse_tcp_proxy_def parse_proxy_def parse_server_def install_entities_def
        server_info_default_def get_proxy_server_def)
  have ip: "server_ip (new_session\<lparr>server_ip := si_ip srv\<rparr>) = si_ip srv"
    "valid_utf8 (client_ip (new_session\<lparr>server_ip := si_ip srv\<rparr>))"
    by (simp_all add: new_session_def)
  have "\<exists>t. json_dump (\<lambda>x. []) (four_tuple_json (new_session\<lparr>server_ip := si_ip srv\<rparr>)) = Inr t"
    using configured_server_announced [OF c(1) [folded conf] c(2) ip, of "\<lambda>x. []"] by blast
  with c conf show ?thesis by metis
qed

end
