(* ===== verification/Asio_Buffers.thy ===== *)
theory Asio_Buffers
  imports "HOL-Library.Sublist"
begin

text \<open>
  Buffers of the network library and the buffers of a transfer that is done in parts,
  \<^verbatim>\<open>buffer.hpp\<close>, \<^verbatim>\<open>detail/consuming_buffers.hpp\<close> and \<^verbatim>\<open>detail/buffer_sequence_adapter.hpp\<close>
  under \<^verbatim>\<open>src/3party/asio-1.24.0/include/asio/\<close>. A buffer is the list of its cells: the bytes
  of a \<^verbatim>\<open>const_buffer\<close>, the addresses of a \<^verbatim>\<open>mutable_buffer\<close>. Sizes are natural numbers.
\<close>

section \<open>Buffers\<close>

type_synonym 'a buffer = "'a list"

text \<open>\<^verbatim>\<open>operator+\<close> and \<^verbatim>\<open>asio::buffer\<close> with a largest size.\<close>

definition buffer_advance :: "'a buffer \<Rightarrow> nat \<Rightarrow> 'a buffer" where
  "buffer_advance b n = (let offset = (if n < length b then n else length b) in drop offset b)"

definition buffer_limit :: "'a buffer \<Rightarrow> nat \<Rightarrow> 'a buffer" where
  "buffer_limit b max_size = take (if length b < max_size then length b else max_size) b"

fun buffer_size :: "'a buffer list \<Rightarrow> nat" where
  "buffer_size [] = 0"
| "buffer_size (b # bs) = length b + buffer_size bs"

lemma buffer_advance_drop [simp]: "buffer_advance b n = drop n b"
  by (simp add: buffer_advance_def)

lemma buffer_limit_take [simp]: "buffer_limit b n = take n b"
  by (simp add: buffer_limit_def)

lemma buffer_size_concat [simp]: "buffer_size bs = length (concat bs)"
  by (induction bs) simp_all

section \<open>One buffer\<close>

record 'a consuming_single_buffer =
  csb_buffer :: "'a buffer"
  csb_total_consumed :: nat

definition csb_new :: "'a buffer \<Rightarrow> 'a consuming_single_buffer" where
  "csb_new b = \<lparr>csb_buffer = b, csb_total_consumed = 0\<rparr>"

definition csb_empty :: "'a consuming_single_buffer \<Rightarrow> bool" where
  "csb_empty c \<longleftrightarrow> csb_total_consumed c \<ge> length (csb_buffer c)"

definition csb_prepare :: "'a consuming_single_buffer \<Rightarrow> nat \<Rightarrow> 'a buffer list" where
  "csb_prepare c max_size = [buffer_limit (buffer_advance (csb_buffer c) (csb_total_consumed c)) max_size]"

definition csb_consume :: "nat \<Rightarrow> 'a consuming_single_buffer \<Rightarrow> 'a consuming_single_buffer" where
  "csb_consume n c = c\<lparr>csb_total_consumed := csb_total_consumed c + n\<rparr>"

section \<open>Several buffers\<close>

record 'a consuming_buffers =
  cb_buffers :: "'a buffer list"
  cb_total_size :: nat
  cb_total_consumed :: nat
  cb_next_elem :: nat
  cb_next_elem_offset :: nat

definition cb_new :: "'a buffer list \<Rightarrow> 'a consuming_buffers" where
  "cb_new bufs = \<lparr>cb_buffers = bufs, cb_total_size = buffer_size bufs, cb_total_consumed = 0,
     cb_next_elem = 0, cb_next_elem_offset = 0\<rparr>"

definition cb_empty :: "'a consuming_buffers \<Rightarrow> bool" where
  "cb_empty c \<longleftrightarrow> cb_total_consumed c \<ge> cb_total_size c"

text \<open>The size of \<^verbatim>\<open>prepared_buffers\<close> for a \<^verbatim>\<open>std::vector\<close> of buffers: the 64 of the adapter,
  cut down to 16.\<close>

definition max_buffers :: nat where
  "max_buffers = 16"

text \<open>The loop of \<^verbatim>\<open>prepare\<close>: how many buffers are prepared already, the offset into the
  first one, the size left and the buffers from \<^verbatim>\<open>next\<close> on.\<close>

fun prepare_buffers :: "nat \<Rightarrow> nat \<Rightarrow> nat \<Rightarrow> 'a buffer list \<Rightarrow> 'a buffer list" where
  "prepare_buffers count elem_offset max_size [] = []"
| "prepare_buffers count elem_offset max_size (b # bs) =
     (if max_size > 0 \<and> count < max_buffers
      then let elem = buffer_limit (buffer_advance b elem_offset) max_size
           in if length elem > 0
              then elem # prepare_buffers (Suc count) 0 (max_size - length elem) bs
              else prepare_buffers count 0 (max_size - length elem) bs
      else [])"

definition cb_prepare :: "'a consuming_buffers \<Rightarrow> nat \<Rightarrow> 'a buffer list" where
  "cb_prepare c max_size =
     prepare_buffers 0 (cb_next_elem_offset c) max_size (drop (cb_next_elem c) (cb_buffers c))"

text \<open>The loop of \<^verbatim>\<open>consume\<close>, from the buffers at \<^verbatim>\<open>next\<close>, the number of the first of them
  and the offset into it.\<close>

fun consume_buffers :: "nat \<Rightarrow> nat \<Rightarrow> nat \<Rightarrow> 'a buffer list \<Rightarrow> nat \<times> nat" where
  "consume_buffers n elem offset [] = (elem, offset)"
| "consume_buffers n elem offset (b # bs) =
     (if n > 0
      then let next_buf = buffer_advance b offset
           in if n < length next_buf then (elem, offset + n)
              else consume_buffers (n - length next_buf) (Suc elem) 0 bs
      else (elem, offset))"

definition cb_consume :: "nat \<Rightarrow> 'a consuming_buffers \<Rightarrow> 'a consuming_buffers" where
  "cb_consume n c =
     (let (elem, offset) = consume_buffers n (cb_next_elem c) (cb_next_elem_offset c)
            (drop (cb_next_elem c) (cb_buffers c))
      in c\<lparr>cb_total_consumed := cb_total_consumed c + n, cb_next_elem := elem,
           cb_next_elem_offset := offset\<rparr>)"

section \<open>What a transfer relies on\<close>

text \<open>Buffers that are transferred in parts, with the cells not transferred yet.\<close>

locale consumable =
  fixes ok :: "'c \<Rightarrow> bool"
    and rest :: "'c \<Rightarrow> 'a list"
    and empty :: "'c \<Rightarrow> bool"
    and prepare :: "'c \<Rightarrow> nat \<Rightarrow> 'a list list"
    and consume :: "nat \<Rightarrow> 'c \<Rightarrow> 'c"
    and consumed :: "'c \<Rightarrow> nat"
  assumes empty_iff: "ok c \<Longrightarrow> empty c \<longleftrightarrow> rest c = []"
    and prepare_prefix: "ok c \<Longrightarrow> prefix (concat (prepare c m)) (rest c)"
    and prepare_bound: "ok c \<Longrightarrow> length (concat (prepare c m)) \<le> m"
    and prepare_progress: "ok c \<Longrightarrow> rest c \<noteq> [] \<Longrightarrow> 0 < m \<Longrightarrow> concat (prepare c m) \<noteq> []"
    and consume_ok: "ok c \<Longrightarrow> n \<le> length (rest c) \<Longrightarrow> ok (consume n c)"
    and consume_rest: "ok c \<Longrightarrow> n \<le> length (rest c) \<Longrightarrow> rest (consume n c) = drop n (rest c)"
    and consume_consumed: "consumed (consume n c) = consumed c + n"
begin

text \<open>The transferred part of what was prepared is the next part of the cells.\<close>

lemma prepared_part:
  assumes "ok c" "n \<le> length (concat (prepare c m))"
  shows "take n (concat (prepare c m)) = take n (rest c)"
  using prepare_prefix [OF assms(1), of m] assms(2) by (auto simp: prefix_def)

lemma prepared_length: "ok c \<Longrightarrow> length (concat (prepare c m)) \<le> length (rest c)"
  by (rule prefix_length_le [OF prepare_prefix])

lemma consume_prepared:
  assumes "ok c" "n \<le> length (concat (prepare c m))"
  shows "ok (consume n c)" "rest (consume n c) = drop n (rest c)"
  using consume_ok [OF assms(1)] consume_rest [OF assms(1)] prepared_length [OF assms(1), of m]
    assms(2) by simp_all

end

section \<open>Both kinds keep the contract\<close>

definition csb_rest :: "'a consuming_single_buffer \<Rightarrow> 'a list" where
  "csb_rest c = drop (csb_total_consumed c) (csb_buffer c)"

interpretation single: consumable "\<lambda>_. True" csb_rest csb_empty csb_prepare csb_consume csb_total_consumed
  by unfold_locales
    (auto simp: csb_rest_def csb_empty_def csb_prepare_def csb_consume_def take_is_prefix add.commute)

definition cells_from :: "nat \<Rightarrow> 'a buffer list \<Rightarrow> 'a list" where
  "cells_from offset bs = (case bs of [] \<Rightarrow> [] | b # bs' \<Rightarrow> drop offset b @ concat bs')"

lemma cells_from_simps [simp]:
  "cells_from offset [] = []"
  "cells_from offset (b # bs) = drop offset b @ concat bs"
  "cells_from 0 bs = concat bs"
  by (simp_all add: cells_from_def split: list.split)

lemma prepare_buffers_0 [simp]: "prepare_buffers cnt off 0 bs = []"
  by (cases bs) simp_all

lemma prepare_buffers_prefix:
  "prefix (concat (prepare_buffers cnt off m bs)) (cells_from off bs)"
proof (induction cnt off m bs rule: prepare_buffers.induct)
  case (2 cnt off m b bs)
  show ?case
  proof (cases "length (drop off b) < m")
    case True
    then have "take m (drop off b) = drop off b" by simp
    then show ?thesis using 2 by (auto simp: Let_def)
  next
    case False
    then have "length (take m (drop off b)) = m" by simp
    moreover have "prefix (take m (drop off b)) (drop off b @ concat bs)"
      using take_is_prefix prefix_prefix by blast
    ultimately show ?thesis by (auto simp: Let_def)
  qed
qed simp

lemma prepare_buffers_bound: "length (concat (prepare_buffers cnt off m bs)) \<le> m"
proof (induction cnt off m bs rule: prepare_buffers.induct)
  case (2 cnt off m b bs)
  let ?e = "take m (drop off b)"
  have e: "length ?e \<le> m" by simp
  have "length (concat (prepare_buffers (Suc cnt) 0 (m - length ?e) bs)) \<le> m - length ?e"
    if "0 < length ?e" "0 < m" "cnt < max_buffers"
    using 2(1) [of ?e] that by simp
  moreover have "length (concat (prepare_buffers cnt 0 m bs)) \<le> m"
    if "length ?e = 0" "0 < m" "cnt < max_buffers"
    using 2(2) [of ?e] that by simp
  ultimately show ?case using e by (simp add: Let_def) linarith
qed simp

lemma prepare_buffers_progress:
  "cells_from off bs \<noteq> [] \<Longrightarrow> 0 < m \<Longrightarrow> cnt < max_buffers \<Longrightarrow>
   concat (prepare_buffers cnt off m bs) \<noteq> []"
  by (induction cnt off m bs rule: prepare_buffers.induct) (auto simp: Let_def)

lemma consume_buffers_rest:
  "consume_buffers n i off (drop i bufs) = (i', off') \<Longrightarrow> n \<le> length (cells_from off (drop i bufs)) \<Longrightarrow>
   cells_from off' (drop i' bufs) = drop n (cells_from off (drop i bufs))"
proof (induction n i off "drop i bufs" rule: consume_buffers.induct)
  case (2 n i off b bs)
  have bs: "drop (Suc i) bufs = bs" by (metis "2.hyps"(2) drop_Suc list.sel(3) tl_drop)
  show ?case
  proof (cases "0 < n \<and> length (drop off b) \<le> n")
    case True
    then show ?thesis using 2 bs by (auto simp: Let_def simp flip: "2.hyps"(2))
  next
    case False
    have step: "cells_from off' (drop i bufs) = drop off' b @ concat bs" for off'
      by (simp flip: "2.hyps"(2))
    have "i' = i" "off' = off + n"
      using False 2(3) by (auto simp: Let_def simp flip: "2.hyps"(2) split: if_splits)
    then show ?thesis using False step [of off] step [of off'] by (auto simp: add.commute)
  qed
qed simp

definition cb_rest :: "'a consuming_buffers \<Rightarrow> 'a list" where
  "cb_rest c = cells_from (cb_next_elem_offset c) (drop (cb_next_elem c) (cb_buffers c))"

definition cb_ok :: "'a consuming_buffers \<Rightarrow> bool" where
  "cb_ok c \<longleftrightarrow> cb_total_consumed c + length (cb_rest c) = cb_total_size c"

lemma cb_consume_rest:
  assumes "n \<le> length (cb_rest c)"
  shows "cb_rest (cb_consume n c) = drop n (cb_rest c)"
  using consume_buffers_rest [of n "cb_next_elem c" "cb_next_elem_offset c" "cb_buffers c"] assms
  by (auto simp: cb_rest_def cb_consume_def split: prod.split)

interpretation several: consumable cb_ok cb_rest cb_empty cb_prepare cb_consume cb_total_consumed
proof
  fix c :: "'a consuming_buffers" and n m
  assume ok: "cb_ok c"
  show "cb_empty c \<longleftrightarrow> cb_rest c = []" using ok unfolding cb_ok_def cb_empty_def by (metis add_cancel_right_right le_add1 le_antisym length_0_conv order_refl)
  show "prefix (concat (cb_prepare c m)) (cb_rest c)"
    by (simp add: cb_prepare_def cb_rest_def prepare_buffers_prefix)
  show "length (concat (cb_prepare c m)) \<le> m"
    by (simp add: cb_prepare_def prepare_buffers_bound)
  show "concat (cb_prepare c m) \<noteq> []" if "cb_rest c \<noteq> []" "0 < m"
    using that prepare_buffers_progress [of "cb_next_elem_offset c" "drop (cb_next_elem c) (cb_buffers c)" m 0]
    by (simp add: cb_prepare_def cb_rest_def max_buffers_def)
  assume n: "n \<le> length (cb_rest c)"
  show "cb_rest (cb_consume n c) = drop n (cb_rest c)" using n by (rule cb_consume_rest)
  then show "cb_ok (cb_consume n c)"
    using ok n by (simp add: cb_ok_def) (simp add: cb_consume_def split: prod.split)
qed (simp add: cb_consume_def split: prod.split)

section \<open>The buffers of an operation\<close>

text \<open>\<^verbatim>\<open>consuming_buffers\<close> is specialised for single buffers; a sequence that the sources pass
  is a single buffer or a vector.\<close>

datatype 'a transfer_buffers =
    One "'a consuming_single_buffer"
  | Several "'a consuming_buffers"

fun tb_empty :: "'a transfer_buffers \<Rightarrow> bool" where
  "tb_empty (One c) = csb_empty c"
| "tb_empty (Several c) = cb_empty c"

fun tb_prepare :: "'a transfer_buffers \<Rightarrow> nat \<Rightarrow> 'a buffer list" where
  "tb_prepare (One c) m = csb_prepare c m"
| "tb_prepare (Several c) m = cb_prepare c m"

fun tb_consume :: "nat \<Rightarrow> 'a transfer_buffers \<Rightarrow> 'a transfer_buffers" where
  "tb_consume n (One c) = One (csb_consume n c)"
| "tb_consume n (Several c) = Several (cb_consume n c)"

fun tb_total_consumed :: "'a transfer_buffers \<Rightarrow> nat" where
  "tb_total_consumed (One c) = csb_total_consumed c"
| "tb_total_consumed (Several c) = cb_total_consumed c"

fun tb_ok :: "'a transfer_buffers \<Rightarrow> bool" where
  "tb_ok (One c) = True"
| "tb_ok (Several c) = cb_ok c"

fun tb_rest :: "'a transfer_buffers \<Rightarrow> 'a list" where
  "tb_rest (One c) = csb_rest c"
| "tb_rest (Several c) = cb_rest c"

interpretation tb: consumable tb_ok tb_rest tb_empty tb_prepare tb_consume tb_total_consumed
proof
  fix c :: "'a transfer_buffers" and n m
  assume ok: "tb_ok c"
  show "tb_empty c \<longleftrightarrow> tb_rest c = []"
    using ok by (cases c) (simp_all add: single.empty_iff several.empty_iff)
  show "prefix (concat (tb_prepare c m)) (tb_rest c)"
    using ok by (cases c) (simp_all add: single.prepare_prefix several.prepare_prefix del: concat.simps)
  show "length (concat (tb_prepare c m)) \<le> m"
    using ok by (cases c) (simp_all add: single.prepare_bound several.prepare_bound)
  show "concat (tb_prepare c m) \<noteq> []" if "tb_rest c \<noteq> []" "0 < m"
    using ok that by (cases c) (simp_all add: single.prepare_progress several.prepare_progress del: concat_eq_Nil_conv)
  assume n: "n \<le> length (tb_rest c)"
  show "tb_ok (tb_consume n c)"
    using ok n by (cases c) (simp_all add: several.consume_ok)
  show "tb_rest (tb_consume n c) = drop n (tb_rest c)"
    using ok n by (cases c) (simp_all add: single.consume_rest several.consume_rest)
next
  fix c :: "'a transfer_buffers" and n
  show "tb_total_consumed (tb_consume n c) = tb_total_consumed c + n"
    by (cases c) (simp_all add: single.consume_consumed several.consume_consumed)
qed

lemma tb_new [simp]:
  "csb_rest (csb_new b) = b" "csb_total_consumed (csb_new b) = 0"
  "cb_ok (cb_new bs)" "cb_rest (cb_new bs) = concat bs" "cb_total_consumed (cb_new bs) = 0"
  by (simp_all add: csb_new_def csb_rest_def cb_new_def cb_ok_def cb_rest_def)

end
