(* ===== verification/Asio_Socket_Ops.thy ===== *)
theory Asio_Socket_Ops
  imports Session Asio_Buffers
begin

text \<open>
  One attempt to send, receive, accept or connect without blocking: \<^verbatim>\<open>non_blocking_send\<close> and
  its siblings of \<^verbatim>\<open>detail/impl/socket_ops.ipp\<close> and the operations of the reactor
  that call them, under \<^verbatim>\<open>src/3party/asio-1.24.0/include/asio/\<close>. The system calls are a
  parameter: an attempt is given the answers of the calls it makes, and \<open>None\<close> means that
  it asked for more answers than it was given.
\<close>

section \<open>Errors\<close>

text \<open>The values of the enumeration \<^verbatim>\<open>basic_errors\<close> on Linux.\<close>

definition bad_descriptor :: asio_error where "bad_descriptor = Io_error 9"
definition interrupted :: asio_error where "interrupted = Io_error 4"
definition would_block :: asio_error where "would_block = Io_error 11"
definition try_again :: asio_error where "try_again = Io_error 11"
definition operation_not_supported :: asio_error where "operation_not_supported = Io_error 95"
definition operation_aborted :: asio_error where "operation_aborted = Io_error 125"
definition connection_aborted :: asio_error where "connection_aborted = Io_error 103"
definition no_buffer_space :: asio_error where "no_buffer_space = Io_error 105"
definition in_progress :: asio_error where "in_progress = Io_error 115"

text \<open>A system call returns a number of bytes, and \<^verbatim>\<open>recvmsg\<close> has stored as many, or fails and
  sets \<^verbatim>\<open>errno\<close>. The number that \<^verbatim>\<open>accept\<close> returns is a descriptor, that of \<^verbatim>\<open>poll\<close> counts the
  ready ones, and that of \<^verbatim>\<open>getsockopt\<close> is the value of \<^verbatim>\<open>SO_ERROR\<close>.\<close>

datatype sys_result = Returned nat "byte list" | Failed nat

fun get_last_error :: "sys_result \<Rightarrow> error_code" where
  "get_last_error (Returned n data) = None"
| "get_last_error (Failed e) = Some (Io_error e)"

section \<open>Attempts\<close>

text \<open>The result: whether the attempt is over, the error code, the bytes transferred, and for
  a receive what was stored.\<close>

type_synonym attempt = "bool \<times> error_code \<times> nat \<times> byte list"

fun non_blocking_send :: "sys_result list \<Rightarrow> nat \<Rightarrow> attempt option" where
  "non_blocking_send [] bytes_transferred = None"
| "non_blocking_send (r # rs) bytes_transferred =
     (let ec = get_last_error r
      in case r of
           Returned bytes data \<Rightarrow> Some (True, ec, bytes, [])
         | Failed e \<Rightarrow>
             if ec = Some interrupted then non_blocking_send rs bytes_transferred
             else if ec = Some would_block \<or> ec = Some try_again
             then Some (False, ec, bytes_transferred, [])
             else Some (True, ec, 0, []))"

fun non_blocking_recv :: "bool \<Rightarrow> sys_result list \<Rightarrow> nat \<Rightarrow> attempt option" where
  "non_blocking_recv is_stream [] bytes_transferred = None"
| "non_blocking_recv is_stream (r # rs) bytes_transferred =
     (let ec = get_last_error r
      in case r of
           Returned bytes data \<Rightarrow>
             if is_stream \<and> bytes = 0 then Some (True, Some Eof, bytes_transferred, [])
             else Some (True, ec, bytes, data)
         | Failed e \<Rightarrow>
             if ec = Some interrupted then non_blocking_recv is_stream rs bytes_transferred
             else if ec = Some would_block \<or> ec = Some try_again
             then Some (False, ec, bytes_transferred, [])
             else Some (True, ec, 0, []))"

text \<open>\<^verbatim>\<open>accept\<close> on a socket that is valid: the new socket, unless it failed.\<close>

fun socket_accept :: "sys_result \<Rightarrow> nat option \<times> error_code" where
  "socket_accept (Returned fd data) = (Some fd, None)"
| "socket_accept (Failed e) = (None, Some (Io_error e))"

text \<open>The result here: whether the attempt is over, the error code, the new socket, and the calls
  that were made. \<^verbatim>\<open>EPROTO\<close> is 71.\<close>

fun non_blocking_accept ::
  "bool \<Rightarrow> sys_result list \<Rightarrow> (bool \<times> error_code \<times> nat option \<times> sys_result list) option"
where
  "non_blocking_accept enable_connection_aborted [] = None"
| "non_blocking_accept enable_connection_aborted (r # rs) =
     (let (new_socket, ec) = socket_accept r
      in if new_socket \<noteq> None then Some (True, ec, new_socket, [r])
         else if ec = Some interrupted
         then map_option (\<lambda>(over, ec, new_socket, calls). (over, ec, new_socket, r # calls))
                (non_blocking_accept enable_connection_aborted rs)
         else if ec = Some would_block \<or> ec = Some try_again then Some (False, ec, new_socket, [r])
         else if ec = Some connection_aborted then Some (enable_connection_aborted, ec, new_socket, [r])
         else if ec = Some (Io_error 71) then Some (enable_connection_aborted, ec, new_socket, [r])
         else Some (True, ec, new_socket, [r]))"

text \<open>\<^verbatim>\<open>poll\<close>, and \<^verbatim>\<open>getsockopt\<close> unless the connection is still in progress: whether the attempt is
  over, the error code, which is \<open>ec\<close> before, and the calls.\<close>

fun non_blocking_connect ::
  "sys_result list \<Rightarrow> error_code \<Rightarrow> (bool \<times> error_code \<times> sys_result list) option"
where
  "non_blocking_connect [] ec = None"
| "non_blocking_connect (Returned 0 data # rs) ec = Some (False, ec, [Returned 0 data])"
| "non_blocking_connect [ready] ec = None"
| "non_blocking_connect (ready # Returned connect_error data # rs) ec =
     Some (True, if connect_error \<noteq> 0 then Some (Io_error connect_error) else None,
       [ready, Returned connect_error data])"
| "non_blocking_connect (ready # Failed e # rs) ec = Some (True, Some (Io_error e), [ready, Failed e])"

section \<open>Operations of the reactor\<close>

text \<open>The buffers of a receive hold addresses; an accept knows whether the program wants to hear of
  aborted connections. The key of an operation stands for the pointer
  \<^verbatim>\<open>cancellation_key_\<close>; \<open>ro_id\<close> tells operations apart as their addresses do. The calls are a
  history, for an accept and a connect.\<close>

datatype op_kind = Send "byte list list" | Receive "nat list list" | Accept bool | Connect

record reactor_op =
  ro_id :: nat
  ro_kind :: op_kind
  ro_stream :: bool
  ro_key :: "nat option"
  ro_ec :: error_code
  ro_bytes :: nat
  ro_data :: "byte list"
  ro_new_socket :: "nat option"
  ro_calls :: "sys_result list"

definition reactor_op_new :: "nat \<Rightarrow> op_kind \<Rightarrow> bool \<Rightarrow> nat option \<Rightarrow> reactor_op" where
  "reactor_op_new i kind strm key =
     \<lparr>ro_id = i, ro_kind = kind, ro_stream = strm, ro_key = key, ro_ec = None, ro_bytes = 0,
      ro_data = [], ro_new_socket = None, ro_calls = []\<rparr>"

text \<open>The adapter hands at most 64 buffers to a system call.\<close>

definition adapter_max_buffers :: nat where
  "adapter_max_buffers = 64"

definition adapter_buffers :: "'a buffer list \<Rightarrow> 'a buffer list" where
  "adapter_buffers bs = take adapter_max_buffers bs"

definition adapter_all_empty :: "'a buffer list \<Rightarrow> bool" where
  "adapter_all_empty bs = list_all (\<lambda>b. length b = 0) (take adapter_max_buffers bs)"

definition adapter_total_size :: "'a buffer list \<Rightarrow> nat" where
  "adapter_total_size bs = buffer_size (adapter_buffers bs)"

datatype op_status = Not_done | Performed | Performed_and_exhausted

definition set_result :: "attempt \<Rightarrow> reactor_op \<Rightarrow> reactor_op" where
  "set_result a o' =
     (case a of (over, ec, n, data) \<Rightarrow> o'\<lparr>ro_ec := ec, ro_bytes := n, ro_data := data\<rparr>)"

definition send_do_perform ::
  "byte list list \<Rightarrow> sys_result list \<Rightarrow> reactor_op \<Rightarrow> (op_status \<times> reactor_op) option"
where
  "send_do_perform bufs answers o' =
     (case non_blocking_send answers (ro_bytes o') of
        None \<Rightarrow> None
      | Some a \<Rightarrow>
          let o1 = set_result a o';
              status = (if fst a then Performed else Not_done)
          in Some (if status = Performed \<and> ro_stream o' \<and> ro_bytes o1 < adapter_total_size bufs
                   then Performed_and_exhausted else status, o1))"

definition recv_do_perform ::
  "nat list list \<Rightarrow> sys_result list \<Rightarrow> reactor_op \<Rightarrow> (op_status \<times> reactor_op) option"
where
  "recv_do_perform bufs answers o' =
     (case non_blocking_recv (ro_stream o') answers (ro_bytes o') of
        None \<Rightarrow> None
      | Some a \<Rightarrow>
          let o1 = set_result a o';
              status = (if fst a then Performed else Not_done)
          in Some (if status = Performed \<and> ro_stream o' \<and> ro_bytes o1 = 0
                   then Performed_and_exhausted else status, o1))"

text \<open>\<^verbatim>\<open>new_socket_.reset(new_socket)\<close> closes nothing: an operation that waits holds no socket.\<close>

definition accept_do_perform ::
  "bool \<Rightarrow> sys_result list \<Rightarrow> reactor_op \<Rightarrow> (op_status \<times> reactor_op) option"
where
  "accept_do_perform enable_connection_aborted answers o' =
     map_option (\<lambda>(over, ec, new_socket, calls).
         (if over then Performed else Not_done,
          o'\<lparr>ro_ec := ec, ro_new_socket := new_socket, ro_calls := ro_calls o' @ calls\<rparr>))
       (non_blocking_accept enable_connection_aborted answers)"

definition connect_do_perform :: "sys_result list \<Rightarrow> reactor_op \<Rightarrow> (op_status \<times> reactor_op) option" where
  "connect_do_perform answers o' =
     map_option (\<lambda>(over, ec, calls).
         (if over then Performed else Not_done, o'\<lparr>ro_ec := ec, ro_calls := ro_calls o' @ calls\<rparr>))
       (non_blocking_connect answers (ro_ec o'))"

fun perform_kind :: "op_kind \<Rightarrow> sys_result list \<Rightarrow> reactor_op \<Rightarrow> (op_status \<times> reactor_op) option" where
  "perform_kind (Send bufs) answers o' = send_do_perform bufs answers o'"
| "perform_kind (Receive bufs) answers o' = recv_do_perform bufs answers o'"
| "perform_kind (Accept aborts) answers o' = accept_do_perform aborts answers o'"
| "perform_kind Connect answers o' = connect_do_perform answers o'"

definition perform :: "sys_result list \<Rightarrow> reactor_op \<Rightarrow> (op_status \<times> reactor_op) option" where
  "perform answers o' = perform_kind (ro_kind o') answers o'"

section \<open>What the system promises and what an operation delivers\<close>

fun kind_size :: "op_kind \<Rightarrow> nat" where
  "kind_size (Send bufs) = adapter_total_size bufs"
| "kind_size (Receive bufs) = adapter_total_size bufs"
| "kind_size (Accept aborts) = 0"
| "kind_size Connect = 0"

text \<open>A call never transfers more than it was asked to, and a send that was asked for at least
  one byte sends one or fails.\<close>

fun sys_ok :: "op_kind \<Rightarrow> sys_result \<Rightarrow> bool" where
  "sys_ok kind (Failed e) = True"
| "sys_ok (Send bufs) (Returned n data) =
     (n \<le> adapter_total_size bufs \<and> (0 < adapter_total_size bufs \<longrightarrow> 0 < n))"
| "sys_ok (Receive bufs) (Returned n data) = (n \<le> adapter_total_size bufs \<and> length data = n)"
| "sys_ok (Accept aborts) (Returned n data) = True"
| "sys_ok Connect (Returned n data) = True"

text \<open>The result of one operation: a success transfers at least one byte unless there was no
  room for any, a failure transfers none.\<close>

definition part_result_ok :: "nat \<Rightarrow> error_code \<Rightarrow> nat \<Rightarrow> bool" where
  "part_result_ok room ec n \<longleftrightarrow>
     n \<le> room \<and> (ec = None \<longrightarrow> 0 < room \<longrightarrow> 0 < n) \<and> (ec \<noteq> None \<longrightarrow> n = 0)"

definition some_ok :: "op_kind \<Rightarrow> error_code \<Rightarrow> nat \<Rightarrow> byte list \<Rightarrow> bool" where
  "some_ok kind ec n data \<longleftrightarrow>
     part_result_ok (kind_size kind) ec n \<and>
     length data = (case kind of Receive _ \<Rightarrow> n | _ \<Rightarrow> 0)"

text \<open>The descriptors that the calls of an accept returned.\<close>

fun returned :: "sys_result list \<Rightarrow> nat list" where
  "returned [] = []"
| "returned (Returned n data # rs) = n # returned rs"
| "returned (Failed e # rs) = returned rs"

text \<open>The first call of a connect that waits says that it is in progress, or that it cannot be done at
  once (\<^verbatim>\<open>EAGAIN\<close>), and all calls of \<^verbatim>\<open>poll\<close> found nothing.\<close>

definition connecting :: "sys_result list \<Rightarrow> bool" where
  "connecting calls \<longleftrightarrow>
     (\<exists>e polls. calls = Failed e # polls \<and> e \<in> {11, 115} \<and> (\<forall>r \<in> set polls. \<exists>d. r = Returned 0 d))"

text \<open>What the system must have answered for a connection: \<^verbatim>\<open>connect\<close> succeeded, or it waited until the
  socket was ready and had no error then.\<close>

definition connected :: "sys_result list \<Rightarrow> bool" where
  "connected calls \<longleftrightarrow>
     (\<exists>data. calls = [Returned 0 data]) \<or>
     (\<exists>before ready data. calls = before @ [ready, Returned 0 data] \<and> connecting before \<and>
        (\<forall>d. ready \<noteq> Returned 0 d))"

text \<open>An operation that waits: an accept has no socket yet, a connect has begun.\<close>

definition kind_fresh :: "reactor_op \<Rightarrow> bool" where
  "kind_fresh o' \<longleftrightarrow>
     ro_new_socket o' = None \<and>
     (case ro_kind o' of
        Accept aborts \<Rightarrow> returned (ro_calls o') = []
      | Connect \<Rightarrow> connecting (ro_calls o')
      | _ \<Rightarrow> True)"

text \<open>A finished one: an accept succeeded exactly if it holds a socket, and holds all that were
  accepted; a connect succeeded only if there is a connection.\<close>

definition kind_result_ok :: "reactor_op \<Rightarrow> bool" where
  "kind_result_ok o' \<longleftrightarrow>
     (case ro_kind o' of
        Accept aborts \<Rightarrow> returned (ro_calls o') = (case ro_new_socket o' of None \<Rightarrow> [] | Some fd \<Rightarrow> [fd]) \<and>
          (ro_ec o' = None \<longleftrightarrow> ro_new_socket o' \<noteq> None)
      | Connect \<Rightarrow> ro_ec o' = None \<longrightarrow> connected (ro_calls o')
      | _ \<Rightarrow> True)"

definition fresh_op :: "reactor_op \<Rightarrow> bool" where
  "fresh_op o' \<longleftrightarrow> ro_bytes o' = 0 \<and> ro_data o' = [] \<and> ro_stream o' \<and> kind_fresh o'"

definition op_result_ok :: "reactor_op \<Rightarrow> bool" where
  "op_result_ok o' \<longleftrightarrow> some_ok (ro_kind o') (ro_ec o') (ro_bytes o') (ro_data o') \<and> kind_result_ok o'"

lemma errno_simps [simp]:
  "interrupted \<noteq> would_block" "would_block \<noteq> interrupted" "try_again = would_block"
  "Eof \<noteq> would_block" "Eof \<noteq> interrupted"
  by (simp_all add: interrupted_def would_block_def try_again_def)

lemma non_blocking_send_ok:
  assumes "non_blocking_send answers 0 = Some (over, ec, n, data)" "list_all (sys_ok (Send bufs)) answers"
  shows "data = []" "over \<Longrightarrow> some_ok (Send bufs) ec n data" "\<not> over \<Longrightarrow> ec = Some would_block \<and> n = 0"
  using assms by (induction answers)
    (auto simp: Let_def some_ok_def part_result_ok_def split: sys_result.splits if_splits)

lemma non_blocking_recv_ok:
  assumes "non_blocking_recv True answers 0 = Some (over, ec, n, data)"
    "list_all (sys_ok (Receive bufs)) answers"
  shows "over \<Longrightarrow> some_ok (Receive bufs) ec n data" "\<not> over \<Longrightarrow> ec = Some would_block \<and> n = 0 \<and> data = []"
  using assms by (induction answers)
    (auto simp: Let_def some_ok_def part_result_ok_def split: sys_result.splits if_splits)

text \<open>An attempt is over after the first call that no signal interrupts.\<close>

lemma non_blocking_send_returns:
  "non_blocking_send answers n = None \<longleftrightarrow> list_all (\<lambda>r. r = Failed 4) answers"
  by (induction answers) (auto simp: Let_def interrupted_def would_block_def split: sys_result.splits)

lemma non_blocking_recv_returns:
  "non_blocking_recv strm answers n = None \<longleftrightarrow> list_all (\<lambda>r. r = Failed 4) answers"
  by (induction answers) (auto simp: Let_def interrupted_def would_block_def split: sys_result.splits)

lemma non_blocking_accept_ok:
  assumes "non_blocking_accept aborts answers = Some (over, ec, new_socket, calls)"
  shows "returned calls = (case new_socket of None \<Rightarrow> [] | Some fd \<Rightarrow> [fd])" "ec = None \<longleftrightarrow> new_socket \<noteq> None"
    "\<not> over \<Longrightarrow> new_socket = None"
  using assms by (induction answers arbitrary: calls)
    (auto simp: Let_def split: if_splits prod.splits elim!: socket_accept.elims)

lemma non_blocking_connect_ok:
  assumes "non_blocking_connect answers ec0 = Some (over, ec, calls)"
  shows "over \<Longrightarrow> ec = None \<Longrightarrow> \<exists>ready data. calls = [ready, Returned 0 data] \<and> (\<forall>d. ready \<noteq> Returned 0 d)"
    "\<not> over \<Longrightarrow> \<exists>d. calls = [Returned 0 d]"
  using assms by (induction answers ec0 rule: non_blocking_connect.induct) (auto split: if_splits)

text \<open>An attempt to accept is over after the first call that no signal interrupts.\<close>

lemma non_blocking_accept_returns:
  "non_blocking_accept aborts answers = None \<longleftrightarrow> list_all (\<lambda>r. r = Failed 4) answers"
proof (induction answers)
  case (Cons r rs)
  then show ?case by (cases r) (auto simp: Let_def interrupted_def would_block_def try_again_def)
qed simp

lemma do_perform_returns:
  "send_do_perform bufs answers o' = None \<longleftrightarrow> non_blocking_send answers (ro_bytes o') = None"
  "recv_do_perform bufs2 answers o' = None \<longleftrightarrow> non_blocking_recv (ro_stream o') answers (ro_bytes o') = None"
  "accept_do_perform aborts answers o' = None \<longleftrightarrow> non_blocking_accept aborts answers = None"
  by (simp_all add: send_do_perform_def recv_do_perform_def accept_do_perform_def Let_def split: option.splits)

lemma perform_returns:
  "ro_kind o' \<noteq> Connect \<Longrightarrow> perform answers o' = None \<longleftrightarrow> list_all (\<lambda>r. r = Failed 4) answers"
  by (cases "ro_kind o'")
    (simp_all add: perform_def do_perform_returns non_blocking_send_returns non_blocking_recv_returns
      non_blocking_accept_returns)

lemma perform_kind_kept:
  assumes "perform answers o' = Some (status, o1)"
  shows "ro_id o1 = ro_id o'" "ro_kind o1 = ro_kind o'" "ro_stream o1 = ro_stream o'" "ro_key o1 = ro_key o'"
  using assms by (cases "ro_kind o'",
    auto simp: perform_def send_do_perform_def recv_do_perform_def accept_do_perform_def connect_do_perform_def
        Let_def set_result_def
      split: option.splits prod.splits)+

lemma send_perform_ok:
  assumes "send_do_perform bufs answers o' = Some (status, o1)" "fresh_op o'" "ro_kind o' = Send bufs"
    "list_all (sys_ok (Send bufs)) answers"
  shows "(status \<noteq> Not_done \<longrightarrow> op_result_ok o1) \<and> (status = Not_done \<longrightarrow> fresh_op o1)"
proof -
  obtain over ec n data where
    a: "non_blocking_send answers 0 = Some (over, ec, n, data)" "o1 = set_result (over, ec, n, data) o'"
    "status = Not_done \<longleftrightarrow> \<not> over"
    using assms by (auto simp: send_do_perform_def Let_def fresh_op_def split: option.splits if_splits)
  then show ?thesis using non_blocking_send_ok [OF a(1), of bufs] assms(2-4)
    by (auto simp: set_result_def op_result_ok_def fresh_op_def kind_fresh_def kind_result_ok_def)
qed

lemma recv_perform_ok:
  assumes "recv_do_perform bufs answers o' = Some (status, o1)" "fresh_op o'" "ro_kind o' = Receive bufs"
    "list_all (sys_ok (Receive bufs)) answers"
  shows "(status \<noteq> Not_done \<longrightarrow> op_result_ok o1) \<and> (status = Not_done \<longrightarrow> fresh_op o1)"
proof -
  obtain over ec n data where
    a: "non_blocking_recv True answers 0 = Some (over, ec, n, data)" "o1 = set_result (over, ec, n, data) o'"
    "status = Not_done \<longleftrightarrow> \<not> over"
    using assms by (auto simp: recv_do_perform_def Let_def fresh_op_def split: option.splits if_splits)
  then show ?thesis using non_blocking_recv_ok [OF a(1), of bufs] assms(2-4)
    by (auto simp: set_result_def op_result_ok_def fresh_op_def kind_fresh_def kind_result_ok_def)
qed

lemma returned_append [simp]: "returned (xs @ ys) = returned xs @ returned ys"
  by (induction xs rule: returned.induct) simp_all

lemma accept_perform_ok:
  assumes "accept_do_perform aborts answers o' = Some (status, o1)" "fresh_op o'" "ro_kind o' = Accept aborts"
  shows "(status \<noteq> Not_done \<longrightarrow> op_result_ok o1) \<and> (status = Not_done \<longrightarrow> fresh_op o1)"
proof -
  obtain over ec new_socket calls where
    a: "non_blocking_accept aborts answers = Some (over, ec, new_socket, calls)"
    "o1 = o'\<lparr>ro_ec := ec, ro_new_socket := new_socket, ro_calls := ro_calls o' @ calls\<rparr>"
    "status = Not_done \<longleftrightarrow> \<not> over"
    using assms(1) by (auto simp: accept_do_perform_def)
  then show ?thesis using non_blocking_accept_ok [OF a(1)] assms(2,3)
    by (auto simp: op_result_ok_def fresh_op_def kind_fresh_def kind_result_ok_def some_ok_def part_result_ok_def)
qed

lemma connect_perform_ok:
  assumes "connect_do_perform answers o' = Some (status, o1)" "fresh_op o'" "ro_kind o' = Connect"
  shows "(status \<noteq> Not_done \<longrightarrow> op_result_ok o1) \<and> (status = Not_done \<longrightarrow> fresh_op o1)"
proof -
  obtain over ec calls where
    a: "non_blocking_connect answers (ro_ec o') = Some (over, ec, calls)"
    "o1 = o'\<lparr>ro_ec := ec, ro_calls := ro_calls o' @ calls\<rparr>" "status = Not_done \<longleftrightarrow> \<not> over"
    using assms(1) by (auto simp: connect_do_perform_def)
  have fresh: "connecting (ro_calls o')" "ro_new_socket o' = None" "ro_bytes o' = 0" "ro_data o' = []" "ro_stream o'"
    using assms(2,3) by (auto simp: fresh_op_def kind_fresh_def)
  show ?thesis
  proof (cases over)
    case True
    then have "ec = None \<longrightarrow> connected (ro_calls o' @ calls)"
      using non_blocking_connect_ok(1) [OF a(1)] fresh(1) by (auto simp: connected_def)
    then show ?thesis using True a(2,3) assms(3) fresh
      by (simp add: op_result_ok_def kind_result_ok_def some_ok_def part_result_ok_def)
  next
    case False
    then have "connecting (ro_calls o' @ calls)"
      using non_blocking_connect_ok(2) [OF a(1)] fresh(1) by (auto simp: connecting_def)
    then show ?thesis using False a(2,3) assms(3) fresh
      by (simp add: fresh_op_def kind_fresh_def)
  qed
qed

theorem perform_ok:
  assumes "perform answers o' = Some (status, o1)" "fresh_op o'" "list_all (sys_ok (ro_kind o')) answers"
  shows "status \<noteq> Not_done \<Longrightarrow> op_result_ok o1" "status = Not_done \<Longrightarrow> fresh_op o1"
  using assms send_perform_ok [of _ answers o' status o1] recv_perform_ok [of _ answers o' status o1]
    accept_perform_ok [of _ answers o' status o1] connect_perform_ok [of answers o' status o1]
  by (cases "ro_kind o'"; simp add: perform_def)+

end
