(* ===== verification/Asio_Transfer.thy ===== *)
theory Asio_Transfer
  imports Coroutines Asio_Socket_Ops
begin

text \<open>
  \<^verbatim>\<open>async_write\<close> and \<^verbatim>\<open>async_read\<close> (\<^verbatim>\<open>impl/write.hpp\<close>, \<^verbatim>\<open>impl/read.hpp\<close>,
  \<^verbatim>\<open>completion_condition.hpp\<close> and \<^verbatim>\<open>detail/base_from_completion_cond.hpp\<close> under
  \<^verbatim>\<open>src/3party/asio-1.24.0/include/asio/\<close>): one \<^verbatim>\<open>async_write_some\<close> or \<^verbatim>\<open>async_read_some\<close>
  after the other until everything is transferred or one fails. An operation is resumed with
  the result of the last part and whether it was cancelled.
\<close>

section \<open>The loop\<close>

definition default_max_transfer_size :: nat where
  "default_max_transfer_size = 65536"

definition transfer_all :: "error_code \<Rightarrow> nat \<Rightarrow> nat" where
  "transfer_all ec bytes_transferred = (if ec \<noteq> None then 0 else default_max_transfer_size)"

definition check_for_completion :: "error_code \<Rightarrow> nat \<Rightarrow> nat" where
  "check_for_completion ec total_transferred = transfer_all ec total_transferred"

text \<open>Either the next part is under way, with the buffers given to it, or the handler is called.\<close>

datatype 'a transfer =
    Part "'a buffer list" "'a transfer_buffers"
  | Complete error_code nat

definition write_op_start :: "'a transfer_buffers \<Rightarrow> 'a transfer" where
  "write_op_start buffers =
     Part (tb_prepare buffers (check_for_completion None (tb_total_consumed buffers))) buffers"

definition write_op_resume ::
  "'a transfer_buffers \<Rightarrow> error_code \<Rightarrow> nat \<Rightarrow> bool \<Rightarrow> 'a transfer"
where
  "write_op_resume buffers ec bytes_transferred cancelled =
     (let buffers = tb_consume bytes_transferred buffers
      in if (ec = None \<and> bytes_transferred = 0) \<or> tb_empty buffers
         then Complete ec (tb_total_consumed buffers)
         else let max_size = check_for_completion ec (tb_total_consumed buffers)
              in if max_size = 0 then Complete ec (tb_total_consumed buffers)
                 else if cancelled
                 then Complete (Some operation_aborted) (tb_total_consumed buffers)
                 else Part (tb_prepare buffers max_size) buffers)"

text \<open>The function objects for reading have the same text.\<close>

definition read_op_start :: "nat transfer_buffers \<Rightarrow> nat transfer" where
  "read_op_start buffers = write_op_start buffers"

definition read_op_resume ::
  "nat transfer_buffers \<Rightarrow> error_code \<Rightarrow> nat \<Rightarrow> bool \<Rightarrow> nat transfer"
where
  "read_op_resume buffers ec bytes_transferred cancelled =
     write_op_resume buffers ec bytes_transferred cancelled"

text \<open>A write runs with the results of its parts; the bytes that the system took are collected.\<close>

type_synonym part_result = "error_code \<times> nat \<times> bool"

fun write_run :: "'a transfer \<Rightarrow> part_result list \<Rightarrow> 'a list \<times> 'a transfer" where
  "write_run (Part bufs b) ((ec, n, cancelled) # rs) =
     (case write_run (write_op_resume b ec n cancelled) rs of
        (cells, st) \<Rightarrow> (take n (concat bufs) @ cells, st))"
| "write_run st rs = ([], st)"

fun write_results_ok :: "'a transfer \<Rightarrow> part_result list \<Rightarrow> bool" where
  "write_results_ok (Part bufs b) ((ec, n, cancelled) # rs) =
     (part_result_ok (adapter_total_size bufs) ec n \<and> write_results_ok (write_op_resume b ec n cancelled) rs)"
| "write_results_ok st rs = True"

text \<open>A read stores the data of each part at the addresses given to it.\<close>

fun store_cells :: "nat list \<Rightarrow> byte list \<Rightarrow> (nat \<Rightarrow> byte) \<Rightarrow> nat \<Rightarrow> byte" where
  "store_cells (a # as) (c # cs) mem = store_cells as cs (mem(a := c))"
| "store_cells as cs mem = mem"

type_synonym read_result = "error_code \<times> byte list \<times> bool"

fun read_run ::
  "nat transfer \<Rightarrow> read_result list \<Rightarrow> (nat \<Rightarrow> byte) \<Rightarrow> (nat \<Rightarrow> byte) \<times> byte list \<times> nat transfer"
where
  "read_run (Part bufs b) ((ec, data, cancelled) # rs) mem =
     (case read_run (read_op_resume b ec (length data) cancelled) rs
             (store_cells (concat bufs) data mem) of
        (mem', rest, st) \<Rightarrow> (mem', data @ rest, st))"
| "read_run st rs mem = (mem, [], st)"

fun read_results_ok :: "nat transfer \<Rightarrow> read_result list \<Rightarrow> bool" where
  "read_results_ok (Part bufs b) ((ec, data, cancelled) # rs) =
     (some_ok (Receive bufs) ec (length data) data \<and>
      read_results_ok (read_op_resume b ec (length data) cancelled) rs)"
| "read_results_ok st rs = True"

section \<open>Facts\<close>

lemma prepare_buffers_length: "length (prepare_buffers cnt off m bs) \<le> max_buffers - cnt"
proof (induction cnt off m bs rule: prepare_buffers.induct)
  case (2 cnt off m b bs)
  show ?case using 2(1) [OF _ refl] 2(2) [OF _ refl] by (auto simp: Let_def)
qed simp

lemma tb_prepare_length: "length (tb_prepare b m) \<le> 16"
  using prepare_buffers_length [of 0 _ m]
  by (cases b) (auto simp: csb_prepare_def cb_prepare_def max_buffers_def)

lemma adapter_prepared [simp]:
  "adapter_total_size (tb_prepare b m) = length (concat (tb_prepare b m))"
  using tb_prepare_length [of b m]
  by (simp add: adapter_total_size_def adapter_buffers_def adapter_max_buffers_def)

text \<open>What a part may be: the next cells, and some of them if there are any.\<close>

definition part_ok :: "'a transfer_buffers \<Rightarrow> 'a buffer list \<Rightarrow> bool" where
  "part_ok b bufs \<longleftrightarrow> tb_ok b \<and> (\<exists>m > 0. bufs = tb_prepare b m)"

lemma check_for_completion_simps [simp]:
  "check_for_completion None n = default_max_transfer_size" "check_for_completion (Some e) n = 0"
  "0 < default_max_transfer_size" "default_max_transfer_size \<noteq> 0"
  by (simp_all add: check_for_completion_def transfer_all_def default_max_transfer_size_def)

lemma part_ok_start: "tb_ok b \<Longrightarrow> part_ok b (tb_prepare b default_max_transfer_size)"
  unfolding part_ok_def using check_for_completion_simps(3) by blast

lemma part_ok_size: "part_ok b bufs \<Longrightarrow> adapter_total_size bufs = length (concat bufs)"
  by (auto simp: part_ok_def)

lemma part_ok_consume:
  assumes "part_ok b bufs" "n \<le> length (concat bufs)"
  shows "tb_ok (tb_consume n b)" "tb_rest (tb_consume n b) = drop n (tb_rest b)"
    "n \<le> length (tb_rest b)" "take n (concat bufs) = take n (tb_rest b)"
    "concat bufs = [] \<Longrightarrow> tb_rest b = []"
proof -
  obtain m where m: "tb_ok b" "bufs = tb_prepare b m" "0 < m" using assms(1) by (auto simp: part_ok_def)
  note n = assms(2) [unfolded m(2)]
  show "tb_ok (tb_consume n b)" "tb_rest (tb_consume n b) = drop n (tb_rest b)"
    by (rule tb.consume_prepared [OF m(1) n])+
  show "n \<le> length (tb_rest b)" using n tb.prepared_length [OF m(1)] by (rule order_trans)
  show "take n (concat bufs) = take n (tb_rest b)" unfolding m(2) by (rule tb.prepared_part [OF m(1) n])
  show "concat bufs = [] \<Longrightarrow> tb_rest b = []" using tb.prepare_progress [OF m(1) _ m(3)] m(2) by blast
qed

lemma resume_Part:
  assumes "part_ok b bufs" "n \<le> length (concat bufs)" "write_op_resume b ec n c = Part bufs' b'"
  shows "part_ok b' bufs'" "tb_rest b' = drop n (tb_rest b)" "0 < n" "ec = None"
    "tb_total_consumed b' = tb_total_consumed b + n" "tb_rest b' \<noteq> []"
  using assms(3) part_ok_consume [OF assms(1,2)] tb.empty_iff [of "tb_consume n b"]
  by (cases ec; auto simp: write_op_resume_def Let_def part_ok_start tb.consume_consumed split: if_splits)+

lemma resume_Complete:
  assumes "part_ok b bufs" "n \<le> length (concat bufs)" "write_op_resume b ec n c = Complete ec' t"
    "ec = None \<Longrightarrow> concat bufs \<noteq> [] \<Longrightarrow> 0 < n"
  shows "t = tb_total_consumed b + n" "ec' = None \<Longrightarrow> n = length (tb_rest b)"
proof -
  note c = part_ok_consume [OF assms(1,2)]
  show "t = tb_total_consumed b + n"
    using assms(3) by (auto simp: write_op_resume_def Let_def tb.consume_consumed split: if_splits)
  assume "ec' = None"
  then have "ec = None" "n = 0 \<or> tb_rest (tb_consume n b) = []"
    using assms(3) tb.empty_iff [OF c(1)]
    by (cases ec; auto simp: write_op_resume_def Let_def split: if_splits)+
  then show "n = length (tb_rest b)" using c assms(4) by (cases "concat bufs = []") auto
qed

section \<open>Writing\<close>

lemma part_result_part:
  assumes "part_result_ok (adapter_total_size bufs) ec n" "part_ok b bufs"
  shows "n \<le> length (concat bufs)" "ec = None \<Longrightarrow> concat bufs \<noteq> [] \<Longrightarrow> 0 < n" "ec \<noteq> None \<Longrightarrow> n = 0"
  using assms(1) part_ok_size [OF assms(2)] by (auto simp: part_result_ok_def)

lemma write_run_part:
  assumes "part_ok b bufs" "write_results_ok (Part bufs b) rs"
    "write_run (Part bufs b) rs = (cells, Complete ec t)"
  shows "t = tb_total_consumed b + length cells \<and> prefix cells (tb_rest b) \<and>
         (ec = None \<longrightarrow> cells = tb_rest b)"
  using assms
proof (induction rs arbitrary: bufs b cells)
  case (Cons r rs)
  obtain e n c where r: "r = (e, n, c)" by (cases r)
  have res: "part_result_ok (adapter_total_size bufs) e n" "write_results_ok (write_op_resume b e n c) rs"
    using Cons.prems(2) by (simp_all add: r)
  note n = part_result_part [OF res(1) Cons.prems(1)]
  note part = part_ok_consume [OF Cons.prems(1) n(1)]
  show ?case
  proof (cases "write_op_resume b e n c")
    case (Part bufs' b')
    note p = resume_Part [OF Cons.prems(1) n(1) Part]
    obtain cells' where cells: "write_run (Part bufs' b') rs = (cells', Complete ec t)"
      "cells = take n (concat bufs) @ cells'"
      using Cons.prems(3) Part by (auto simp: r split: prod.splits)
    have "t = tb_total_consumed b' + length cells' \<and> prefix cells' (tb_rest b') \<and>
      (ec = None \<longrightarrow> cells' = tb_rest b')"
      by (rule Cons.IH [OF p(1) _ cells(1)]) (use res(2) Part in simp)
    moreover have "tb_rest b = take n (concat bufs) @ tb_rest b'"
      using p(2) part(4) by simp
    moreover have "length (take n (concat bufs)) = n" using n(1) by simp
    ultimately show ?thesis using cells(2) p(5) by auto
  next
    case (Complete e' t')
    then have t': "ec = e'" "t = t'" "cells = take n (concat bufs)"
      using Cons.prems(3) by (cases rs; auto simp: r)+
    note p = resume_Complete [OF Cons.prems(1) n(1) Complete n(2)]
    have "prefix cells (tb_rest b)" using t'(3) part(4) take_is_prefix by metis
    moreover have "length cells = n" using t'(3) n(1) by simp
    moreover have "cells = tb_rest b" if "ec = None" using p(2) that t' part(4) by simp
    ultimately show ?thesis using p(1) t'(2) by simp
  qed
qed simp

text \<open>Whatever the parts were, a write keeps what \<open>write_ok\<close> states, and the system took a
  prefix of the bytes, in order.\<close>

lemma write_run_complete:
  assumes "tb_ok b" "tb_total_consumed b = 0" "write_results_ok (write_op_start b) rs"
    "write_run (write_op_start b) rs = (cells, Complete ec n)"
  shows "n \<le> length (tb_rest b)" "ec = None \<Longrightarrow> n = length (tb_rest b)" "cells = take n (tb_rest b)"
  using write_run_part [OF part_ok_start [OF assms(1)], of rs cells ec n] assms(2-4)
  by (auto simp: write_op_start_def prefix_def)

lemma write_run_ok:
  assumes "tb_ok b" "tb_total_consumed b = 0" "write_results_ok (write_op_start b) rs"
    "write_run (write_op_start b) rs = (cells, Complete ec n)"
  shows "write_ok (tb_rest b) ec n" "cells = take n (tb_rest b)"
  using write_run_complete [OF assms] by (auto simp: write_ok_def)

lemma write_run_progress:
  assumes "part_ok b bufs" "write_results_ok (Part bufs b) rs"
    "write_run (Part bufs b) rs = (cells, Part bufs' b')"
  shows "length rs \<le> length cells \<and> length cells + length (tb_rest b') = length (tb_rest b) \<and>
    (rs \<noteq> [] \<longrightarrow> tb_rest b' \<noteq> [])"
  using assms
proof (induction rs arbitrary: bufs b cells)
  case (Cons r rs)
  obtain e n c where r: "r = (e, n, c)" by (cases r)
  have res: "part_result_ok (adapter_total_size bufs) e n" "write_results_ok (write_op_resume b e n c) rs"
    using Cons.prems(2) by (simp_all add: r)
  note n = part_result_part [OF res(1) Cons.prems(1)]
  note part = part_ok_consume [OF Cons.prems(1) n(1)]
  obtain bufs1 b1 where Part: "write_op_resume b e n c = Part bufs1 b1"
    using Cons.prems(3) by (cases "write_op_resume b e n c"; cases rs) (auto simp: r)
  note p = resume_Part [OF Cons.prems(1) n(1) Part]
  obtain cells' where cells: "write_run (Part bufs1 b1) rs = (cells', Part bufs' b')"
    "cells = take n (concat bufs) @ cells'"
    using Cons.prems(3) Part by (auto simp: r split: prod.splits)
  have "length rs \<le> length cells' \<and> length cells' + length (tb_rest b') = length (tb_rest b1) \<and>
    (rs \<noteq> [] \<longrightarrow> tb_rest b' \<noteq> [])"
    by (rule Cons.IH [OF p(1) _ cells(1)]) (use res(2) Part in simp)
  moreover have "rs = [] \<Longrightarrow> b' = b1" using cells(1) by simp
  moreover have "tb_rest b = take n (concat bufs) @ tb_rest b1" "length (take n (concat bufs)) = n"
    using p(2) part(3,4) n(1) by simp_all
  ultimately show ?case using cells(2) p(3,6) by (cases "rs = []") auto
qed simp

text \<open>A write ends: no more parts than there are bytes, and one for a write of none.\<close>

lemma write_run_ends:
  assumes "tb_ok b" "write_results_ok (write_op_start b) rs" "length rs \<ge> max 1 (length (tb_rest b))"
  shows "\<exists>cells ec n. write_run (write_op_start b) rs = (cells, Complete ec n)"
proof (rule ccontr)
  assume "\<not> ?thesis"
  then obtain cells bufs' b' where r: "write_run (write_op_start b) rs = (cells, Part bufs' b')"
    by (metis prod.exhaust transfer.exhaust)
  have "length rs \<le> length cells \<and> length cells + length (tb_rest b') = length (tb_rest b) \<and>
    (rs \<noteq> [] \<longrightarrow> tb_rest b' \<noteq> [])"
    by (rule write_run_progress [OF part_ok_start [OF assms(1)]])
      (use assms(2) r in \<open>simp_all add: write_op_start_def\<close>)
  then show False using assms(3) by (auto simp flip: length_greater_0_conv)
qed

section \<open>Reading\<close>

lemma store_cells_other: "a \<notin> set as \<Longrightarrow> store_cells as cs mem a = mem a"
  by (induction as cs mem rule: store_cells.induct) auto

lemma store_cells_map:
  "distinct as \<Longrightarrow> length cs \<le> length as \<Longrightarrow> map (store_cells as cs mem) (take (length cs) as) = cs"
  by (induction as cs mem rule: store_cells.induct) (auto simp: store_cells_other)

lemma store_cells_take: "store_cells (take (length cs) as) cs mem = store_cells as cs mem"
  by (induction as cs mem rule: store_cells.induct) (simp_all del: fun_upd_apply)

lemma store_cells_append:
  "store_cells as (bs @ cs) mem =
   store_cells (drop (length bs) as) cs (store_cells as bs mem)"
  by (induction as bs mem rule: store_cells.induct) (simp_all del: fun_upd_apply)

text \<open>A read runs like a write of its addresses; in memory the data is where one store of all of
  it would have put it.\<close>

lemma read_run_write_run:
  assumes "part_ok b bufs" "read_results_ok (Part bufs b) rs"
  shows "write_results_ok (Part bufs b) (map (\<lambda>(ec, data, c). (ec, length data, c)) rs) \<and>
    (case read_run (Part bufs b) rs mem of (mem', data, st) \<Rightarrow>
       write_run (Part bufs b) (map (\<lambda>(ec, data, c). (ec, length data, c)) rs) =
         (take (length data) (tb_rest b), st) \<and>
       length data \<le> length (tb_rest b) \<and> mem' = store_cells (tb_rest b) data mem)"
  using assms
proof (induction rs arbitrary: bufs b mem)
  case (Cons r rs)
  let ?w = "map (\<lambda>(ec, data, c). (ec, length data, c))"
  obtain e d c where r: "r = (e, d, c)" by (cases r)
  have res: "some_ok (Receive bufs) e (length d) d" "read_results_ok (write_op_resume b e (length d) c) rs"
    using Cons.prems(2) by (simp_all add: r read_op_resume_def)
  have ok: "part_result_ok (adapter_total_size bufs) e (length d)"
    using res(1) by (simp add: some_ok_def)
  note n = part_result_part [OF ok Cons.prems(1)]
  note part = part_ok_consume [OF Cons.prems(1) n(1)]
  let ?mem = "store_cells (concat bufs) d mem"
  have mem: "?mem = store_cells (tb_rest b) d mem"
    by (metis part(4) store_cells_take)
  show ?case
  proof (cases "write_op_resume b e (length d) c")
    case (Part bufs' b')
    note p = resume_Part [OF Cons.prems(1) n(1) Part]
    obtain mem' more st where run: "read_run (Part bufs' b') rs ?mem = (mem', more, st)"
      by (cases "read_run (Part bufs' b') rs ?mem")
    have "write_results_ok (Part bufs' b') (?w rs) \<and>
      write_run (Part bufs' b') (?w rs) = (take (length more) (tb_rest b'), st) \<and>
      length more \<le> length (tb_rest b') \<and> mem' = store_cells (tb_rest b') more ?mem"
      using Cons.IH [OF p(1), of ?mem] res(2) Part run by simp
    then show ?thesis using run Part ok part(3,4) p(2)
      by (auto simp: r read_op_resume_def mem store_cells_append take_add)
  next
    case (Complete e' t')
    then show ?thesis using ok part(3,4) mem by (cases rs) (auto simp: r read_op_resume_def)
  qed
qed (auto intro: exI)

text \<open>A read keeps what \<open>read_all_ok\<close> states, and fills the memory it was given from the front.\<close>

lemma read_run_ok:
  assumes "tb_ok b" "tb_total_consumed b = 0" "read_results_ok (read_op_start b) rs"
    "read_run (read_op_start b) rs mem = (mem', data, Complete ec n)" "distinct (tb_rest b)"
  shows "read_all_ok (length (tb_rest b)) ec data" "n = length data"
    "map mem' (take n (tb_rest b)) = data" "a \<notin> set (take n (tb_rest b)) \<Longrightarrow> mem' a = mem a"
proof -
  let ?w = "map (\<lambda>(ec, data, c). (ec, length data, c)) rs"
  have start: "read_op_start b = Part (tb_prepare b default_max_transfer_size) b"
    by (simp add: read_op_start_def write_op_start_def)
  have "write_results_ok (write_op_start b) ?w"
    "write_run (write_op_start b) ?w = (take (length data) (tb_rest b), Complete ec n)"
    "length data \<le> length (tb_rest b)" "mem' = store_cells (tb_rest b) data mem"
    using read_run_write_run [OF part_ok_start [OF assms(1)], of rs mem] assms(3,4)
    by (simp_all add: start write_op_start_def)
  note w = write_run_complete [OF assms(1,2) this(1,2)] this(3,4)
  show n: "n = length data" using arg_cong [OF w(3), of length] w(1,4) by simp
  show "read_all_ok (length (tb_rest b)) ec data" using w(1,2) n by (auto simp: read_all_ok_def)
  show "map mem' (take n (tb_rest b)) = data"
    using store_cells_map [OF assms(5) w(4)] by (simp add: n w(5))
  show "a \<notin> set (take n (tb_rest b)) \<Longrightarrow> mem' a = mem a"
    using store_cells_other [of a "take (length data) (tb_rest b)" data mem]
    by (simp add: n w(5) store_cells_take)
qed

end
