(* ===== verification/Asio_Reactor.thy ===== *)
theory Asio_Reactor
  imports Asio_Socket_Ops
begin

text \<open>
  A stream socket of the network library: the operations that wait for it in the reactor
  (\<^verbatim>\<open>detail/impl/epoll_reactor.ipp\<close>), the completions in the queue of the scheduler
  (\<^verbatim>\<open>detail/impl/scheduler.ipp\<close>), and the calls that start, cancel and abort operations
  (\<^verbatim>\<open>detail/impl/reactive_socket_service_base.ipp\<close>), under
  \<^verbatim>\<open>src/3party/asio-1.24.0/include/asio/\<close>. An \<^verbatim>\<open>op_queue\<close> is the list of its operations. The
  reactor's scheduler runs on one thread, whose private queue and count of work are taken as part
  of the scheduler's. What \<^verbatim>\<open>epoll_ctl\<close> and the system calls of an attempt
  answer are arguments, and epoll may report any events at any time.
\<close>

unbundle bit_operations_syntax

section \<open>State\<close>

datatype op_type = Read_op | Write_op | Except_op

record descriptor_state =
  ds_registered_events :: u32
  ds_op_queue :: "op_type \<Rightarrow> reactor_op list"
  ds_try_speculative :: "op_type \<Rightarrow> bool"
  ds_shutdown :: bool

text \<open>The queue of completions that wait for the thread, the count of outstanding work, and two
  histories: the operations that are done, in this order, and those whose handlers ran.\<close>

record scheduler =
  sc_op_queue :: "reactor_op list"
  sc_outstanding_work :: int
  sc_finished :: "reactor_op list"
  sc_completed :: "reactor_op list"

text \<open>\<^verbatim>\<open>base_implementation_type\<close> of a socket with the scheduler it uses. The last field is the
  history of started operations.\<close>

record async_socket =
  so_is_open :: bool
  so_non_blocking :: bool
  so_reactor_data :: "descriptor_state option"
  so_scheduler :: scheduler
  so_started :: "reactor_op list"

definition scheduler_new :: scheduler where
  "scheduler_new =
     \<lparr>sc_op_queue = [], sc_outstanding_work = 0, sc_finished = [], sc_completed = []\<rparr>"

definition async_socket_new :: async_socket where
  "async_socket_new =
     \<lparr>so_is_open = False, so_non_blocking = False, so_reactor_data = None,
      so_scheduler = scheduler_new, so_started = []\<rparr>"

section \<open>Scheduler\<close>

definition work_started :: "scheduler \<Rightarrow> scheduler" where
  "work_started sc = sc\<lparr>sc_outstanding_work := sc_outstanding_work sc + 1\<rparr>"

definition post_immediate_completion :: "reactor_op \<Rightarrow> scheduler \<Rightarrow> scheduler" where
  "post_immediate_completion o' sc =
     (work_started sc)\<lparr>sc_op_queue := sc_op_queue sc @ [o'], sc_finished := sc_finished sc @ [o']\<rparr>"

definition post_deferred_completions :: "reactor_op list \<Rightarrow> scheduler \<Rightarrow> scheduler" where
  "post_deferred_completions ops sc =
     (if ops \<noteq> [] then sc\<lparr>sc_op_queue := sc_op_queue sc @ ops, sc_finished := sc_finished sc @ ops\<rparr>
      else sc)"

text \<open>\<^verbatim>\<open>do_run_one\<close> on an operation that is not the reactor's task: its handler runs and its
  work is finished.\<close>

definition do_run_one :: "scheduler \<Rightarrow> scheduler" where
  "do_run_one sc =
     (case sc_op_queue sc of
        [] \<Rightarrow> sc
      | o' # ops \<Rightarrow>
          sc\<lparr>sc_op_queue := ops, sc_completed := sc_completed sc @ [o'],
             sc_outstanding_work := sc_outstanding_work sc - 1\<rparr>)"

section \<open>Descriptors\<close>

definition EPOLLIN :: u32 where "EPOLLIN = 1"
definition EPOLLPRI :: u32 where "EPOLLPRI = 2"
definition EPOLLOUT :: u32 where "EPOLLOUT = 4"
definition EPOLLERR :: u32 where "EPOLLERR = 8"
definition EPOLLHUP :: u32 where "EPOLLHUP = 16"
definition EPOLLET :: u32 where "EPOLLET = push_bit 31 1"

text \<open>With the answer of \<^verbatim>\<open>epoll_ctl\<close>: 0 or an error number, of which \<^verbatim>\<open>EPERM\<close> is 1.\<close>

definition register_descriptor :: "nat \<Rightarrow> descriptor_state \<times> nat" where
  "register_descriptor errno =
     (let ds = \<lparr>ds_registered_events = EPOLLIN OR EPOLLERR OR EPOLLHUP OR EPOLLPRI OR EPOLLET,
                ds_op_queue = (\<lambda>_. []), ds_try_speculative = (\<lambda>_. True), ds_shutdown = False\<rparr>
      in if errno \<noteq> 0
         then if errno = 1 then (ds\<lparr>ds_registered_events := 0\<rparr>, 0) else (ds, errno)
         else (ds, 0))"

definition enqueue_op ::
  "op_type \<Rightarrow> reactor_op \<Rightarrow> descriptor_state \<Rightarrow> scheduler \<Rightarrow> descriptor_state option \<times> scheduler"
where
  "enqueue_op t o' ds sc =
     (Some (ds\<lparr>ds_op_queue := (ds_op_queue ds)(t := ds_op_queue ds t @ [o'])\<rparr>), work_started sc)"

definition fail_op ::
  "error_code \<Rightarrow> reactor_op \<Rightarrow> descriptor_state \<Rightarrow> scheduler \<Rightarrow> descriptor_state option \<times> scheduler"
where
  "fail_op ec o' ds sc = (Some ds, post_immediate_completion (o'\<lparr>ro_ec := ec\<rparr>) sc)"

text \<open>\<^verbatim>\<open>start_op\<close> after the attempt that did not succeed or was not worth making.\<close>

definition start_waiting ::
  "op_type \<Rightarrow> nat \<Rightarrow> reactor_op \<Rightarrow> descriptor_state \<Rightarrow> scheduler \<Rightarrow> descriptor_state option \<times> scheduler"
where
  "start_waiting t errno o' ds sc =
     (if ds_registered_events ds = 0 then fail_op (Some operation_not_supported) o' ds sc
      else if t = Write_op \<and> ds_registered_events ds AND EPOLLOUT = 0
      then if errno = 0
           then enqueue_op t o'
                  (ds\<lparr>ds_registered_events := ds_registered_events ds OR EPOLLOUT\<rparr>) sc
           else fail_op (Some (Io_error errno)) o' ds sc
      else enqueue_op t o' ds sc)"

definition reactor_start_op ::
  "op_type \<Rightarrow> nat \<Rightarrow> sys_result list \<Rightarrow> bool \<Rightarrow> reactor_op \<Rightarrow> descriptor_state option \<Rightarrow> scheduler \<Rightarrow>
   (descriptor_state option \<times> scheduler) option"
where
  "reactor_start_op t errno answers allow_speculative o' data sc =
     (case data of
        None \<Rightarrow> Some (None, post_immediate_completion (o'\<lparr>ro_ec := Some bad_descriptor\<rparr>) sc)
      | Some ds \<Rightarrow>
          if ds_shutdown ds then Some (Some ds, post_immediate_completion o' sc)
          else if ds_op_queue ds t = []
          then if allow_speculative \<and> (t \<noteq> Read_op \<or> ds_op_queue ds Except_op = [])
               then if ds_try_speculative ds t
                    then (case perform answers o' of
                            None \<Rightarrow> None
                          | Some (status, o1) \<Rightarrow>
                              if status \<noteq> Not_done
                              then Some
                                (Some (if status = Performed_and_exhausted \<and> ds_registered_events ds \<noteq> 0
                                       then ds\<lparr>ds_try_speculative := (ds_try_speculative ds)(t := False)\<rparr>
                                       else ds),
                                 post_immediate_completion o1 sc)
                              else Some (start_waiting t errno o1 ds sc))
                    else Some (start_waiting t errno o' ds sc)
               else if ds_registered_events ds = 0
               then Some (fail_op (Some operation_not_supported) o' ds sc)
               else Some (enqueue_op t o'
                     (if t = Write_op
                      then ds\<lparr>ds_registered_events := ds_registered_events ds OR EPOLLOUT\<rparr> else ds) sc)
          else Some (enqueue_op t o' ds sc))"

definition aborted :: "reactor_op \<Rightarrow> reactor_op" where
  "aborted o' = o'\<lparr>ro_ec := Some operation_aborted\<rparr>"

definition all_queued :: "descriptor_state \<Rightarrow> reactor_op list" where
  "all_queued ds = ds_op_queue ds Read_op @ ds_op_queue ds Write_op @ ds_op_queue ds Except_op"

definition cancel_ops ::
  "descriptor_state option \<Rightarrow> scheduler \<Rightarrow> descriptor_state option \<times> scheduler"
where
  "cancel_ops data sc =
     (case data of
        None \<Rightarrow> (None, sc)
      | Some ds \<Rightarrow>
          (Some (ds\<lparr>ds_op_queue := (\<lambda>_. [])\<rparr>),
           post_deferred_completions (map aborted (all_queued ds)) sc))"

text \<open>The loop over one queue: the operations with the key and the others.\<close>

fun split_by_key :: "nat \<Rightarrow> reactor_op list \<Rightarrow> reactor_op list \<times> reactor_op list" where
  "split_by_key key [] = ([], [])"
| "split_by_key key (o' # ops) =
     (let (hit, other) = split_by_key key ops
      in if ro_key o' = Some key then (aborted o' # hit, other) else (hit, o' # other))"

definition cancel_ops_by_key ::
  "op_type \<Rightarrow> nat \<Rightarrow> descriptor_state option \<Rightarrow> scheduler \<Rightarrow> descriptor_state option \<times> scheduler"
where
  "cancel_ops_by_key t key data sc =
     (case data of
        None \<Rightarrow> (None, sc)
      | Some ds \<Rightarrow>
          let (hit, other) = split_by_key key (ds_op_queue ds t)
          in (Some (ds\<lparr>ds_op_queue := (ds_op_queue ds)(t := other)\<rparr>), post_deferred_completions hit sc))"

definition deregister_descriptor ::
  "descriptor_state option \<Rightarrow> scheduler \<Rightarrow> descriptor_state option \<times> scheduler"
where
  "deregister_descriptor data sc =
     (case data of
        None \<Rightarrow> (None, sc)
      | Some ds \<Rightarrow>
          if \<not> ds_shutdown ds
          then (Some (ds\<lparr>ds_op_queue := (\<lambda>_. []), ds_shutdown := True\<rparr>),
                post_deferred_completions (map aborted (all_queued ds)) sc)
          else (None, sc))"

definition cleanup_descriptor_data :: "descriptor_state option \<Rightarrow> descriptor_state option" where
  "cleanup_descriptor_data data = None"

section \<open>Events\<close>

fun event_flag :: "op_type \<Rightarrow> u32" where
  "event_flag Read_op = EPOLLIN"
| "event_flag Write_op = EPOLLOUT"
| "event_flag Except_op = EPOLLPRI"

text \<open>The inner loop of \<^verbatim>\<open>perform_io\<close> on one queue, with the answers for each attempt: what is
  done, what stays queued, and the new value of \<^verbatim>\<open>try_speculative_\<close>.\<close>

fun perform_queue ::
  "sys_result list list \<Rightarrow> reactor_op list \<Rightarrow> (reactor_op list \<times> reactor_op list \<times> bool) option"
where
  "perform_queue answers [] = Some ([], [], True)"
| "perform_queue [] (o' # ops) = None"
| "perform_queue (a # answers) (o' # ops) =
     (case perform a o' of
        None \<Rightarrow> None
      | Some (Not_done, o1) \<Rightarrow> Some ([], o1 # ops, True)
      | Some (Performed_and_exhausted, o1) \<Rightarrow> Some ([o1], ops, False)
      | Some (Performed, o1) \<Rightarrow>
          (case perform_queue answers ops of
             None \<Rightarrow> None
           | Some (over, left, spec) \<Rightarrow> Some (o1 # over, left, spec)))"

fun perform_io_loop ::
  "u32 \<Rightarrow> (op_type \<Rightarrow> sys_result list list) \<Rightarrow> op_type list \<Rightarrow> descriptor_state \<Rightarrow>
   (descriptor_state \<times> reactor_op list) option"
where
  "perform_io_loop events answers [] ds = Some (ds, [])"
| "perform_io_loop events answers (j # js) ds =
     (if events AND (event_flag j OR EPOLLERR OR EPOLLHUP) \<noteq> 0
      then (case perform_queue (answers j) (ds_op_queue ds j) of
              None \<Rightarrow> None
            | Some (over, left, spec) \<Rightarrow>
                (case perform_io_loop events answers js
                        (ds\<lparr>ds_op_queue := (ds_op_queue ds)(j := left),
                            ds_try_speculative := (ds_try_speculative ds)(j := spec)\<rparr>) of
                   None \<Rightarrow> None
                 | Some (ds', ops) \<Rightarrow> Some (ds', over @ ops)))
      else perform_io_loop events answers js ds)"

definition perform_io ::
  "u32 \<Rightarrow> (op_type \<Rightarrow> sys_result list list) \<Rightarrow> descriptor_state \<Rightarrow>
   (descriptor_state \<times> reactor_op list) option"
where
  "perform_io events answers ds = perform_io_loop events answers [Except_op, Write_op, Read_op] ds"

text \<open>The scheduler runs the descriptor like a handler: the first operation that is done
  completes within this call and ends its work, the others are posted; without one the end of
  this handler is made up for.\<close>

definition complete_first :: "reactor_op list \<Rightarrow> scheduler \<Rightarrow> scheduler" where
  "complete_first ops sc =
     (case ops of
        [] \<Rightarrow> sc
      | o' # rest \<Rightarrow>
          let sc1 = post_deferred_completions rest (sc\<lparr>sc_finished := sc_finished sc @ [o']\<rparr>)
          in sc1\<lparr>sc_completed := sc_completed sc1 @ [o'],
                 sc_outstanding_work := sc_outstanding_work sc1 - 1\<rparr>)"

section \<open>The socket\<close>

text \<open>\<^verbatim>\<open>do_open\<close>, without the error code it returns: whether \<^verbatim>\<open>socket\<close> succeeded and the answer
  of \<^verbatim>\<open>epoll_ctl\<close>.\<close>

definition do_open :: "bool \<Rightarrow> nat \<Rightarrow> async_socket \<Rightarrow> async_socket" where
  "do_open created errno so =
     (if so_is_open so \<or> \<not> created then so
      else let (ds, err) = register_descriptor errno;
               so1 = so\<lparr>so_reactor_data := Some ds\<rparr>
           in if err \<noteq> 0 then so1 else so1\<lparr>so_is_open := True, so_non_blocking := False\<rparr>)"

text \<open>With the answer of \<^verbatim>\<open>ioctl\<close>.\<close>

definition set_internal_non_blocking :: "nat \<Rightarrow> async_socket \<Rightarrow> async_socket \<times> error_code \<times> bool" where
  "set_internal_non_blocking errno so =
     (if \<not> so_is_open so then (so, Some bad_descriptor, False)
      else if errno = 0 then (so\<lparr>so_non_blocking := True\<rparr>, None, True)
      else (so, Some (Io_error errno), False))"

record start_answers =
  sa_ioctl :: nat
  sa_epoll_ctl :: nat
  sa_attempt :: "sys_result list"

definition socket_start_op ::
  "op_type \<Rightarrow> start_answers \<Rightarrow> bool \<Rightarrow> bool \<Rightarrow> reactor_op \<Rightarrow> async_socket \<Rightarrow> async_socket option"
where
  "socket_start_op t sa is_non_blocking noop o' so =
     (let post = (\<lambda>o1. Some (so\<lparr>so_scheduler := post_immediate_completion o1 (so_scheduler so)\<rparr>));
          start = (\<lambda>so o1.
            case reactor_start_op t (sa_epoll_ctl sa) (sa_attempt sa) is_non_blocking o1
                   (so_reactor_data so) (so_scheduler so) of
              None \<Rightarrow> None
            | Some (data, sc) \<Rightarrow> Some (so\<lparr>so_reactor_data := data, so_scheduler := sc\<rparr>))
      in if \<not> noop
         then if so_non_blocking so then start so o'
              else (case set_internal_non_blocking (sa_ioctl sa) so of
                      (so1, ec, ok) \<Rightarrow>
                        if ok then start so1 (o'\<lparr>ro_ec := ec\<rparr>) else post (o'\<lparr>ro_ec := ec\<rparr>))
         else post o')"

fun kind_empty :: "op_kind \<Rightarrow> bool" where
  "kind_empty (Send bufs) = adapter_all_empty bufs"
| "kind_empty (Receive bufs) = adapter_all_empty bufs"
| "kind_empty (Accept aborts) = False"
| "kind_empty Connect = False"

fun kind_type :: "op_kind \<Rightarrow> op_type" where
  "kind_type (Send bufs) = Write_op"
| "kind_type (Receive bufs) = Read_op"
| "kind_type (Accept aborts) = Read_op"
| "kind_type Connect = Write_op"

text \<open>\<^verbatim>\<open>async_send\<close> and \<^verbatim>\<open>async_receive\<close> without flags.\<close>

definition async_transfer ::
  "nat \<Rightarrow> op_kind \<Rightarrow> nat option \<Rightarrow> start_answers \<Rightarrow> async_socket \<Rightarrow> async_socket option"
where
  "async_transfer i kind key sa so =
     (let o' = reactor_op_new i kind True key
      in socket_start_op (kind_type kind) sa True (ro_stream o' \<and> kind_empty kind) o'
           (so\<lparr>so_started := so_started so @ [o']\<rparr>))"

text \<open>\<^verbatim>\<open>async_accept\<close> with a peer that is not open, and \<^verbatim>\<open>start_accept_op\<close> in this case.\<close>

definition start_accept_op :: "start_answers \<Rightarrow> reactor_op \<Rightarrow> async_socket \<Rightarrow> async_socket option" where
  "start_accept_op sa o' so = socket_start_op Read_op sa True False o' so"

definition async_accept ::
  "nat \<Rightarrow> bool \<Rightarrow> nat option \<Rightarrow> start_answers \<Rightarrow> async_socket \<Rightarrow> async_socket option"
where
  "async_accept i aborts key sa so =
     (let o' = reactor_op_new i (Accept aborts) True key
      in start_accept_op sa o' (so\<lparr>so_started := so_started so @ [o']\<rparr>))"

text \<open>\<^verbatim>\<open>socket_ops::connect\<close> on a valid socket, which may be a local one, with the answer of
  \<^verbatim>\<open>connect\<close>: whether it succeeded.\<close>

fun socket_connect :: "bool \<Rightarrow> sys_result \<Rightarrow> bool \<times> error_code" where
  "socket_connect is_local (Returned n data) = (True, None)"
| "socket_connect is_local (Failed e) =
     (False,
      if Io_error e = try_again then if is_local then Some in_progress else Some no_buffer_space
      else Some (Io_error e))"

definition start_connect_op ::
  "bool \<Rightarrow> start_answers \<Rightarrow> sys_result \<Rightarrow> reactor_op \<Rightarrow> async_socket \<Rightarrow> async_socket option"
where
  "start_connect_op is_local sa r o' so =
     (let post = (\<lambda>o1 so. Some (so\<lparr>so_scheduler := post_immediate_completion o1 (so_scheduler so)\<rparr>));
          connect = (\<lambda>o1 so.
            case socket_connect is_local r of
              (ok, ec) \<Rightarrow>
                let o2 = o1\<lparr>ro_ec := ec, ro_calls := ro_calls o1 @ [r]\<rparr>
                in if \<not> ok \<and> (ec = Some in_progress \<or> ec = Some would_block)
                   then (case reactor_start_op Write_op (sa_epoll_ctl sa) [] False (o2\<lparr>ro_ec := None\<rparr>)
                                (so_reactor_data so) (so_scheduler so) of
                           None \<Rightarrow> None
                         | Some (data, sc) \<Rightarrow> Some (so\<lparr>so_reactor_data := data, so_scheduler := sc\<rparr>))
                   else post o2 so)
      in if so_non_blocking so then connect o' so
         else (case set_internal_non_blocking (sa_ioctl sa) so of
                 (so1, ec, ok) \<Rightarrow>
                   if ok then connect (o'\<lparr>ro_ec := ec\<rparr>) so1 else post (o'\<lparr>ro_ec := ec\<rparr>) so1))"

definition async_connect ::
  "nat \<Rightarrow> bool \<Rightarrow> nat option \<Rightarrow> start_answers \<Rightarrow> sys_result \<Rightarrow> async_socket \<Rightarrow> async_socket option"
where
  "async_connect i is_local key sa r so =
     (let o' = reactor_op_new i Connect True key
      in start_connect_op is_local sa r o' (so\<lparr>so_started := so_started so @ [o']\<rparr>))"

definition construct :: "async_socket \<Rightarrow> async_socket" where
  "construct so = so\<lparr>so_is_open := False, so_non_blocking := False, so_reactor_data := None\<rparr>"

definition socket_close :: "async_socket \<Rightarrow> async_socket" where
  "socket_close so =
     construct
       (if so_is_open so
        then let (data, sc) = deregister_descriptor (so_reactor_data so) (so_scheduler so)
             in so\<lparr>so_reactor_data := cleanup_descriptor_data data, so_scheduler := sc\<rparr>
        else so)"

definition socket_cancel :: "async_socket \<Rightarrow> async_socket" where
  "socket_cancel so =
     (if \<not> so_is_open so then so
      else let (data, sc) = cancel_ops (so_reactor_data so) (so_scheduler so)
           in so\<lparr>so_reactor_data := data, so_scheduler := sc\<rparr>)"

definition socket_cancel_by_key :: "op_type \<Rightarrow> nat \<Rightarrow> async_socket \<Rightarrow> async_socket" where
  "socket_cancel_by_key t key so =
     (let (data, sc) = cancel_ops_by_key t key (so_reactor_data so) (so_scheduler so)
      in so\<lparr>so_reactor_data := data, so_scheduler := sc\<rparr>)"

text \<open>\<^verbatim>\<open>descriptor_state::do_complete\<close>.\<close>

definition socket_event ::
  "u32 \<Rightarrow> (op_type \<Rightarrow> sys_result list list) \<Rightarrow> async_socket \<Rightarrow> async_socket option"
where
  "socket_event events answers so =
     (case so_reactor_data so of
        None \<Rightarrow> Some so
      | Some ds \<Rightarrow>
          (case perform_io events answers ds of
             None \<Rightarrow> None
           | Some (ds', ops) \<Rightarrow>
               Some (so\<lparr>so_reactor_data := Some ds',
                        so_scheduler := complete_first ops (so_scheduler so)\<rparr>)))"

definition socket_run_one :: "async_socket \<Rightarrow> async_socket" where
  "socket_run_one so = so\<lparr>so_scheduler := do_run_one (so_scheduler so)\<rparr>"

end
