(* ===== verification/Asio_Reactor_Inv.thy ===== *)
theory Asio_Reactor_Inv
  imports Asio_Reactor "HOL-Library.Multiset" "HOL-Library.Sublist"
begin

text \<open>
  What the reactor keeps under every schedule of starting, events, cancelling, closing and
  running handlers: every operation that was started is done exactly once, with a result that
  the contract of a partial transfer allows; the transfers and accepts of one direction that are
  not cancelled are done in the order in which they were started; and the scheduler's count of
  outstanding work is the number of operations it still owes a completion.
\<close>

section \<open>Steps\<close>

text \<open>The answers to the attempts on a queue are those of calls for these operations.\<close>

fun attempts_ok :: "sys_result list list \<Rightarrow> reactor_op list \<Rightarrow> bool" where
  "attempts_ok (a # answers) (o' # ops) =
     (list_all (sys_ok (ro_kind o')) a \<and> attempts_ok answers ops)"
| "attempts_ok answers ops = True"

definition queue_of :: "async_socket \<Rightarrow> op_type \<Rightarrow> reactor_op list" where
  "queue_of so t = (case so_reactor_data so of None \<Rightarrow> [] | Some ds \<Rightarrow> ds_op_queue ds t)"

fun is_transfer :: "op_kind \<Rightarrow> bool" where
  "is_transfer (Send bufs) = True"
| "is_transfer (Receive bufs) = True"
| "is_transfer kind = False"

text \<open>\<^verbatim>\<open>connect\<close> returns 0 when it succeeds.\<close>

fun connect_answer :: "sys_result \<Rightarrow> bool" where
  "connect_answer (Returned n data) = (n = 0)"
| "connect_answer (Failed e) = True"

inductive socket_step :: "async_socket \<Rightarrow> async_socket \<Rightarrow> bool" where
  Open: "socket_step so (do_open created errno so)"
| Start: "i \<notin> ro_id ` set (so_started so) \<Longrightarrow> list_all (sys_ok kind) (sa_attempt sa) \<Longrightarrow>
     async_transfer i kind key sa so = Some so' \<Longrightarrow> is_transfer kind \<Longrightarrow> socket_step so so'"
| Accept: "i \<notin> ro_id ` set (so_started so) \<Longrightarrow>
     async_accept i aborts key sa so = Some so' \<Longrightarrow> socket_step so so'"
| Connect: "i \<notin> ro_id ` set (so_started so) \<Longrightarrow> connect_answer r \<Longrightarrow>
     async_connect i is_local key sa r so = Some so' \<Longrightarrow> socket_step so so'"
| Event: "\<forall>t. attempts_ok (answers t) (queue_of so t) \<Longrightarrow>
     socket_event events answers so = Some so' \<Longrightarrow> socket_step so so'"
| Cancel: "socket_step so (socket_cancel so)"
| Cancel_key: "socket_step so (socket_cancel_by_key t key so)"
| Close: "socket_step so (socket_close so)"
| Run: "socket_step so (socket_run_one so)"

inductive socket_reachable :: "async_socket \<Rightarrow> bool" where
  init: "socket_reachable async_socket_new"
| step: "socket_reachable so \<Longrightarrow> socket_step so so' \<Longrightarrow> socket_reachable so'"

section \<open>The invariant\<close>

text \<open>Operations without room for a byte do not wait for their turn; they are a class of their own.\<close>

definition op_type_of :: "reactor_op \<Rightarrow> op_type option" where
  "op_type_of o' = (if kind_empty (ro_kind o') then None else Some (kind_type (ro_kind o')))"

text \<open>The direction in which an operation waits for its turn. A connect has none: one that ends at
  once does not wait for the writes before it.\<close>

definition turn_of :: "reactor_op \<Rightarrow> op_type option" where
  "turn_of o' = (if ro_kind o' = Connect then None else op_type_of o')"

definition ticket :: "reactor_op \<Rightarrow> nat \<times> op_kind" where
  "ticket o' = (ro_id o', ro_kind o')"

definition ids_of :: "op_type \<Rightarrow> reactor_op list \<Rightarrow> (nat \<times> op_kind) list" where
  "ids_of t ops = map ticket (filter (\<lambda>o'. turn_of o' = Some t) ops)"

text \<open>Cancelling takes an operation out of its queue, wherever it is in it.\<close>

definition not_cancelled :: "reactor_op \<Rightarrow> bool" where
  "not_cancelled o' \<longleftrightarrow> ro_ec o' \<noteq> Some operation_aborted"

text \<open>Operations of a queue: of its type and not transferred yet.\<close>

definition waiting :: "op_type \<Rightarrow> reactor_op list \<Rightarrow> bool" where
  "waiting t ops \<longleftrightarrow> (\<forall>o' \<in> set ops. op_type_of o' = Some t \<and> fresh_op o')"

definition data_ok :: "descriptor_state option \<Rightarrow> bool" where
  "data_ok data \<longleftrightarrow>
     (case data of None \<Rightarrow> True | Some ds \<Rightarrow> \<not> ds_shutdown ds \<and> (\<forall>t. waiting t (ds_op_queue ds t)))"

definition queued :: "descriptor_state option \<Rightarrow> reactor_op list" where
  "queued data = (case data of None \<Rightarrow> [] | Some ds \<Rightarrow> all_queued ds)"

definition queued_in :: "descriptor_state option \<Rightarrow> op_type \<Rightarrow> reactor_op list" where
  "queued_in data t = (case data of None \<Rightarrow> [] | Some ds \<Rightarrow> ds_op_queue ds t)"

definition in_order :: "reactor_op list \<Rightarrow> reactor_op list \<Rightarrow> descriptor_state option \<Rightarrow> bool" where
  "in_order started finished data \<longleftrightarrow>
     (\<forall>t. subseq (ids_of t (filter not_cancelled finished) @ ids_of t (queued_in data t)) (ids_of t started))"

definition reactor_inv :: "reactor_op list \<Rightarrow> descriptor_state option \<Rightarrow> scheduler \<Rightarrow> bool" where
  "reactor_inv started data sc \<longleftrightarrow>
     data_ok data \<and> (\<forall>o' \<in> set (sc_finished sc). op_result_ok o') \<and>
     mset (map ticket started) = mset (map ticket (sc_finished sc)) + mset (map ticket (queued data)) \<and>
     in_order started (sc_finished sc) data \<and>
     sc_outstanding_work sc = int (length (sc_op_queue sc) + length (queued data)) \<and>
     mset (sc_finished sc) = mset (sc_completed sc) + mset (sc_op_queue sc)"

definition socket_inv :: "async_socket \<Rightarrow> bool" where
  "socket_inv so \<longleftrightarrow>
     reactor_inv (so_started so) (so_reactor_data so) (so_scheduler so) \<and>
     distinct (map ro_id (so_started so)) \<and>
     (so_is_open so \<longrightarrow> so_reactor_data so \<noteq> None) \<and>
     (so_non_blocking so \<longrightarrow> so_is_open so) \<and>
     (\<not> so_non_blocking so \<longrightarrow> queued (so_reactor_data so) = [])"

lemma reactor_inv_data: "reactor_inv started data sc \<Longrightarrow> data_ok data"
  by (simp add: reactor_inv_def)

lemma ids_of_append [simp]: "ids_of t (xs @ ys) = ids_of t xs @ ids_of t ys"
  by (simp add: ids_of_def)

lemma ids_of_simps [simp]:
  "ids_of t [] = []"
  "ids_of t (o' # ops) = (if turn_of o' = Some t then [ticket o'] else []) @ ids_of t ops"
  by (simp_all add: ids_of_def)

lemma ids_of_subseq: "subseq xs ys \<Longrightarrow> subseq (ids_of t xs) (ids_of t ys)"
  by (simp add: ids_of_def subseq_map)

lemma op_type_of_not_except [simp]: "op_type_of o' \<noteq> Some Except_op"
  by (cases "ro_kind o'") (simp_all add: op_type_of_def)

lemma op_type_of_kind: "ro_kind o1 = ro_kind o' \<Longrightarrow> op_type_of o1 = op_type_of o'"
  by (simp add: op_type_of_def)

lemma same_op:
  assumes "ro_id o1 = ro_id o'" "ro_kind o1 = ro_kind o'"
  shows "ticket o1 = ticket o'" "turn_of o1 = turn_of o'"
  using assms op_type_of_kind [of o1 o'] by (simp_all add: ticket_def turn_of_def)

lemma turn_of_type: "turn_of o' = Some t \<Longrightarrow> op_type_of o' = Some t"
  by (simp add: turn_of_def split: if_splits)

lemma queued_simps [simp]:
  "queued None = []" "queued_in None t = []"
  "queued (Some ds) = all_queued ds" "queued_in (Some ds) t = ds_op_queue ds t"
  by (simp_all add: queued_def queued_in_def)

lemma all_queued_append:
  "mset (map f (all_queued (ds\<lparr>ds_op_queue := (ds_op_queue ds)(t := q)\<rparr>))) + mset (map f (ds_op_queue ds t)) =
   mset (map f (all_queued ds)) + mset (map f q)"
  by (cases t) (simp_all add: all_queued_def)

lemma queued_in_empty: "queued data = [] \<Longrightarrow> queued_in data t = []"
  by (cases data; cases t) (simp_all add: all_queued_def)

lemma waiting_except: "waiting Except_op ops \<longleftrightarrow> ops = []"
  by (cases ops) (auto simp: waiting_def)

lemma waiting_simps [simp]:
  "waiting t []"
  "waiting t (o' # ops) \<longleftrightarrow> op_type_of o' = Some t \<and> fresh_op o' \<and> waiting t ops"
  "waiting t (xs @ ys) \<longleftrightarrow> waiting t xs \<and> waiting t ys"
  by (auto simp: waiting_def)

lemma all_op_types: "(\<forall>t. P t) \<longleftrightarrow> P Read_op \<and> P Write_op \<and> P Except_op"
  by (metis op_type.exhaust)

lemma aborted_simps [simp]:
  "op_type_of (aborted o') = op_type_of o'" "ro_id (aborted o') = ro_id o'" "ro_kind (aborted o') = ro_kind o'"
  "ticket (aborted o') = ticket o'" "\<not> not_cancelled (aborted o')"
  by (simp_all add: aborted_def op_type_of_def ticket_def not_cancelled_def)

lemma map_aborted [simp]:
  "map ticket (map aborted ops) = map ticket ops" "filter not_cancelled (map aborted ops) = []"
  "ticket \<circ> aborted = ticket"
  by (simp_all add: comp_def)

text \<open>An operation that transferred nothing may end with any error.\<close>

lemma fresh_failed: "fresh_op o' \<Longrightarrow> op_result_ok (o'\<lparr>ro_ec := Some e\<rparr>)"
  by (auto simp: fresh_op_def kind_fresh_def op_result_ok_def kind_result_ok_def some_ok_def part_result_ok_def
    split: op_kind.splits)

lemma fresh_aborted: "fresh_op o' \<Longrightarrow> op_result_ok (aborted o')"
  by (simp add: aborted_def fresh_failed)

lemma fresh_ec [simp]: "fresh_op (o'\<lparr>ro_ec := ec\<rparr>) = fresh_op o'"
  by (cases "ro_kind o'") (simp_all add: fresh_op_def kind_fresh_def)

section \<open>Starting\<close>

text \<open>A started operation is done at once, when none of its direction waits, or joins the end of its
  queue.\<close>

lemma inv_posted:
  assumes "reactor_inv started data sc" "data_ok data'" "queued data' = queued data" "queued_in data' = queued_in data"
    "\<And>t. turn_of o' = Some t \<Longrightarrow> queued_in data t = []" "op_result_ok o1" "ro_id o1 = ro_id o'" "ro_kind o1 = ro_kind o'"
  shows "reactor_inv (started @ [o']) data' (post_immediate_completion o1 sc)"
proof -
  note same = same_op [OF assms(7,8)]
  have "subseq (ids_of t (filter not_cancelled (sc_finished sc @ [o1])) @ ids_of t (queued_in data t)) (ids_of t (started @ [o']))"
    (is "subseq ?l ?r") for t
  proof -
    have s: "subseq (ids_of t (filter not_cancelled (sc_finished sc)) @ ids_of t (queued_in data t)) (ids_of t started)"
      using assms(1) by (simp add: reactor_inv_def in_order_def)
    show "subseq ?l ?r"
    proof (cases "turn_of o' = Some t")
      case True
      then show ?thesis using s assms(5) [OF True] same by (auto intro: subseq_rev_drop_many)
    next
      case False
      then show ?thesis using s same by (auto intro: subseq_rev_drop_many)
    qed
  qed
  then show ?thesis
    using assms(1-4,6) same(1)
    by (auto simp: reactor_inv_def in_order_def post_immediate_completion_def work_started_def)
qed

lemma inv_enqueued:
  assumes "reactor_inv started (Some ds) sc" "ds_op_queue ds' = ds_op_queue ds" "ds_shutdown ds' = ds_shutdown ds"
    "fresh_op o1" "ro_id o1 = ro_id o'" "ro_kind o1 = ro_kind o'" "op_type_of o' = Some t"
    "enqueue_op t o1 ds' sc = (data1, sc1)"
  shows "reactor_inv (started @ [o']) data1 sc1"
proof -
  note same = same_op [OF assms(5,6)]
  have type: "op_type_of o1 = Some t" using op_type_of_kind [OF assms(6)] assms(7) by simp
  have data1: "data1 = Some (ds'\<lparr>ds_op_queue := (ds_op_queue ds)(t := ds_op_queue ds t @ [o1])\<rparr>)"
    "sc1 = work_started sc"
    using assms(2,8) by (auto simp: enqueue_op_def)
  have "mset (map ticket (queued data1)) = mset (map ticket (queued (Some ds))) + {#ticket o'#}"
    "length (queued data1) = Suc (length (queued (Some ds)))"
    by (cases t; simp add: data1 all_queued_def same(1))+
  moreover have "in_order (started @ [o']) (sc_finished sc) data1"
    unfolding in_order_def
  proof
    fix u
    have s: "subseq (ids_of u (filter not_cancelled (sc_finished sc)) @ ids_of u (ds_op_queue ds u)) (ids_of u started)"
      using assms(1) by (simp add: reactor_inv_def in_order_def)
    have "ids_of u (queued_in data1 u) = ids_of u (ds_op_queue ds u) @ ids_of u [o']"
      using turn_of_type [of o'] assms(7) by (auto simp: data1 same)
    then show "subseq (ids_of u (filter not_cancelled (sc_finished sc)) @ ids_of u (queued_in data1 u)) (ids_of u (started @ [o']))"
      using list_emb_append_mono [OF s subseq_order.order_refl [of "ids_of u [o']"]] by simp
  qed
  moreover have "data_ok data1"
    using assms(1,3,4) type by (simp add: data1 data_ok_def reactor_inv_def)
  ultimately show ?thesis using assms(1) by (simp add: reactor_inv_def data1(2) work_started_def)
qed

lemma inv_enqueued_out:
  assumes "reactor_inv started (Some ds) sc"
    "fresh_op o1" "ro_id o1 = ro_id o'" "ro_kind o1 = ro_kind o'" "op_type_of o' = Some t"
    "enqueue_op t o1 (ds\<lparr>ds_registered_events := e\<rparr>) sc = (data1, sc1)"
  shows "reactor_inv (started @ [o']) data1 sc1"
  by (rule inv_enqueued [OF assms(1) _ _ assms(2-)]) simp_all

lemma inv_turn_empty:
  assumes "op_type_of o' = Some t" "ds_op_queue ds t = []" "turn_of o' = Some u"
  shows "queued_in (Some ds) u = []"
  using turn_of_type [OF assms(3)] assms(1,2) by simp

lemma inv_failed:
  assumes "reactor_inv started (Some ds) sc" "op_type_of o' = Some t" "ds_op_queue ds t = []"
    "fresh_op o1" "ro_id o1 = ro_id o'" "ro_kind o1 = ro_kind o'"
    "fail_op (Some e) o1 ds sc = (data1, sc1)"
  shows "reactor_inv (started @ [o']) data1 sc1"
  using inv_posted [OF assms(1), of "Some ds" o' "o1\<lparr>ro_ec := Some e\<rparr>"] inv_turn_empty [OF assms(2,3)] assms
  by (auto simp: fail_op_def fresh_failed reactor_inv_def)

lemma inv_start_waiting:
  assumes "reactor_inv started (Some ds) sc" "op_type_of o' = Some t" "ds_op_queue ds t = []"
    "fresh_op o1" "ro_id o1 = ro_id o'" "ro_kind o1 = ro_kind o'"
    "start_waiting t errno o1 ds sc = (data1, sc1)"
  shows "reactor_inv (started @ [o']) data1 sc1"
  using assms(7) inv_failed [OF assms(1-6)]
    inv_enqueued [OF assms(1) refl refl assms(4-6,2)] inv_enqueued_out [OF assms(1,4-6,2)]
  by (auto simp: start_waiting_def split: if_splits)

lemma inv_start_op:
  assumes "reactor_inv started data sc" "fresh_op o'" "list_all (sys_ok (ro_kind o')) answers"
    "op_type_of o' = Some t" "reactor_start_op t errno answers spec o' data sc = Some (data1, sc1)"
  shows "reactor_inv (started @ [o']) data1 sc1"
proof (cases data)
  case None
  then show ?thesis
    using assms inv_posted [OF assms(1), of None o' "o'\<lparr>ro_ec := Some bad_descriptor\<rparr>"]
    by (simp add: reactor_start_op_def fresh_failed data_ok_def)
next
  case (Some ds)
  have inv: "reactor_inv started (Some ds) sc" and not_shutdown: "\<not> ds_shutdown ds"
    using assms(1) Some by (auto simp: reactor_inv_def data_ok_def)
  note start = assms(5) [unfolded reactor_start_op_def Some option.case if_not_P [OF not_shutdown]]
  show ?thesis
  proof (cases "ds_op_queue ds t = []")
    case empty: True
    show ?thesis
    proof (cases "spec \<and> (t \<noteq> Read_op \<or> ds_op_queue ds Except_op = []) \<and> ds_try_speculative ds t")
      case True
      then obtain status o1 where p: "perform answers o' = Some (status, o1)"
        using start empty by (auto split: option.splits)
      note kept = perform_kind_kept [OF p] and ok = perform_ok [OF p assms(2,3)]
      show ?thesis
      proof (cases "status = Not_done")
        case nd: True
        then have "start_waiting t errno o1 ds sc = (data1, sc1)"
          using start empty True p by (simp split: if_splits)
        then show ?thesis
          using inv_start_waiting [OF inv assms(4) empty ok(2) [OF nd] kept(1,2)] by blast
      next
        case False
        then obtain ds' where ds': "data1 = Some ds'" "ds_op_queue ds' = ds_op_queue ds"
          "ds_shutdown ds' = ds_shutdown ds" "sc1 = post_immediate_completion o1 sc"
          using start empty True p by (auto split: if_splits)
        have same: "data_ok (Some ds')" "queued (Some ds') = queued (Some ds)"
          "queued_in (Some ds') = queued_in (Some ds)"
          using inv ds'(2,3) by (auto simp: all_queued_def data_ok_def reactor_inv_def)
        show ?thesis unfolding ds'(1,4)
          by (rule inv_posted [OF inv same inv_turn_empty [OF assms(4) empty] ok(1) [OF False] kept(1,2)])
      qed
    next
      case False
      show ?thesis
        using start empty False
          inv_start_waiting [OF inv assms(4) empty assms(2) refl refl]
          inv_failed [OF inv assms(4) empty assms(2) refl refl]
          inv_enqueued [OF inv refl refl assms(2) refl refl assms(4)]
          inv_enqueued_out [OF inv assms(2) refl refl assms(4)]
        by (auto split: if_splits)
    qed
  next
    case False
    then show ?thesis using start inv_enqueued [OF inv refl refl assms(2) refl refl assms(4)] by simp
  qed
qed

lemma adapter_all_empty_size: "adapter_all_empty bs \<longleftrightarrow> adapter_total_size bs = 0"
  by (simp add: adapter_all_empty_def adapter_total_size_def adapter_buffers_def list_all_iff)

lemma kind_empty_size: "kind_empty kind \<Longrightarrow> kind_size kind = 0"
  by (cases kind) (simp_all add: adapter_all_empty_size)

lemma empty_result_ok: "kind_empty (ro_kind o') \<Longrightarrow> fresh_op o' \<Longrightarrow> op_result_ok o'"
  using kind_empty_size [of "ro_kind o'"]
  by (auto simp: op_result_ok_def kind_result_ok_def some_ok_def part_result_ok_def fresh_op_def
      split: op_kind.splits)

lemma reactor_inv_same:
  "ro_id o1 = ro_id o' \<Longrightarrow> ro_kind o1 = ro_kind o' \<Longrightarrow>
   reactor_inv (started @ [o1]) data sc = reactor_inv (started @ [o']) data sc"
  using same_op [of o1 o'] by (simp add: reactor_inv_def in_order_def)

text \<open>A call with room for a byte reaches the reactor or fails before it.\<close>

definition reached ::
  "op_type \<Rightarrow> start_answers \<Rightarrow> error_code \<Rightarrow> reactor_op \<Rightarrow> async_socket \<Rightarrow> async_socket \<Rightarrow> bool"
where
  "reached t sa ec o' so so' \<longleftrightarrow>
     reactor_start_op t (sa_epoll_ctl sa) (sa_attempt sa) True (o'\<lparr>ro_ec := ec\<rparr>)
       (so_reactor_data so) (so_scheduler so) = Some (so_reactor_data so', so_scheduler so')"

lemma socket_start_op_cases:
  assumes "socket_start_op t sa True False o' so = Some so'"
  obtains (started) ec where "reached t sa ec o' so so'"
  | (failed) e where "\<not> so_non_blocking so" "so_reactor_data so' = so_reactor_data so"
      "so_scheduler so' = post_immediate_completion (o'\<lparr>ro_ec := Some e\<rparr>) (so_scheduler so)"
proof (cases "so_non_blocking so")
  case True
  then have "reached t sa (ro_ec o') o' so so'"
    using assms by (auto simp: socket_start_op_def reached_def Let_def split: option.splits)
  then show ?thesis by (rule started)
next
  case nb: False
  show ?thesis
  proof (cases "so_is_open so \<and> sa_ioctl sa = 0")
    case True
    then have "reached t sa None o' so so'"
      using assms nb by (auto simp: socket_start_op_def set_internal_non_blocking_def reached_def Let_def
        split: option.splits)
    then show ?thesis by (rule started)
  next
    case False
    then show ?thesis using assms nb failed
      by (auto simp: socket_start_op_def set_internal_non_blocking_def Let_def split: if_splits)
  qed
qed

lemma inv_socket_start_op:
  assumes "reactor_inv started (so_reactor_data so) (so_scheduler so)" "fresh_op o'"
    "list_all (sys_ok (ro_kind o')) (sa_attempt sa)" "\<not> so_non_blocking so \<longrightarrow> queued (so_reactor_data so) = []"
    "socket_start_op (kind_type (ro_kind o')) sa True (kind_empty (ro_kind o')) o' so = Some so'"
  shows "reactor_inv (started @ [o']) (so_reactor_data so') (so_scheduler so')"
proof -
  let ?t = "kind_type (ro_kind o')"
  have post: "reactor_inv (started @ [o']) (so_reactor_data so) (post_immediate_completion o1 (so_scheduler so))"
    if "\<And>t. turn_of o' = Some t \<Longrightarrow> queued_in (so_reactor_data so) t = []" "op_result_ok o1" "ro_id o1 = ro_id o'"
      "ro_kind o1 = ro_kind o'" for o1
    by (rule inv_posted [OF assms(1) reactor_inv_data [OF assms(1)] refl refl that])
  show ?thesis
  proof (cases "kind_empty (ro_kind o')")
    case True
    then have "turn_of o' = None" by (simp add: op_type_of_def turn_of_def)
    then show ?thesis using assms(5) True post [of o'] empty_result_ok [OF True assms(2)]
      by (auto simp: socket_start_op_def)
  next
    case False
    then have t: "op_type_of o' = Some ?t" by (simp add: op_type_of_def)
    have none_queued: "queued_in (so_reactor_data so) u = []" if "\<not> so_non_blocking so" for u
      using assms(4) that by (simp add: queued_in_empty)
    have same: "reactor_inv (started @ [o'\<lparr>ro_ec := ec\<rparr>]) d sc = reactor_inv (started @ [o']) d sc" for ec d sc
      by (rule reactor_inv_same) simp_all
    have fresh: "fresh_op (o'\<lparr>ro_ec := ec\<rparr>)" "op_type_of (o'\<lparr>ro_ec := ec\<rparr>) = Some ?t"
      "list_all (sys_ok (ro_kind (o'\<lparr>ro_ec := ec\<rparr>))) (sa_attempt sa)" for ec
      using assms(2,3) False by (simp_all add: op_type_of_def)
    from assms(5) False have "socket_start_op ?t sa True False o' so = Some so'" by simp
    then show ?thesis
    proof (cases rule: socket_start_op_cases)
      case (started ec)
      then show ?thesis
        using inv_start_op [OF assms(1) fresh(1,3,2)] same unfolding reached_def by blast
    next
      case (failed e)
      then show ?thesis using post [OF none_queued] fresh_failed [OF assms(2), of e] by simp
    qed
  qed
qed

section \<open>Cancelling and closing\<close>

text \<open>Operations that leave their queues are done, as cancelled ones or in their turn.\<close>

definition completes :: "descriptor_state option \<Rightarrow> reactor_op list \<Rightarrow> descriptor_state option \<Rightarrow> bool" where
  "completes data ops data' \<longleftrightarrow>
     (\<forall>o' \<in> set ops. op_result_ok o') \<and>
     mset (map ticket (queued data)) = mset (map ticket ops) + mset (map ticket (queued data')) \<and>
     (\<forall>t. subseq (ids_of t (filter not_cancelled ops) @ ids_of t (queued_in data' t)) (ids_of t (queued_in data t)))"

lemma completes_length: "completes data ops data' \<Longrightarrow> length (queued data) = length ops + length (queued data')"
  unfolding completes_def by (metis length_map size_mset size_union)

lemma completes_order:
  assumes "in_order started finished data" "completes data ops data'"
  shows "in_order started (finished @ ops) data'"
  unfolding in_order_def
proof
  fix t
  let ?f = "ids_of t (filter not_cancelled finished)"
  have "subseq (?f @ ids_of t (filter not_cancelled ops) @ ids_of t (queued_in data' t)) (?f @ ids_of t (queued_in data t))"
    unfolding subseq_append' using assms(2) by (simp add: completes_def)
  then show "subseq (ids_of t (filter not_cancelled (finished @ ops)) @ ids_of t (queued_in data' t)) (ids_of t started)"
    using assms(1) unfolding in_order_def by (auto intro: subseq_order.trans)
qed

lemma completes_trans:
  assumes "completes data xs data1" "completes data1 ys data2"
  shows "completes data (xs @ ys) data2"
proof -
  have "subseq (ids_of t (filter not_cancelled xs) @ ids_of t (filter not_cancelled ys) @ ids_of t (queued_in data2 t))
      (ids_of t (filter not_cancelled xs) @ ids_of t (queued_in data1 t))" for t
    unfolding subseq_append' using assms(2) by (simp add: completes_def)
  moreover have "subseq (ids_of t (filter not_cancelled xs) @ ids_of t (queued_in data1 t)) (ids_of t (queued_in data t))" for t
    using assms(1) by (simp add: completes_def)
  ultimately have "\<forall>t. subseq (ids_of t (filter not_cancelled (xs @ ys)) @ ids_of t (queued_in data2 t))
      (ids_of t (queued_in data t))"
    by (auto intro: subseq_order.trans)
  then show ?thesis using assms by (auto simp: completes_def)
qed

lemma inv_completes:
  assumes "reactor_inv started data sc" "data_ok data'" "completes data ops data'"
  shows "reactor_inv started data' (post_deferred_completions ops sc)"
    "reactor_inv started data' (complete_first ops sc)"
  using assms(1,2) completes_length [OF assms(3)] completes_order [OF _ assms(3), of started "sc_finished sc"] assms(3)
  by (cases ops; auto simp: reactor_inv_def completes_def complete_first_def post_deferred_completions_def Let_def)+

lemma all_queued_ok:
  assumes "\<forall>t. waiting t (ds_op_queue ds t)" "o' \<in> set (all_queued ds)"
  shows "fresh_op o'"
  using assms by (auto simp: all_queued_def waiting_def)

lemma completes_all:
  assumes "data_ok (Some ds)" "queued data' = []"
  shows "completes (Some ds) (map aborted (all_queued ds)) data'"
  using assms queued_in_empty [OF assms(2)]
  by (auto simp: completes_def data_ok_def fresh_aborted all_queued_ok)

lemma inv_cancel:
  assumes "reactor_inv started data sc" "cancel_ops data sc = (data', sc')"
  shows "reactor_inv started data' sc'"
proof (cases data)
  case (Some ds)
  note ok = reactor_inv_data [OF assms(1), unfolded Some]
  have "data_ok (Some (ds\<lparr>ds_op_queue := \<lambda>_. []\<rparr>))"
    using ok by (simp add: data_ok_def)
  then show ?thesis
    using assms inv_completes(1) [OF _ _ completes_all [OF ok]] Some by (auto simp: cancel_ops_def all_queued_def)
qed (use assms in \<open>simp add: cancel_ops_def\<close>)

lemma inv_deregister:
  assumes "reactor_inv started data sc" "deregister_descriptor data sc = (data', sc')"
  shows "reactor_inv started None sc'"
proof (cases data)
  case None
  then show ?thesis using assms by (simp add: deregister_descriptor_def)
next
  case (Some ds)
  note ok = reactor_inv_data [OF assms(1), unfolded Some]
  have "data_ok None" by (simp add: data_ok_def)
  then show ?thesis
    using assms ok inv_completes(1) [OF _ _ completes_all [OF ok], of started sc None] Some
    by (auto simp: deregister_descriptor_def data_ok_def)
qed

text \<open>Cancelling one operation leaves the others in their order.\<close>

lemma split_by_key_hit:
  "split_by_key key ops = (hit, other) \<Longrightarrow> o' \<in> set hit \<Longrightarrow> \<exists>o1 \<in> set ops. o' = aborted o1"
  by (induction key ops arbitrary: hit other rule: split_by_key.induct)
    (auto simp: Let_def split: prod.splits if_splits)

lemma split_by_key_other:
  "split_by_key key ops = (hit, other) \<Longrightarrow>
   subseq other ops \<and> mset (map ticket ops) = mset (map ticket hit) + mset (map ticket other)"
  by (induction key ops arbitrary: hit other rule: split_by_key.induct)
    (auto simp: Let_def split: prod.splits if_splits)

lemma completes_by_key:
  assumes "data_ok (Some ds)" "split_by_key key (ds_op_queue ds t) = (hit, other)"
  shows "completes (Some ds) hit (Some (ds\<lparr>ds_op_queue := (ds_op_queue ds)(t := other)\<rparr>))" (is "completes _ _ (Some ?ds)")
  unfolding completes_def
proof (intro conjI allI ballI)
  note hit = split_by_key_hit [OF assms(2)] and other = split_by_key_other [OF assms(2)]
  show "op_result_ok o'" if "o' \<in> set hit" for o'
    using hit [OF that] assms(1) fresh_aborted by (fastforce simp: data_ok_def waiting_def)
  show "mset (map ticket (queued (Some ds))) = mset (map ticket hit) + mset (map ticket (queued (Some ?ds)))"
    using other all_queued_append [of ticket ds t other] by (simp add: ac_simps)
  have "filter not_cancelled hit = []" using hit by (fastforce simp: filter_empty_conv)
  then show "subseq (ids_of u (filter not_cancelled hit) @ ids_of u (queued_in (Some ?ds) u)) (ids_of u (queued_in (Some ds) u))" for u
    using other by (simp add: ids_of_subseq)
qed

lemma inv_cancel_by_key:
  assumes "reactor_inv started data sc" "cancel_ops_by_key t key data sc = (data', sc')"
  shows "reactor_inv started data' sc' \<and> length (queued data') \<le> length (queued data)"
proof (cases data)
  case (Some ds)
  obtain hit other where s: "split_by_key key (ds_op_queue ds t) = (hit, other)" by fastforce
  let ?ds = "ds\<lparr>ds_op_queue := (ds_op_queue ds)(t := other)\<rparr>"
  have ok: "data_ok (Some ds)" using reactor_inv_data [OF assms(1)] Some by simp
  have "set other \<subseteq> set (ds_op_queue ds t)"
    using split_by_key_other [OF s] by (auto elim: list_emb_set)
  then have "data_ok (Some ?ds)" using ok by (auto simp: data_ok_def waiting_def)
  moreover have "data' = Some ?ds" "sc' = post_deferred_completions hit sc"
    using assms(2) Some s by (simp_all add: cancel_ops_by_key_def)
  ultimately show ?thesis
    using inv_completes(1) [OF assms(1) _ completes_by_key [OF ok s, folded Some]]
      completes_length [OF completes_by_key [OF ok s]] Some by simp
qed (use assms in \<open>simp add: cancel_ops_by_key_def\<close>)

section \<open>Events\<close>

lemma perform_queue_ok:
  assumes "waiting t ops" "attempts_ok answers ops" "perform_queue answers ops = Some (over, left, spec)"
  shows "(\<forall>o' \<in> set over. op_result_ok o' \<and> op_type_of o' = Some t) \<and> waiting t left \<and>
    map ticket ops = map ticket over @ map ticket left \<and> ids_of t ops = ids_of t over @ ids_of t left"
  using assms
proof (induction answers ops arbitrary: over left rule: perform_queue.induct)
  case (3 a answers o' ops)
  then obtain status o1 where p: "perform a o' = Some (status, o1)"
    by (auto split: option.splits)
  have o': "fresh_op o'" "op_type_of o' = Some t" "waiting t ops" "list_all (sys_ok (ro_kind o')) a"
    using "3.prems" by simp_all
  note kept = perform_kind_kept [OF p] and ok = perform_ok [OF p o'(1,4)]
  have type: "op_type_of o1 = Some t" using op_type_of_kind [OF kept(2)] o'(2) by simp
  note same = same_op [OF kept(1,2)]
  show ?case
    using "3.prems" "3.IH" [OF p] p same ok type o' by (cases status) (auto split: option.splits)
qed simp_all

lemma perform_io_loop_ok:
  assumes "distinct js" "\<forall>t. waiting t (ds_op_queue ds t)" "\<forall>j \<in> set js. attempts_ok (answers j) (ds_op_queue ds j)"
    "perform_io_loop events answers js ds = Some (ds', ops)"
  shows "completes (Some ds) ops (Some ds') \<and> (\<forall>t. waiting t (ds_op_queue ds' t)) \<and> ds_shutdown ds' = ds_shutdown ds"
  using assms
proof (induction js arbitrary: ds ops)
  case (Cons j js)
  show ?case
  proof (cases "events AND (event_flag j OR EPOLLERR OR EPOLLHUP) = 0")
    case True
    then show ?thesis using Cons by simp
  next
    case False
    then obtain over left spec ops' where q: "perform_queue (answers j) (ds_op_queue ds j) = Some (over, left, spec)"
      and r: "perform_io_loop events answers js
        (ds\<lparr>ds_op_queue := (ds_op_queue ds)(j := left),
            ds_try_speculative := (ds_try_speculative ds)(j := spec)\<rparr>) = Some (ds', ops')"
      and ops: "ops = over @ ops'"
      using Cons.prems(4) by (auto split: option.splits prod.splits)
    let ?ds = "ds\<lparr>ds_op_queue := (ds_op_queue ds)(j := left), ds_try_speculative := (ds_try_speculative ds)(j := spec)\<rparr>"
    have q': "(\<forall>o' \<in> set over. op_result_ok o' \<and> op_type_of o' = Some j) \<and> waiting j left \<and>
      map ticket (ds_op_queue ds j) = map ticket over @ map ticket left \<and>
      ids_of j (ds_op_queue ds j) = ids_of j over @ ids_of j left"
      by (rule perform_queue_ok [OF _ _ q]) (use Cons.prems in auto)
    have later: "completes (Some ?ds) ops' (Some ds') \<and> (\<forall>t. waiting t (ds_op_queue ds' t)) \<and>
      ds_shutdown ds' = ds_shutdown ?ds"
      by (rule Cons.IH [OF _ _ _ r]) (use Cons.prems q' in auto)
    moreover have "completes (Some ds) over (Some ?ds)"
      unfolding completes_def
    proof (intro conjI allI)
      show "mset (map ticket (queued (Some ds))) = mset (map ticket over) + mset (map ticket (queued (Some ?ds)))"
        using q' by (cases j) (simp_all add: all_queued_def)
      fix t
      show "subseq (ids_of t (filter not_cancelled over) @ ids_of t (queued_in (Some ?ds) t)) (ids_of t (queued_in (Some ds) t))"
      proof (cases "t = j")
        case True
        then show ?thesis using q' by (auto intro!: list_emb_append_mono ids_of_subseq)
      next
        case False
        then have "ids_of t (filter not_cancelled over) = []"
          using q' by (auto simp: ids_of_def filter_empty_conv dest!: turn_of_type)
        then show ?thesis using False by simp
      qed
    qed (use q' in blast)
    ultimately show ?thesis using completes_trans ops by auto
  qed
qed (simp add: completes_def)

lemma inv_event:
  assumes "reactor_inv started (Some ds) sc" "\<forall>t. attempts_ok (answers t) (ds_op_queue ds t)"
    "perform_io events answers ds = Some (ds', ops)"
  shows "reactor_inv started (Some ds') (complete_first ops sc) \<and> length (queued (Some ds')) \<le> length (queued (Some ds))"
proof -
  have w: "\<forall>t. waiting t (ds_op_queue ds t)" using assms(1) by (simp add: reactor_inv_def data_ok_def)
  have m: "completes (Some ds) ops (Some ds') \<and> (\<forall>t. waiting t (ds_op_queue ds' t)) \<and> ds_shutdown ds' = ds_shutdown ds"
    using perform_io_loop_ok [OF _ w _ assms(3) [unfolded perform_io_def]] assms(2) by simp
  moreover from m have "data_ok (Some ds')"
    using reactor_inv_data [OF assms(1)] by (simp add: data_ok_def)
  ultimately show ?thesis using inv_completes(2) [OF assms(1)] completes_length by fastforce
qed

section \<open>Every reachable state\<close>

lemma inv_do_run_one:
  "reactor_inv started data sc \<Longrightarrow> reactor_inv started data (do_run_one sc)"
  by (auto simp: reactor_inv_def do_run_one_def split: list.split)

lemma reactor_new_op [simp]:
  "kind \<noteq> Connect \<Longrightarrow> fresh_op (reactor_op_new i kind True key)" "ro_ec (reactor_op_new i kind True key) = None"
  "ro_kind (reactor_op_new i kind True key) = kind" "ro_id (reactor_op_new i kind True key) = i"
  "ro_stream (reactor_op_new i kind True key)"
  by (auto simp: reactor_op_new_def fresh_op_def kind_fresh_def split: op_kind.split)

lemma register_descriptor_fresh:
  "register_descriptor errno = (ds, err) \<Longrightarrow> ds_op_queue ds = (\<lambda>_. []) \<and> \<not> ds_shutdown ds"
  by (auto simp: register_descriptor_def Let_def split: if_splits)

lemma inv_none_queued:
  assumes "reactor_inv started data sc" "queued data = []" "queued data' = []" "data_ok data'"
  shows "reactor_inv started data' sc"
  using assms queued_in_empty [OF assms(2)] queued_in_empty [OF assms(3)] by (simp add: reactor_inv_def in_order_def)

lemma inv_fresh_descriptor:
  assumes "reactor_inv started data sc" "queued data = []" "ds_op_queue ds = (\<lambda>_. [])" "\<not> ds_shutdown ds"
  shows "reactor_inv started (Some ds) sc"
  by (rule inv_none_queued [OF assms(1,2)]) (use assms(3,4) in \<open>simp_all add: data_ok_def all_queued_def\<close>)

lemma reactor_start_op_data:
  "reactor_start_op t errno answers spec o' data sc = Some (data1, sc1) \<Longrightarrow> (data1 = None) = (data = None)"
  by (auto simp: reactor_start_op_def start_waiting_def enqueue_op_def fail_op_def
      split: if_splits option.splits)

lemma start_op_opens:
  assumes "socket_start_op t sa True noop o' so = Some so'"
  shows "so_started so' = so_started so" "so_is_open so' = so_is_open so"
    "so_non_blocking so' \<longrightarrow> so_non_blocking so \<or> so_is_open so"
    "\<not> so_non_blocking so' \<Longrightarrow> so_reactor_data so' = so_reactor_data so"
    "(so_reactor_data so' = None) = (so_reactor_data so = None)"
    "so_non_blocking so \<Longrightarrow> so_non_blocking so'"
  using assms
  by (auto simp: socket_start_op_def set_internal_non_blocking_def Let_def dest: reactor_start_op_data
      split: if_splits option.splits prod.splits)

lemma sys_ok_accept [simp]: "sys_ok (Accept aborts) r"
  by (cases r) simp_all

lemma socket_inv_start:
  assumes "socket_inv so" "i \<notin> ro_id ` set (so_started so)" "kind \<noteq> Connect" "list_all (sys_ok kind) (sa_attempt sa)"
    "socket_start_op (kind_type kind) sa True (kind_empty kind) (reactor_op_new i kind True key)
       (so\<lparr>so_started := so_started so @ [reactor_op_new i kind True key]\<rparr>) = Some so'"
  shows "socket_inv so'"
proof -
  let ?o = "reactor_op_new i kind True key" and ?so = "so\<lparr>so_started := so_started so @ [reactor_op_new i kind True key]\<rparr>"
  note o = start_op_opens [OF assms(5)]
  have "reactor_inv (so_started so @ [?o]) (so_reactor_data so') (so_scheduler so')"
    using inv_socket_start_op [of "so_started so" ?so ?o sa so'] assms by (simp add: socket_inv_def)
  then show ?thesis using o assms(1,2) by (auto simp: socket_inv_def)
qed

text \<open>A connect either ends at once, whatever waits in its queue, or joins this queue.\<close>

lemma start_connect_op_cases:
  assumes "start_connect_op is_local sa r o' so = Some so'" "ro_kind o' = Connect" "ro_calls o' = []" "connect_answer r"
  obtains (failed) e where "\<not> so_non_blocking so" "so_reactor_data so' = so_reactor_data so"
      "so_scheduler so' = post_immediate_completion (o'\<lparr>ro_ec := Some e\<rparr>) (so_scheduler so)"
      "so_started so' = so_started so" "so_is_open so' = so_is_open so" "so_non_blocking so' = so_non_blocking so"
  | (immediate) ec where "so_reactor_data so' = so_reactor_data so"
      "so_scheduler so' = post_immediate_completion (o'\<lparr>ro_ec := ec, ro_calls := [r]\<rparr>) (so_scheduler so)"
      "ec = None \<longrightarrow> connected [r]" "so_non_blocking so'" "so_non_blocking so \<or> so_is_open so"
      "so_started so' = so_started so" "so_is_open so' = so_is_open so"
  | (waits) "connecting [r]"
      "reactor_start_op Write_op (sa_epoll_ctl sa) [] False (o'\<lparr>ro_calls := [r], ro_ec := None\<rparr>)
         (so_reactor_data so) (so_scheduler so) = Some (so_reactor_data so', so_scheduler so')"
      "so_non_blocking so'" "so_non_blocking so \<or> so_is_open so"
      "so_started so' = so_started so" "so_is_open so' = so_is_open so"
proof -
  have conn: "\<exists>data. r = Returned 0 data" if "fst (socket_connect is_local r)"
    using that assms(4) by (cases r) auto
  have wait: "connecting [r]" if "socket_connect is_local r = (False, ec)" "ec = Some in_progress \<or> ec = Some would_block" for ec
    using that
    by (cases r) (auto simp: connecting_def would_block_def in_progress_def no_buffer_space_def try_again_def split: if_splits)
  show ?thesis
  proof (cases "so_non_blocking so \<or> so_is_open so \<and> sa_ioctl sa = 0")
    case False
    then show ?thesis using assms failed
      by (auto simp: start_connect_op_def set_internal_non_blocking_def Let_def split: if_splits)
  next
    case True
    obtain ok ec where c: "socket_connect is_local r = (ok, ec)" by fastforce
    show ?thesis
    proof (cases "\<not> ok \<and> (ec = Some in_progress \<or> ec = Some would_block)")
      case w: True
      then show ?thesis using assms(1,3) True c wait
        by (auto simp: start_connect_op_def set_internal_non_blocking_def Let_def
            intro!: waits split: if_splits option.splits)
    next
      case n: False
      have "ec = None \<longrightarrow> connected [r]"
        using c n by (cases r) (use conn c in \<open>auto simp: connected_def split: if_splits\<close>)
      then show ?thesis using assms(1,3) True c n
        by (auto simp: start_connect_op_def set_internal_non_blocking_def Let_def
            intro!: immediate split: if_splits)
    qed
  qed
qed

lemma connect_op_type [simp]: "op_type_of (reactor_op_new i Connect True key) = Some Write_op"
  by (simp add: op_type_of_def)

lemma connect_result_ok:
  "ec = None \<longrightarrow> connected calls \<Longrightarrow>
   op_result_ok ((reactor_op_new i Connect True key)\<lparr>ro_ec := ec, ro_calls := calls\<rparr>)"
  by (simp add: op_result_ok_def kind_result_ok_def some_ok_def part_result_ok_def reactor_op_new_def)

lemma socket_inv_connect:
  assumes "socket_inv so" "i \<notin> ro_id ` set (so_started so)" "connect_answer r"
    "async_connect i is_local key sa r so = Some so'"
  shows "socket_inv so'"
proof -
  let ?o = "reactor_op_new i Connect True key" and ?so = "so\<lparr>so_started := so_started so @ [reactor_op_new i Connect True key]\<rparr>"
  have start: "start_connect_op is_local sa r ?o ?so = Some so'" using assms(4) by (simp add: async_connect_def Let_def)
  have inv: "reactor_inv (so_started so) (so_reactor_data so) (so_scheduler so)"
    using assms(1) by (simp add: socket_inv_def)
  have post: "reactor_inv (so_started so @ [?o]) (so_reactor_data so) (post_immediate_completion o1 (so_scheduler so))"
    if "op_result_ok o1" "ro_id o1 = i" "ro_kind o1 = Connect" for o1
    by (rule inv_posted [OF inv reactor_inv_data [OF inv] refl refl])
      (use that in \<open>simp_all add: turn_of_def reactor_op_new_def\<close>)
  have "ro_kind ?o = Connect" "ro_calls ?o = []" by (simp_all add: reactor_op_new_def)
  from start this assms(3) show ?thesis
  proof (cases rule: start_connect_op_cases)
    case (failed e)
    have "op_result_ok (?o\<lparr>ro_ec := Some e\<rparr>)"
      using connect_result_ok [of "Some e" "ro_calls ?o" i key] by (simp add: reactor_op_new_def)
    then show ?thesis using failed assms(1,2) post [of "?o\<lparr>ro_ec := Some e\<rparr>"] by (auto simp: socket_inv_def)
  next
    case (immediate ec)
    then show ?thesis
      using assms(1,2) post [OF connect_result_ok [OF immediate(3)]] by (auto simp: socket_inv_def)
  next
    case waits
    let ?o1 = "?o\<lparr>ro_calls := [r], ro_ec := None\<rparr>"
    have "reactor_inv (so_started so @ [?o1]) (so_reactor_data so') (so_scheduler so')"
      by (rule inv_start_op [OF inv _ _ _ waits(2) [simplified]])
        (simp_all add: waits(1) fresh_op_def kind_fresh_def reactor_op_new_def op_type_of_def)
    then have "reactor_inv (so_started so @ [?o]) (so_reactor_data so') (so_scheduler so')"
      using reactor_inv_same [of ?o1 ?o] by simp
    then show ?thesis using waits(3-) reactor_start_op_data [OF waits(2)] assms(1,2)
      by (auto simp: socket_inv_def)
  qed
qed

lemma socket_inv_step:
  assumes "socket_inv so" "socket_step so so'"
  shows "socket_inv so'"
  using assms(2)
proof cases
  case (Open created errno)
  then show ?thesis using assms(1) inv_fresh_descriptor register_descriptor_fresh
    by (auto simp: socket_inv_def do_open_def all_queued_def Let_def split: prod.splits)
next
  case (Start i kind sa key)
  then have "kind \<noteq> Connect" by auto
  then show ?thesis using Start socket_inv_start [OF assms(1)] by (simp add: async_transfer_def Let_def)
next
  case (Accept i aborts key sa)
  then show ?thesis using socket_inv_start [OF assms(1), of i "Accept aborts" sa key so']
    by (simp add: async_accept_def start_accept_op_def Let_def list_all_iff)
next
  case (Connect i r is_local key sa)
  then show ?thesis by (rule socket_inv_connect [OF assms(1)])
next
  case (Event answers events)
  show ?thesis
  proof (cases "so_reactor_data so")
    case None
    then show ?thesis using Event assms(1) by (simp add: socket_event_def)
  next
    case (Some ds)
    then obtain ds' ops where p: "perform_io events answers ds = Some (ds', ops)"
      "so' = so\<lparr>so_reactor_data := Some ds', so_scheduler := complete_first ops (so_scheduler so)\<rparr>"
      using Event(2) by (auto simp: socket_event_def split: option.splits)
    have inv: "reactor_inv (so_started so) (Some ds) (so_scheduler so)"
      using assms(1) Some by (simp add: socket_inv_def)
    show ?thesis
      using inv_event [OF inv _ p(1)] Event(1) Some assms(1) p(2) by (auto simp: socket_inv_def queue_of_def)
  qed
next
  case Cancel
  then show ?thesis
    using assms(1) inv_cancel [of "so_started so" "so_reactor_data so" "so_scheduler so"]
    by (auto simp: socket_inv_def socket_cancel_def cancel_ops_def all_queued_def
        split: prod.splits option.splits)
next
  case (Cancel_key t key)
  obtain data sc where c: "cancel_ops_by_key t key (so_reactor_data so) (so_scheduler so) = (data, sc)" by fastforce
  have "(data = None) = (so_reactor_data so = None)"
    using c by (auto simp: cancel_ops_by_key_def split: option.splits prod.splits)
  then show ?thesis
    using assms(1) inv_cancel_by_key [OF _ c, of "so_started so"] c Cancel_key
    by (auto simp: socket_inv_def socket_cancel_by_key_def)
next
  case Close
  then show ?thesis
    using assms(1) inv_deregister [of "so_started so" "so_reactor_data so" "so_scheduler so"]
      inv_none_queued [of "so_started so" "so_reactor_data so" "so_scheduler so" None]
    by (auto simp: socket_inv_def socket_close_def construct_def cleanup_descriptor_data_def
        data_ok_def split: prod.splits)
next
  case Run
  then show ?thesis using assms(1) by (simp add: socket_inv_def socket_run_one_def inv_do_run_one)
qed

theorem socket_reachable_inv: "socket_reachable so \<Longrightarrow> socket_inv so"
proof (induction rule: socket_reachable.induct)
  case init
  show ?case
    by (simp add: socket_inv_def async_socket_new_def reactor_inv_def scheduler_new_def data_ok_def in_order_def)
qed (rule socket_inv_step)

lemma reachable_completed_ok:
  assumes "socket_reachable so" "o' \<in> set (sc_completed (so_scheduler so))"
  shows "op_result_ok o'"
proof -
  have "reactor_inv (so_started so) (so_reactor_data so) (so_scheduler so)"
    using socket_reachable_inv [OF assms(1)] by (simp add: socket_inv_def)
  then have ok: "\<forall>o' \<in> set (sc_finished (so_scheduler so)). op_result_ok o'"
    and m: "mset (sc_finished (so_scheduler so)) =
      mset (sc_completed (so_scheduler so)) + mset (sc_op_queue (so_scheduler so))"
    by (simp_all add: reactor_inv_def)
  have "o' \<in> set (sc_finished (so_scheduler so))"
    using arg_cong [OF m, of set_mset] assms(2) by simp
  then show ?thesis using ok by blast
qed

end
