(* ===== verification/Asio_Properties.thy ===== *)
theory Asio_Properties
  imports Asio_Transfer Asio_Reactor_Inv
begin

text \<open>
  What the sessions assume of the network library, shown of its code: the completions of
  \<^verbatim>\<open>async_write\<close>, \<^verbatim>\<open>async_read\<close> and \<^verbatim>\<open>async_read_some\<close> are those that \<open>io_ok\<close> admits, no
  operation is lost or completed twice, and closing a socket completes all that wait for it.
\<close>

section \<open>Parts that the reactor served\<close>

text \<open>A result that a handler was given on some socket in some reachable state.\<close>

definition served :: "op_kind \<Rightarrow> error_code \<Rightarrow> nat \<Rightarrow> byte list \<Rightarrow> bool" where
  "served kind ec n data \<longleftrightarrow>
     (\<exists>so o'. socket_reachable so \<and> o' \<in> set (sc_completed (so_scheduler so)) \<and>
        ro_kind o' = kind \<and> ro_ec o' = ec \<and> ro_bytes o' = n \<and> ro_data o' = data)"

fun write_served :: "byte transfer \<Rightarrow> part_result list \<Rightarrow> bool" where
  "write_served (Part bufs b) ((ec, n, cancelled) # rs) =
     (served (Send bufs) ec n [] \<and> write_served (write_op_resume b ec n cancelled) rs)"
| "write_served st rs = True"

fun read_served :: "nat transfer \<Rightarrow> read_result list \<Rightarrow> bool" where
  "read_served (Part bufs b) ((ec, data, cancelled) # rs) =
     (served (Receive bufs) ec (length data) data \<and>
      read_served (read_op_resume b ec (length data) cancelled) rs)"
| "read_served st rs = True"

lemma served_ok: "served kind ec n data \<Longrightarrow> some_ok kind ec n data"
  using reachable_completed_ok by (auto simp: served_def op_result_ok_def)

lemma write_served_ok: "write_served st rs \<Longrightarrow> write_results_ok st rs"
  by (induction st rs rule: write_served.induct) (auto dest!: served_ok simp: some_ok_def)

lemma read_served_ok: "read_served st rs \<Longrightarrow> read_results_ok st rs"
  by (induction st rs rule: read_served.induct) (auto dest!: served_ok)

section \<open>A run\<close>

text \<open>Three bytes in two buffers are written; the system takes two of them after a signal, the
  last one has to wait for the descriptor.\<close>

definition asio_demo_answers :: "sys_result list \<Rightarrow> start_answers" where
  "asio_demo_answers rs = \<lparr>sa_ioctl = 0, sa_epoll_ctl = 0, sa_attempt = rs\<rparr>"

definition asio_demo_first :: "async_socket option" where
  "asio_demo_first = async_transfer 0 (Send [[1], [2, 3]]) None (asio_demo_answers [Failed 4, Returned 2 []])
     (do_open True 0 async_socket_new)"

definition asio_demo_second :: "async_socket \<Rightarrow> async_socket option" where
  "asio_demo_second so = async_transfer 1 (Send [[3]]) None (asio_demo_answers []) (socket_run_one so)"

definition asio_demo_third :: "async_socket \<Rightarrow> async_socket option" where
  "asio_demo_third so = socket_event EPOLLOUT (\<lambda>t. [[Returned 1 []]]) so"

lemmas asio_eval =
  async_transfer_def socket_start_op_def reactor_start_op_def start_waiting_def enqueue_op_def fail_op_def
  do_open_def register_descriptor_def async_socket_new_def scheduler_new_def socket_run_one_def do_run_one_def
  set_internal_non_blocking_def reactor_op_new_def perform_def send_do_perform_def recv_do_perform_def
  set_result_def post_immediate_completion_def post_deferred_completions_def work_started_def
  socket_event_def perform_io_def complete_first_def asio_demo_answers_def adapter_all_empty_def adapter_total_size_def
  adapter_buffers_def adapter_max_buffers_def interrupted_def would_block_def

lemmas epoll_flags = EPOLLIN_def EPOLLPRI_def EPOLLOUT_def EPOLLERR_def EPOLLHUP_def EPOLLET_def

lemma asio_demo_runs:
  "\<exists>so1 so2 so3. asio_demo_first = Some so1 \<and> asio_demo_second so1 = Some so2 \<and> asio_demo_third so2 = Some so3 \<and>
     ro_id ` set (so_started so1) = {0} \<and>
     (\<forall>t. attempts_ok [[Returned 1 []]] (queue_of so2 t)) \<and>
     sc_completed (so_scheduler so3) =
       [(reactor_op_new 0 (Send [[1], [2, 3]]) True None)\<lparr>ro_bytes := 2\<rparr>,
        (reactor_op_new 1 (Send [[3]]) True None)\<lparr>ro_bytes := 1\<rparr>]"
  by (simp add: asio_demo_first_def asio_demo_second_def asio_demo_third_def asio_eval epoll_flags Let_def queue_of_def all_op_types)

lemma asio_demo_reachable:
  assumes "asio_demo_first = Some so1" "asio_demo_second so1 = Some so2" "asio_demo_third so2 = Some so3"
    "ro_id ` set (so_started so1) = {0}" "\<forall>t. attempts_ok [[Returned 1 []]] (queue_of so2 t)"
  shows "socket_reachable so1" "socket_reachable so2" "socket_reachable so3"
proof -
  have "socket_reachable (do_open True 0 async_socket_new)"
    using socket_reachable.step [OF socket_reachable.init Open] .
  then show r1: "socket_reachable so1"
    by (rule socket_reachable.step)
      (rule Start [OF _ _ assms(1) [unfolded asio_demo_first_def]],
        simp_all add: do_open_def async_socket_new_def asio_demo_answers_def adapter_total_size_def
          adapter_buffers_def adapter_max_buffers_def Let_def split: prod.split)
  have "socket_reachable (socket_run_one so1)" by (rule socket_reachable.step [OF r1 Run])
  then show r2: "socket_reachable so2"
    by (rule socket_reachable.step)
      (rule Start [OF _ _ assms(2) [unfolded asio_demo_second_def]],
        use assms(4) in \<open>simp_all add: socket_run_one_def asio_demo_answers_def\<close>)
  show "socket_reachable so3"
    by (rule socket_reachable.step [OF r2], rule Event [OF _ assms(3) [unfolded asio_demo_third_def]])
      (rule assms(5))
qed
lemma servedI:
  "socket_reachable so \<Longrightarrow> sc_completed (so_scheduler so) = [o1, o2] \<Longrightarrow>
   served (ro_kind o1) (ro_ec o1) (ro_bytes o1) (ro_data o1) \<and>
   served (ro_kind o2) (ro_ec o2) (ro_bytes o2) (ro_data o2)"
  unfolding served_def by (metis list.set_intros)

lemma asio_demo_served:
  "served (Send [[1], [2, 3]]) None 2 []" "served (Send [[3]]) None 1 []"
proof -
  obtain so1 so2 so3 where so: "asio_demo_first = Some so1" "asio_demo_second so1 = Some so2"
    "asio_demo_third so2 = Some so3" "ro_id ` set (so_started so1) = {0}"
    "\<forall>t. attempts_ok [[Returned 1 []]] (queue_of so2 t)"
    "sc_completed (so_scheduler so3) =
       [(reactor_op_new 0 (Send [[1], [2, 3]]) True None)\<lparr>ro_bytes := 2\<rparr>,
        (reactor_op_new 1 (Send [[3]]) True None)\<lparr>ro_bytes := 1\<rparr>]"
    using asio_demo_runs by (elim exE conjE)
  note so3 = asio_demo_reachable(3) [OF so(1-5)] so(6)
  show "served (Send [[1], [2, 3]]) None 2 []" "served (Send [[3]]) None 1 []"
    using servedI [OF so3] by (simp_all add: reactor_op_new_def)
qed

lemmas transfer_eval = write_op_start_def write_op_resume_def cb_new_def cb_prepare_def cb_consume_def
  cb_empty_def max_buffers_def default_max_transfer_size_def

lemma asio_demo_write:
  "write_served (write_op_start (Several (cb_new [[1], [2, 3]]))) [(None, 2, False), (None, 1, False)]"
  "write_run (write_op_start (Several (cb_new [[1 :: byte], [2, 3]]))) [(None, 2, False), (None, 1, False)] =
     ([1, 2, 3], Complete None 3)"
  by (simp_all add: transfer_eval asio_demo_served asio_demo_served(2) [unfolded One_nat_def])

text \<open>Three bytes are read into one buffer; two of them come at once, the last with an event.\<close>

definition asio_demo_read1 :: "async_socket option" where
  "asio_demo_read1 = async_transfer 0 (Receive [[10, 11, 12]]) None (asio_demo_answers [Returned 2 [7, 8]])
     (do_open True 0 async_socket_new)"

definition asio_demo_read2 :: "async_socket \<Rightarrow> async_socket option" where
  "asio_demo_read2 so = async_transfer 1 (Receive [[12]]) None (asio_demo_answers [Failed 11]) (socket_run_one so)"

definition asio_demo_read3 :: "async_socket \<Rightarrow> async_socket option" where
  "asio_demo_read3 so = socket_event EPOLLIN (\<lambda>t. [[Returned 1 [9]]]) so"

lemma asio_demo_read_runs:
  "\<exists>so1 so2 so3. asio_demo_read1 = Some so1 \<and> asio_demo_read2 so1 = Some so2 \<and> asio_demo_read3 so2 = Some so3 \<and>
     ro_id ` set (so_started so1) = {0} \<and> so_is_open so2 \<and>
     (\<forall>t. attempts_ok [[Returned 1 [9]]] (queue_of so2 t)) \<and>
     queue_of so2 Read_op = [(reactor_op_new 1 (Receive [[12]]) True None)\<lparr>ro_ec := Some would_block\<rparr>] \<and>
     sc_completed (so_scheduler so3) =
       [(reactor_op_new 0 (Receive [[10, 11, 12]]) True None)\<lparr>ro_bytes := 2, ro_data := [7, 8]\<rparr>,
        (reactor_op_new 1 (Receive [[12]]) True None)\<lparr>ro_bytes := 1, ro_data := [9]\<rparr>]"
  by (simp add: asio_demo_read1_def asio_demo_read2_def asio_demo_read3_def asio_eval epoll_flags Let_def
      queue_of_def all_op_types)

lemma asio_demo_read_reachable:
  assumes "asio_demo_read1 = Some so1" "asio_demo_read2 so1 = Some so2" "asio_demo_read3 so2 = Some so3"
    "ro_id ` set (so_started so1) = {0}" "\<forall>t. attempts_ok [[Returned 1 [9]]] (queue_of so2 t)"
  shows "socket_reachable so2" "socket_reachable so3"
proof -
  have "socket_reachable (do_open True 0 async_socket_new)"
    using socket_reachable.step [OF socket_reachable.init Open] .
  then have r1: "socket_reachable so1"
    by (rule socket_reachable.step)
      (rule Start [OF _ _ assms(1) [unfolded asio_demo_read1_def]],
        simp_all add: do_open_def async_socket_new_def asio_demo_answers_def adapter_total_size_def
          adapter_buffers_def adapter_max_buffers_def Let_def split: prod.split)
  have "socket_reachable (socket_run_one so1)" by (rule socket_reachable.step [OF r1 Run])
  then show r2: "socket_reachable so2"
    by (rule socket_reachable.step)
      (rule Start [OF _ _ assms(2) [unfolded asio_demo_read2_def]],
        use assms(4) in \<open>simp_all add: socket_run_one_def asio_demo_answers_def\<close>)
  show "socket_reachable so3"
    by (rule socket_reachable.step [OF r2], rule Event [OF _ assms(3) [unfolded asio_demo_read3_def]])
      (rule assms(5))
qed

lemma asio_demo_read_served:
  "served (Receive [[10, 11, 12]]) None 2 [7, 8]" "served (Receive [[12]]) None 1 [9]"
proof -
  obtain so1 so2 so3 where so: "asio_demo_read1 = Some so1" "asio_demo_read2 so1 = Some so2"
    "asio_demo_read3 so2 = Some so3" "ro_id ` set (so_started so1) = {0}"
    "\<forall>t. attempts_ok [[Returned 1 [9]]] (queue_of so2 t)"
    "sc_completed (so_scheduler so3) =
       [(reactor_op_new 0 (Receive [[10, 11, 12]]) True None)\<lparr>ro_bytes := 2, ro_data := [7, 8]\<rparr>,
        (reactor_op_new 1 (Receive [[12]]) True None)\<lparr>ro_bytes := 1, ro_data := [9]\<rparr>]"
    using asio_demo_read_runs by (elim exE conjE)
  note so3 = asio_demo_read_reachable(2) [OF so(1-5)] so(6)
  show "served (Receive [[10, 11, 12]]) None 2 [7, 8]" "served (Receive [[12]]) None 1 [9]"
    using servedI [OF so3] by (simp_all add: reactor_op_new_def)
qed

definition asio_demo_memory :: "nat \<Rightarrow> byte" where
  "asio_demo_memory = store_cells [12] [9] (store_cells [10, 11, 12] [7, 8] (\<lambda>_. 0))"

lemma asio_demo_read:
  "read_served (read_op_start (One (csb_new [10, 11, 12]))) [(None, [7, 8], False), (None, [9], False)]"
  "read_run (read_op_start (One (csb_new [10, 11, 12]))) [(None, [7, 8], False), (None, [9], False)] (\<lambda>_. 0) =
     (asio_demo_memory, [7, 8, 9], Complete None 3)"
  using asio_demo_read_served
  by (simp_all add: transfer_eval read_op_start_def read_op_resume_def asio_demo_memory_def csb_new_def
    csb_prepare_def csb_consume_def csb_empty_def numeral_2_eq_2)

text \<open>A socket on which a read waits.\<close>

lemma asio_demo_waiting:
  "\<exists>so. socket_reachable so \<and> so_is_open so \<and> length (queue_of so Read_op) = 1"
proof -
  obtain so1 so2 so3 where so: "asio_demo_read1 = Some so1" "asio_demo_read2 so1 = Some so2"
    "asio_demo_read3 so2 = Some so3" "ro_id ` set (so_started so1) = {0}" "so_is_open so2"
    "\<forall>t. attempts_ok [[Returned 1 [9]]] (queue_of so2 t)"
    "queue_of so2 Read_op = [(reactor_op_new 1 (Receive [[12]]) True None)\<lparr>ro_ec := Some would_block\<rparr>]"
    using asio_demo_read_runs by (elim exE conjE)
  have "length (queue_of so2 Read_op) = 1" by (simp add: so(7))
  then show ?thesis using asio_demo_read_reachable(1) [OF so(1-4,6)] so(5) by (intro exI [of _ so2] conjI)
qed

section \<open>Properties\<close>

text \<open>C18. A write of several buffers that the library does in parts is the write that the sessions
  assume: whatever the reactor answers to the parts, the completion is one that \<open>wrote\<close> admits
  for all the bytes together, and the system has taken as many bytes, from the front and in
  order.\<close>

theorem async_write_completes:
  assumes "write_served (write_op_start (Several (cb_new bufs))) rs"
    "write_run (write_op_start (Several (cb_new bufs))) rs = (taken, Complete ec n)"
  shows "wrote (concat bufs) (Write_done ec n) \<and> taken = take n (concat bufs)"
  using write_run_ok [OF _ _ write_served_ok [OF assms(1)] assms(2)] by simp

theorem async_write_completes_witness:
  "wrote (concat [[1], [2, 3]]) (Write_done None 3) \<and> [1, 2, 3] = take 3 (concat [[1], [2, 3 :: byte]])"
  by (rule async_write_completes [OF asio_demo_write])

text \<open>A write ends: no more parts are needed than there are bytes.\<close>

theorem async_write_ends:
  assumes "write_served (write_op_start (Several (cb_new bufs))) rs"
    "max 1 (length (concat bufs)) \<le> length rs"
  shows "\<exists>taken ec n. write_run (write_op_start (Several (cb_new bufs))) rs = (taken, Complete ec n)"
  using write_run_ends [OF _ write_served_ok [OF assms(1)]] assms(2) by simp

theorem async_write_ends_witness:
  "\<exists>taken ec n. write_run (write_op_start (Several (cb_new [[1 :: byte], [2, 3]])))
     [(None, 2, False), (None, 1, False), (None, 0, False)] = (taken, Complete ec n)"
  by (rule async_write_ends) (simp_all add: transfer_eval asio_demo_served asio_demo_served(2) [unfolded One_nat_def])

text \<open>C19. A read of a whole buffer is the read that the sessions assume: the completion is one that
  \<open>read_all\<close> admits, the buffer holds the data that arrived from its front on, and no other
  memory has changed.\<close>

theorem async_read_completes:
  assumes "read_served (read_op_start (One (csb_new addrs))) rs" "distinct addrs"
    "read_run (read_op_start (One (csb_new addrs))) rs mem = (mem', data, Complete ec n)"
  shows "read_all (length addrs) (Read_done ec data) \<and> n = length data \<and>
    map mem' (take n addrs) = data \<and> (\<forall>a. a \<in> set (take n addrs) \<or> mem' a = mem a)"
  using read_run_ok [OF _ _ read_served_ok [OF assms(1)] assms(3)] assms(2) by simp blast

theorem async_read_completes_witness:
  "read_all (length [10, 11, 12 :: nat]) (Read_done None [7, 8, 9]) \<and> 3 = length [7, 8, 9 :: byte] \<and>
   map asio_demo_memory (take 3 [10, 11, 12]) = [7, 8, 9] \<and>
   (20 \<in> set (take 3 [10, 11, 12 :: nat]) \<or> asio_demo_memory 20 = 0)"
proof -
  have "distinct [10, 11, 12 :: nat]" by simp
  from async_read_completes [OF asio_demo_read(1) this asio_demo_read(2)] show ?thesis by blast
qed

text \<open>Every completion of \<^verbatim>\<open>async_read_some\<close> is one that \<open>read_some\<close> admits.\<close>

theorem async_read_some_completes:
  assumes "served (Receive [addrs]) ec n data"
  shows "read_some (length addrs) (Read_done ec data) \<and> n = length data"
  using served_ok [OF assms]
  by (auto simp: some_ok_def part_result_ok_def read_some_ok_def adapter_total_size_def adapter_buffers_def
    adapter_max_buffers_def)

theorem async_read_some_completes_witness:
  "read_some (length [10, 11, 12 :: nat]) (Read_done None [7, 8]) \<and> 2 = length [7, 8 :: byte]"
  by (rule async_read_some_completes [OF asio_demo_read_served(1)])




lemma run_all_posted:
  "sc_op_queue (so_scheduler so) = ops \<Longrightarrow>
   sc_op_queue (so_scheduler ((socket_run_one ^^ length ops) so)) = [] \<and>
   so_started ((socket_run_one ^^ length ops) so) = so_started so \<and>
   so_reactor_data ((socket_run_one ^^ length ops) so) = so_reactor_data so"
proof (induction ops arbitrary: so)
  case (Cons o' ops)
  have "sc_op_queue (so_scheduler (socket_run_one so)) = ops" "so_started (socket_run_one so) = so_started so"
    "so_reactor_data (socket_run_one so) = so_reactor_data so"
    using Cons.prems by (simp_all add: socket_run_one_def do_run_one_def)
  then show ?case using Cons.IH [of "socket_run_one so"] by (simp add: funpow_swap1)
qed simp

lemma reachable_runs: "socket_reachable so \<Longrightarrow> socket_reachable ((socket_run_one ^^ n) so)"
  by (induction n) (auto intro: socket_reachable.step socket_step.Run)

text \<open>C21. Closing a socket lets everything that waits for it end: the waiting operations are posted
  as aborted, behind the handlers that already wait; when these handlers have run, every
  operation ever started on the socket has completed exactly once and no work is outstanding.\<close>

theorem closing_completes_operations:
  assumes "socket_reachable so" "so_is_open so"
  shows "sc_op_queue (so_scheduler (socket_close so)) =
      sc_op_queue (so_scheduler so) @ map aborted (queue_of so Read_op @ queue_of so Write_op) \<and>
    (let so' = (socket_run_one ^^ length (sc_op_queue (so_scheduler (socket_close so)))) (socket_close so)
     in mset (map ro_id (sc_completed (so_scheduler so'))) = mset (map ro_id (so_started so)) \<and>
        sc_outstanding_work (so_scheduler so') = 0)"
proof -
  have inv: "socket_inv so" by (rule socket_reachable_inv [OF assms(1)])
  obtain ds where ds: "so_reactor_data so = Some ds" "\<not> ds_shutdown ds" "waiting Except_op (ds_op_queue ds Except_op)"
    using inv assms(2) by (auto simp: socket_inv_def reactor_inv_def data_ok_def)
  have closed: "sc_op_queue (so_scheduler (socket_close so)) =
      sc_op_queue (so_scheduler so) @ map aborted (queue_of so Read_op @ queue_of so Write_op)"
    "so_started (socket_close so) = so_started so" "so_reactor_data (socket_close so) = None"
    using ds assms(2)
    by (simp_all add: socket_close_def construct_def deregister_descriptor_def cleanup_descriptor_data_def waiting_except
      post_deferred_completions_def all_queued_def queue_of_def)
  define so' where
    "so' = (socket_run_one ^^ length (sc_op_queue (so_scheduler (socket_close so)))) (socket_close so)"
  have so': "sc_op_queue (so_scheduler so') = []" "so_started so' = so_started so" "so_reactor_data so' = None"
    using run_all_posted [of "socket_close so", OF refl] closed by (simp_all add: so'_def)
  have "socket_reachable so'"
    unfolding so'_def by (intro reachable_runs socket_reachable.step [OF assms(1)] socket_step.Close)
  then have "socket_inv so'" by (rule socket_reachable_inv)
  then have "mset (sc_finished (so_scheduler so')) = mset (sc_completed (so_scheduler so'))"
    "mset (map ticket (so_started so)) = mset (map ticket (sc_finished (so_scheduler so')))"
    "sc_outstanding_work (so_scheduler so') = 0"
    using so' by (simp_all add: socket_inv_def reactor_inv_def)
  moreover have "map ro_id ops = map fst (map ticket ops)" for ops
    by (simp add: ticket_def)
  ultimately have "mset (map ro_id (sc_completed (so_scheduler so'))) = mset (map ro_id (so_started so))"
    by (metis mset_map)
  then show ?thesis using closed(1) \<open>sc_outstanding_work (so_scheduler so') = 0\<close> by (simp add: so'_def)
qed

theorem closing_completes_operations_witness:
  "\<exists>so. length (queue_of so Read_op) = 1 \<and>
     sc_op_queue (so_scheduler (socket_close so)) =
       sc_op_queue (so_scheduler so) @ map aborted (queue_of so Read_op @ queue_of so Write_op)"
  using asio_demo_waiting closing_completes_operations by blast

end
