(* ===== verification/Asio_Accept.thy ===== *)
theory Asio_Accept
  imports Asio_Properties
begin

text \<open>
  Accepting and connecting with the network library: what becomes of the sockets that \<^verbatim>\<open>accept\<close>
  returned (\<^verbatim>\<open>detail/reactive_socket_accept_op.hpp\<close>, \<^verbatim>\<open>detail/socket_holder.hpp\<close>, \<^verbatim>\<open>do_assign\<close> of
  \<^verbatim>\<open>detail/impl/reactive_socket_service_base.ipp\<close>), and when a connect is said to have succeeded. The
  peer of an accept is not open before it completes, as the listeners of the proxy have a new one
  for each accept. What \<^verbatim>\<open>epoll_ctl\<close> answers for it is an argument.
\<close>

section \<open>Completing an accept\<close>

record peer_socket =
  pr_socket :: "nat option"
  pr_data :: "descriptor_state option"
  pr_stream :: bool
  pr_possible_dup :: bool

definition peer_new :: peer_socket where
  "peer_new = \<lparr>pr_socket = None, pr_data = None, pr_stream = False, pr_possible_dup = False\<rparr>"

definition do_assign :: "nat \<Rightarrow> nat \<Rightarrow> peer_socket \<Rightarrow> peer_socket \<times> error_code" where
  "do_assign errno native_socket impl =
     (let (ds, err) = register_descriptor errno; impl1 = impl\<lparr>pr_data := Some ds\<rparr>
      in if err \<noteq> 0 then (impl1, Some (Io_error err))
         else (impl1\<lparr>pr_socket := Some native_socket, pr_stream := True, pr_possible_dup := True\<rparr>, None))"

definition accept_do_assign :: "nat \<Rightarrow> reactor_op \<Rightarrow> peer_socket \<Rightarrow> reactor_op \<times> peer_socket" where
  "accept_do_assign errno o' peer =
     (case ro_new_socket o' of
        None \<Rightarrow> (o', peer)
      | Some new_socket \<Rightarrow>
          let (peer1, ec) = do_assign errno new_socket peer; o1 = o'\<lparr>ro_ec := ec\<rparr>
          in if ec = None then (o1\<lparr>ro_new_socket := None\<rparr>, peer1) else (o1, peer1))"

text \<open>The descriptors that the destructor of a holder closes.\<close>

definition holder_destroy :: "nat option \<Rightarrow> nat list" where
  "holder_destroy holder = (case holder of None \<Rightarrow> [] | Some fd \<Rightarrow> [fd])"

text \<open>What the handler is given, if it is called, and the descriptors that were closed when the
  operation was freed. Without an owner the operation is destroyed only.\<close>

definition accept_do_complete ::
  "bool \<Rightarrow> nat \<Rightarrow> reactor_op \<Rightarrow> peer_socket \<Rightarrow> (error_code \<times> peer_socket) option \<times> nat list"
where
  "accept_do_complete owner errno o' peer =
     (let (o1, peer1) = (if owner then accept_do_assign errno o' peer else (o', peer))
      in (if owner then Some (ro_ec o1, peer1) else None, holder_destroy (ro_new_socket o1)))"

section \<open>A listener\<close>

text \<open>The listening socket, what the handlers of its accepts were given, the open descriptors that
  peers own, and the descriptors closed.\<close>

record accept_system =
  ay_socket :: async_socket
  ay_results :: "(error_code \<times> peer_socket) list"
  ay_peers :: "nat list"
  ay_closed :: "nat list"

definition accept_system_new :: accept_system where
  "accept_system_new = \<lparr>ay_socket = async_socket_new, ay_results = [], ay_peers = [], ay_closed = []\<rparr>"

definition is_accept :: "reactor_op \<Rightarrow> bool" where
  "is_accept o' \<longleftrightarrow> (case ro_kind o' of Accept aborts \<Rightarrow> True | _ \<Rightarrow> False)"

definition complete_accept :: "(nat \<Rightarrow> nat) \<Rightarrow> reactor_op \<Rightarrow> accept_system \<Rightarrow> accept_system" where
  "complete_accept errno o' y =
     (if is_accept o'
      then case accept_do_complete True (errno (ro_id o')) o' peer_new of
             (None, closed) \<Rightarrow> y\<lparr>ay_closed := ay_closed y @ closed\<rparr>
           | (Some (ec, peer), closed) \<Rightarrow>
               y\<lparr>ay_results := ay_results y @ [(ec, peer)],
                 ay_peers := ay_peers y @ holder_destroy (pr_socket peer),
                 ay_closed := ay_closed y @ closed\<rparr>
      else y)"

definition completed_now :: "async_socket \<Rightarrow> async_socket \<Rightarrow> reactor_op list" where
  "completed_now so so' = drop (length (sc_completed (so_scheduler so))) (sc_completed (so_scheduler so'))"

text \<open>The reactor, and the owner of a peer, who closes it, in any order.\<close>

inductive accept_step :: "accept_system \<Rightarrow> accept_system \<Rightarrow> bool" where
  Reactor: "socket_step (ay_socket y) so' \<Longrightarrow>
     accept_step y (fold (complete_accept errno) (completed_now (ay_socket y) so') (y\<lparr>ay_socket := so'\<rparr>))"
| Peer: "fd \<in> set (ay_peers y) \<Longrightarrow>
     accept_step y (y\<lparr>ay_peers := remove1 fd (ay_peers y), ay_closed := ay_closed y @ [fd]\<rparr>)"

inductive accept_reachable :: "accept_system \<Rightarrow> bool" where
  init: "accept_reachable accept_system_new"
| step: "accept_reachable y \<Longrightarrow> accept_step y y' \<Longrightarrow> accept_reachable y'"

text \<open>All descriptors that calls of \<^verbatim>\<open>accept\<close> returned, and those that accepts hold whose handlers wait.\<close>

definition accepted :: "async_socket \<Rightarrow> nat list" where
  "accepted so =
     concat (map (\<lambda>o'. returned (ro_calls o'))
       (filter is_accept (sc_finished (so_scheduler so) @ queue_of so Read_op)))"

definition held :: "async_socket \<Rightarrow> nat list" where
  "held so =
     concat (map (\<lambda>o'. holder_destroy (ro_new_socket o')) (filter is_accept (sc_op_queue (so_scheduler so))))"

section \<open>Accounting\<close>

lemma completed_grows:
  assumes "socket_step so so'"
  shows "\<exists>new. sc_completed (so_scheduler so') = sc_completed (so_scheduler so) @ new"
proof -
  have start: "sc_completed (so_scheduler so2) = sc_completed (so_scheduler so1)"
    if "socket_start_op t sa b noop o' so1 = Some so2" for t sa b noop o' so1 so2
    using that
    by (auto simp: socket_start_op_def set_internal_non_blocking_def reactor_start_op_def start_waiting_def enqueue_op_def
        fail_op_def post_immediate_completion_def work_started_def Let_def
        split: if_splits option.splits prod.splits)
  have connect: "sc_completed (so_scheduler so2) = sc_completed (so_scheduler so1)"
    if "start_connect_op l sa r o' so1 = Some so2" for l sa r o' so1 so2
    using that
    by (auto simp: start_connect_op_def set_internal_non_blocking_def reactor_start_op_def start_waiting_def enqueue_op_def
        fail_op_def post_immediate_completion_def work_started_def Let_def
        split: if_splits option.splits prod.splits)
  from assms show ?thesis
  proof cases
    case (Start i kind sa key)
    then show ?thesis using start by (fastforce simp: async_transfer_def Let_def)
  next
    case (Accept i aborts key sa)
    then show ?thesis using start by (fastforce simp: async_accept_def start_accept_op_def Let_def)
  next
    case (Connect i r is_local key sa)
    then show ?thesis using connect by (fastforce simp: async_connect_def Let_def)
  next
    case (Event answers events)
    then show ?thesis
      by (auto simp: socket_event_def complete_first_def post_deferred_completions_def Let_def
        split: option.splits list.splits)
  qed (auto simp: do_open_def socket_cancel_def cancel_ops_def socket_cancel_by_key_def cancel_ops_by_key_def socket_close_def construct_def deregister_descriptor_def
      post_deferred_completions_def socket_run_one_def do_run_one_def Let_def
      split: prod.splits option.splits list.splits if_splits)
qed

lemma completed_now: 
  "socket_step so so' \<Longrightarrow>
   sc_completed (so_scheduler so') = sc_completed (so_scheduler so) @ completed_now so so'"
  using completed_grows by (fastforce simp: completed_now_def)

text \<open>A handler is given a socket exactly when it is not given an error.\<close>

definition results_ok :: "accept_system \<Rightarrow> bool" where
  "results_ok y \<longleftrightarrow> (\<forall>(ec, peer) \<in> set (ay_results y). ec = None \<longleftrightarrow> pr_socket peer \<noteq> None)"

definition sockets_of :: "reactor_op list \<Rightarrow> nat list" where
  "sockets_of ops = concat (map (\<lambda>o'. holder_destroy (ro_new_socket o')) (filter is_accept ops))"

definition owned :: "accept_system \<Rightarrow> nat multiset" where
  "owned y = mset (ay_peers y) + mset (ay_closed y)"

lemma sockets_of_simps [simp]:
  "sockets_of [] = []"
  "sockets_of (o' # ops) = (if is_accept o' then holder_destroy (ro_new_socket o') else []) @ sockets_of ops"
  "sockets_of (xs @ ys) = sockets_of xs @ sockets_of ys"
  by (simp_all add: sockets_of_def)

lemma holder_destroy_simps [simp]: "holder_destroy None = []" "holder_destroy (Some fd) = [fd]"
  by (simp_all add: holder_destroy_def)

text \<open>A completion hands a socket to the peer or closes it.\<close>

lemma complete_accept_ok:
  assumes "op_result_ok o'" "results_ok y"
  shows "owned (complete_accept errno o' y) = owned y + mset (sockets_of [o'])"
    "results_ok (complete_accept errno o' y)" "ay_socket (complete_accept errno o' y) = ay_socket y"
proof -
  have "owned (complete_accept errno o' y) = owned y + mset (sockets_of [o']) \<and>
    results_ok (complete_accept errno o' y) \<and> ay_socket (complete_accept errno o' y) = ay_socket y"
  proof (cases "is_accept o'")
    case True
    then have ec: "ro_ec o' = None \<longleftrightarrow> ro_new_socket o' \<noteq> None"
      using assms(1) by (auto simp: is_accept_def op_result_ok_def kind_result_ok_def split: op_kind.splits)
    obtain ds err where reg: "register_descriptor (errno (ro_id o')) = (ds, err)" by fastforce
    show ?thesis using True ec assms(2)
      by (cases "ro_new_socket o'")
        (auto simp: complete_accept_def accept_do_complete_def accept_do_assign_def do_assign_def reg Let_def
          owned_def results_ok_def peer_new_def)
  qed (use assms(2) in \<open>simp add: complete_accept_def\<close>)
  then show "owned (complete_accept errno o' y) = owned y + mset (sockets_of [o'])"
    "results_ok (complete_accept errno o' y)" "ay_socket (complete_accept errno o' y) = ay_socket y" by simp_all
qed

lemma complete_accepts_ok:
  assumes "\<forall>o' \<in> set ops. op_result_ok o'" "results_ok y"
  shows "owned (fold (complete_accept errno) ops y) = owned y + mset (sockets_of ops) \<and>
    results_ok (fold (complete_accept errno) ops y) \<and> ay_socket (fold (complete_accept errno) ops y) = ay_socket y"
  using assms
proof (induction ops arbitrary: y)
  case (Cons o' ops)
  then show ?case
    using complete_accept_ok [of o' y errno] Cons.IH [of "complete_accept errno o' y"] by simp
qed simp

definition accept_inv :: "accept_system \<Rightarrow> bool" where
  "accept_inv y \<longleftrightarrow> socket_reachable (ay_socket y) \<and> results_ok y \<and>
     owned y = mset (sockets_of (sc_completed (so_scheduler (ay_socket y))))"

lemma accept_reachable_inv: "accept_reachable y \<Longrightarrow> accept_inv y"
proof (induction rule: accept_reachable.induct)
  case init
  then show ?case
    using socket_reachable.init
    by (simp add: accept_inv_def accept_system_new_def results_ok_def owned_def async_socket_new_def scheduler_new_def)
next
  case (step y y')
  from step(2) show ?case
  proof cases
    case (Reactor so' errno)
    have reach: "socket_reachable so'"
      using step.IH Reactor(2) by (auto simp: accept_inv_def intro: socket_reachable.step)
    note now = completed_now [OF Reactor(2)]
    have "\<forall>o' \<in> set (completed_now (ay_socket y) so'). op_result_ok o'"
      using reachable_completed_ok [OF reach] by (simp add: now)
    moreover have "results_ok (y\<lparr>ay_socket := so'\<rparr>)" using step.IH by (simp add: accept_inv_def results_ok_def)
    moreover have "owned (y\<lparr>ay_socket := so'\<rparr>) = owned y" by (simp add: owned_def)
    ultimately show ?thesis
      using complete_accepts_ok [of "completed_now (ay_socket y) so'" "y\<lparr>ay_socket := so'\<rparr>" errno]
        step.IH reach now Reactor(1) by (simp add: accept_inv_def)
  next
    case (Peer fd)
    then have "owned y' = owned y" by (simp add: owned_def)
    then show ?thesis using step.IH Peer(1) by (simp add: accept_inv_def results_ok_def)
  qed
qed

text \<open>What the calls returned is what the operations held when they were done.\<close>

lemma accepted_finished:
  assumes "socket_reachable so"
  shows "accepted so = sockets_of (sc_finished (so_scheduler so))"
proof -
  have inv: "socket_inv so" by (rule socket_reachable_inv [OF assms])
  have fin: "returned (ro_calls o') = holder_destroy (ro_new_socket o')" if "is_accept o'" "op_result_ok o'" for o'
    using that by (auto simp: is_accept_def op_result_ok_def kind_result_ok_def holder_destroy_def split: op_kind.splits)
  have "map (\<lambda>o'. returned (ro_calls o')) (filter is_accept (sc_finished (so_scheduler so))) =
      map (\<lambda>o'. holder_destroy (ro_new_socket o')) (filter is_accept (sc_finished (so_scheduler so)))"
    using inv fin by (auto simp: socket_inv_def reactor_inv_def)
  moreover have waits: "returned (ro_calls o') = []" if "o' \<in> set (queue_of so Read_op)" "is_accept o'" for o'
    using inv that
    by (auto simp: is_accept_def socket_inv_def reactor_inv_def data_ok_def waiting_def queue_of_def fresh_op_def kind_fresh_def
      split: option.splits op_kind.splits)
  moreover have "concat (map (\<lambda>o'. returned (ro_calls o')) (filter is_accept (queue_of so Read_op))) = []"
    using waits by auto
  ultimately show ?thesis by (simp only: accepted_def sockets_of_def filter_append map_append concat_append append_Nil2)
qed

lemma mset_sockets_of: "mset xs = mset ys + mset zs \<Longrightarrow> mset (sockets_of xs) = mset (sockets_of ys) + mset (sockets_of zs)"
proof -
  have s: "mset (sockets_of ops) = \<Sum>\<^sub># (image_mset (\<lambda>o'. mset (sockets_of [o'])) (mset ops))" for ops
    by (induction ops) simp_all
  show "mset xs = mset ys + mset zs \<Longrightarrow> ?thesis" by (simp add: s)
qed

section \<open>Runs\<close>

text \<open>Two accepts: a signal interrupts the first, which then returns descriptor 7 at once; the second
  waits for an event, which brings a connection that was aborted, and then one that is descriptor 8.
  The reactor of the second peer has no room.\<close>

definition accept_answers :: "sys_result list \<Rightarrow> start_answers" where
  "accept_answers rs = \<lparr>sa_ioctl = 0, sa_epoll_ctl = 0, sa_attempt = rs\<rparr>"

definition accept_run1 :: "async_socket option" where
  "accept_run1 = async_accept 0 False None (accept_answers [Failed 4, Returned 7 []]) (do_open True 0 async_socket_new)"

definition accept_run2 :: "async_socket \<Rightarrow> async_socket option" where
  "accept_run2 so = async_accept 1 False None (accept_answers [Failed 11]) so"

definition accept_run3 :: "async_socket \<Rightarrow> async_socket option" where
  "accept_run3 so = socket_event EPOLLIN (\<lambda>t. [[Failed 103]]) so"

definition accept_run4 :: "async_socket \<Rightarrow> async_socket option" where
  "accept_run4 so = socket_event EPOLLIN (\<lambda>t. [[Returned 8 []]]) so"

lemmas accept_eval = asio_eval async_accept_def start_accept_op_def accept_do_perform_def accept_answers_def
  connection_aborted_def epoll_flags Let_def queue_of_def all_op_types

definition first_accept :: reactor_op where
  "first_accept = (reactor_op_new 0 (Accept False) True None)
     \<lparr>ro_new_socket := Some 7, ro_calls := [Failed 4, Returned 7 []]\<rparr>"

definition second_accept :: reactor_op where
  "second_accept = (reactor_op_new 1 (Accept False) True None)
     \<lparr>ro_new_socket := Some 8, ro_calls := [Failed 11, Failed 103, Returned 8 []]\<rparr>"

lemma accept_runs:
  "\<exists>so1 so2 so3 so4. accept_run1 = Some so1 \<and> accept_run2 so1 = Some so2 \<and> accept_run3 so2 = Some so3 \<and>
     accept_run4 so3 = Some so4 \<and> ro_id ` set (so_started so1) = {0} \<and>
     sc_completed (so_scheduler so1) = [] \<and> sc_completed (so_scheduler so2) = [] \<and>
     sc_completed (so_scheduler so3) = [] \<and> length (queue_of so3 Read_op) = 1 \<and>
     (\<forall>t. attempts_ok [[Failed 103]] (queue_of so2 t)) \<and> (\<forall>t. attempts_ok [[Returned 8 []]] (queue_of so3 t)) \<and>
     sc_completed (so_scheduler so4) = [second_accept] \<and> sc_op_queue (so_scheduler so4) = [first_accept] \<and>
     sc_finished (so_scheduler so4) = [first_accept, second_accept] \<and> queue_of so4 Read_op = []"
  by (simp add: accept_run1_def accept_run2_def accept_run3_def accept_run4_def first_accept_def second_accept_def accept_eval)

lemmas complete_eval = complete_accept_def accept_do_complete_def accept_do_assign_def do_assign_def
  register_descriptor_def is_accept_def reactor_op_new_def accept_system_new_def peer_new_def Let_def

definition no_room_for_1 :: "nat \<Rightarrow> nat" where
  "no_room_for_1 i = (if i = 1 then 28 else 0)"

text \<open>A step of the reactor in which no handler runs.\<close>

lemma quiet_step:
  assumes "accept_reachable (accept_system_new\<lparr>ay_socket := so\<rparr>)" "socket_step so so'"
    "sc_completed (so_scheduler so') = []"
  shows "accept_reachable (accept_system_new\<lparr>ay_socket := so'\<rparr>)"
proof -
  have "completed_now so so' = []" using assms(3) by (simp add: completed_now_def)
  then show ?thesis
    using accept_reachable.step [OF assms(1) Reactor [of _ so' no_room_for_1]] assms(2) by simp
qed

lemma accept_demo:
  "\<exists>y. accept_reachable y \<and> accepted (ay_socket y) = [7, 8] \<and> held (ay_socket y) = [] \<and>
     ay_peers y = [7] \<and> ay_closed y = [8] \<and> map fst (ay_results y) = [Some (Io_error 28), None]"
proof -
  obtain so1 so2 so3 so4 where so: "accept_run1 = Some so1" "accept_run2 so1 = Some so2" "accept_run3 so2 = Some so3"
    "accept_run4 so3 = Some so4" "ro_id ` set (so_started so1) = {0}"
    and quiet: "sc_completed (so_scheduler so1) = []" "sc_completed (so_scheduler so2) = []"
     "sc_completed (so_scheduler so3) = []"
    and answers: "\<forall>t. attempts_ok [[Failed 103]] (queue_of so2 t)" "\<forall>t. attempts_ok [[Returned 8 []]] (queue_of so3 t)"
    and last: "sc_completed (so_scheduler so4) = [second_accept]" "sc_op_queue (so_scheduler so4) = [first_accept]"
      "sc_finished (so_scheduler so4) = [first_accept, second_accept]" "queue_of so4 Read_op = []"
    using accept_runs by (elim exE conjE)
  have fresh: "accept_reachable (accept_system_new\<lparr>ay_socket := async_socket_new\<rparr>)"
    using accept_reachable.init by (simp add: accept_system_new_def)
  have "accept_reachable (accept_system_new\<lparr>ay_socket := do_open True 0 async_socket_new\<rparr>)"
    by (rule quiet_step [OF fresh Open])
      (simp add: do_open_def async_socket_new_def scheduler_new_def Let_def split: prod.split)
  then have "accept_reachable (accept_system_new\<lparr>ay_socket := so1\<rparr>)"
    by (rule quiet_step [OF _ Accept [OF _ so(1) [unfolded accept_run1_def]] quiet(1)])
      (simp add: do_open_def async_socket_new_def Let_def split: prod.split)
  then have "accept_reachable (accept_system_new\<lparr>ay_socket := so2\<rparr>)"
    by (rule quiet_step [OF _ Accept [OF _ so(2) [unfolded accept_run2_def]] quiet(2)]) (simp add: so(5))
  then have "accept_reachable (accept_system_new\<lparr>ay_socket := so3\<rparr>)"
    by (rule quiet_step [OF _ Event [OF answers(1) so(3) [unfolded accept_run3_def]] quiet(3)])
  moreover have "socket_step so3 so4" by (rule Event [OF answers(2) so(4) [unfolded accept_run4_def]])
  ultimately have y4: "accept_reachable (fold (complete_accept no_room_for_1) (completed_now so3 so4)
      (accept_system_new\<lparr>ay_socket := so4\<rparr>))" (is "accept_reachable ?y4")
    using accept_reachable.step [OF _ Reactor [of "accept_system_new\<lparr>ay_socket := so3\<rparr>" so4 no_room_for_1]] by simp
  let ?peer = "fst (do_assign 28 8 peer_new)" and ?peer' = "fst (do_assign 0 7 peer_new)"
  have c4: "?y4 = accept_system_new\<lparr>ay_socket := so4, ay_results := [(Some (Io_error 28), ?peer)], ay_closed := [8]\<rparr>"
    using quiet(3) last(1)
    by (simp add: completed_now_def second_accept_def complete_eval no_room_for_1_def)
  have "accept_reachable (fold (complete_accept no_room_for_1) (completed_now so4 (socket_run_one so4))
      (?y4\<lparr>ay_socket := socket_run_one so4\<rparr>))" (is "accept_reachable ?y5")
    using accept_reachable.step [OF y4 Reactor [of ?y4 "socket_run_one so4" no_room_for_1]] Run [of so4] c4 by simp
  moreover have "?y5 = accept_system_new\<lparr>ay_socket := socket_run_one so4,
      ay_results := [(Some (Io_error 28), ?peer), (None, ?peer')], ay_peers := [7], ay_closed := [8]\<rparr>"
    unfolding c4 using last(1,2)
    by (simp add: completed_now_def first_accept_def complete_eval socket_run_one_def do_run_one_def no_room_for_1_def)
  moreover have "accepted (socket_run_one so4) = [7, 8]" "held (socket_run_one so4) = []"
    using last by (simp_all add: accepted_def held_def socket_run_one_def do_run_one_def queue_of_def is_accept_def
        first_accept_def second_accept_def reactor_op_new_def)
  ultimately show ?thesis by (intro exI [of _ ?y5]) simp
qed

text \<open>A connect on a local socket that fails with \<open>e\<close> at first, is not ready at the first event, and is
  ready without an error at the second.\<close>

definition connect_run1 :: "nat \<Rightarrow> async_socket option" where
  "connect_run1 e = async_connect 0 True None (accept_answers []) (Failed e) (do_open True 0 async_socket_new)"

definition connect_run2 :: "async_socket \<Rightarrow> async_socket option" where
  "connect_run2 so = socket_event EPOLLOUT (\<lambda>t. [[Returned 0 []]]) so"

definition connect_run3 :: "async_socket \<Rightarrow> async_socket option" where
  "connect_run3 so = socket_event EPOLLOUT (\<lambda>t. [[Returned 1 [], Returned 0 []]]) so"

definition connect_done :: "nat \<Rightarrow> reactor_op" where
  "connect_done e = (reactor_op_new 0 Connect True None)
     \<lparr>ro_calls := [Failed e, Returned 0 [], Returned 1 [], Returned 0 []]\<rparr>"

lemma connect_runs:
  assumes "e = 11 \<or> e = 115"
  shows "\<exists>so1 so2 so3. connect_run1 e = Some so1 \<and> connect_run2 so1 = Some so2 \<and> connect_run3 so2 = Some so3 \<and>
     (\<forall>t. attempts_ok [[Returned 0 []]] (queue_of so1 t)) \<and>
     (\<forall>t. attempts_ok [[Returned 1 [], Returned 0 []]] (queue_of so2 t)) \<and>
     sc_completed (so_scheduler so3) = [connect_done e]"
  using assms
  by (auto simp: connect_run1_def connect_run2_def connect_run3_def connect_done_def accept_eval async_connect_def
    start_connect_op_def connect_do_perform_def in_progress_def try_again_def)

lemma connect_demo:
  assumes "e = 11 \<or> e = 115"
  shows "\<exists>so. socket_reachable so \<and> connect_done e \<in> set (sc_completed (so_scheduler so))"
proof -
  obtain so1 so2 so3 where so: "connect_run1 e = Some so1" "connect_run2 so1 = Some so2" "connect_run3 so2 = Some so3"
    and answers: "\<forall>t. attempts_ok [[Returned 0 []]] (queue_of so1 t)"
      "\<forall>t. attempts_ok [[Returned 1 [], Returned 0 []]] (queue_of so2 t)"
    and last: "sc_completed (so_scheduler so3) = [connect_done e]"
    using connect_runs [OF assms] by (elim exE conjE)
  have "socket_reachable (do_open True 0 async_socket_new)"
    using socket_reachable.step [OF socket_reachable.init Open] .
  then have "socket_reachable so1"
    by (rule socket_reachable.step) (rule Connect [OF _ _ so(1) [unfolded connect_run1_def]],
      simp_all add: do_open_def async_socket_new_def queue_of_def register_descriptor_def Let_def)
  then have "socket_reachable so2"
    by (rule socket_reachable.step) (rule Event [OF answers(1) so(2) [unfolded connect_run2_def]])
  then have "socket_reachable so3"
    by (rule socket_reachable.step) (rule Event [OF answers(2) so(3) [unfolded connect_run3_def]])
  then show ?thesis using last by (intro exI [of _ so3]) simp
qed

section \<open>Properties\<close>

text \<open>C22. No accepted connection is lost or closed twice: under every schedule of accepts, events, signals,
  aborted connections, cancelling, closing the listener, failures to register a peer, and peers
  closed by their owners, every descriptor that a call of \<^verbatim>\<open>accept\<close> returned is exactly once either
  held by an accept whose handler waits, owned by the peer that a handler was given, or closed;
  and a handler is given an open peer exactly when it is given no error.\<close>

theorem accepted_sockets_accounted:
  assumes "accept_reachable y"
  shows "mset (accepted (ay_socket y)) = mset (held (ay_socket y)) + mset (ay_peers y) + mset (ay_closed y) \<and>
    (\<forall>(ec, peer) \<in> set (ay_results y). ec = None \<longleftrightarrow> pr_socket peer \<noteq> None)"
proof -
  have inv: "accept_inv y" by (rule accept_reachable_inv [OF assms])
  then have "socket_inv (ay_socket y)" by (simp add: accept_inv_def socket_reachable_inv)
  then have "mset (sockets_of (sc_finished (so_scheduler (ay_socket y)))) =
      mset (sockets_of (sc_completed (so_scheduler (ay_socket y)))) +
      mset (sockets_of (sc_op_queue (so_scheduler (ay_socket y))))"
    by (intro mset_sockets_of) (simp add: socket_inv_def reactor_inv_def)
  then show ?thesis using inv
    by (simp add: accept_inv_def accepted_finished results_ok_def owned_def held_def sockets_of_def ac_simps)
qed

theorem accepted_sockets_accounted_witness:
  "\<exists>y :: accept_system. ay_peers y = [7] \<and> ay_closed y = [8] \<and> held (ay_socket y) = [] \<and>
     mset (accepted (ay_socket y)) = {#7, 8#}"
proof -
  obtain y where y: "accept_reachable y" "held (ay_socket y) = []" "ay_peers y = [7]" "ay_closed y = [8]"
    using accept_demo by blast
  then have "mset (accepted (ay_socket y)) = {#7, 8#}" using accepted_sockets_accounted [OF y(1)] by simp
  then show ?thesis using y by blast
qed

text \<open>C23. A connect completes with success only if the system made the connection known: the call of
  \<^verbatim>\<open>connect\<close> succeeded, or it could not end at once, and later, after any number of events that
  were not meant for it, the socket was ready and \<^verbatim>\<open>SO_ERROR\<close> was 0.\<close>

theorem connect_success_is_reported:
  assumes "socket_reachable so" "o' \<in> set (sc_completed (so_scheduler so))" "ro_kind o' = Connect" "ro_ec o' = None"
  shows "connected (ro_calls o')"
  using reachable_completed_ok [OF assms(1,2)] assms(3,4) by (simp add: op_result_ok_def kind_result_ok_def)

theorem connect_success_is_reported_witness:
  "connected [Failed 115, Returned 0 [], Returned 1 [], Returned 0 []]"
proof -
  obtain so where "socket_reachable so" "connect_done 115 \<in> set (sc_completed (so_scheduler so))"
    using connect_demo [of 115] by blast
  from connect_success_is_reported [OF this] show ?thesis by (simp add: connect_done_def reactor_op_new_def)
qed

text \<open>What the system answers to \<^verbatim>\<open>connect\<close> on a local socket whose listener has no room, \<^verbatim>\<open>EAGAIN\<close>, is
  taken for a connection in progress. The socket is not connected then, but it is ready and has no
  error, and the connect completes with success.\<close>

lemma full_backlog_connects:
  "\<exists>so o'. socket_reachable so \<and> o' \<in> set (sc_completed (so_scheduler so)) \<and> ro_kind o' = Connect \<and>
     ro_ec o' = None \<and> hd (ro_calls o') = Failed 11"
proof -
  obtain so where "socket_reachable so" "connect_done 11 \<in> set (sc_completed (so_scheduler so))"
    using connect_demo [of 11] by blast
  then show ?thesis
    by (intro exI [of _ so] exI [of _ "connect_done 11"]) (simp add: connect_done_def reactor_op_new_def)
qed

end
