(* ===== verification/Asio_Timer_Queue.thy ===== *)
theory Asio_Timer_Queue
  imports Session
begin

text \<open>
  The queue of timers of the network library, \<^verbatim>\<open>detail/timer_queue.hpp\<close> under
  \<^verbatim>\<open>src/3party/asio-1.24.0/include/asio/\<close>: a binary heap by expiry time whose entries point to
  the timers, each timer knows its position in the heap, and a doubly linked list of the timers
  in use. A timer is a number, its \<^verbatim>\<open>per_timer_data\<close> is found in a store, and a null pointer is
  \<open>None\<close>. Times are numbers of nanoseconds and never infinite, as those of
  \<^verbatim>\<open>steady_clock\<close>; positions in the heap are natural numbers. An \<^verbatim>\<open>op_queue\<close> is the list of its
  operations.
\<close>

section \<open>State\<close>

record wait_op =
  wo_id :: nat
  wo_key :: "nat option"
  wo_ec :: error_code

record per_timer_data =
  pt_op_queue :: "wait_op list"
  pt_heap_index :: nat
  pt_next :: "nat option"
  pt_prev :: "nat option"

record heap_entry =
  he_time :: int
  he_timer :: nat

record timer_queue =
  tq_timers :: "nat option"
  tq_heap :: "heap_entry list"
  tq_data :: "nat \<Rightarrow> per_timer_data"

text \<open>\<^verbatim>\<open>(std::numeric_limits<std::size_t>::max)()\<close>.\<close>

definition no_index :: nat where
  "no_index = 2 ^ 64 - 1"

definition per_timer_data_new :: per_timer_data where
  "per_timer_data_new = \<lparr>pt_op_queue = [], pt_heap_index = no_index, pt_next = None, pt_prev = None\<rparr>"

definition timer_queue_new :: timer_queue where
  "timer_queue_new = \<lparr>tq_timers = None, tq_heap = [], tq_data = (\<lambda>_. per_timer_data_new)\<rparr>"

text \<open>Assigning to a member of a timer.\<close>

definition upd_timer :: "nat \<Rightarrow> (per_timer_data \<Rightarrow> per_timer_data) \<Rightarrow> timer_queue \<Rightarrow> timer_queue" where
  "upd_timer t f q = q\<lparr>tq_data := (tq_data q)(t := f (tq_data q t))\<rparr>"

definition set_heap_index :: "nat \<Rightarrow> nat \<Rightarrow> timer_queue \<Rightarrow> timer_queue" where
  "set_heap_index t i q = upd_timer t (\<lambda>d. d\<lparr>pt_heap_index := i\<rparr>) q"

definition set_next :: "nat \<Rightarrow> nat option \<Rightarrow> timer_queue \<Rightarrow> timer_queue" where
  "set_next t p q = upd_timer t (\<lambda>d. d\<lparr>pt_next := p\<rparr>) q"

definition set_prev :: "nat \<Rightarrow> nat option \<Rightarrow> timer_queue \<Rightarrow> timer_queue" where
  "set_prev t p q = upd_timer t (\<lambda>d. d\<lparr>pt_prev := p\<rparr>) q"

definition set_ops :: "nat \<Rightarrow> wait_op list \<Rightarrow> timer_queue \<Rightarrow> timer_queue" where
  "set_ops t ops q = upd_timer t (\<lambda>d. d\<lparr>pt_op_queue := ops\<rparr>) q"

text \<open>The constructor of the data of a timer.\<close>

definition construct_timer :: "nat \<Rightarrow> timer_queue \<Rightarrow> timer_queue" where
  "construct_timer t q = upd_timer t (\<lambda>_. per_timer_data_new) q"

text \<open>The test for a timer that is in use.\<close>

definition in_use :: "nat \<Rightarrow> timer_queue \<Rightarrow> bool" where
  "in_use t q \<longleftrightarrow> pt_prev (tq_data q t) \<noteq> None \<or> tq_timers q = Some t"

section \<open>The heap\<close>

definition swap_heap :: "nat \<Rightarrow> nat \<Rightarrow> timer_queue \<Rightarrow> timer_queue" where
  "swap_heap i j q =
     (let tmp = tq_heap q ! i;
          h = (tq_heap q)[i := tq_heap q ! j];
          h = h[j := tmp]
      in set_heap_index (he_timer (h ! j)) j
           (set_heap_index (he_timer (h ! i)) i (q\<lparr>tq_heap := h\<rparr>)))"

lemma swap_heap_length [simp]: "length (tq_heap (swap_heap i j q)) = length (tq_heap q)"
  by (simp add: swap_heap_def set_heap_index_def upd_timer_def Let_def)

function up_heap :: "nat \<Rightarrow> timer_queue \<Rightarrow> timer_queue" where
  "up_heap i q =
     (if i > 0
      then let parent = (i - 1) div 2
           in if \<not> he_time (tq_heap q ! i) < he_time (tq_heap q ! parent) then q
              else up_heap parent (swap_heap i parent q)
      else q)"
  by pat_completeness auto
termination by (relation "measure fst") auto

function down_heap :: "nat \<Rightarrow> timer_queue \<Rightarrow> timer_queue" where
  "down_heap i q =
     (let child = i * 2 + 1
      in if child < length (tq_heap q)
         then let min_child =
                    (if child + 1 = length (tq_heap q) \<or>
                        he_time (tq_heap q ! child) < he_time (tq_heap q ! (child + 1))
                     then child else child + 1)
              in if he_time (tq_heap q ! i) < he_time (tq_heap q ! min_child) then q
                 else down_heap min_child (swap_heap i min_child q)
         else q)"
  by pat_completeness auto
termination by (relation "measure (\<lambda>(i, q). length (tq_heap q) - i)") (auto simp: Let_def)

declare up_heap.simps [simp del] down_heap.simps [simp del]

text \<open>The first half of \<^verbatim>\<open>remove_timer\<close>.\<close>

definition pop_back :: "timer_queue \<Rightarrow> timer_queue" where
  "pop_back q = q\<lparr>tq_heap := butlast (tq_heap q)\<rparr>"

definition remove_from_heap :: "nat \<Rightarrow> timer_queue \<Rightarrow> timer_queue" where
  "remove_from_heap t q =
     (let i = pt_heap_index (tq_data q t)
      in if tq_heap q \<noteq> [] \<and> i < length (tq_heap q)
         then if i = length (tq_heap q) - 1 then pop_back (set_heap_index t no_index q)
              else let q1 = pop_back (set_heap_index t no_index (swap_heap i (length (tq_heap q) - 1) q))
                   in if i > 0 \<and> he_time (tq_heap q1 ! i) < he_time (tq_heap q1 ! ((i - 1) div 2))
                      then up_heap i q1 else down_heap i q1
         else q)"

section \<open>The list of timers\<close>

definition unlink_timer :: "nat \<Rightarrow> timer_queue \<Rightarrow> timer_queue" where
  "unlink_timer t q =
     (let q = (if tq_timers q = Some t then q\<lparr>tq_timers := pt_next (tq_data q t)\<rparr> else q);
          q = (case pt_prev (tq_data q t) of None \<Rightarrow> q | Some p \<Rightarrow> set_next p (pt_next (tq_data q t)) q);
          q = (case pt_next (tq_data q t) of None \<Rightarrow> q | Some n \<Rightarrow> set_prev n (pt_prev (tq_data q t)) q)
      in set_prev t None (set_next t None q))"

definition remove_timer :: "nat \<Rightarrow> timer_queue \<Rightarrow> timer_queue" where
  "remove_timer t q = unlink_timer t (remove_from_heap t q)"

definition link_timer :: "nat \<Rightarrow> timer_queue \<Rightarrow> timer_queue" where
  "link_timer t q =
     (let q = set_prev t None (set_next t (tq_timers q) q);
          q = (case tq_timers q of None \<Rightarrow> q | Some h \<Rightarrow> set_prev h (Some t) q)
      in q\<lparr>tq_timers := Some t\<rparr>)"

section \<open>Operations\<close>

definition enqueue_timer :: "int \<Rightarrow> nat \<Rightarrow> wait_op \<Rightarrow> timer_queue \<Rightarrow> timer_queue \<times> bool" where
  "enqueue_timer time t op q =
     (let q = (if \<not> in_use t q
               then let q = set_heap_index t (length (tq_heap q)) q;
                        q = q\<lparr>tq_heap := tq_heap q @ [\<lparr>he_time = time, he_timer = t\<rparr>]\<rparr>
                    in link_timer t (up_heap (length (tq_heap q) - 1) q)
               else q);
          q = set_ops t (pt_op_queue (tq_data q t) @ [op]) q
      in (q, pt_heap_index (tq_data q t) = 0 \<and> wo_id (hd (pt_op_queue (tq_data q t))) = wo_id op))"

definition timers_empty :: "timer_queue \<Rightarrow> bool" where
  "timers_empty q \<longleftrightarrow> tq_timers q = None"

text \<open>Durations are nanoseconds; the division of a positive one cuts off.\<close>

definition to_msec :: "int \<Rightarrow> int \<Rightarrow> int" where
  "to_msec d max_duration =
     (if d \<le> 0 then 0
      else let msec = d div 1000000
           in if msec = 0 then 1 else if msec > max_duration then max_duration else msec)"

definition to_usec :: "int \<Rightarrow> int \<Rightarrow> int" where
  "to_usec d max_duration =
     (if d \<le> 0 then 0
      else let usec = d div 1000
           in if usec = 0 then 1 else if usec > max_duration then max_duration else usec)"

definition wait_duration_msec :: "int \<Rightarrow> int \<Rightarrow> timer_queue \<Rightarrow> int" where
  "wait_duration_msec now max_duration q =
     (if tq_heap q = [] then max_duration else to_msec (he_time (tq_heap q ! 0) - now) max_duration)"

definition wait_duration_usec :: "int \<Rightarrow> int \<Rightarrow> timer_queue \<Rightarrow> int" where
  "wait_duration_usec now max_duration q =
     (if tq_heap q = [] then max_duration else to_usec (he_time (tq_heap q ! 0) - now) max_duration)"

definition ready :: "wait_op \<Rightarrow> wait_op" where
  "ready op = op\<lparr>wo_ec := None\<rparr>"

text \<open>The loop takes the first entry as long as it is due; that it ends rests on the heap
  knowing the positions of its timers.\<close>

partial_function (option) get_ready_timers :: "int \<Rightarrow> timer_queue \<Rightarrow> (timer_queue \<times> wait_op list) option" where
  "get_ready_timers now q =
     (if tq_heap q \<noteq> [] \<and> \<not> now < he_time (tq_heap q ! 0)
      then let t = he_timer (tq_heap q ! 0);
               ops = map ready (pt_op_queue (tq_data q t))
           in Option.bind (get_ready_timers now (remove_timer t (set_ops t [] q)))
                (\<lambda>(q', more). Some (q', ops @ more))
      else Some (q, []))"

partial_function (option) get_all_loop :: "timer_queue \<Rightarrow> (timer_queue \<times> wait_op list) option" where
  "get_all_loop q =
     (case tq_timers q of
        None \<Rightarrow> Some (q, [])
      | Some t \<Rightarrow>
          let ops = pt_op_queue (tq_data q t);
              q1 = set_ops t [] (q\<lparr>tq_timers := pt_next (tq_data q t)\<rparr>)
          in Option.bind (get_all_loop (set_prev t None (set_next t None q1)))
               (\<lambda>(q', more). Some (q', ops @ more)))"

definition get_all_timers :: "timer_queue \<Rightarrow> (timer_queue \<times> wait_op list) option" where
  "get_all_timers q = map_option (\<lambda>(q', ops). (q'\<lparr>tq_heap := []\<rparr>, ops)) (get_all_loop q)"

definition cancelled :: "wait_op \<Rightarrow> wait_op" where
  "cancelled op = op\<lparr>wo_ec := Some (Io_error 125)\<rparr>"

text \<open>With the largest number of operations to cancel; the result has the operations and their
  number.\<close>

definition cancel_timer_ops :: "nat \<Rightarrow> nat \<Rightarrow> timer_queue \<Rightarrow> timer_queue \<times> wait_op list \<times> nat" where
  "cancel_timer_ops t max_cancelled q =
     (if in_use t q
      then let ops = take max_cancelled (pt_op_queue (tq_data q t));
               q = set_ops t (drop max_cancelled (pt_op_queue (tq_data q t))) q;
               q = (if pt_op_queue (tq_data q t) = [] then remove_timer t q else q)
           in (q, map cancelled ops, length ops)
      else (q, [], 0))"

fun split_wait_ops :: "nat \<Rightarrow> wait_op list \<Rightarrow> wait_op list \<times> wait_op list" where
  "split_wait_ops key [] = ([], [])"
| "split_wait_ops key (op # ops) =
     (let (hit, other) = split_wait_ops key ops
      in if wo_key op = Some key then (cancelled op # hit, other) else (hit, op # other))"

definition cancel_timer_by_key :: "nat \<Rightarrow> nat \<Rightarrow> timer_queue \<Rightarrow> timer_queue \<times> wait_op list" where
  "cancel_timer_by_key t key q =
     (if in_use t q
      then let (hit, other) = split_wait_ops key (pt_op_queue (tq_data q t));
               q = set_ops t other q
           in (if pt_op_queue (tq_data q t) = [] then remove_timer t q else q, hit)
      else (q, []))"

definition move_timer :: "nat \<Rightarrow> nat \<Rightarrow> timer_queue \<Rightarrow> timer_queue" where
  "move_timer target source q =
     (let q = set_ops target (pt_op_queue (tq_data q target) @ pt_op_queue (tq_data q source)) q;
          q = set_ops source [] q;
          q = set_heap_index target (pt_heap_index (tq_data q source)) q;
          q = set_heap_index source no_index q;
          i = pt_heap_index (tq_data q target);
          q = (if i < length (tq_heap q)
               then q\<lparr>tq_heap := (tq_heap q)[i := (tq_heap q ! i)\<lparr>he_timer := target\<rparr>]\<rparr> else q);
          q = (if tq_timers q = Some source then q\<lparr>tq_timers := Some target\<rparr> else q);
          q = (case pt_prev (tq_data q source) of None \<Rightarrow> q | Some p \<Rightarrow> set_next p (Some target) q);
          q = (case pt_next (tq_data q source) of None \<Rightarrow> q | Some n \<Rightarrow> set_prev n (Some target) q);
          q = set_next target (pt_next (tq_data q source)) q;
          q = set_prev target (pt_prev (tq_data q source)) q
      in set_prev source None (set_next source None q))"

end
