(* ===== verification/Asio_Timer_Inv.thy ===== *)
theory Asio_Timer_Inv
  imports Asio_Timer_Queue "HOL-Library.Multiset"
begin

text \<open>
  The invariant of the timer queue and the operations that keep it: the heap is ordered by
  expiry time, knows the positions of its timers, and holds the timers of the linked list.
\<close>

section \<open>Ordered heaps\<close>

definition parent :: "nat \<Rightarrow> nat" where
  "parent i = (i - 1) div 2"

definition below :: "heap_entry list \<Rightarrow> nat \<Rightarrow> bool" where
  "below h i \<longleftrightarrow> he_time (h ! parent i) \<le> he_time (h ! i)"

definition min_heap :: "heap_entry list \<Rightarrow> bool" where
  "min_heap h \<longleftrightarrow> (\<forall>i. 0 < i \<longrightarrow> i < length h \<longrightarrow> below h i)"

text \<open>The order holds but for the entry at \<open>k\<close> and its parent, or but for it and its children;
  in both cases its children are not below its parent.\<close>

definition around :: "nat \<Rightarrow> heap_entry list \<Rightarrow> bool" where
  "around k h \<longleftrightarrow> (\<forall>i. 0 < i \<longrightarrow> i < length h \<longrightarrow> parent i = k \<longrightarrow> 0 < k \<longrightarrow>
     he_time (h ! parent k) \<le> he_time (h ! i))"

definition up_ok :: "nat \<Rightarrow> heap_entry list \<Rightarrow> bool" where
  "up_ok k h \<longleftrightarrow> k < length h \<and> (\<forall>i. 0 < i \<longrightarrow> i < length h \<longrightarrow> i \<noteq> k \<longrightarrow> below h i) \<and> around k h"

definition down_ok :: "nat \<Rightarrow> heap_entry list \<Rightarrow> bool" where
  "down_ok k h \<longleftrightarrow> (\<forall>i. 0 < i \<longrightarrow> i < length h \<longrightarrow> parent i \<noteq> k \<longrightarrow> below h i) \<and> around k h"

definition swapped :: "nat \<Rightarrow> nat \<Rightarrow> 'a list \<Rightarrow> 'a list" where
  "swapped i j h = h[i := h ! j, j := h ! i]"

lemma parent_less [simp]: "0 < i \<Longrightarrow> parent i < i"
  by (simp add: parent_def)

lemma parent_eq: "0 < i \<Longrightarrow> parent i = k \<longleftrightarrow> i = 2 * k + 1 \<or> i = 2 * k + 2"
  unfolding parent_def by linarith

lemma swapped_length [simp]: "length (swapped i j h) = length h"
  by (simp add: swapped_def)

lemma swapped_nth:
  "i < length h \<Longrightarrow> j < length h \<Longrightarrow>
   swapped i j h ! k = (if k = i then h ! j else if k = j then h ! i else h ! k)"
  by (auto simp: swapped_def nth_list_update)

lemma swapped_mset: "i < length h \<Longrightarrow> j < length h \<Longrightarrow> mset (swapped i j h) = mset h"
  by (simp add: swapped_def mset_swap)

lemma up_step:
  assumes "up_ok k h" "0 < k" "he_time (h ! k) < he_time (h ! parent k)"
  shows "up_ok (parent k) (swapped k (parent k) h)"
proof -
  let ?p = "parent k" and ?h = "swapped k (parent k) h"
  have k: "k < length h" "?p < k" using assms by (simp_all add: up_ok_def)
  note nth = swapped_nth [of k h ?p]
  have b: "he_time (h ! parent i) \<le> he_time (h ! i)" if "0 < i" "i < length h" "i \<noteq> k" for i
    using assms(1) that by (simp add: up_ok_def below_def)
  have g: "he_time (h ! ?p) \<le> he_time (h ! i)" if "0 < i" "i < length h" "parent i = k" for i
    using assms(1,2) that by (simp add: up_ok_def around_def)
  have at: "?h ! k = h ! ?p" "?h ! ?p = h ! k" "j \<noteq> k \<Longrightarrow> j \<noteq> ?p \<Longrightarrow> ?h ! j = h ! j" for j
    using k by (simp_all add: nth)
  have "below ?h i" if i: "0 < i" "i < length h" "i \<noteq> ?p" for i
  proof -
    have ne: "parent i \<noteq> i" using parent_less [OF i(1)] by linarith
    consider "i = k" | "i \<noteq> k" "parent i = k" | "i \<noteq> k" "parent i = ?p" | "i \<noteq> k" "parent i \<noteq> k" "parent i \<noteq> ?p"
      by blast
    then have "he_time (?h ! parent i) \<le> he_time (?h ! i)"
    proof cases
      case 1
      then show ?thesis using at(1,2) assms(3) by simp
    next
      case 2
      then show ?thesis using at(1) at(3) [OF 2(1) i(3)] g [OF i(1,2)] by simp
    next
      case 3
      then show ?thesis using at(2) at(3) [OF 3(1) i(3)] b [OF i(1,2) 3(1)] assms(3) by simp
    next
      case 4
      then show ?thesis using at(3) [OF 4(1) i(3)] at(3) [OF 4(2,3)] b [OF i(1,2) 4(1)] by simp
    qed
    then show ?thesis by (simp add: below_def)
  qed
  moreover have "he_time (?h ! parent ?p) \<le> he_time (?h ! i)"
    if i: "0 < i" "i < length h" "parent i = ?p" "0 < ?p" for i
  proof -
    have pp: "parent ?p < ?p" using i(4) by simp
    have "i \<noteq> ?p" using i parent_less [OF i(1)] by linarith
    have "he_time (h ! parent ?p) \<le> he_time (h ! ?p)" using b [of ?p] i(4) k by simp
    moreover have "he_time (h ! ?p) \<le> he_time (?h ! i)"
    proof (cases "i = k")
      case True
      then show ?thesis using at(1) by simp
    next
      case False
      then show ?thesis using at(3) [OF False \<open>i \<noteq> ?p\<close>] b [OF i(1,2) False] i(3) by simp
    qed
    moreover have "?h ! parent ?p = h ! parent ?p" using at(3) [of "parent ?p"] pp k by simp
    ultimately show ?thesis by simp
  qed
  ultimately show ?thesis using k by (simp add: up_ok_def around_def)
qed

lemma up_stop:
  assumes "up_ok k h" "\<not> he_time (h ! k) < he_time (h ! parent k) \<or> k = 0"
  shows "min_heap h"
proof -
  have "below h i" if "0 < i" "i < length h" for i
    using assms that by (cases "i = k") (auto simp: up_ok_def below_def)
  then show ?thesis by (simp add: min_heap_def)
qed

lemma down_step:
  assumes "down_ok k h" "parent m = k" "0 < m" "m < length h" "he_time (h ! m) \<le> he_time (h ! k)"
    "\<And>i. 0 < i \<Longrightarrow> i < length h \<Longrightarrow> parent i = k \<Longrightarrow> he_time (h ! m) \<le> he_time (h ! i)"
  shows "down_ok m (swapped k m h)"
proof -
  let ?h = "swapped k m h"
  have k: "k < m" using parent_less [OF assms(3)] assms(2) by simp
  then have k': "k < length h" using assms(4) by simp
  note nth = swapped_nth [OF k' assms(4)]
  have b: "he_time (h ! parent i) \<le> he_time (h ! i)" if "0 < i" "i < length h" "parent i \<noteq> k" for i
    using assms(1) that by (simp add: down_ok_def below_def)
  have g: "he_time (h ! parent k) \<le> he_time (h ! m)" if "0 < k"
    using assms(1) that assms(2,3,4) unfolding down_ok_def around_def by blast
  have at: "?h ! k = h ! m" "?h ! m = h ! k" "j \<noteq> k \<Longrightarrow> j \<noteq> m \<Longrightarrow> ?h ! j = h ! j" for j
    using k by (simp_all add: nth)
  have "below ?h i" if i: "0 < i" "i < length h" "parent i \<noteq> m" for i
  proof -
    have ne: "parent i < i" using i(1) by simp
    consider "i = k" | "i = m" | "i \<noteq> k" "i \<noteq> m" "parent i = k" | "i \<noteq> k" "i \<noteq> m" "parent i \<noteq> k" by blast
    then have "he_time (?h ! parent i) \<le> he_time (?h ! i)"
    proof cases
      case 1
      then have "?h ! parent i = h ! parent i" using at(3) [of "parent i"] ne i(3) by simp
      then show ?thesis using 1 at(1) g i(1) by simp
    next
      case 2
      then show ?thesis using at(1,2) assms(2,5) by simp
    next
      case 3
      then show ?thesis using at(1) at(3) [OF 3(1,2)] assms(6) [OF i(1,2)] by simp
    next
      case 4
      then show ?thesis using at(3) [OF 4(1,2)] at(3) [OF 4(3) i(3)] b [OF i(1,2)] by simp
    qed
    then show ?thesis by (simp add: below_def)
  qed
  moreover have "he_time (?h ! parent m) \<le> he_time (?h ! i)"
    if i: "0 < i" "i < length h" "parent i = m" for i
  proof -
    have "m < i" using i(3) parent_less [OF i(1)] by simp
    then show ?thesis using k assms(2) b [OF i(1,2)] i(3) at(1) at(3) [of i] by simp
  qed
  ultimately show ?thesis by (simp add: down_ok_def around_def)
qed

lemma down_stop:
  assumes "down_ok k h" "\<And>i. 0 < i \<Longrightarrow> i < length h \<Longrightarrow> parent i = k \<Longrightarrow> he_time (h ! k) \<le> he_time (h ! i)"
  shows "min_heap h"
  using assms by (auto simp: min_heap_def down_ok_def below_def)

lemma min_heap_first:
  assumes "min_heap h" "i < length h"
  shows "he_time (h ! 0) \<le> he_time (h ! i)"
  using assms(2)
proof (induction i rule: less_induct)
  case (less i)
  show ?case
  proof (cases "i = 0")
    case False
    then have "he_time (h ! 0) \<le> he_time (h ! parent i)" using less by simp
    also have "\<dots> \<le> he_time (h ! i)" using assms(1) less.prems False by (simp add: min_heap_def below_def)
    finally show ?thesis .
  qed simp
qed

text \<open>Taking the last entry to the place of another one.\<close>

lemma min_heap_butlast: "min_heap h \<Longrightarrow> min_heap (butlast h)"
  by (auto simp: min_heap_def below_def nth_butlast dest: parent_less)

lemma replaced_by_last:
  assumes "min_heap h" "i < length h - 1"
  shows "around i (butlast (swapped i (length h - 1) h))"
    "\<And>j. 0 < j \<Longrightarrow> j < length h - 1 \<Longrightarrow> j \<noteq> i \<Longrightarrow> parent j \<noteq> i \<Longrightarrow>
       below (butlast (swapped i (length h - 1) h)) j"
proof -
  let ?n = "length h - 1"
  have n: "i < length h" "?n < length h" using assms(2) by simp_all
  note nth = swapped_nth [OF n, simplified]
  have b: "he_time (h ! parent j) \<le> he_time (h ! j)" if "0 < j" "j < length h" for j
    using assms(1) that by (simp add: min_heap_def below_def)
  show "below (butlast (swapped i ?n h)) j" if j: "0 < j" "j < ?n" "j \<noteq> i" "parent j \<noteq> i" for j
  proof -
    have "parent j < j" using j(1) by simp
    then have "parent j < ?n" "j < ?n" using j(2) by simp_all
    then show ?thesis using j b [of j] by (simp add: below_def nth_butlast nth)
  qed
  show "around i (butlast (swapped i ?n h))"
    unfolding around_def
  proof (intro allI impI)
    fix j
    assume j: "0 < j" "j < length (butlast (swapped i ?n h))" "parent j = i" "0 < i"
    have "i < j" "parent i < i" using j by auto
    moreover have "j < length h - Suc 0" using j(2) by simp
    ultimately have "butlast (swapped i ?n h) ! parent i = h ! parent i" "butlast (swapped i ?n h) ! j = h ! j"
      by (simp_all add: nth_butlast nth)
    moreover have "he_time (h ! parent i) \<le> he_time (h ! i)" using b [of i] j(4) n(1) by simp
    moreover have "he_time (h ! i) \<le> he_time (h ! j)" using b [of j] j by simp
    ultimately show "he_time (butlast (swapped i ?n h) ! parent i) \<le> he_time (butlast (swapped i ?n h) ! j)"
      by simp
  qed
qed

section \<open>Moving entries\<close>

definition index_ok :: "timer_queue \<Rightarrow> bool" where
  "index_ok q \<longleftrightarrow> distinct (map he_timer (tq_heap q)) \<and>
     (\<forall>i < length (tq_heap q). pt_heap_index (tq_data q (he_timer (tq_heap q ! i))) = i)"

text \<open>The heap is permuted and the positions follow; nothing else changes.\<close>

definition moved :: "timer_queue \<Rightarrow> timer_queue \<Rightarrow> bool" where
  "moved q q' \<longleftrightarrow>
     mset (tq_heap q') = mset (tq_heap q) \<and> tq_timers q' = tq_timers q \<and>
     (\<forall>t. pt_next (tq_data q' t) = pt_next (tq_data q t) \<and> pt_prev (tq_data q' t) = pt_prev (tq_data q t) \<and>
        pt_op_queue (tq_data q' t) = pt_op_queue (tq_data q t) \<and>
        (t \<notin> he_timer ` set (tq_heap q) \<longrightarrow> pt_heap_index (tq_data q' t) = pt_heap_index (tq_data q t))) \<and>
     (index_ok q \<longrightarrow> index_ok q')"

lemma moved_refl [simp]: "moved q q"
  by (simp add: moved_def)

lemma moved_set: "moved q q' \<Longrightarrow> set (tq_heap q') = set (tq_heap q)"
  by (metis moved_def set_mset_mset)

lemma moved_trans: "moved q q' \<Longrightarrow> moved q' q'' \<Longrightarrow> moved q q''"
  using moved_set [of q q'] by (simp add: moved_def)

lemma swap_heap_heap:
  assumes "i < length (tq_heap q)" "j < length (tq_heap q)"
  shows "tq_heap (swap_heap i j q) = swapped i j (tq_heap q)"
  using assms by (simp add: swap_heap_def set_heap_index_def upd_timer_def swapped_def Let_def)

lemma moved_swap:
  assumes "i < length (tq_heap q)" "j < length (tq_heap q)" "i \<noteq> j"
  shows "moved q (swap_heap i j q)"
proof -
  let ?h = "tq_heap q" and ?q = "swap_heap i j q"
  have data: "tq_data ?q = (tq_data q)
      (he_timer (?h ! j) := (tq_data q (he_timer (?h ! j)))\<lparr>pt_heap_index := i\<rparr>,
       he_timer (?h ! i) := (((tq_data q)
          (he_timer (?h ! j) := (tq_data q (he_timer (?h ! j)))\<lparr>pt_heap_index := i\<rparr>)) (he_timer (?h ! i)))\<lparr>pt_heap_index := j\<rparr>)"
    using assms by (simp add: swap_heap_def set_heap_index_def upd_timer_def Let_def)
  have "index_ok ?q" if ok: "index_ok q"
  proof -
    have d: "distinct (map he_timer ?h)" using ok by (simp add: index_ok_def)
    have "mset (map he_timer (tq_heap ?q)) = mset (map he_timer ?h)"
      using swapped_mset [OF assms(1,2)] by (simp add: swap_heap_heap [OF assms(1,2)])
    then have d': "distinct (map he_timer (tq_heap ?q))" using d mset_eq_imp_distinct_iff by blast
    have ne: "he_timer (?h ! k) \<noteq> he_timer (?h ! l)" if "k \<noteq> l" "k < length ?h" "l < length ?h" for k l
      using d that nth_eq_iff_index_eq [OF d, of k l] by simp
    show ?thesis unfolding index_ok_def
      using d' ok assms ne
      by (auto simp: data swap_heap_heap [OF assms(1,2)] swapped_nth [OF assms(1,2)] index_ok_def)
  qed
  then show ?thesis
    using assms swapped_mset [OF assms(1,2)]
    by (auto simp: moved_def data swap_heap_heap) (auto simp: swap_heap_def set_heap_index_def upd_timer_def Let_def)
qed

lemma up_heap_moved: "k < length (tq_heap q) \<Longrightarrow> moved q (up_heap k q)"
proof (induction k q rule: up_heap.induct)
  case (1 k q)
  show ?case
  proof (cases "0 < k \<and> he_time (tq_heap q ! k) < he_time (tq_heap q ! ((k - 1) div 2))")
    case True
    then have "0 < k" by blast
    then have "(k - 1) div 2 < k" using parent_less unfolding parent_def by blast
    then show ?thesis
      using 1 True moved_trans [OF moved_swap [of k q "(k - 1) div 2"]]
      by (subst up_heap.simps) (simp add: Let_def)
  next
    case False
    then show ?thesis by (subst up_heap.simps) (auto simp: Let_def)
  qed
qed

lemma up_heap_ok: "up_ok k (tq_heap q) \<Longrightarrow> min_heap (tq_heap (up_heap k q))"
proof (induction k q rule: up_heap.induct)
  case (1 k q)
  have k: "k < length (tq_heap q)" using "1.prems" by (simp add: up_ok_def)
  show ?case
  proof (cases "0 < k \<and> he_time (tq_heap q ! k) < he_time (tq_heap q ! ((k - 1) div 2))")
    case True
    then have p: "parent k < k" by simp
    have "(k - 1) div 2 = parent k" by (simp add: parent_def)
    note p = p this
    have "up_ok (parent k) (tq_heap (swap_heap k (parent k) q))"
      using up_step [OF "1.prems"] True p k by (simp add: swap_heap_heap)
    then show ?thesis
      using "1.IH" [OF _ refl] True by (subst up_heap.simps) (simp add: Let_def p(2) [simplified])
  next
    case False
    then show ?thesis
      using up_stop [OF "1.prems"] by (subst up_heap.simps) (auto simp: Let_def parent_def)
  qed
qed

text \<open>The children of an entry are what \<^verbatim>\<open>down_heap\<close> compares.\<close>

lemma down_heap_choice:
  assumes "i * 2 + 1 < length h"
    "m = (if i * 2 + 1 + 1 = length h \<or> he_time (h ! (i * 2 + 1)) < he_time (h ! (i * 2 + 1 + 1))
          then i * 2 + 1 else i * 2 + 1 + 1)"
  shows "parent m = i" "0 < m" "m < length h"
    "\<And>j. 0 < j \<Longrightarrow> j < length h \<Longrightarrow> parent j = i \<Longrightarrow> he_time (h ! m) \<le> he_time (h ! j)"
proof -
  have m: "m = i * 2 + 1 \<or> m = i * 2 + 1 + 1" using assms(2) by (simp split: if_splits)
  then show "0 < m" by auto
  then show "parent m = i" using m parent_eq [of m i] by auto
  show "m < length h" using assms m by (auto split: if_splits)
  fix j
  assume j: "0 < j" "j < length h" "parent j = i"
  then have "j = i * 2 + 1 \<or> j = i * 2 + 1 + 1" using parent_eq [of j i] by auto
  then show "he_time (h ! m) \<le> he_time (h ! j)" using assms j(2) by (auto split: if_splits)
qed

lemma down_heap_unfold:
  "down_heap i q =
     (if i * 2 + 1 < length (tq_heap q)
      then let m = (if i * 2 + 1 + 1 = length (tq_heap q) \<or>
                        he_time (tq_heap q ! (i * 2 + 1)) < he_time (tq_heap q ! (i * 2 + 1 + 1))
                     then i * 2 + 1 else i * 2 + 1 + 1)
           in if he_time (tq_heap q ! i) < he_time (tq_heap q ! m) then q
              else down_heap m (swap_heap i m q)
      else q)"
  by (subst down_heap.simps) (simp only: Let_def)

lemma down_heap_correct:
  "moved q (down_heap i q) \<and> (down_ok i (tq_heap q) \<longrightarrow> min_heap (tq_heap (down_heap i q)))"
proof (induction "length (tq_heap q) - i" arbitrary: i q rule: less_induct)
  case less
  show ?case
  proof (cases "i * 2 + 1 < length (tq_heap q)")
    case True
    define m where "m = (if i * 2 + 1 + 1 = length (tq_heap q) \<or>
        he_time (tq_heap q ! (i * 2 + 1)) < he_time (tq_heap q ! (i * 2 + 1 + 1))
      then i * 2 + 1 else i * 2 + 1 + 1)"
    note m = down_heap_choice [OF True m_def]
    have im: "i < m" using parent_less [OF m(2)] m(1) by simp
    have unfold: "down_heap i q =
        (if he_time (tq_heap q ! i) < he_time (tq_heap q ! m) then q else down_heap m (swap_heap i m q))"
      using True by (subst down_heap_unfold) (simp only: Let_def m_def if_True)
    show ?thesis
    proof (cases "he_time (tq_heap q ! i) < he_time (tq_heap q ! m)")
      case stop: True
      have "min_heap (tq_heap q)" if "down_ok i (tq_heap q)"
      proof (rule down_stop [OF that])
        fix j
        assume "0 < j" "j < length (tq_heap q)" "parent j = i"
        from m(4) [OF this] stop show "he_time (tq_heap q ! i) \<le> he_time (tq_heap q ! j)" by simp
      qed
      moreover have "down_heap i q = q" unfolding unfold using stop by (rule if_P)
      ultimately show ?thesis by simp
    next
      case False
      have sw: "tq_heap (swap_heap i m q) = swapped i m (tq_heap q)"
        by (rule swap_heap_heap) (use im m(3) in simp_all)
      have "moved q (swap_heap i m q)" by (rule moved_swap) (use im m(3) in simp_all)
      moreover have "down_ok m (tq_heap (swap_heap i m q))" if "down_ok i (tq_heap q)"
        unfolding sw by (rule down_step [OF that m(1-3) _ m(4)]) (use False in simp_all)
      moreover have "moved (swap_heap i m q) (down_heap m (swap_heap i m q)) \<and>
        (down_ok m (tq_heap (swap_heap i m q)) \<longrightarrow> min_heap (tq_heap (down_heap m (swap_heap i m q))))"
        by (rule less) (use im m(3) in simp)
      moreover have "down_heap i q = down_heap m (swap_heap i m q)" unfolding unfold using False by (rule if_not_P)
      ultimately show ?thesis using moved_trans by presburger
    qed
  next
    case False
    have "min_heap (tq_heap q)" if "down_ok i (tq_heap q)"
      by (rule down_stop [OF that]) (use False in \<open>auto simp: parent_eq\<close>)
    moreover have "down_heap i q = q" unfolding down_heap_unfold [of i q] using False by (rule if_not_P)
    ultimately show ?thesis by simp
  qed
qed

section \<open>Adding to the heap and removing from it\<close>

lemma append_last:
  assumes "min_heap h"
  shows "up_ok (length h) (h @ [e])"
proof -
  have "below (h @ [e]) i" if "0 < i" "i < length h" for i
    using assms that parent_less [OF that(1)] by (simp add: min_heap_def below_def nth_append)
  then show ?thesis by (auto simp: up_ok_def around_def less_Suc_eq dest: parent_less)
qed

lemma pop_simps [simp]:
  "tq_heap (pop_back q) = butlast (tq_heap q)" "tq_data (pop_back q) = tq_data q"
  "tq_timers (pop_back q) = tq_timers q" "tq_heap (set_heap_index t i q) = tq_heap q"
  "tq_timers (set_heap_index t i q) = tq_timers q"
  "tq_data (set_heap_index t i q) = (tq_data q)(t := (tq_data q t)\<lparr>pt_heap_index := i\<rparr>)"
  by (simp_all add: pop_back_def set_heap_index_def upd_timer_def)

lemma index_ok_pop:
  assumes "index_ok q" "tq_heap q \<noteq> []" "t = he_timer (last (tq_heap q))"
  shows "index_ok (pop_back (set_heap_index t k q))"
proof -
  let ?h = "tq_heap q"
  have d: "distinct (map he_timer ?h)" using assms(1) by (simp add: index_ok_def)
  have "he_timer (?h ! i) \<noteq> t" if "i < length ?h - 1" for i
    using nth_eq_iff_index_eq [OF d, of i "length ?h - 1"] that assms(2,3) by (simp add: last_conv_nth)
  then show ?thesis
    using assms(1) d by (simp add: index_ok_def nth_butlast map_butlast distinct_butlast)
qed

text \<open>Only the entry of the timer leaves the heap; the pointers and operations stay.\<close>

definition removed :: "heap_entry \<Rightarrow> timer_queue \<Rightarrow> timer_queue \<Rightarrow> bool" where
  "removed e q q' \<longleftrightarrow>
     mset (tq_heap q') = mset (tq_heap q) - {#e#} \<and> tq_timers q' = tq_timers q \<and> index_ok q' \<and>
     (\<forall>t. pt_next (tq_data q' t) = pt_next (tq_data q t) \<and> pt_prev (tq_data q' t) = pt_prev (tq_data q t) \<and>
        pt_op_queue (tq_data q' t) = pt_op_queue (tq_data q t))"

lemma removed_moved:
  assumes "removed e q q1" "moved q1 q'"
  shows "removed e q q'"
  using assms by (simp add: removed_def moved_def)

lemma remove_from_heap_ok:
  assumes "min_heap (tq_heap q)" "index_ok q" "e \<in> set (tq_heap q)" "he_timer e = t"
  shows "min_heap (tq_heap (remove_from_heap t q)) \<and> removed e q (remove_from_heap t q)"
proof -
  let ?h = "tq_heap q" and ?n = "length (tq_heap q) - 1"
  obtain i where i: "i < length ?h" "?h ! i = e" using assms(3) by (auto simp: in_set_conv_nth)
  then have index: "pt_heap_index (tq_data q t) = i" using assms(2,4) by (auto simp: index_ok_def)
  have ne: "?h \<noteq> []" using i by auto
  show ?thesis
  proof (cases "i = ?n")
    case True
    then have r: "remove_from_heap t q = pop_back (set_heap_index t no_index q)"
      using ne i(1) by (simp add: remove_from_heap_def index)
    have last: "last ?h = e" using True i(2) ne by (simp add: last_conv_nth)
    have "index_ok (remove_from_heap t q)" unfolding r
      by (rule index_ok_pop [OF assms(2) ne]) (simp add: last assms(4))
    moreover have "mset (butlast ?h) = mset ?h - {#e#}"
      using last append_butlast_last_id [OF ne]
      by (metis add_diff_cancel_right' mset.simps(1) mset.simps(2) mset_append)
    ultimately show ?thesis
      using min_heap_butlast [OF assms(1)] by (simp add: r removed_def)
  next
    case False
    then have lt: "i < ?n" using i(1) by simp
    define q0 where "q0 = swap_heap i ?n q"
    define q1 where "q1 = pop_back (set_heap_index t no_index q0)"
    have r: "remove_from_heap t q =
        (if i > 0 \<and> he_time (tq_heap q1 ! i) < he_time (tq_heap q1 ! ((i - 1) div 2))
         then up_heap i q1 else down_heap i q1)"
      using ne i(1) False by (simp add: remove_from_heap_def index q1_def q0_def Let_def)
    have h0: "tq_heap q0 = swapped i ?n ?h" unfolding q0_def
      by (rule swap_heap_heap) (use i(1) lt in simp_all)
    have m0: "moved q q0" unfolding q0_def by (rule moved_swap) (use i(1) lt in simp_all)
    have ne0: "tq_heap q0 \<noteq> []" using ne h0 by (metis length_0_conv swapped_length)
    have last: "last (tq_heap q0) = e"
      using swapped_nth [of i ?h ?n ?n] ne0 lt i by (simp add: last_conv_nth h0)
    have "index_ok q1" unfolding q1_def
      by (rule index_ok_pop [OF _ ne0]) (use m0 assms(2,4) last in \<open>simp_all add: moved_def\<close>)
    moreover have "mset (butlast (tq_heap q0)) = mset (tq_heap q0) - {#e#}"
      using last append_butlast_last_id [OF ne0]
      by (metis add_diff_cancel_right' mset.simps(1) mset.simps(2) mset_append)
    ultimately have rem: "removed e q q1"
      using m0 by (simp add: removed_def moved_def q1_def)
    have h1: "tq_heap q1 = butlast (swapped i ?n ?h)" by (simp add: q1_def h0)
    note rest = replaced_by_last [OF assms(1) lt, folded h1]
    have len: "length (tq_heap q1) = ?n" by (simp add: h1)
    show ?thesis
    proof (cases "i > 0 \<and> he_time (tq_heap q1 ! i) < he_time (tq_heap q1 ! ((i - 1) div 2))")
      case up: True
      then have time: "he_time (tq_heap q1 ! i) < he_time (tq_heap q1 ! parent i)"
        by (simp add: parent_def)
      have "below (tq_heap q1) j" if j: "0 < j" "j < ?n" "j \<noteq> i" for j
      proof (cases "parent j = i")
        case True
        then have "he_time (tq_heap q1 ! parent i) \<le> he_time (tq_heap q1 ! j)"
          using rest(1) j up unfolding around_def len by blast
        then show ?thesis using True time by (simp add: below_def)
      qed (use rest(2) j in simp)
      then have "up_ok i (tq_heap q1)" using rest(1) lt by (simp add: up_ok_def len)
      then show ?thesis
        using up_heap_ok up_heap_moved [of i q1] removed_moved [OF rem] up lt
        by (simp add: r len)
    next
      case down: False
      have "below (tq_heap q1) j" if j: "0 < j" "j < ?n" "parent j \<noteq> i" for j
      proof (cases "j = i")
        case True
        then show ?thesis using down j(1) by (simp add: below_def parent_def)
      qed (use rest(2) j in simp)
      then have "down_ok i (tq_heap q1)" using rest(1) by (simp add: down_ok_def len)
      moreover have "remove_from_heap t q = down_heap i q1" unfolding r using down by (rule if_not_P)
      ultimately show ?thesis using down_heap_correct [of q1 i] removed_moved [OF rem] by simp
    qed
  qed
qed

section \<open>The list of timers\<close>

text \<open>A segment of the list from a head whose predecessor is \<open>p\<close>; \<open>l\<close> is its last timer, or
  \<open>p\<close>, and \<open>r\<close> what follows.\<close>

fun lseg :: "(nat \<Rightarrow> per_timer_data) \<Rightarrow> nat option \<Rightarrow> nat option \<Rightarrow> nat list \<Rightarrow> nat option \<Rightarrow> nat option \<Rightarrow> bool"
where
  "lseg d p h [] l r \<longleftrightarrow> p = l \<and> h = r"
| "lseg d p h (t # ts) l r \<longleftrightarrow> h = Some t \<and> pt_prev (d t) = p \<and> lseg d (Some t) (pt_next (d t)) ts l r"

definition linked :: "nat list \<Rightarrow> timer_queue \<Rightarrow> bool" where
  "linked ts q \<longleftrightarrow> (\<exists>l. lseg (tq_data q) None (tq_timers q) ts l None) \<and> distinct ts \<and>
     (\<forall>t. t \<notin> set ts \<longrightarrow> pt_next (tq_data q t) = None \<and> pt_prev (tq_data q t) = None)"

lemma lseg_append:
  "lseg d p h (xs @ ys) l r \<longleftrightarrow> (\<exists>l' r'. lseg d p h xs l' r' \<and> lseg d l' r' ys l r)"
  by (induction xs arbitrary: p h) auto

lemma lseg_cong:
  "(\<And>t. t \<in> set ts \<Longrightarrow> pt_next (d' t) = pt_next (d t) \<and> pt_prev (d' t) = pt_prev (d t)) \<Longrightarrow>
   lseg d' p h ts l r = lseg d p h ts l r"
  by (induction ts arbitrary: p h) auto

lemma lseg_last: "lseg d p h ts l r \<Longrightarrow> l = (if ts = [] then p else Some (last ts))"
  by (induction ts arbitrary: p h) (auto split: if_splits)

lemma lseg_head: "lseg d p h ts l r \<Longrightarrow> h = (if ts = [] then r else Some (hd ts))"
  by (cases ts) auto

lemma lseg_new_next:
  assumes "lseg d p h (ts @ [z]) l r" "\<And>t. t \<in> set ts \<Longrightarrow> pt_next (d' t) = pt_next (d t) \<and> pt_prev (d' t) = pt_prev (d t)"
    "pt_prev (d' z) = pt_prev (d z)" "pt_next (d' z) = r'"
  shows "lseg d' p h (ts @ [z]) l r'"
  using assms lseg_cong [of ts d' d] by (auto simp: lseg_append)

lemma lseg_new_prev:
  assumes "lseg d p h (y # ts) l r" "\<And>t. t \<in> set ts \<Longrightarrow> pt_next (d' t) = pt_next (d t) \<and> pt_prev (d' t) = pt_prev (d t)"
    "pt_next (d' y) = pt_next (d y)" "pt_prev (d' y) = p'"
  shows "lseg d' p' h (y # ts) l r"
  using assms lseg_cong [of ts d' d] by auto

lemma linked_in_use: "linked ts q \<Longrightarrow> in_use t q \<longleftrightarrow> t \<in> set ts"
proof -
  assume l: "linked ts q"
  then obtain l where seg: "lseg (tq_data q) None (tq_timers q) ts l None" by (auto simp: linked_def)
  show ?thesis
  proof
    assume "in_use t q"
    then show "t \<in> set ts"
      using l lseg_head [OF seg] by (auto simp: in_use_def linked_def split: if_splits)
  next
    assume "t \<in> set ts"
    then obtain xs ys where ts: "ts = xs @ t # ys" by (auto simp: in_set_conv_decomp)
    then obtain l' r' where "lseg (tq_data q) None (tq_timers q) xs l' r'" "r' = Some t" "pt_prev (tq_data q t) = l'"
      using seg by (auto simp: lseg_append)
    then show "in_use t q"
      using lseg_last [of "tq_data q" None "tq_timers q" xs l' r']
        lseg_head [of "tq_data q" None "tq_timers q" xs l' r']
      by (auto simp: in_use_def split: if_splits)
  qed
qed

lemma unlink_timer_linked:
  assumes "linked (xs @ t # ys) q"
  shows "linked (xs @ ys) (unlink_timer t q)"
proof -
  let ?d = "tq_data q" and ?d' = "tq_data (unlink_timer t q)"
  have dist: "distinct (xs @ t # ys)" using assms by (simp add: linked_def)
  obtain l l1 where seg: "lseg ?d None (tq_timers q) xs l1 (Some t)" "pt_prev (?d t) = l1"
    "lseg ?d (Some t) (pt_next (?d t)) ys l None"
    using assms by (auto simp: linked_def lseg_append)
  have l1: "l1 = (if xs = [] then None else Some (last xs))" by (rule lseg_last [OF seg(1)])
  have n: "pt_next (?d t) = (if ys = [] then None else Some (hd ys))" by (rule lseg_head [OF seg(3)])
  have head: "tq_timers q = Some t \<longleftrightarrow> xs = []"
    using lseg_head [OF seg(1)] dist hd_in_set [of xs] by (auto split: if_splits)
  have timers: "tq_timers (unlink_timer t q) = (if xs = [] then pt_next (?d t) else tq_timers q)"
    by (simp add: unlink_timer_def Let_def set_next_def set_prev_def upd_timer_def head split: option.split)
  have ne: "xs \<noteq> [] \<Longrightarrow> last xs \<noteq> t" "ys \<noteq> [] \<Longrightarrow> hd ys \<noteq> t"
    using dist last_in_set [of xs] hd_in_set [of ys] by auto
  have "set xs \<inter> set ys = {}" using dist by auto
  then have other: "xs \<noteq> [] \<Longrightarrow> last xs \<notin> set ys" "ys \<noteq> [] \<Longrightarrow> hd ys \<notin> set xs"
    using last_in_set [of xs] hd_in_set [of ys] by blast+
  have prev: "pt_prev (?d t) = (if xs = [] then None else Some (last xs))" using seg(2) l1 by simp
  have data: "pt_next (?d' s) = (if s = t then None else if xs \<noteq> [] \<and> s = last xs then pt_next (?d t) else pt_next (?d s)) \<and>
      pt_prev (?d' s) = (if s = t then None else if ys \<noteq> [] \<and> s = hd ys then l1 else pt_prev (?d s))" for s
    by (cases "xs = []"; cases "ys = []")
      (simp_all add: unlink_timer_def Let_def set_next_def set_prev_def upd_timer_def l1 n prev ne
        ne [symmetric])
  have "lseg ?d' None (tq_timers (unlink_timer t q)) xs l1 (pt_next (?d t))"
  proof (cases xs rule: rev_cases)
    case (snoc xs' z)
    have "lseg ?d' None (tq_timers q) (xs' @ [z]) l1 (pt_next (?d t))"
      by (rule lseg_new_next [OF seg(1) [unfolded snoc]]) (use snoc dist other in \<open>auto simp: data\<close>)
    then show ?thesis using snoc by (simp add: timers)
  qed (simp add: timers l1)
  moreover have "\<exists>l. lseg ?d' l1 (pt_next (?d t)) ys l None"
  proof (cases ys)
    case (Cons y ys')
    have "lseg ?d' l1 (pt_next (?d t)) (y # ys') l None"
      by (rule lseg_new_prev [OF seg(3) [unfolded Cons]]) (use Cons dist other in \<open>auto simp: data\<close>)
    then show ?thesis using Cons by blast
  qed (simp add: n)
  moreover have "pt_next (?d' s) = None \<and> pt_prev (?d' s) = None" if "s \<notin> set (xs @ ys)" for s
    using assms that last_in_set [of xs] hd_in_set [of ys] by (auto simp: data linked_def)
  ultimately show ?thesis using dist unfolding linked_def lseg_append by auto
qed

lemma unlink_timer_rest:
  "tq_heap (unlink_timer t q) = tq_heap q \<and>
   pt_op_queue (tq_data (unlink_timer t q) s) = pt_op_queue (tq_data q s) \<and>
   pt_heap_index (tq_data (unlink_timer t q) s) = pt_heap_index (tq_data q s)"
  by (auto simp: unlink_timer_def Let_def set_next_def set_prev_def upd_timer_def split: option.splits)

lemma link_timer_linked:
  assumes "linked ts q" "t \<notin> set ts"
  shows "linked (t # ts) (link_timer t q)"
proof -
  obtain l where seg: "lseg (tq_data q) None (tq_timers q) ts l None" using assms(1) by (auto simp: linked_def)
  have head: "tq_timers q = (if ts = [] then None else Some (hd ts))" by (rule lseg_head [OF seg])
  let ?d' = "tq_data (link_timer t q)"
  have ne: "ts \<noteq> [] \<Longrightarrow> hd ts \<noteq> t" using assms(2) hd_in_set by metis
  have data: "pt_next (?d' s) = (if s = t then tq_timers q else pt_next (tq_data q s)) \<and>
      pt_prev (?d' s) = (if s = t then None else if ts \<noteq> [] \<and> s = hd ts then Some t else pt_prev (tq_data q s))" for s
    using ne by (auto simp: link_timer_def Let_def set_next_def set_prev_def upd_timer_def head)
  have "\<exists>l. lseg ?d' (Some t) (tq_timers q) ts l None"
  proof (cases ts)
    case (Cons y ts')
    have "lseg ?d' (Some t) (tq_timers q) (y # ts') l None"
      by (rule lseg_new_prev [OF seg [unfolded Cons]])
        (use Cons assms in \<open>auto simp: data linked_def\<close>)
    then show ?thesis using Cons by blast
  qed (simp add: head)
  moreover have "tq_timers (link_timer t q) = Some t" by (simp add: link_timer_def Let_def)
  moreover have "pt_next (?d' s) = None \<and> pt_prev (?d' s) = None" if "s \<notin> set (t # ts)" for s
    using assms that hd_in_set [of ts] by (auto simp: data linked_def)
  ultimately show ?thesis using assms by (auto simp: linked_def data)
qed

lemma link_timer_rest:
  "tq_heap (link_timer t q) = tq_heap q \<and>
   pt_op_queue (tq_data (link_timer t q) s) = pt_op_queue (tq_data q s) \<and>
   pt_heap_index (tq_data (link_timer t q) s) = pt_heap_index (tq_data q s)"
  by (auto simp: link_timer_def Let_def set_next_def set_prev_def upd_timer_def split: option.splits)

section \<open>The invariant\<close>

text \<open>The timers in use are those of the heap; only they have operations.\<close>

definition tq_inv :: "nat list \<Rightarrow> timer_queue \<Rightarrow> bool" where
  "tq_inv ts q \<longleftrightarrow> min_heap (tq_heap q) \<and> index_ok q \<and> he_timer ` set (tq_heap q) = set ts \<and> linked ts q"

definition deadline :: "timer_queue \<Rightarrow> nat \<Rightarrow> int option" where
  "deadline q = map_of (map (\<lambda>e. (he_timer e, he_time e)) (tq_heap q))"

definition waiting_ops :: "timer_queue \<Rightarrow> nat \<Rightarrow> wait_op list" where
  "waiting_ops q t = pt_op_queue (tq_data q t)"

lemma deadline_iff:
  assumes "index_ok q"
  shows "deadline q t = Some d \<longleftrightarrow> \<lparr>he_time = d, he_timer = t\<rparr> \<in> set (tq_heap q)"
proof -
  have "distinct (map fst (map (\<lambda>e. (he_timer e, he_time e)) (tq_heap q)))"
    using assms by (simp add: index_ok_def comp_def)
  then have "deadline q t = Some d \<longleftrightarrow> (t, d) \<in> (\<lambda>e. (he_timer e, he_time e)) ` set (tq_heap q)"
    unfolding deadline_def by (subst map_of_eq_Some_iff) simp_all
  also have "\<dots> \<longleftrightarrow> \<lparr>he_time = d, he_timer = t\<rparr> \<in> set (tq_heap q)"
  proof -
    have "(t, d) = (he_timer e, he_time e) \<longleftrightarrow> e = \<lparr>he_time = d, he_timer = t\<rparr>" for e
      by (cases e) auto
    then show ?thesis by (simp add: image_iff)
  qed
  finally show ?thesis .
qed

lemma deadline_eqI:
  assumes "index_ok q" "index_ok q'" "set (tq_heap q') = set (tq_heap q)"
  shows "deadline q' = deadline q"
proof
  fix t
  show "deadline q' t = deadline q t"
    using deadline_iff [OF assms(1), of t] deadline_iff [OF assms(2), of t] assms(3)
    by (metis option.exhaust)
qed

lemma linked_cong:
  "tq_timers q' = tq_timers q \<Longrightarrow>
   (\<And>t. pt_next (tq_data q' t) = pt_next (tq_data q t) \<and> pt_prev (tq_data q' t) = pt_prev (tq_data q t)) \<Longrightarrow>
   linked ts q' = linked ts q"
  using lseg_cong [of ts "tq_data q'" "tq_data q"] by (simp add: linked_def)

lemma removed_heap:
  assumes "removed e q q'" "index_ok q" "e \<in> set (tq_heap q)"
  shows "mset (tq_heap q) = add_mset e (mset (tq_heap q'))" "set (tq_heap q) = insert e (set (tq_heap q'))"
    "he_timer e \<notin> he_timer ` set (tq_heap q')"
proof -
  show m: "mset (tq_heap q) = add_mset e (mset (tq_heap q'))"
    using assms(1,3) by (simp add: removed_def)
  then have "mset (map he_timer (tq_heap q)) = mset (map he_timer (e # tq_heap q'))" by simp
  then have "distinct (map he_timer (e # tq_heap q'))"
    using assms(2) mset_eq_imp_distinct_iff unfolding index_ok_def by blast
  then show "he_timer e \<notin> he_timer ` set (tq_heap q')" by simp
  show "set (tq_heap q) = insert e (set (tq_heap q'))"
    using arg_cong [OF m, of set_mset] by simp
qed

lemma remove_timer_ok:
  assumes "tq_inv (xs @ t # ys) q"
  shows "tq_inv (xs @ ys) (remove_timer t q)" "deadline (remove_timer t q) = (deadline q)(t := None)"
    "waiting_ops (remove_timer t q) = waiting_ops q" "length (tq_heap (remove_timer t q)) < length (tq_heap q)"
proof -
  let ?q = "remove_from_heap t q"
  have h: "min_heap (tq_heap q)" "index_ok q" and l: "linked (xs @ t # ys) q"
    and set: "he_timer ` set (tq_heap q) = set (xs @ t # ys)"
    using assms by (simp_all add: tq_inv_def)
  have dist: "distinct (xs @ t # ys)" using l by (simp add: linked_def)
  have "t \<in> he_timer ` set (tq_heap q)" unfolding set by simp
  then obtain e where e: "e \<in> set (tq_heap q)" "he_timer e = t" by blast
  note r = remove_from_heap_ok [OF h e]
  then have rem: "removed e q ?q" by simp
  note heap = removed_heap [OF rem h(2) e(1), unfolded e(2)]
  have linked: "linked (xs @ t # ys) ?q"
    using rem l linked_cong [of ?q q] by (simp add: removed_def)
  have same: "tq_heap (remove_timer t q) = tq_heap ?q" "index_ok (remove_timer t q)"
    using unlink_timer_rest [of t ?q] rem by (simp_all add: remove_timer_def removed_def index_ok_def)
  have "he_timer ` set (tq_heap ?q) = set (xs @ ys)"
  proof (rule insert_ident [THEN iffD1])
    show "t \<notin> set (xs @ ys)" using dist by simp
    show "insert t (he_timer ` set (tq_heap ?q)) = insert t (set (xs @ ys))"
      using set heap(2) e(2) by simp
  qed (rule heap(3))
  then show inv: "tq_inv (xs @ ys) (remove_timer t q)"
    using r same unlink_timer_linked [OF linked] by (simp add: tq_inv_def remove_timer_def)
  show "deadline (remove_timer t q) = (deadline q)(t := None)"
  proof
    fix s
    have "deadline (remove_timer t q) s = Some d \<longleftrightarrow> ((deadline q)(t := None)) s = Some d" for d
      using heap(2,3) e(2)
      by (auto simp: deadline_iff [OF same(2)] deadline_iff [OF h(2)] same(1) image_iff)
    then show "deadline (remove_timer t q) s = ((deadline q)(t := None)) s" by (metis option.exhaust)
  qed
  show "waiting_ops (remove_timer t q) = waiting_ops q"
    using rem unlink_timer_rest [of t ?q] by (auto simp: waiting_ops_def remove_timer_def removed_def)
  show "length (tq_heap (remove_timer t q)) < length (tq_heap q)"
    using arg_cong [OF heap(1), of size] by (simp add: same(1))
qed

end
