(* ===== verification/Asio_Timer_Ops.thy ===== *)
theory Asio_Timer_Ops
  imports Asio_Timer_Inv
begin

text \<open>
  What the operations of the timer queue do: adding, expiring, cancelling and moving keep its
  invariant, change the expiry times and the waiting operations as they should, and lose and
  duplicate none of them; the wait of the reactor is that for the first timer.
\<close>

section \<open>Adding a timer\<close>

lemma set_ops_simps [simp]:
  "tq_heap (set_ops t ops q) = tq_heap q" "tq_timers (set_ops t ops q) = tq_timers q"
  "pt_next (tq_data (set_ops t ops q) s) = pt_next (tq_data q s)"
  "pt_prev (tq_data (set_ops t ops q) s) = pt_prev (tq_data q s)"
  "pt_heap_index (tq_data (set_ops t ops q) s) = pt_heap_index (tq_data q s)"
  "waiting_ops (set_ops t ops q) = (waiting_ops q)(t := ops)"
  "deadline (set_ops t ops q) = deadline q"
  by (auto simp: set_ops_def upd_timer_def waiting_ops_def deadline_def)

lemma tq_inv_set_ops [simp]: "tq_inv ts (set_ops t ops q) = tq_inv ts q"
  using linked_cong [of "set_ops t ops q" q] by (simp add: tq_inv_def index_ok_def)

lemma distinct_mapD: "distinct (map f xs) \<Longrightarrow> distinct xs"
  by (simp add: distinct_map)

lemma heap_entry_eta: "\<lparr>he_time = he_time e, he_timer = he_timer e\<rparr> = e"
  by (cases e) simp

lemma tq_inv_deadline: "tq_inv ts q \<Longrightarrow> deadline q t \<noteq> None \<longleftrightarrow> t \<in> set ts"
proof -
  assume "tq_inv ts q"
  then have h: "index_ok q" "he_timer ` set (tq_heap q) = set ts" by (simp_all add: tq_inv_def)
  have "deadline q t \<noteq> None \<longleftrightarrow> (\<exists>d. \<lparr>he_time = d, he_timer = t\<rparr> \<in> set (tq_heap q))"
    using deadline_iff [OF h(1), of t] by auto
  also have "\<dots> \<longleftrightarrow> t \<in> he_timer ` set (tq_heap q)"
  proof
    assume "t \<in> he_timer ` set (tq_heap q)"
    then obtain e where "e \<in> set (tq_heap q)" "he_timer e = t" by blast
    then have "\<lparr>he_time = he_time e, he_timer = t\<rparr> \<in> set (tq_heap q)"
      by (metis heap_entry_eta)
    then show "\<exists>d. \<lparr>he_time = d, he_timer = t\<rparr> \<in> set (tq_heap q)" by blast
  qed force
  finally show ?thesis by (simp add: h(2))
qed

lemma tq_inv_first:
  assumes "tq_inv ts q" "tq_heap q \<noteq> []"
  shows "deadline q (he_timer (tq_heap q ! 0)) = Some (he_time (tq_heap q ! 0))"
    "deadline q t = Some d \<Longrightarrow> he_time (tq_heap q ! 0) \<le> d"
proof -
  have h: "min_heap (tq_heap q)" "index_ok q" using assms(1) by (simp_all add: tq_inv_def)
  have "tq_heap q ! 0 \<in> set (tq_heap q)" using assms(2) by simp
  then show "deadline q (he_timer (tq_heap q ! 0)) = Some (he_time (tq_heap q ! 0))"
    by (simp add: deadline_iff [OF h(2)] heap_entry_eta)
  assume "deadline q t = Some d"
  then obtain i where "i < length (tq_heap q)" "tq_heap q ! i = \<lparr>he_time = d, he_timer = t\<rparr>"
    using deadline_iff [OF h(2)] by (auto simp: in_set_conv_nth)
  then show "he_time (tq_heap q ! 0) \<le> d" using min_heap_first [OF h(1)] by force
qed

text \<open>The new entry on its way up.\<close>

definition push_timer :: "int \<Rightarrow> nat \<Rightarrow> timer_queue \<Rightarrow> timer_queue" where
  "push_timer time t q =
     (let q = set_heap_index t (length (tq_heap q)) q;
          q = q\<lparr>tq_heap := tq_heap q @ [\<lparr>he_time = time, he_timer = t\<rparr>]\<rparr>
      in link_timer t (up_heap (length (tq_heap q) - 1) q))"

lemma push_timer_ok:
  assumes "tq_inv ts q" "t \<notin> set ts"
  shows "tq_inv (t # ts) (push_timer time t q)" "deadline (push_timer time t q) = (deadline q)(t \<mapsto> time)"
    "waiting_ops (push_timer time t q) = waiting_ops q"
    "set (tq_heap (push_timer time t q)) = insert \<lparr>he_time = time, he_timer = t\<rparr> (set (tq_heap q))"
proof -
  define q1 where "q1 = (set_heap_index t (length (tq_heap q)) q)\<lparr>tq_heap := tq_heap q @ [\<lparr>he_time = time, he_timer = t\<rparr>]\<rparr>"
  have h: "min_heap (tq_heap q)" "index_ok q" "he_timer ` set (tq_heap q) = set ts" "linked ts q"
    using assms(1) by (simp_all add: tq_inv_def)
  have push: "push_timer time t q = link_timer t (up_heap (length (tq_heap q)) q1)"
    by (simp add: push_timer_def q1_def Let_def)
  have other: "he_timer (tq_heap q ! i) \<noteq> t" if "i < length (tq_heap q)" for i
    using h(3) assms(2) that by (metis image_eqI nth_mem)
  have "index_ok q1"
    using h(2,3) assms(2) other by (auto simp: q1_def index_ok_def nth_append less_Suc_eq)
  moreover have m: "moved q1 (up_heap (length (tq_heap q)) q1)" by (rule up_heap_moved) (simp add: q1_def)
  ultimately have idx: "index_ok (up_heap (length (tq_heap q)) q1)" by (simp add: moved_def)
  have heap: "min_heap (tq_heap (up_heap (length (tq_heap q)) q1))"
    by (rule up_heap_ok) (simp add: q1_def append_last [OF h(1)])
  have "linked ts (up_heap (length (tq_heap q)) q1) = linked ts q"
    using m by (intro linked_cong) (auto simp: moved_def q1_def)
  then have linked: "linked (t # ts) (push_timer time t q)"
    unfolding push using h(4) assms(2) by (intro link_timer_linked) simp_all
  note rest = link_timer_rest [of t "up_heap (length (tq_heap q)) q1"]
  have ph: "tq_heap (push_timer time t q) = tq_heap (up_heap (length (tq_heap q)) q1)"
    using rest by (simp add: push)
  show set: "set (tq_heap (push_timer time t q)) = insert \<lparr>he_time = time, he_timer = t\<rparr> (set (tq_heap q))"
    using moved_set [OF m] by (simp add: ph q1_def)
  have idx': "index_ok (push_timer time t q)"
    using idx rest by (simp add: index_ok_def push)
  then show "tq_inv (t # ts) (push_timer time t q)"
    using heap linked set h(3) by (simp add: tq_inv_def ph)
  show "waiting_ops (push_timer time t q) = waiting_ops q"
    using m rest by (auto simp: waiting_ops_def push moved_def q1_def)
  have none: "deadline q t = None" using tq_inv_deadline [OF assms(1)] assms(2) by blast
  show "deadline (push_timer time t q) = (deadline q)(t \<mapsto> time)"
  proof
    fix s
    have "deadline (push_timer time t q) s = Some d \<longleftrightarrow> ((deadline q)(t \<mapsto> time)) s = Some d" for d
    proof (cases "s = t")
      case True
      have "\<lparr>he_time = d, he_timer = t\<rparr> \<notin> set (tq_heap q)"
        using none deadline_iff [OF h(2), of t d] by simp
      then show ?thesis using True by (auto simp: deadline_iff [OF idx'] set)
    next
      case False
      then show ?thesis by (simp add: deadline_iff [OF idx'] deadline_iff [OF h(2)] set)
    qed
    then show "deadline (push_timer time t q) s = ((deadline q)(t \<mapsto> time)) s" by (metis option.exhaust)
  qed
qed

lemma enqueue_timer_unfold:
  "enqueue_timer time t op q =
     (let q = set_ops t (waiting_ops (if \<not> in_use t q then push_timer time t q else q) t @ [op])
                (if \<not> in_use t q then push_timer time t q else q)
      in (q, pt_heap_index (tq_data q t) = 0 \<and> wo_id (hd (waiting_ops q t)) = wo_id op))"
  by (simp add: enqueue_timer_def push_timer_def waiting_ops_def Let_def)

text \<open>The first of all expiry times.\<close>

definition earliest :: "timer_queue \<Rightarrow> int option" where
  "earliest q = (if tq_heap q = [] then None else Some (he_time (tq_heap q ! 0)))"

lemma enqueue_timer_ok:
  assumes "tq_inv ts q" "enqueue_timer time t op q = (q', flag)"
  shows "tq_inv (if t \<in> set ts then ts else t # ts) q'"
    "deadline q' = (if t \<in> set ts then deadline q else (deadline q)(t \<mapsto> time))"
    "waiting_ops q' = (waiting_ops q)(t := waiting_ops q t @ [op])"
    "flag \<Longrightarrow> earliest q' = deadline q' t"
    "\<not> flag \<Longrightarrow> t \<in> set ts \<or> waiting_ops q t = [] \<Longrightarrow> earliest q' = earliest q"
proof -
  have use: "in_use t q \<longleftrightarrow> t \<in> set ts" using assms(1) linked_in_use by (simp add: tq_inv_def)
  define q1 where "q1 = (if \<not> in_use t q then push_timer time t q else q)"
  have q': "q' = set_ops t (waiting_ops q1 t @ [op]) q1" "flag \<longleftrightarrow> pt_heap_index (tq_data q' t) = 0 \<and> wo_id (hd (waiting_ops q' t)) = wo_id op"
    using assms(2) by (auto simp: enqueue_timer_unfold q1_def Let_def)
  have ops: "waiting_ops q1 = waiting_ops q" using push_timer_ok(3) [OF assms(1)] use by (simp add: q1_def)
  show inv: "tq_inv (if t \<in> set ts then ts else t # ts) q'"
    using assms(1) push_timer_ok(1) [OF assms(1)] use by (simp add: q'(1) q1_def)
  show dl: "deadline q' = (if t \<in> set ts then deadline q else (deadline q)(t \<mapsto> time))"
    using push_timer_ok(2) [OF assms(1)] use by (simp add: q'(1) q1_def)
  show "waiting_ops q' = (waiting_ops q)(t := waiting_ops q t @ [op])"
    by (simp add: q'(1) ops)
  have ne: "tq_heap q' \<noteq> []" using inv by (auto simp: tq_inv_def split: if_splits)
  have index: "index_ok q'" using inv by (simp add: tq_inv_def)
  have first: "pt_heap_index (tq_data q' t) = 0 \<longleftrightarrow> he_timer (tq_heap q' ! 0) = t"
  proof
    assume i0: "pt_heap_index (tq_data q' t) = 0"
    have "t \<in> he_timer ` set (tq_heap q')" using inv by (auto simp: tq_inv_def split: if_splits)
    then obtain i where "i < length (tq_heap q')" "he_timer (tq_heap q' ! i) = t" by (auto simp: in_set_conv_nth)
    then show "he_timer (tq_heap q' ! 0) = t" using i0 index by (auto simp: index_ok_def)
  next
    assume "he_timer (tq_heap q' ! 0) = t"
    then show "pt_heap_index (tq_data q' t) = 0" using index ne by (auto simp: index_ok_def)
  qed
  show "flag \<Longrightarrow> earliest q' = deadline q' t"
    using q'(2) first tq_inv_first(1) [OF inv ne] ne by (simp add: earliest_def)
  assume flag: "\<not> flag" and new: "t \<in> set ts \<or> waiting_ops q t = []"
  show "earliest q' = earliest q"
  proof (cases "t \<in> set ts")
    case True
    then show ?thesis using use by (simp add: earliest_def q'(1) q1_def)
  next
    case False
    then have "he_timer (tq_heap q' ! 0) \<noteq> t" using flag new q' first ops by simp
    moreover have "deadline q' (he_timer (tq_heap q' ! 0)) = Some (he_time (tq_heap q' ! 0))"
      by (rule tq_inv_first(1) [OF inv ne])
    ultimately have old: "deadline q (he_timer (tq_heap q' ! 0)) = Some (he_time (tq_heap q' ! 0))"
      using dl False by simp
    then have ne0: "tq_heap q \<noteq> []" by (auto simp: deadline_def)
    have "deadline q' (he_timer (tq_heap q ! 0)) = Some (he_time (tq_heap q ! 0))"
      using tq_inv_first(1) [OF assms(1) ne0] tq_inv_deadline [OF assms(1)] dl False
      by (metis fun_upd_apply option.simps(3))
    then show ?thesis
      using tq_inv_first(2) [OF inv ne] tq_inv_first(2) [OF assms(1) ne0 old] ne ne0
      by (fastforce simp: earliest_def)
  qed
qed

section \<open>Expired timers\<close>

definition due :: "int \<Rightarrow> timer_queue \<Rightarrow> nat \<Rightarrow> bool" where
  "due now q t \<longleftrightarrow> (case deadline q t of None \<Rightarrow> False | Some d \<Rightarrow> d \<le> now)"

definition fires :: "timer_queue \<Rightarrow> nat list \<Rightarrow> wait_op list" where
  "fires q ts = concat (map (\<lambda>t. map ready (waiting_ops q t)) ts)"

text \<open>The timers \<open>ts\<close> are taken out of the queue, their operations with them.\<close>

definition timers_taken :: "nat set \<Rightarrow> timer_queue \<Rightarrow> timer_queue \<Rightarrow> bool" where
  "timers_taken ts q q' \<longleftrightarrow>
     (\<forall>t. deadline q' t = (if t \<in> ts then None else deadline q t)) \<and>
     (\<forall>t. waiting_ops q' t = (if t \<in> ts then [] else waiting_ops q t))"

lemma not_due_if_first_is_not:
  assumes "tq_inv ts q" "tq_heap q = [] \<or> now < he_time (tq_heap q ! 0)"
  shows "\<not> due now q t"
proof
  assume "due now q t"
  then obtain d where d: "deadline q t = Some d" "d \<le> now" by (auto simp: due_def split: option.splits)
  then have "tq_heap q \<noteq> []" by (auto simp: deadline_def)
  then show False using tq_inv_first(2) [OF assms(1) _ d(1)] d(2) assms(2) by simp
qed

lemma get_ready_timers_done:
  "tq_heap q = [] \<or> now < he_time (tq_heap q ! 0) \<Longrightarrow> get_ready_timers now q = Some (q, [])"
  by (subst get_ready_timers.simps) auto

lemma get_ready_timers_step:
  assumes "tq_heap q \<noteq> []" "he_time (tq_heap q ! 0) \<le> now" "t = he_timer (tq_heap q ! 0)"
    "get_ready_timers now (remove_timer t (set_ops t [] q)) = Some (q', rest)"
  shows "get_ready_timers now q = Some (q', map ready (waiting_ops q t) @ rest)"
  using assms by (subst get_ready_timers.simps) (simp add: Let_def waiting_ops_def)

lemma tq_inv_split: "tq_inv ts q \<Longrightarrow> t \<in> set ts \<Longrightarrow> \<exists>xs ys. ts = xs @ t # ys \<and> t \<notin> set xs \<and> t \<notin> set ys"
  by (metis distinct.simps(2) distinct_append in_set_conv_decomp_first linked_def tq_inv_def)

lemma remove_with_ops:
  assumes "tq_inv ts q" "t \<in> set ts"
  obtains ts' where "tq_inv ts' (remove_timer t (set_ops t ops q))" "set ts' = set ts - {t}"
    "deadline (remove_timer t (set_ops t ops q)) = (deadline q)(t := None)"
    "waiting_ops (remove_timer t (set_ops t ops q)) = (waiting_ops q)(t := ops)"
    "length (tq_heap (remove_timer t (set_ops t ops q))) < length (tq_heap q)"
proof -
  obtain xs ys where ts: "ts = xs @ t # ys" "t \<notin> set xs" "t \<notin> set ys"
    using tq_inv_split [OF assms] by blast
  then have "tq_inv (xs @ t # ys) (set_ops t ops q)" using assms(1) by simp
  note r = remove_timer_ok [OF this]
  have "set (xs @ ys) = set ts - {t}" using ts by auto
  then show thesis using that r by simp
qed

lemma get_ready_timers_ok:
  "tq_inv ts q \<Longrightarrow> \<exists>q' order ts'. get_ready_timers now q = Some (q', fires q order) \<and>
     distinct order \<and> set order = {t. due now q t} \<and> sorted (map (\<lambda>t. the (deadline q t)) order) \<and>
     timers_taken (set order) q q' \<and> tq_inv ts' q' \<and> set ts' = set ts - set order"
proof (induction "length (tq_heap q)" arbitrary: q ts rule: less_induct)
  case less
  show ?case
  proof (cases "tq_heap q = [] \<or> now < he_time (tq_heap q ! 0)")
    case True
    then have "get_ready_timers now q = Some (q, fires q [])"
      by (simp add: get_ready_timers_done fires_def)
    moreover have "{t. due now q t} = {}" using not_due_if_first_is_not [OF less.prems True] by blast
    ultimately show ?thesis using less.prems
      by (intro exI [of _ q] exI [of _ "[]"] exI [of _ ts]) (simp add: timers_taken_def)
  next
    case False
    define t d where "t = he_timer (tq_heap q ! 0)" and "d = he_time (tq_heap q ! 0)"
    have ne: "tq_heap q \<noteq> []" and d: "d \<le> now" using False by (simp_all add: d_def)
    have t: "deadline q t = Some d" using tq_inv_first(1) [OF less.prems ne] by (simp add: t_def d_def)
    then have "t \<in> set ts" using tq_inv_deadline [OF less.prems] by auto
    define q1 where "q1 = remove_timer t (set_ops t [] q)"
    obtain ts1 where q1: "tq_inv ts1 q1" "set ts1 = set ts - {t}" "deadline q1 = (deadline q)(t := None)"
        "waiting_ops q1 = (waiting_ops q)(t := [])" "length (tq_heap q1) < length (tq_heap q)"
      using remove_with_ops [OF less.prems \<open>t \<in> set ts\<close>] unfolding q1_def by metis
    obtain q' order ts' where IH: "get_ready_timers now q1 = Some (q', fires q1 order)" "distinct order"
        "set order = {t. due now q1 t}" "sorted (map (\<lambda>t. the (deadline q1 t)) order)"
        "timers_taken (set order) q1 q'" "tq_inv ts' q'" "set ts' = set ts1 - set order"
      using less.hyps [OF q1(5) q1(1)] by blast
    have due: "due now q1 s \<longleftrightarrow> due now q s \<and> s \<noteq> t" for s by (simp add: due_def q1(3))
    have fresh: "t \<notin> set order" by (simp add: IH(3) due)
    have "fires q1 order = fires q order" using fresh q1(4)
      by (auto simp: fires_def intro!: arg_cong [of _ _ concat])
    moreover have "get_ready_timers now q = Some (q', map ready (waiting_ops q t) @ fires q1 order)"
      by (rule get_ready_timers_step [OF ne _ t_def]) (use d IH(1) in \<open>simp_all add: d_def q1_def\<close>)
    ultimately have "get_ready_timers now q = Some (q', fires q (t # order))"
      by (simp add: fires_def)
    moreover have "distinct (t # order)" using IH(2) fresh by simp
    moreover have "set (t # order) = {t. due now q t}"
    proof -
      have "due now q t" using t d by (simp add: due_def)
      then show ?thesis by (auto simp: IH(3) due)
    qed
    moreover have "sorted (map (\<lambda>t. the (deadline q t)) (t # order))"
    proof -
      have "sorted (map (\<lambda>t. the (deadline q t)) order) = sorted (map (\<lambda>t. the (deadline q1 t)) order)"
        using fresh q1(3) by (auto intro!: arg_cong [of _ _ sorted])
      moreover have "d \<le> the (deadline q s)" if "s \<in> set order" for s
      proof -
        have "due now q s" using that by (simp add: IH(3) due)
        then obtain d' where "deadline q s = Some d'" by (auto simp: due_def split: option.splits)
        then show ?thesis using tq_inv_first(2) [OF less.prems ne] by (simp add: d_def)
      qed
      ultimately show ?thesis using IH(4) t by simp
    qed
    moreover have "timers_taken (set (t # order)) q q'" using IH(5) by (simp add: timers_taken_def q1(3,4))
    moreover have "set ts' = set ts - set (t # order)" using IH(7) q1(2) by auto
    ultimately show ?thesis using IH(6) by blast
  qed
qed

section \<open>Cancelling\<close>

lemma cancel_timer_ops_ok:
  assumes "tq_inv ts q" "cancel_timer_ops t n q = (q', ops, k)"
  shows "\<exists>ts'. tq_inv ts' q' \<and>
      set ts' = (if t \<in> set ts \<and> length (waiting_ops q t) \<le> n then set ts - {t} else set ts)"
    "deadline q' = (if t \<in> set ts \<and> length (waiting_ops q t) \<le> n then (deadline q)(t := None) else deadline q)"
    "ops = (if t \<in> set ts then map cancelled (take n (waiting_ops q t)) else [])" "k = length ops"
    "waiting_ops q' = (if t \<in> set ts then (waiting_ops q)(t := drop n (waiting_ops q t)) else waiting_ops q)"
proof -
  have use: "in_use t q \<longleftrightarrow> t \<in> set ts" using assms(1) linked_in_use by (simp add: tq_inv_def)
  show "ops = (if t \<in> set ts then map cancelled (take n (waiting_ops q t)) else [])" "k = length ops"
    using assms(2) use by (auto simp: cancel_timer_ops_def Let_def waiting_ops_def)
  define q1 where "q1 = set_ops t (drop n (waiting_ops q t)) q"
  have q': "q' = (if t \<notin> set ts then q else if length (waiting_ops q t) \<le> n then remove_timer t q1 else q1)"
    using assms(2) use waiting_ops_def [of q1 t]
    by (auto simp: cancel_timer_ops_def Let_def waiting_ops_def [symmetric] q1_def)
  show "\<exists>ts'. tq_inv ts' q' \<and>
      set ts' = (if t \<in> set ts \<and> length (waiting_ops q t) \<le> n then set ts - {t} else set ts)"
    "deadline q' = (if t \<in> set ts \<and> length (waiting_ops q t) \<le> n then (deadline q)(t := None) else deadline q)"
    "waiting_ops q' = (if t \<in> set ts then (waiting_ops q)(t := drop n (waiting_ops q t)) else waiting_ops q)"
  proof (atomize (full), cases "t \<in> set ts \<and> length (waiting_ops q t) \<le> n")
    case True
    then obtain ts' where "tq_inv ts' (remove_timer t q1)" "set ts' = set ts - {t}"
        "deadline (remove_timer t q1) = (deadline q)(t := None)"
        "waiting_ops (remove_timer t q1) = (waiting_ops q)(t := drop n (waiting_ops q t))"
      using remove_with_ops [OF assms(1), of t "drop n (waiting_ops q t)"] unfolding q1_def by metis
    then show "(\<exists>ts'. tq_inv ts' q' \<and>
        set ts' = (if t \<in> set ts \<and> length (waiting_ops q t) \<le> n then set ts - {t} else set ts)) \<and>
      deadline q' = (if t \<in> set ts \<and> length (waiting_ops q t) \<le> n then (deadline q)(t := None) else deadline q) \<and>
      waiting_ops q' = (if t \<in> set ts then (waiting_ops q)(t := drop n (waiting_ops q t)) else waiting_ops q)"
      using True q' by auto
  next
    case False
    then show "(\<exists>ts'. tq_inv ts' q' \<and>
        set ts' = (if t \<in> set ts \<and> length (waiting_ops q t) \<le> n then set ts - {t} else set ts)) \<and>
      deadline q' = (if t \<in> set ts \<and> length (waiting_ops q t) \<le> n then (deadline q)(t := None) else deadline q) \<and>
      waiting_ops q' = (if t \<in> set ts then (waiting_ops q)(t := drop n (waiting_ops q t)) else waiting_ops q)"
      using assms(1) q' by (auto simp: q1_def)
  qed
qed

lemma split_wait_ops_eq:
  "split_wait_ops key ops =
     (map cancelled (filter (\<lambda>op. wo_key op = Some key) ops), filter (\<lambda>op. wo_key op \<noteq> Some key) ops)"
  by (induction ops) (auto simp: Let_def)

lemma cancel_timer_by_key_ok:
  assumes "tq_inv ts q" "cancel_timer_by_key t key q = (q', ops)"
    "other = filter (\<lambda>op. wo_key op \<noteq> Some key) (waiting_ops q t)"
  shows "\<exists>ts'. tq_inv ts' q' \<and> set ts' = (if t \<in> set ts \<and> other = [] then set ts - {t} else set ts)"
    "deadline q' = (if t \<in> set ts \<and> other = [] then (deadline q)(t := None) else deadline q)"
    "ops = (if t \<in> set ts then map cancelled (filter (\<lambda>op. wo_key op = Some key) (waiting_ops q t)) else [])"
    "waiting_ops q' = (if t \<in> set ts then (waiting_ops q)(t := other) else waiting_ops q)"
proof -
  have use: "in_use t q \<longleftrightarrow> t \<in> set ts" using assms(1) linked_in_use by (simp add: tq_inv_def)
  have r: "q' = (if t \<notin> set ts then q else if other = [] then remove_timer t (set_ops t other q) else set_ops t other q)"
    "ops = (if t \<in> set ts then map cancelled (filter (\<lambda>op. wo_key op = Some key) (waiting_ops q t)) else [])"
    using assms(2) use waiting_ops_def [of "set_ops t other q" t]
    by (auto simp: cancel_timer_by_key_def Let_def waiting_ops_def [symmetric] split_wait_ops_eq assms(3)
      split: if_splits)
  show "ops = (if t \<in> set ts then map cancelled (filter (\<lambda>op. wo_key op = Some key) (waiting_ops q t)) else [])"
    by (rule r(2))
  show "\<exists>ts'. tq_inv ts' q' \<and> set ts' = (if t \<in> set ts \<and> other = [] then set ts - {t} else set ts)"
    "deadline q' = (if t \<in> set ts \<and> other = [] then (deadline q)(t := None) else deadline q)"
    "waiting_ops q' = (if t \<in> set ts then (waiting_ops q)(t := other) else waiting_ops q)"
  proof (atomize (full), cases "t \<in> set ts \<and> other = []")
    case True
    then obtain ts' where "tq_inv ts' (remove_timer t (set_ops t other q))" "set ts' = set ts - {t}"
        "deadline (remove_timer t (set_ops t other q)) = (deadline q)(t := None)"
        "waiting_ops (remove_timer t (set_ops t other q)) = (waiting_ops q)(t := other)"
      using remove_with_ops [OF assms(1), of t other] by metis
    then show "(\<exists>ts'. tq_inv ts' q' \<and> set ts' = (if t \<in> set ts \<and> other = [] then set ts - {t} else set ts)) \<and>
      deadline q' = (if t \<in> set ts \<and> other = [] then (deadline q)(t := None) else deadline q) \<and>
      waiting_ops q' = (if t \<in> set ts then (waiting_ops q)(t := other) else waiting_ops q)"
      using True r(1) by auto
  next
    case False
    then show "(\<exists>ts'. tq_inv ts' q' \<and> set ts' = (if t \<in> set ts \<and> other = [] then set ts - {t} else set ts)) \<and>
      deadline q' = (if t \<in> set ts \<and> other = [] then (deadline q)(t := None) else deadline q) \<and>
      waiting_ops q' = (if t \<in> set ts then (waiting_ops q)(t := other) else waiting_ops q)"
      using assms(1) r(1) by auto
  qed
qed

section \<open>Shutting down\<close>

lemma get_all_loop_ok:
  "lseg (tq_data q) p (tq_timers q) ts l None \<Longrightarrow> distinct ts \<Longrightarrow>
   \<exists>q'. get_all_loop q = Some (q', concat (map (waiting_ops q) ts)) \<and> tq_timers q' = None \<and>
     (\<forall>s. waiting_ops q' s = (if s \<in> set ts then [] else waiting_ops q s)) \<and>
     (\<forall>s. pt_next (tq_data q' s) = (if s \<in> set ts then None else pt_next (tq_data q s)) \<and>
          pt_prev (tq_data q' s) = (if s \<in> set ts then None else pt_prev (tq_data q s)))"
proof (induction ts arbitrary: q p)
  case Nil
  then show ?case by (subst get_all_loop.simps) simp
next
  case (Cons t ts)
  define q1 where "q1 = set_prev t None (set_next t None (set_ops t [] (q\<lparr>tq_timers := pt_next (tq_data q t)\<rparr>)))"
  have t: "tq_timers q = Some t" using Cons.prems(1) by simp
  have data: "waiting_ops q1 = (waiting_ops q)(t := [])" "tq_timers q1 = pt_next (tq_data q t)"
    "pt_next (tq_data q1 s) = (if s = t then None else pt_next (tq_data q s))"
    "pt_prev (tq_data q1 s) = (if s = t then None else pt_prev (tq_data q s))" for s
    by (auto simp: q1_def set_prev_def set_next_def set_ops_def upd_timer_def waiting_ops_def)
  have "lseg (tq_data q1) (Some t) (tq_timers q1) ts l None = lseg (tq_data q) (Some t) (tq_timers q1) ts l None"
    by (rule lseg_cong) (use Cons.prems(2) in \<open>auto simp: data\<close>)
  then have "lseg (tq_data q1) (Some t) (tq_timers q1) ts l None"
    using Cons.prems(1) by (simp add: data(2))
  then obtain q' where IH: "get_all_loop q1 = Some (q', concat (map (waiting_ops q1) ts))" "tq_timers q' = None"
      "\<forall>s. waiting_ops q' s = (if s \<in> set ts then [] else waiting_ops q1 s)"
      "\<forall>s. pt_next (tq_data q' s) = (if s \<in> set ts then None else pt_next (tq_data q1 s)) \<and>
          pt_prev (tq_data q' s) = (if s \<in> set ts then None else pt_prev (tq_data q1 s))"
    using Cons.IH [of q1 "Some t"] Cons.prems(2) by auto
  have "concat (map (waiting_ops q1) ts) = concat (map (waiting_ops q) ts)"
    using Cons.prems(2) by (auto simp: data(1) intro!: arg_cong [of _ _ concat])
  moreover have "get_all_loop q = Some (q', waiting_ops q t @ concat (map (waiting_ops q1) ts))"
    using IH(1) by (subst get_all_loop.simps) (simp add: t Let_def q1_def [symmetric] waiting_ops_def [of q t])
  ultimately have "get_all_loop q = Some (q', concat (map (waiting_ops q) (t # ts)))" by simp
  then show ?case using IH(2,3,4) by (intro exI [of _ q']) (simp add: data)
qed

lemma get_all_timers_ok:
  assumes "tq_inv ts q"
  shows "\<exists>q'. get_all_timers q = Some (q', concat (map (waiting_ops q) ts)) \<and> tq_inv [] q' \<and>
    (\<forall>s. waiting_ops q' s = (if s \<in> set ts then [] else waiting_ops q s)) \<and> deadline q' = (\<lambda>_. None)"
proof -
  obtain l where seg: "lseg (tq_data q) None (tq_timers q) ts l None" "distinct ts"
    and out: "\<forall>t. t \<notin> set ts \<longrightarrow> pt_next (tq_data q t) = None \<and> pt_prev (tq_data q t) = None"
    using assms by (auto simp: tq_inv_def linked_def)
  obtain q' where q': "get_all_loop q = Some (q', concat (map (waiting_ops q) ts))" "tq_timers q' = None"
      "\<forall>s. waiting_ops q' s = (if s \<in> set ts then [] else waiting_ops q s)"
      "\<forall>s. pt_next (tq_data q' s) = (if s \<in> set ts then None else pt_next (tq_data q s)) \<and>
          pt_prev (tq_data q' s) = (if s \<in> set ts then None else pt_prev (tq_data q s))"
    using get_all_loop_ok [OF seg] by blast
  then show ?thesis using out
    by (intro exI [of _ "q'\<lparr>tq_heap := []\<rparr>"])
      (auto simp: get_all_timers_def tq_inv_def min_heap_def index_ok_def linked_def deadline_def waiting_ops_def)
qed

section \<open>Moving a timer\<close>

text \<open>The assignments to the neighbours of the timer, then to both timers.\<close>

definition relink_prev :: "nat \<Rightarrow> nat \<Rightarrow> timer_queue \<Rightarrow> timer_queue" where
  "relink_prev t s q = (case pt_prev (tq_data q s) of None \<Rightarrow> q | Some p \<Rightarrow> set_next p (Some t) q)"

definition relink_next :: "nat \<Rightarrow> nat \<Rightarrow> timer_queue \<Rightarrow> timer_queue" where
  "relink_next t s q = (case pt_next (tq_data q s) of None \<Rightarrow> q | Some n \<Rightarrow> set_prev n (Some t) q)"

lemma set_simps:
  "tq_heap (set_next t p q) = tq_heap q" "tq_timers (set_next t p q) = tq_timers q"
  "tq_heap (set_prev t p q) = tq_heap q" "tq_timers (set_prev t p q) = tq_timers q"
  "pt_next (tq_data (set_next t p q) u) = (if u = t then p else pt_next (tq_data q u))"
  "pt_prev (tq_data (set_next t p q) u) = pt_prev (tq_data q u)"
  "pt_next (tq_data (set_prev t p q) u) = pt_next (tq_data q u)"
  "pt_prev (tq_data (set_prev t p q) u) = (if u = t then p else pt_prev (tq_data q u))"
  "pt_heap_index (tq_data (set_next t p q) u) = pt_heap_index (tq_data q u)"
  "pt_heap_index (tq_data (set_prev t p q) u) = pt_heap_index (tq_data q u)"
  "waiting_ops (set_next t p q) = waiting_ops q" "waiting_ops (set_prev t p q) = waiting_ops q"
  by (auto simp: set_next_def set_prev_def upd_timer_def waiting_ops_def)

lemma relink_simps:
  "tq_heap (relink_prev t s q) = tq_heap q" "tq_timers (relink_prev t s q) = tq_timers q"
  "tq_heap (relink_next t s q) = tq_heap q" "tq_timers (relink_next t s q) = tq_timers q"
  "pt_next (tq_data (relink_prev t s q) u) =
     (if pt_prev (tq_data q s) = Some u then Some t else pt_next (tq_data q u))"
  "pt_prev (tq_data (relink_prev t s q) u) = pt_prev (tq_data q u)"
  "pt_next (tq_data (relink_next t s q) u) = pt_next (tq_data q u)"
  "pt_prev (tq_data (relink_next t s q) u) =
     (if pt_next (tq_data q s) = Some u then Some t else pt_prev (tq_data q u))"
  "pt_heap_index (tq_data (relink_prev t s q) u) = pt_heap_index (tq_data q u)"
  "pt_heap_index (tq_data (relink_next t s q) u) = pt_heap_index (tq_data q u)"
  "waiting_ops (relink_prev t s q) = waiting_ops q" "waiting_ops (relink_next t s q) = waiting_ops q"
  by (simp_all add: relink_prev_def relink_next_def set_simps split: option.split)

definition move_start :: "nat \<Rightarrow> nat \<Rightarrow> timer_queue \<Rightarrow> timer_queue" where
  "move_start t s q =
     (let q = set_ops t (pt_op_queue (tq_data q t) @ pt_op_queue (tq_data q s)) q;
          q = set_ops s [] q;
          q = set_heap_index t (pt_heap_index (tq_data q s)) q;
          q = set_heap_index s no_index q;
          i = pt_heap_index (tq_data q t);
          q = (if i < length (tq_heap q)
               then q\<lparr>tq_heap := (tq_heap q)[i := (tq_heap q ! i)\<lparr>he_timer := t\<rparr>]\<rparr> else q)
      in (if tq_timers q = Some s then q\<lparr>tq_timers := Some t\<rparr> else q))"

lemma move_timer_split:
  "move_timer t s q =
     (let q = relink_next t s (relink_prev t s (move_start t s q));
          q = set_next t (pt_next (tq_data q s)) q;
          q = set_prev t (pt_prev (tq_data q s)) q
      in set_prev s None (set_next s None q))"
  by (simp only: move_timer_def move_start_def relink_prev_def relink_next_def Let_def)

lemma move_start_simps:
  assumes "s \<noteq> t"
  shows "tq_timers (move_start t s q) = (if tq_timers q = Some s then Some t else tq_timers q)"
    "waiting_ops (move_start t s q) = (waiting_ops q)(t := waiting_ops q t @ waiting_ops q s, s := [])"
    "pt_next (tq_data (move_start t s q) u) = pt_next (tq_data q u)"
    "pt_prev (tq_data (move_start t s q) u) = pt_prev (tq_data q u)"
    "pt_heap_index (tq_data (move_start t s q) u) =
      (if u = s then no_index else if u = t then pt_heap_index (tq_data q s) else pt_heap_index (tq_data q u))"
    "pt_heap_index (tq_data q s) < length (tq_heap q) \<Longrightarrow> tq_heap (move_start t s q) =
       (tq_heap q)[pt_heap_index (tq_data q s) := (tq_heap q ! pt_heap_index (tq_data q s))\<lparr>he_timer := t\<rparr>]"
  using assms
  by (simp_all add: move_start_def Let_def set_ops_def set_heap_index_def upd_timer_def waiting_ops_def fun_eq_iff)

lemma move_timer_data:
  assumes "pt_prev (tq_data q s) \<noteq> Some s" "pt_next (tq_data q s) \<noteq> Some s"
    "pt_prev (tq_data q s) \<noteq> Some t" "pt_next (tq_data q s) \<noteq> Some t" "s \<noteq> t"
  shows "pt_next (tq_data (move_timer t s q) u) =
      (if u = s then None else if u = t then pt_next (tq_data q s)
       else if pt_prev (tq_data q s) = Some u then Some t else pt_next (tq_data q u))"
    "pt_prev (tq_data (move_timer t s q) u) =
      (if u = s then None else if u = t then pt_prev (tq_data q s)
       else if pt_next (tq_data q s) = Some u then Some t else pt_prev (tq_data q u))"
    "tq_timers (move_timer t s q) = (if tq_timers q = Some s then Some t else tq_timers q)"
    "waiting_ops (move_timer t s q) = (waiting_ops q)(t := waiting_ops q t @ waiting_ops q s, s := [])"
    "pt_heap_index (tq_data (move_timer t s q) u) =
      (if u = s then no_index else if u = t then pt_heap_index (tq_data q s) else pt_heap_index (tq_data q u))"
    "pt_heap_index (tq_data q s) < length (tq_heap q) \<Longrightarrow> tq_heap (move_timer t s q) =
       (tq_heap q)[pt_heap_index (tq_data q s) := (tq_heap q ! pt_heap_index (tq_data q s))\<lparr>he_timer := t\<rparr>]"
  using assms move_start_simps [OF assms(5)] unfolding move_timer_split
  by (simp_all add: Let_def set_simps relink_simps)

lemma move_timer_linked:
  assumes "linked (xs @ s # ys) q" "t \<notin> set (xs @ s # ys)"
  shows "linked (xs @ t # ys) (move_timer t s q)" "pt_prev (tq_data q s) \<noteq> Some s" "pt_next (tq_data q s) \<noteq> Some s"
    "pt_prev (tq_data q s) \<noteq> Some t" "pt_next (tq_data q s) \<noteq> Some t" "s \<noteq> t"
proof -
  let ?d = "tq_data q" and ?d' = "tq_data (move_timer t s q)"
  have dist: "distinct (xs @ s # ys)" using assms by (simp add: linked_def)
  obtain l l1 where seg: "lseg ?d None (tq_timers q) xs l1 (Some s)" "pt_prev (?d s) = l1"
    "lseg ?d (Some s) (pt_next (?d s)) ys l None"
    using assms(1) by (auto simp: linked_def lseg_append)
  have l1: "l1 = (if xs = [] then None else Some (last xs))" by (rule lseg_last [OF seg(1)])
  have n: "pt_next (?d s) = (if ys = [] then None else Some (hd ys))" by (rule lseg_head [OF seg(3)])
  have mem: "xs \<noteq> [] \<Longrightarrow> last xs \<in> set xs" "ys \<noteq> [] \<Longrightarrow> hd ys \<in> set ys" by simp_all
  have "set xs \<inter> set ys = {}" using dist by auto
  then have other: "xs \<noteq> [] \<Longrightarrow> last xs \<notin> set ys" "ys \<noteq> [] \<Longrightarrow> hd ys \<notin> set xs"
    using mem by blast+
  then show ne: "pt_prev (?d s) \<noteq> Some s" "pt_next (?d s) \<noteq> Some s" "pt_prev (?d s) \<noteq> Some t"
      "pt_next (?d s) \<noteq> Some t" "s \<noteq> t"
    using dist assms(2) by (auto simp: seg(2) l1 n)
  note data = move_timer_data [OF ne, unfolded seg(2)]
  have head: "tq_timers q = Some s \<longleftrightarrow> xs = []"
    using lseg_head [OF seg(1)] dist hd_in_set [of xs] by (auto split: if_splits)
  have "lseg ?d' None (tq_timers (move_timer t s q)) xs l1 (Some t)"
  proof (cases xs rule: rev_cases)
    case (snoc xs' z)
    have "lseg ?d' None (tq_timers q) (xs' @ [z]) l1 (Some t)"
      by (rule lseg_new_next [OF seg(1) [unfolded snoc]])
        (use snoc dist assms(2) other mem(2) in \<open>auto simp: data l1 n\<close>)
    then show ?thesis using snoc by (simp add: data head)
  qed (simp add: data l1 head)
  moreover have "\<exists>l. lseg ?d' (Some t) (pt_next (?d s)) ys l None"
  proof (cases ys)
    case (Cons y ys')
    have "lseg ?d' (Some t) (pt_next (?d s)) (y # ys') l None"
      by (rule lseg_new_prev [OF seg(3) [unfolded Cons]])
        (use Cons dist assms(2) other mem(1) in \<open>auto simp: data l1 n\<close>)
    then show ?thesis using Cons by blast
  qed (simp add: n)
  moreover have "pt_next (?d' u) = None \<and> pt_prev (?d' u) = None" if "u \<notin> set (xs @ t # ys)" for u
    using assms(1) that mem by (auto simp: data linked_def l1 n)
  moreover have "pt_next (?d' t) = pt_next (?d s)" "pt_prev (?d' t) = l1" using ne by (simp_all add: data)
  ultimately show "linked (xs @ t # ys) (move_timer t s q)"
    using dist assms(2) unfolding linked_def lseg_append by auto
qed

lemma move_timer_ok:
  assumes "tq_inv (xs @ s # ys) q" "t \<notin> set (xs @ s # ys)"
  shows "tq_inv (xs @ t # ys) (move_timer t s q)"
    "waiting_ops (move_timer t s q) = (waiting_ops q)(t := waiting_ops q t @ waiting_ops q s, s := [])"
    "deadline (move_timer t s q) = (deadline q)(t := deadline q s, s := None)"
    "earliest (move_timer t s q) = earliest q"
proof -
  have h: "min_heap (tq_heap q)" "index_ok q" "linked (xs @ s # ys) q"
    and set: "he_timer ` set (tq_heap q) = set (xs @ s # ys)"
    using assms(1) by (simp_all add: tq_inv_def)
  note link = move_timer_linked [OF h(3) assms(2)]
  note data = move_timer_data [OF link(2-6)]
  show "waiting_ops (move_timer t s q) = (waiting_ops q)(t := waiting_ops q t @ waiting_ops q s, s := [])"
    by (rule data(4))
  have "s \<in> he_timer ` set (tq_heap q)" unfolding set by simp
  then obtain i where i: "i < length (tq_heap q)" "he_timer (tq_heap q ! i) = s" by (auto simp: in_set_conv_nth)
  then have idx: "pt_heap_index (tq_data q s) = i" using h(2) by (auto simp: index_ok_def)
  let ?h = "tq_heap (move_timer t s q)"
  have heap: "?h = (tq_heap q)[i := (tq_heap q ! i)\<lparr>he_timer := t\<rparr>]" using data(6) idx i(1) by simp
  have timers: "map he_timer ?h = (map he_timer (tq_heap q))[i := t]" by (simp add: heap map_update)
  have times: "he_time (?h ! j) = he_time (tq_heap q ! j)" for j
    using i(1) by (cases "j = i") (simp_all add: heap)
  have "tq_heap (move_timer t s q) = [] \<longleftrightarrow> tq_heap q = []" by (simp add: heap)
  then show "earliest (move_timer t s q) = earliest q" using times by (simp add: earliest_def)
  have d: "distinct (map he_timer (tq_heap q))" using h(2) by (simp add: index_ok_def)
  have other: "he_timer (tq_heap q ! j) \<noteq> t \<and> (j \<noteq> i \<longrightarrow> he_timer (tq_heap q ! j) \<noteq> s)"
    if "j < length (tq_heap q)" for j
  proof
    have "he_timer (tq_heap q ! j) \<in> set (xs @ s # ys)" using that set nth_mem by blast
    then show "he_timer (tq_heap q ! j) \<noteq> t" using assms(2) by metis
    show "j \<noteq> i \<longrightarrow> he_timer (tq_heap q ! j) \<noteq> s"
      using nth_eq_iff_index_eq [OF d, of j i] i that by auto
  qed
  have "t \<notin> set (map he_timer (tq_heap q))" using set assms(2) by simp
  then have d': "distinct (map he_timer ?h)" unfolding timers using d by (intro distinct_list_update) auto
  then have ok: "index_ok (move_timer t s q)"
    using h(2) idx i other by (auto simp: index_ok_def data(5) heap nth_list_update)
  have "min_heap ?h" using h(1) times by (simp add: min_heap_def below_def heap)
  moreover have "he_timer ` set ?h = set (xs @ t # ys)"
  proof -
    have "distinct (xs @ s # ys)" using h(3) by (simp add: linked_def)
    then have rest: "set (xs @ s # ys) - {s} = set (xs @ ys)" by auto
    have "set (map he_timer ?h) = insert t (set (map he_timer (tq_heap q)) - {s})"
      unfolding timers using i d by (subst set_update_distinct) auto
    then show ?thesis using set rest by simp
  qed
  ultimately show "tq_inv (xs @ t # ys) (move_timer t s q)" using ok link(1) by (simp add: tq_inv_def)
  define e where "e = \<lparr>he_time = he_time (tq_heap q ! i), he_timer = t\<rparr>"
  have old: "\<lparr>he_time = he_time (tq_heap q ! i), he_timer = s\<rparr> = tq_heap q ! i"
    using i(2) heap_entry_eta [of "tq_heap q ! i"] by metis
  have heap_set: "set ?h = insert e (set (tq_heap q) - {tq_heap q ! i})"
  proof -
    have "(tq_heap q ! i)\<lparr>he_timer := t\<rparr> = e" by (cases "tq_heap q ! i") (simp add: e_def)
    then show ?thesis unfolding heap using set_update_distinct [OF distinct_mapD [OF d] i(1)] by simp
  qed
  have only: "e' = tq_heap q ! i" if "e' \<in> set (tq_heap q)" "he_timer e' = s" for e'
    using that i nth_eq_iff_index_eq [OF d] by (auto simp: in_set_conv_nth)
  have none: "\<lparr>he_time = a, he_timer = t\<rparr> \<notin> set (tq_heap q)" for a
    using \<open>t \<notin> set (map he_timer (tq_heap q))\<close> by force
  have at_i: "tq_heap q ! i \<in> set (tq_heap q)" using i(1) by simp
  have dl_s: "deadline q s = Some (he_time (tq_heap q ! i))" unfolding deadline_iff [OF h(2)] old by (rule at_i)
  show "deadline (move_timer t s q) = (deadline q)(t := deadline q s, s := None)"
  proof
    fix u
    have "deadline (move_timer t s q) u = Some a \<longleftrightarrow> ((deadline q)(t := deadline q s, s := None)) u = Some a" for a
    proof -
      consider "u = s" | "u = t" "u \<noteq> s" | "u \<noteq> s" "u \<noteq> t" by blast
      then show ?thesis
      proof cases
        case 1
        then show ?thesis using only [of "\<lparr>he_time = a, he_timer = s\<rparr>"] link(6)
          by (simp add: deadline_iff [OF ok] heap_set e_def)
      next
        case 2
        then show ?thesis using none [of a] dl_s by (auto simp: deadline_iff [OF ok] heap_set e_def)
      next
        case 3
        then have "\<lparr>he_time = a, he_timer = u\<rparr> \<noteq> tq_heap q ! i"
          using i(2) by (metis heap_entry.select_convs(2))
        then show ?thesis using 3 by (simp add: deadline_iff [OF ok] deadline_iff [OF h(2)] heap_set e_def)
      qed
    qed
    then show "deadline (move_timer t s q) u = ((deadline q)(t := deadline q s, s := None)) u"
      by (metis option.exhaust)
  qed
qed

section \<open>Every operation is finished once\<close>

text \<open>A queue that is in order: the timers of \<open>ts\<close> have operations and no other.\<close>

definition timers_ok :: "timer_queue \<Rightarrow> bool" where
  "timers_ok q \<longleftrightarrow> (\<exists>ts. tq_inv ts q \<and> (\<forall>t. waiting_ops q t = [] \<longleftrightarrow> t \<notin> set ts))"

definition op_ids :: "wait_op list \<Rightarrow> nat multiset" where
  "op_ids ops = mset (map wo_id ops)"

text \<open>The operations that wait at a timer.\<close>

definition pending :: "timer_queue \<Rightarrow> nat multiset" where
  "pending q = (\<Sum>t \<in> he_timer ` set (tq_heap q). op_ids (waiting_ops q t))"

lemma op_ids_simps [simp]:
  "op_ids [] = {#}" "op_ids (op # ops) = add_mset (wo_id op) (op_ids ops)"
  "op_ids (xs @ ys) = op_ids xs + op_ids ys" "op_ids (map cancelled ops) = op_ids ops"
  "op_ids (map ready ops) = op_ids ops"
  by (simp_all add: op_ids_def comp_def cancelled_def ready_def)

lemma op_ids_concat: "op_ids (concat xss) = (\<Sum>xs \<leftarrow> xss. op_ids xs)"
  by (induction xss) simp_all

lemma op_ids_fires: "distinct order \<Longrightarrow> op_ids (fires q order) = (\<Sum>t \<in> set order. op_ids (waiting_ops q t))"
  by (simp add: fires_def op_ids_concat comp_def sum_list_distinct_conv_sum_set)

lemma op_ids_take_drop: "op_ids (take n ops) + op_ids (drop n ops) = op_ids ops"
  using op_ids_simps(3) [of "take n ops" "drop n ops"] by simp

lemma op_ids_filter: "op_ids (filter P ops) + op_ids (filter (\<lambda>op. \<not> P op) ops) = op_ids ops"
  by (induction ops) simp_all

lemma pending_inv: "tq_inv ts q \<Longrightarrow> pending q = (\<Sum>t \<in> set ts. op_ids (waiting_ops q t))"
  by (simp add: pending_def tq_inv_def)

lemma cancel_all_unused:
  assumes "timers_ok q" "cancel_timer_ops t (length (waiting_ops q t)) q = (q', ops, k)"
  shows "\<not> in_use t q'" "s \<noteq> t \<Longrightarrow> in_use s q' = in_use s q"
proof -
  obtain ts where ts: "tq_inv ts q" using assms(1) by (auto simp: timers_ok_def)
  obtain ts' where ts': "tq_inv ts' q'" "set ts' = set ts - {t}"
    using cancel_timer_ops_ok(1) [OF ts assms(2)] by (auto split: if_splits)
  have use: "in_use u q \<longleftrightarrow> u \<in> set ts" "in_use u q' \<longleftrightarrow> u \<in> set ts'" for u
    using ts ts'(1) linked_in_use by (simp_all add: tq_inv_def)
  show "\<not> in_use t q'" "s \<noteq> t \<Longrightarrow> in_use s q' = in_use s q" by (simp_all add: use ts'(2))
qed

text \<open>Only the operations of one timer change.\<close>

lemma pending_change:
  assumes "timers_ok q" "timers_ok q'" "waiting_ops q' = (waiting_ops q)(t := ops)"
    "op_ids (waiting_ops q t) + new = op_ids ops + old"
  shows "pending q + new = pending q' + old"
proof -
  obtain ts ts' where q: "tq_inv ts q" "\<And>s. waiting_ops q s = [] \<longleftrightarrow> s \<notin> set ts"
    and q': "tq_inv ts' q'" "\<And>s. waiting_ops q' s = [] \<longleftrightarrow> s \<notin> set ts'"
    using assms(1,2) by (auto simp: timers_ok_def)
  let ?A = "insert t (set ts \<union> set ts')"
  have none: "op_ids (waiting_ops q s) = {#}" if "s \<notin> set ts" for s using q(2) [of s] that by simp
  have none': "op_ids (waiting_ops q' s) = {#}" if "s \<notin> set ts'" for s using q'(2) [of s] that by simp
  have all: "pending q = (\<Sum>s \<in> ?A. op_ids (waiting_ops q s))" "pending q' = (\<Sum>s \<in> ?A. op_ids (waiting_ops q' s))"
    unfolding pending_inv [OF q(1)] pending_inv [OF q'(1)]
    using none none' by (auto intro!: sum.mono_neutral_left)
  have split: "(\<Sum>s \<in> ?A. f s) = f t + (\<Sum>s \<in> ?A - {t}. f s)" for f :: "nat \<Rightarrow> nat multiset"
    by (intro sum.remove) auto
  have rest: "(\<Sum>s \<in> ?A - {t}. op_ids (waiting_ops q' s)) = (\<Sum>s \<in> ?A - {t}. op_ids (waiting_ops q s))"
    by (rule sum.cong) (auto simp: assms(3))
  have "pending q + new = (op_ids (waiting_ops q t) + new) + (\<Sum>s \<in> ?A - {t}. op_ids (waiting_ops q s))"
    unfolding all(1) split [of "\<lambda>s. op_ids (waiting_ops q s)"] by (simp add: ac_simps)
  also have "\<dots> = pending q' + old"
    unfolding all(2) split [of "\<lambda>s. op_ids (waiting_ops q' s)"] rest assms(4) by (simp add: assms(3) ac_simps)
  finally show ?thesis .
qed

lemma timers_ok_move:
  assumes "timers_ok q" "in_use s q" "\<not> in_use t q"
  shows "timers_ok (move_timer t s q)" "pending (move_timer t s q) = pending q"
    "earliest (move_timer t s q) = earliest q"
    "deadline (move_timer t s q) = (deadline q)(t := deadline q s, s := None)"
    "waiting_ops (move_timer t s q) = (waiting_ops q)(t := waiting_ops q s, s := [])"
proof -
  obtain ts where ts: "tq_inv ts q" "\<forall>t. waiting_ops q t = [] \<longleftrightarrow> t \<notin> set ts"
    using assms(1) by (auto simp: timers_ok_def)
  have use: "in_use u q \<longleftrightarrow> u \<in> set ts" for u using ts(1) linked_in_use by (simp add: tq_inv_def)
  then obtain xs ys where split: "ts = xs @ s # ys" "s \<notin> set xs" "s \<notin> set ys"
    using tq_inv_split [OF ts(1)] assms(2) by blast
  have t: "t \<notin> set ts" "waiting_ops q t = []" using assms(3) use ts(2) by simp_all
  have inv: "tq_inv (xs @ s # ys) q" "t \<notin> set (xs @ s # ys)" using ts(1) t(1) split(1) by simp_all
  note m = move_timer_ok [OF inv]
  show "earliest (move_timer t s q) = earliest q" by (rule m(4))
  show "deadline (move_timer t s q) = (deadline q)(t := deadline q s, s := None)" by (rule m(3))
  show "waiting_ops (move_timer t s q) = (waiting_ops q)(t := waiting_ops q s, s := [])"
    by (simp add: m(2) t(2))
  have w: "waiting_ops (move_timer t s q) u = (if u = s then [] else if u = t then waiting_ops q s else waiting_ops q u)" for u
    using t by (simp add: m(2))
  show "timers_ok (move_timer t s q)" unfolding timers_ok_def
    using m(1) ts(2) t(1) split by (intro exI [of _ "xs @ t # ys"]) (auto simp: w)
  let ?rest = "set xs \<union> set ys"
  have sets: "set (xs @ u # ys) = insert u ?rest" for u by simp
  have "s \<notin> ?rest" "t \<notin> ?rest" using t(1) split by auto
  moreover from this have "(\<Sum>u \<in> ?rest. op_ids (waiting_ops (move_timer t s q) u)) = (\<Sum>u \<in> ?rest. op_ids (waiting_ops q u))"
    by (intro sum.cong) (auto simp: w)
  moreover have "s \<noteq> t" using t(1) split(1) by auto
  ultimately show "pending (move_timer t s q) = pending q"
    unfolding pending_inv [OF m(1)] pending_inv [OF inv(1)] sets by (simp add: w)
qed

lemma timers_ok_new [simp]: "timers_ok timer_queue_new" "pending timer_queue_new = {#}"
  by (auto simp: timers_ok_def pending_def tq_inv_def timer_queue_new_def min_heap_def index_ok_def
    linked_def per_timer_data_new_def waiting_ops_def intro!: exI [of _ "[]"])

lemma timers_ok_enqueue:
  assumes "timers_ok q" "enqueue_timer time t op q = (q', first)"
  shows "timers_ok q'" "pending q' = add_mset (wo_id op) (pending q)"
    "\<not> first \<Longrightarrow> earliest q' = earliest q"
proof -
  obtain ts where ts: "tq_inv ts q" "\<forall>t. waiting_ops q t = [] \<longleftrightarrow> t \<notin> set ts"
    using assms(1) by (auto simp: timers_ok_def)
  note e = enqueue_timer_ok [OF ts(1) assms(2)]
  show "\<not> first \<Longrightarrow> earliest q' = earliest q" using e(5) ts(2) by blast
  show ok: "timers_ok q'" unfolding timers_ok_def
    using e(1) ts(2) by (intro exI [of _ "if t \<in> set ts then ts else t # ts"]) (auto simp: e(3))
  show "pending q' = add_mset (wo_id op) (pending q)"
    using pending_change [OF assms(1) ok e(3), of "{#wo_id op#}" "{#}"] by simp
qed

lemma timers_ok_expire:
  assumes "timers_ok q" "get_ready_timers now q = Some (q', ops)"
  shows "timers_ok q'" "pending q = pending q' + op_ids ops"
proof -
  obtain ts where ts: "tq_inv ts q" "\<forall>t. waiting_ops q t = [] \<longleftrightarrow> t \<notin> set ts"
    using assms(1) by (auto simp: timers_ok_def)
  obtain order ts' where r: "ops = fires q order" "distinct order" "set order = {t. due now q t}"
      "timers_taken (set order) q q'" "tq_inv ts' q'" "set ts' = set ts - set order"
    using get_ready_timers_ok [OF ts(1), of now] assms(2) by auto
  show "timers_ok q'" using ts(2) r(4,5,6) by (auto simp: timers_ok_def timers_taken_def intro!: exI [of _ ts'])
  have sub: "set order \<subseteq> set ts"
    using tq_inv_deadline [OF ts(1)] by (auto simp: r(3) due_def split: option.splits)
  have "pending q = (\<Sum>t \<in> set ts - set order. op_ids (waiting_ops q t)) + (\<Sum>t \<in> set order. op_ids (waiting_ops q t))"
    unfolding pending_inv [OF ts(1)] by (rule sum.subset_diff) (use sub in simp_all)
  moreover have "pending q' = (\<Sum>t \<in> set ts - set order. op_ids (waiting_ops q t))"
    unfolding pending_inv [OF r(5)] r(6) by (rule sum.cong) (use r(4) in \<open>auto simp: timers_taken_def\<close>)
  ultimately show "pending q = pending q' + op_ids ops" using op_ids_fires [OF r(2)] by (simp add: r(1))
qed

lemma timers_ok_cancel:
  assumes "timers_ok q" "cancel_timer_ops t n q = (q', ops, k)"
  shows "timers_ok q'" "pending q = pending q' + op_ids ops" "deadline q' \<subseteq>\<^sub>m deadline q"
proof -
  obtain ts where ts: "tq_inv ts q" "\<forall>t. waiting_ops q t = [] \<longleftrightarrow> t \<notin> set ts"
    using assms(1) by (auto simp: timers_ok_def)
  note c = cancel_timer_ops_ok [OF ts(1) assms(2)]
  show "deadline q' \<subseteq>\<^sub>m deadline q" by (simp add: c(2) map_le_def)
  show ok: "timers_ok q'" using c(1) ts(2) unfolding timers_ok_def by (auto simp: c(5) split: if_splits)
  have w: "waiting_ops q' = (waiting_ops q)(t := drop n (waiting_ops q t))"
  proof (cases "t \<in> set ts")
    case False
    then have "waiting_ops q t = []" using ts(2) by simp
    then show ?thesis using False c(5) by (auto simp: fun_eq_iff)
  qed (simp add: c(5))
  have "ops = map cancelled (take n (waiting_ops q t))"
    using c(3) ts(2) by (cases "waiting_ops q t = []") auto
  then have "op_ids (waiting_ops q t) + {#} = op_ids (drop n (waiting_ops q t)) + op_ids ops"
    using op_ids_take_drop [of n "waiting_ops q t"] by (simp add: ac_simps)
  from pending_change [OF assms(1) ok w this] show "pending q = pending q' + op_ids ops" by simp
qed

lemma timers_ok_cancel_key:
  assumes "timers_ok q" "cancel_timer_by_key t key q = (q', ops)"
  shows "timers_ok q'" "pending q = pending q' + op_ids ops" "deadline q' \<subseteq>\<^sub>m deadline q"
proof -
  obtain ts where ts: "tq_inv ts q" "\<forall>t. waiting_ops q t = [] \<longleftrightarrow> t \<notin> set ts"
    using assms(1) by (auto simp: timers_ok_def)
  note c = cancel_timer_by_key_ok [OF ts(1) assms(2) refl]
  show "deadline q' \<subseteq>\<^sub>m deadline q" by (simp add: c(2) map_le_def)
  show ok: "timers_ok q'" using c(1) ts(2) unfolding timers_ok_def by (auto simp: c(4) split: if_splits)
  have w: "waiting_ops q' = (waiting_ops q)(t := filter (\<lambda>op. wo_key op \<noteq> Some key) (waiting_ops q t))"
  proof (cases "t \<in> set ts")
    case False
    then have "waiting_ops q t = []" using ts(2) by simp
    then show ?thesis using False c(4) by (auto simp: fun_eq_iff)
  qed (simp add: c(4))
  have "t \<notin> set ts \<Longrightarrow> waiting_ops q t = []" using ts(2) by simp
  then have "ops = map cancelled (filter (\<lambda>op. wo_key op = Some key) (waiting_ops q t))"
    using c(3) by (cases "t \<in> set ts") simp_all
  then have "op_ids (waiting_ops q t) + {#} =
      op_ids (filter (\<lambda>op. wo_key op \<noteq> Some key) (waiting_ops q t)) + op_ids ops"
    using op_ids_filter [of "\<lambda>op. wo_key op = Some key" "waiting_ops q t"] by (simp add: ac_simps)
  from pending_change [OF assms(1) ok w this] show "pending q = pending q' + op_ids ops" by simp
qed

lemma timers_ok_shutdown:
  assumes "timers_ok q" "get_all_timers q = Some (q', ops)"
  shows "timers_ok q'" "pending q = pending q' + op_ids ops"
proof -
  obtain ts where ts: "tq_inv ts q" "\<forall>t. waiting_ops q t = [] \<longleftrightarrow> t \<notin> set ts"
    using assms(1) by (auto simp: timers_ok_def)
  then have r: "tq_inv [] q'" "ops = concat (map (waiting_ops q) ts)" "\<forall>s. waiting_ops q' s = (if s \<in> set ts then [] else waiting_ops q s)"
    using get_all_timers_ok [OF ts(1)] assms(2) by auto
  show "timers_ok q'" using r ts(2) by (auto simp: timers_ok_def intro!: exI [of _ "[]"])
  have "distinct ts" using ts(1) by (simp add: tq_inv_def linked_def)
  then show "pending q = pending q' + op_ids ops"
    by (simp add: pending_inv [OF ts(1)] pending_inv [OF r(1)] r(2) op_ids_concat comp_def
      sum_list_distinct_conv_sum_set)
qed

text \<open>A timer is in use, has an expiry time, and has operations at the same time.\<close>

lemma timers_ok_used:
  assumes "timers_ok q"
  shows "in_use t q \<longleftrightarrow> waiting_ops q t \<noteq> []" "deadline q t = None \<longleftrightarrow> waiting_ops q t = []"
proof -
  obtain ts where ts: "tq_inv ts q" "\<forall>t. waiting_ops q t = [] \<longleftrightarrow> t \<notin> set ts"
    using assms by (auto simp: timers_ok_def)
  show "in_use t q \<longleftrightarrow> waiting_ops q t \<noteq> []" using ts linked_in_use by (simp add: tq_inv_def)
  show "deadline q t = None \<longleftrightarrow> waiting_ops q t = []" using ts(2) tq_inv_deadline [OF ts(1), of t]
    by (cases "deadline q t") auto
qed

lemma timers_ok_effects:
  assumes "timers_ok q"
  shows "enqueue_timer time t op q = (q', first) \<Longrightarrow>
      deadline q' = (if waiting_ops q t = [] then (deadline q)(t \<mapsto> time) else deadline q) \<and>
      waiting_ops q' = (waiting_ops q)(t := waiting_ops q t @ [op])"
    "cancel_timer_ops t n q = (q', ops, k) \<Longrightarrow>
      deadline q' = (if length (waiting_ops q t) \<le> n then (deadline q)(t := None) else deadline q) \<and>
      waiting_ops q' = (waiting_ops q)(t := drop n (waiting_ops q t)) \<and>
      ops = map cancelled (take n (waiting_ops q t)) \<and> k = length ops"
    "cancel_timer_by_key t key q = (q', ops) \<Longrightarrow>
      deadline q' s = (if waiting_ops q' s = [] then None else deadline q s) \<and>
      waiting_ops q' = (waiting_ops q)(t := filter (\<lambda>op. wo_key op \<noteq> Some key) (waiting_ops q t))"
proof -
  obtain ts where ts: "tq_inv ts q" "\<forall>t. waiting_ops q t = [] \<longleftrightarrow> t \<notin> set ts"
    using assms by (auto simp: timers_ok_def)
  have empty: "waiting_ops q u = []" "deadline q u = None" if "u \<notin> set ts" for u
    using that ts(2) tq_inv_deadline [OF ts(1), of u] by auto
  have idem: "(waiting_ops q)(u := []) = waiting_ops q" "(deadline q)(u := None) = deadline q" if "u \<notin> set ts" for u
    using empty [OF that] by (simp_all add: fun_eq_iff)
  show "deadline q' = (if waiting_ops q t = [] then (deadline q)(t \<mapsto> time) else deadline q) \<and>
      waiting_ops q' = (waiting_ops q)(t := waiting_ops q t @ [op])" if "enqueue_timer time t op q = (q', first)"
    using enqueue_timer_ok(2,3) [OF ts(1) that] ts(2) by simp
  show "deadline q' = (if length (waiting_ops q t) \<le> n then (deadline q)(t := None) else deadline q) \<and>
      waiting_ops q' = (waiting_ops q)(t := drop n (waiting_ops q t)) \<and>
      ops = map cancelled (take n (waiting_ops q t)) \<and> k = length ops"
    if "cancel_timer_ops t n q = (q', ops, k)"
    using cancel_timer_ops_ok(2-5) [OF ts(1) that] empty [of t] idem [of t]
    by (cases "t \<in> set ts") simp_all
  show "deadline q' s = (if waiting_ops q' s = [] then None else deadline q s) \<and>
      waiting_ops q' = (waiting_ops q)(t := filter (\<lambda>op. wo_key op \<noteq> Some key) (waiting_ops q t))"
    if "cancel_timer_by_key t key q = (q', ops)"
  proof -
    define other where "other = filter (\<lambda>op. wo_key op \<noteq> Some key) (waiting_ops q t)"
    note c = cancel_timer_by_key_ok(2,4) [OF ts(1) that other_def]
    have none: "t \<notin> set ts \<Longrightarrow> other = []" using empty(1) [of t] by (simp add: other_def)
    have dl: "deadline q' = (if other = [] then (deadline q)(t := None) else deadline q)"
      using c(1) none idem(2) [of t] by (cases "t \<in> set ts") simp_all
    have w: "waiting_ops q' = (waiting_ops q)(t := other)"
      using c(2) none idem(1) [of t] by (cases "t \<in> set ts") simp_all
    have "deadline q' s = (if waiting_ops q' s = [] then None else deadline q s)"
    proof (cases "s = t")
      case True
      then show ?thesis by (simp add: dl w)
    next
      case False
      have "waiting_ops q s = [] \<Longrightarrow> deadline q s = None" using empty(2) [of s] ts(2) by simp
      then show ?thesis using False by (simp add: dl w)
    qed
    then show ?thesis using w by (simp add: other_def)
  qed
qed

lemma timers_ok_construct:
  assumes "timers_ok q" "waiting_ops q t = []"
  shows "timers_ok (construct_timer t q)" "pending (construct_timer t q) = pending q"
    "deadline (construct_timer t q) = deadline q" "waiting_ops (construct_timer t q) = waiting_ops q"
proof -
  obtain ts where ts: "tq_inv ts q" "\<forall>t. waiting_ops q t = [] \<longleftrightarrow> t \<notin> set ts"
    using assms(1) by (auto simp: timers_ok_def)
  have t: "t \<notin> set ts" using assms(2) ts(2) by simp
  then have free: "pt_next (tq_data q t) = None" "pt_prev (tq_data q t) = None"
    using ts(1) by (simp_all add: tq_inv_def linked_def)
  have q': "tq_heap (construct_timer t q) = tq_heap q" "tq_timers (construct_timer t q) = tq_timers q"
    "pt_next (tq_data (construct_timer t q) u) = pt_next (tq_data q u)"
    "pt_prev (tq_data (construct_timer t q) u) = pt_prev (tq_data q u)"
    "u \<noteq> t \<Longrightarrow> pt_heap_index (tq_data (construct_timer t q) u) = pt_heap_index (tq_data q u)" for u
    using free by (simp_all add: construct_timer_def upd_timer_def per_timer_data_new_def)
  show w: "waiting_ops (construct_timer t q) = waiting_ops q"
    using assms(2) by (auto simp: waiting_ops_def construct_timer_def upd_timer_def per_timer_data_new_def)
  show "deadline (construct_timer t q) = deadline q" by (simp add: deadline_def q'(1))
  have "he_timer (tq_heap q ! i) \<noteq> t" if "i < length (tq_heap q)" for i
    using t ts(1) that nth_mem unfolding tq_inv_def by blast
  then have "index_ok (construct_timer t q)" using ts(1) by (simp add: tq_inv_def index_ok_def q')
  moreover have "linked ts (construct_timer t q) = linked ts q" by (rule linked_cong) (simp_all add: q')
  ultimately have inv: "tq_inv ts (construct_timer t q)" using ts(1) by (simp add: tq_inv_def q'(1))
  then show "timers_ok (construct_timer t q)" using ts(2) by (auto simp: timers_ok_def w)
  show "pending (construct_timer t q) = pending q" by (simp add: pending_inv [OF inv] pending_inv [OF ts(1)] w)
qed

section \<open>How long the reactor may wait\<close>

lemma earliest_deadline:
  assumes "timers_ok q"
  shows "earliest q = None \<longleftrightarrow> (\<forall>t. deadline q t = None)"
    "earliest q = Some d \<Longrightarrow> \<exists>t. deadline q t = Some d"
    "earliest q = Some d \<Longrightarrow> deadline q t = Some d' \<Longrightarrow> d \<le> d'"
proof -
  obtain ts where ts: "tq_inv ts q" using assms by (auto simp: timers_ok_def)
  show some: "earliest q = Some d \<Longrightarrow> \<exists>t. deadline q t = Some d" for d
    using tq_inv_first(1) [OF ts] by (auto simp: earliest_def split: if_splits)
  have "earliest q = None \<Longrightarrow> deadline q t = None" for t
    by (simp add: earliest_def deadline_def split: if_splits)
  then show "earliest q = None \<longleftrightarrow> (\<forall>t. deadline q t = None)" using some by (cases "earliest q") auto
  show "earliest q = Some d \<Longrightarrow> deadline q t = Some d' \<Longrightarrow> d \<le> d'"
    using tq_inv_first(2) [OF ts] by (auto simp: earliest_def split: if_splits)
qed

lemma wait_duration_earliest:
  "wait_duration_msec now m q = (case earliest q of None \<Rightarrow> m | Some d \<Rightarrow> to_msec (d - now) m)"
  "wait_duration_usec now m q = (case earliest q of None \<Rightarrow> m | Some d \<Rightarrow> to_usec (d - now) m)"
  by (simp_all add: wait_duration_msec_def wait_duration_usec_def earliest_def)

text \<open>Both conversions with the length of a unit.\<close>

definition to_units :: "int \<Rightarrow> int \<Rightarrow> int \<Rightarrow> int" where
  "to_units u d m =
     (if d \<le> 0 then 0 else if d div u = 0 then 1 else if d div u > m then m else d div u)"

lemma to_units_conv: "to_msec d m = to_units 1000000 d m" "to_usec d m = to_units 1000 d m"
  by (simp_all add: to_msec_def to_usec_def to_units_def Let_def)

lemma to_units_bounds:
  assumes "0 < u" "0 < m"
  shows "0 \<le> to_units u d m" "to_units u d m \<le> m" "to_units u d m = 0 \<longleftrightarrow> d \<le> 0"
    "0 < d \<Longrightarrow> to_units u d m * u < d + u"
proof -
  have pos: "0 < d \<Longrightarrow> 0 \<le> d div u" using assms(1) by (simp add: pos_imp_zdiv_nonneg_iff)
  then show "0 \<le> to_units u d m" "to_units u d m \<le> m" "to_units u d m = 0 \<longleftrightarrow> d \<le> 0"
    using assms(2) by (auto simp: to_units_def)
  assume d: "0 < d"
  have "d div u * u \<le> d" using assms(1) by (simp add: minus_mod_eq_div_mult [symmetric])
  moreover have "to_units u d m \<le> d div u \<or> to_units u d m = 1 \<and> d div u = 0"
    using d by (auto simp: to_units_def)
  then have "to_units u d m * u \<le> d div u * u \<or> to_units u d m * u = u" using assms(1) by auto
  ultimately show "to_units u d m * u < d + u" using assms(1) d by linarith
qed

end
