(* ===== verification/Asio_Timer_Reactor.thy ===== *)
theory Asio_Timer_Reactor
  imports Asio_Timer_Queue
begin

text \<open>
  The timers of the reactor, \<^verbatim>\<open>detail/impl/epoll_reactor.hpp\<close>, \<^verbatim>\<open>detail/impl/epoll_reactor.ipp\<close> and
  \<^verbatim>\<open>detail/impl/timer_queue_set.ipp\<close>, with one queue and a timer descriptor: the operations that
  change the queue, the alarm that is set for the first of the timers, and the part of \<^verbatim>\<open>run\<close> that
  follows the alarm. Every operation gets the time at which it reads the clock. What
  \<^verbatim>\<open>timerfd_settime\<close> makes of its arguments is an argument.
\<close>

section \<open>State\<close>

text \<open>The queue; the time for which the timer descriptor is set; the count of outstanding work and
  the queue of completions of the scheduler.\<close>

record timer_reactor =
  tr_queue :: timer_queue
  tr_alarm :: int
  tr_shutdown :: bool
  tr_outstanding_work :: int
  tr_op_queue :: "wait_op list"

record itimerspec =
  it_value_sec :: int
  it_value_nsec :: int

text \<open>The clock, the flag for an absolute time and the value give the time of the alarm.\<close>

type_synonym settime = "int \<Rightarrow> bool \<Rightarrow> itimerspec \<Rightarrow> int"

definition timer_reactor_new :: "int \<Rightarrow> timer_reactor" where
  "timer_reactor_new alarm =
     \<lparr>tr_queue = timer_queue_new, tr_alarm = alarm, tr_shutdown = False, tr_outstanding_work = 0,
      tr_op_queue = []\<rparr>"

section \<open>Timeouts\<close>

definition set_wait_duration_msec :: "int \<Rightarrow> int \<Rightarrow> timer_queue list \<Rightarrow> int" where
  "set_wait_duration_msec now max_duration qs =
     foldl (\<lambda>min_duration p. wait_duration_msec now min_duration p) max_duration qs"

definition set_wait_duration_usec :: "int \<Rightarrow> int \<Rightarrow> timer_queue list \<Rightarrow> int" where
  "set_wait_duration_usec now max_duration qs =
     foldl (\<lambda>min_duration p. wait_duration_usec now min_duration p) max_duration qs"

definition get_timeout_msec :: "int \<Rightarrow> int \<Rightarrow> timer_queue list \<Rightarrow> int" where
  "get_timeout_msec now msec qs =
     (let max_msec = 5 * 60 * 1000
      in set_wait_duration_msec now (if msec < 0 \<or> max_msec < msec then max_msec else msec) qs)"

text \<open>The value for the timer descriptor and whether it is an absolute time.\<close>

definition get_timeout :: "int \<Rightarrow> timer_queue list \<Rightarrow> itimerspec \<times> bool" where
  "get_timeout now qs =
     (let usec = set_wait_duration_usec now (5 * 60 * 1000 * 1000) qs
      in (\<lparr>it_value_sec = usec div 1000000,
           it_value_nsec = (if usec \<noteq> 0 then (usec mod 1000000) * 1000 else 1)\<rparr>,
          usec = 0))"

definition update_timeout :: "settime \<Rightarrow> int \<Rightarrow> timer_reactor \<Rightarrow> timer_reactor" where
  "update_timeout timerfd_settime now r =
     (let (new_timeout, absolute) = get_timeout now [tr_queue r]
      in r\<lparr>tr_alarm := timerfd_settime now absolute new_timeout\<rparr>)"

section \<open>Operations\<close>

definition schedule_timer ::
  "settime \<Rightarrow> int \<Rightarrow> int \<Rightarrow> nat \<Rightarrow> wait_op \<Rightarrow> timer_reactor \<Rightarrow> timer_reactor"
where
  "schedule_timer timerfd_settime now time t op r =
     (if tr_shutdown r
      then r\<lparr>tr_outstanding_work := tr_outstanding_work r + 1, tr_op_queue := tr_op_queue r @ [op]\<rparr>
      else let (q, earliest) = enqueue_timer time t op (tr_queue r);
               r = r\<lparr>tr_queue := q, tr_outstanding_work := tr_outstanding_work r + 1\<rparr>
           in if earliest then update_timeout timerfd_settime now r else r)"

definition timer_deferred_completions :: "wait_op list \<Rightarrow> timer_reactor \<Rightarrow> timer_reactor" where
  "timer_deferred_completions ops r =
     (if ops \<noteq> [] then r\<lparr>tr_op_queue := tr_op_queue r @ ops\<rparr> else r)"

definition reactor_cancel_timer :: "nat \<Rightarrow> nat \<Rightarrow> timer_reactor \<Rightarrow> timer_reactor \<times> nat" where
  "reactor_cancel_timer t max_cancelled r =
     (let (q, ops, n) = cancel_timer_ops t max_cancelled (tr_queue r)
      in (timer_deferred_completions ops (r\<lparr>tr_queue := q\<rparr>), n))"

definition reactor_cancel_by_key :: "nat \<Rightarrow> nat \<Rightarrow> timer_reactor \<Rightarrow> timer_reactor" where
  "reactor_cancel_by_key t key r =
     (let (q, ops) = cancel_timer_by_key t key (tr_queue r)
      in timer_deferred_completions ops (r\<lparr>tr_queue := q\<rparr>))"

text \<open>All operations of the target are cancelled: their number is the largest one may ask for.\<close>

definition reactor_move_timer :: "nat \<Rightarrow> nat \<Rightarrow> timer_reactor \<Rightarrow> timer_reactor" where
  "reactor_move_timer target source r =
     (let (q, ops, n) = cancel_timer_ops target
            (length (pt_op_queue (tq_data (tr_queue r) target))) (tr_queue r)
      in timer_deferred_completions ops (r\<lparr>tr_queue := move_timer target source q\<rparr>))"

text \<open>What \<^verbatim>\<open>run\<close> does when the timer descriptor is ready: the operations of the due timers go
  to the scheduler, and the alarm is set anew.\<close>

definition check_timers :: "settime \<Rightarrow> int \<Rightarrow> int \<Rightarrow> timer_reactor \<Rightarrow> timer_reactor option" where
  "check_timers timerfd_settime now now' r =
     map_option
       (\<lambda>(q, ops). update_timeout timerfd_settime now'
          (r\<lparr>tr_queue := q, tr_op_queue := tr_op_queue r @ ops\<rparr>))
       (get_ready_timers now (tr_queue r))"

text \<open>The operations are abandoned, not completed.\<close>

definition reactor_shutdown :: "timer_reactor \<Rightarrow> (timer_reactor \<times> wait_op list) option" where
  "reactor_shutdown r =
     map_option (\<lambda>(q, ops). (r\<lparr>tr_queue := q, tr_shutdown := True\<rparr>, ops)) (get_all_timers (tr_queue r))"

text \<open>\<^verbatim>\<open>do_run_one\<close> with the first completion: the handler runs and its work is finished.\<close>

definition run_one_timer :: "timer_reactor \<Rightarrow> timer_reactor" where
  "run_one_timer r =
     (case tr_op_queue r of
        [] \<Rightarrow> r
      | op # ops \<Rightarrow> r\<lparr>tr_op_queue := ops, tr_outstanding_work := tr_outstanding_work r - 1\<rparr>)"

end
