(* ===== verification/Asio_Timer_Runs.thy ===== *)
theory Asio_Timer_Runs
  imports Asio_Timer_Ops Asio_Timer_Reactor
begin

text \<open>
  Every use of the timers of the reactor, and the invariant it keeps: the queue is in order, each
  operation is in one place, and the alarm is never later than the first timer.
\<close>

section \<open>The alarm\<close>

text \<open>What the documentation of \<^verbatim>\<open>timerfd_settime\<close> says: the value is added to the time of the call
  or is the time of the alarm.\<close>

definition settime_ok :: "settime \<Rightarrow> bool" where
  "settime_ok timerfd_settime \<longleftrightarrow>
     (\<forall>now absolute v. timerfd_settime now absolute v =
        (if absolute then 0 else now) + it_value_sec v * 1000000000 + it_value_nsec v)"

definition alarm_ok :: "timer_reactor \<Rightarrow> int \<Rightarrow> bool" where
  "alarm_ok r now \<longleftrightarrow>
     (\<forall>t d. deadline (tr_queue r) t = Some d \<longrightarrow> tr_alarm r < d + 1000 \<or> tr_alarm r \<le> now)"

lemma alarm_ok_earliest:
  assumes "timers_ok (tr_queue r)"
  shows "alarm_ok r now \<longleftrightarrow>
    (\<forall>d. earliest (tr_queue r) = Some d \<longrightarrow> tr_alarm r < d + 1000 \<or> tr_alarm r \<le> now)"
proof
  assume "alarm_ok r now"
  then show "\<forall>d. earliest (tr_queue r) = Some d \<longrightarrow> tr_alarm r < d + 1000 \<or> tr_alarm r \<le> now"
    using earliest_deadline(2) [OF assms] by (auto simp: alarm_ok_def)
next
  assume e: "\<forall>d. earliest (tr_queue r) = Some d \<longrightarrow> tr_alarm r < d + 1000 \<or> tr_alarm r \<le> now"
  show "alarm_ok r now"
    unfolding alarm_ok_def
  proof (intro allI impI)
    fix t d
    assume d: "deadline (tr_queue r) t = Some d"
    then obtain d' where d': "earliest (tr_queue r) = Some d'"
      using earliest_deadline(1) [OF assms] by (cases "earliest (tr_queue r)") auto
    then have "d' \<le> d" using earliest_deadline(3) [OF assms _ d] by simp
    then show "tr_alarm r < d + 1000 \<or> tr_alarm r \<le> now" using e d' by auto
  qed
qed

lemma get_timeout_single:
  "get_timeout now [q] =
     (let usec = (case earliest q of None \<Rightarrow> 300000000 | Some d \<Rightarrow> to_units 1000 (d - now) 300000000)
      in (\<lparr>it_value_sec = usec div 1000000, it_value_nsec = (if usec \<noteq> 0 then (usec mod 1000000) * 1000 else 1)\<rparr>,
          usec = 0))"
  by (cases "earliest q") (simp_all add: get_timeout_def set_wait_duration_usec_def wait_duration_earliest to_units_conv Let_def)

lemma update_timeout_simps [simp]:
  "tr_queue (update_timeout st now r) = tr_queue r" "tr_shutdown (update_timeout st now r) = tr_shutdown r"
  "tr_outstanding_work (update_timeout st now r) = tr_outstanding_work r"
  "tr_op_queue (update_timeout st now r) = tr_op_queue r"
  by (simp_all add: update_timeout_def split: prod.split)

lemma update_timeout_ok:
  assumes "timers_ok (tr_queue r)" "settime_ok st" "0 < now"
  shows "alarm_ok (update_timeout st now r) now"
proof -
  have "tr_alarm (update_timeout st now r) < d + 1000 \<or> tr_alarm (update_timeout st now r) \<le> now"
    if d: "earliest (tr_queue r) = Some d" for d
  proof -
    define usec where "usec = to_units 1000 (d - now) 300000000"
    have alarm: "tr_alarm (update_timeout st now r) = (if usec = 0 then 1 else now + usec * 1000)"
    proof -
      have "(usec div 1000000) * 1000000000 + (usec mod 1000000) * 1000 = usec * 1000"
        by (simp add: minus_div_mult_eq_mod [symmetric])
      then show ?thesis using assms(2)
        by (simp add: update_timeout_def get_timeout_single d usec_def [symmetric] Let_def settime_ok_def)
    qed
    have "0 < d - now \<Longrightarrow> usec * 1000 < d - now + 1000" "usec = 0 \<longleftrightarrow> d - now \<le> 0"
      unfolding usec_def using to_units_bounds(3,4) [of 1000 300000000] by simp_all
    then show ?thesis using assms(3) by (cases "usec = 0") (auto simp: alarm)
  qed
  then show ?thesis using alarm_ok_earliest [of "update_timeout st now r"] assms(1) by simp
qed

section \<open>The uses of the reactor\<close>

text \<open>Time goes on between the operations. The histories are those of the started operations and of
  the ones whose handlers ran or which were abandoned.\<close>

inductive timers_run ::
  "settime \<Rightarrow> timer_reactor \<Rightarrow> int \<Rightarrow> nat multiset \<Rightarrow> nat multiset \<Rightarrow> bool" for st
where
  run_start: "0 < now \<Longrightarrow> timers_run st (timer_reactor_new alarm) now {#} {#}"
| run_wait: "timers_run st r now started finished \<Longrightarrow> now \<le> now' \<Longrightarrow>
    timers_run st r now' started finished"
| run_construct: "timers_run st r now started finished \<Longrightarrow> \<not> in_use t (tr_queue r) \<Longrightarrow>
    timers_run st (r\<lparr>tr_queue := construct_timer t (tr_queue r)\<rparr>) now started finished"
| run_schedule: "timers_run st r now started finished \<Longrightarrow>
    timers_run st (schedule_timer st now time t op r) now (add_mset (wo_id op) started) finished"
| run_cancel: "timers_run st r now started finished \<Longrightarrow> reactor_cancel_timer t n r = (r', k) \<Longrightarrow>
    timers_run st r' now started finished"
| run_cancel_key: "timers_run st r now started finished \<Longrightarrow>
    timers_run st (reactor_cancel_by_key t key r) now started finished"
| run_move: "timers_run st r now started finished \<Longrightarrow> s \<noteq> t \<Longrightarrow> in_use s (tr_queue r) \<Longrightarrow>
    timers_run st (reactor_move_timer t s r) now started finished"
| run_alarm: "timers_run st r now started finished \<Longrightarrow> tr_alarm r \<le> now \<Longrightarrow> now \<le> now' \<Longrightarrow>
    check_timers st now now' r = Some r' \<Longrightarrow> timers_run st r' now' started finished"
| run_handler: "timers_run st r now started finished \<Longrightarrow> tr_op_queue r = op # ops \<Longrightarrow>
    timers_run st (run_one_timer r) now started (add_mset (wo_id op) finished)"
| run_shutdown: "timers_run st r now started finished \<Longrightarrow> reactor_shutdown r = Some (r', ops) \<Longrightarrow>
    timers_run st r' now started (finished + op_ids ops)"

definition accounted :: "timer_reactor \<Rightarrow> nat multiset \<Rightarrow> nat multiset \<Rightarrow> bool" where
  "accounted r started finished \<longleftrightarrow> timers_ok (tr_queue r) \<and>
     started = finished + op_ids (tr_op_queue r) + pending (tr_queue r) \<and>
     (if tr_shutdown r then pending (tr_queue r) = {#}
      else tr_outstanding_work r = int (size (op_ids (tr_op_queue r) + pending (tr_queue r))))"

definition good :: "timer_reactor \<Rightarrow> int \<Rightarrow> nat multiset \<Rightarrow> nat multiset \<Rightarrow> bool" where
  "good r now started finished \<longleftrightarrow> accounted r started finished \<and> 0 < now \<and> alarm_ok r now"

lemma deferred_simps [simp]:
  "tr_queue (timer_deferred_completions ops r) = tr_queue r"
  "tr_alarm (timer_deferred_completions ops r) = tr_alarm r"
  "tr_shutdown (timer_deferred_completions ops r) = tr_shutdown r"
  "tr_outstanding_work (timer_deferred_completions ops r) = tr_outstanding_work r"
  "tr_op_queue (timer_deferred_completions ops r) = tr_op_queue r @ ops"
  by (simp_all add: timer_deferred_completions_def)

text \<open>Operations leave the queue of timers for that of completions.\<close>

lemma accounted_posted:
  assumes "accounted r started finished" "timers_ok q'" "pending (tr_queue r) = pending q' + op_ids ops"
    "tr_queue r' = q'" "tr_op_queue r' = tr_op_queue r @ ops" "tr_shutdown r' = tr_shutdown r"
    "tr_outstanding_work r' = tr_outstanding_work r"
  shows "accounted r' started finished"
  using assms by (auto simp: accounted_def ac_simps split: if_splits)

lemma alarm_ok_fewer:
  assumes "alarm_ok r now" "tr_alarm r' = tr_alarm r" "deadline (tr_queue r') \<subseteq>\<^sub>m deadline (tr_queue r)"
  shows "alarm_ok r' now"
proof -
  have "deadline (tr_queue r) t = Some d" if "deadline (tr_queue r') t = Some d" for t d
    using that assms(3) by (metis domI map_le_def)
  then show ?thesis using assms(1,2) unfolding alarm_ok_def by metis
qed

lemma alarm_ok_later: "alarm_ok r now \<Longrightarrow> now \<le> now' \<Longrightarrow> alarm_ok r now'"
  by (force simp: alarm_ok_def)

lemma good_schedule:
  assumes "good r now started finished" "settime_ok st"
  shows "good (schedule_timer st now time t op r) now (add_mset (wo_id op) started) finished"
proof (cases "tr_shutdown r")
  case True
  then show ?thesis using assms(1) by (simp add: schedule_timer_def good_def accounted_def alarm_ok_def)
next
  case False
  obtain q first where q: "enqueue_timer time t op (tr_queue r) = (q, first)" by fastforce
  have ok: "timers_ok (tr_queue r)" using assms(1) by (simp add: good_def accounted_def)
  note e = timers_ok_enqueue [OF ok q]
  define r1 where "r1 = r\<lparr>tr_queue := q, tr_outstanding_work := tr_outstanding_work r + 1\<rparr>"
  have r': "schedule_timer st now time t op r = (if first then update_timeout st now r1 else r1)"
    using False q by (simp add: schedule_timer_def r1_def)
  have acc: "accounted r1 (add_mset (wo_id op) started) finished"
    using assms(1) False e(1,2) by (simp add: good_def accounted_def r1_def)
  show ?thesis
  proof (cases first)
    case True
    have "alarm_ok (update_timeout st now r1) now"
      using update_timeout_ok [of r1] e(1) assms by (simp add: r1_def good_def)
    then show ?thesis using True acc assms(1) by (simp add: r' good_def accounted_def)
  next
    case False
    then have "earliest (tr_queue r1) = earliest (tr_queue r)" "tr_alarm r1 = tr_alarm r"
      using e(3) by (simp_all add: r1_def)
    then have "alarm_ok r1 now"
      using alarm_ok_earliest [OF ok] alarm_ok_earliest [of r1] e(1) assms(1) by (simp add: r1_def good_def)
    then show ?thesis using False acc assms(1) by (simp add: r' good_def)
  qed
qed

lemma good_cancel:
  assumes "good r now started finished" "reactor_cancel_timer t n r = (r', k)"
  shows "good r' now started finished"
proof -
  obtain q ops k' where q: "cancel_timer_ops t n (tr_queue r) = (q, ops, k')" by (cases "cancel_timer_ops t n (tr_queue r)")
  have r': "r' = timer_deferred_completions ops (r\<lparr>tr_queue := q\<rparr>)" using assms(2) q by (simp add: reactor_cancel_timer_def)
  have acc: "accounted r started finished" using assms(1) by (simp add: good_def)
  then have "timers_ok (tr_queue r)" by (simp add: accounted_def)
  note c = timers_ok_cancel [OF this q]
  have "accounted r' started finished"
    by (rule accounted_posted [OF acc c(1,2)]) (simp_all add: r')
  moreover have "alarm_ok r' now" by (rule alarm_ok_fewer [of r]) (use assms(1) c(3) in \<open>simp_all add: good_def r'\<close>)
  ultimately show ?thesis using assms(1) by (simp add: good_def)
qed

lemma good_cancel_key:
  assumes "good r now started finished"
  shows "good (reactor_cancel_by_key t key r) now started finished"
proof -
  obtain q ops where q: "cancel_timer_by_key t key (tr_queue r) = (q, ops)" by fastforce
  have r': "reactor_cancel_by_key t key r = timer_deferred_completions ops (r\<lparr>tr_queue := q\<rparr>)"
    using q by (simp add: reactor_cancel_by_key_def)
  have acc: "accounted r started finished" using assms(1) by (simp add: good_def)
  then have "timers_ok (tr_queue r)" by (simp add: accounted_def)
  note c = timers_ok_cancel_key [OF this q]
  have "accounted (reactor_cancel_by_key t key r) started finished"
    by (rule accounted_posted [OF acc c(1,2)]) (simp_all add: r')
  moreover have "alarm_ok (reactor_cancel_by_key t key r) now"
    by (rule alarm_ok_fewer [of r]) (use assms(1) c(3) in \<open>simp_all add: good_def r'\<close>)
  ultimately show ?thesis using assms(1) by (simp add: good_def)
qed

lemma good_move:
  assumes "good r now started finished" "s \<noteq> t" "in_use s (tr_queue r)"
  shows "good (reactor_move_timer t s r) now started finished"
proof -
  obtain q ops k where q: "cancel_timer_ops t (length (waiting_ops (tr_queue r) t)) (tr_queue r) = (q, ops, k)"
    by (cases "cancel_timer_ops t (length (waiting_ops (tr_queue r) t)) (tr_queue r)")
  let ?q = "move_timer t s q"
  have r': "reactor_move_timer t s r = timer_deferred_completions ops (r\<lparr>tr_queue := ?q\<rparr>)"
    using q by (simp add: reactor_move_timer_def waiting_ops_def)
  have acc: "accounted r started finished" using assms(1) by (simp add: good_def)
  then have ok: "timers_ok (tr_queue r)" by (simp add: accounted_def)
  note c = timers_ok_cancel [OF ok q]
  have "in_use s q" "\<not> in_use t q" using cancel_all_unused [OF ok q] assms(2,3) by simp_all
  note m = timers_ok_move [OF c(1) this]
  have "accounted (reactor_move_timer t s r) started finished"
    by (rule accounted_posted [OF acc m(1)]) (simp_all add: r' m(2) c(2))
  moreover have "alarm_ok (reactor_move_timer t s r) now"
  proof -
    have "alarm_ok (r\<lparr>tr_queue := q\<rparr>) now"
      by (rule alarm_ok_fewer [of r]) (use assms(1) c(3) in \<open>simp_all add: good_def\<close>)
    then show ?thesis
      using alarm_ok_earliest [of "r\<lparr>tr_queue := q\<rparr>" now] alarm_ok_earliest [of "reactor_move_timer t s r" now]
        c(1) m(1,3) by (simp add: r')
  qed
  ultimately show ?thesis using assms(1) by (simp add: good_def)
qed

lemma good_alarm:
  assumes "good r now started finished" "now \<le> now'" "check_timers st now now' r = Some r'" "settime_ok st"
  shows "good r' now' started finished"
proof -
  obtain q ops where q: "get_ready_timers now (tr_queue r) = Some (q, ops)"
    and r': "r' = update_timeout st now' (r\<lparr>tr_queue := q, tr_op_queue := tr_op_queue r @ ops\<rparr>)"
    using assms(3) by (auto simp: check_timers_def)
  have acc: "accounted r started finished" using assms(1) by (simp add: good_def)
  then have "timers_ok (tr_queue r)" by (simp add: accounted_def)
  note c = timers_ok_expire [OF this q]
  have "accounted r' started finished" by (rule accounted_posted [OF acc c(1,2)]) (simp_all add: r')
  moreover have "0 < now'" using assms(1,2) by (simp add: good_def)
  moreover from this have "alarm_ok r' now'" unfolding r' by (intro update_timeout_ok) (simp_all add: c(1) assms(4))
  ultimately show ?thesis by (simp add: good_def)
qed

lemma timers_run_good:
  assumes "settime_ok st"
  shows "timers_run st r now started finished \<Longrightarrow> good r now started finished"
proof (induction rule: timers_run.induct)
  case (run_start now alarm)
  then show ?case
    by (simp add: good_def accounted_def alarm_ok_def timer_reactor_new_def)
      (simp add: deadline_def timer_queue_new_def)
next
  case (run_wait r now started finished now')
  then show ?case using alarm_ok_later [of r now now'] by (simp add: good_def)
next
  case (run_handler r now started finished op ops)
  then show ?case by (auto simp: good_def accounted_def alarm_ok_def run_one_timer_def)
next
  case (run_shutdown r now started finished r' ops)
  then obtain q where q: "get_all_timers (tr_queue r) = Some (q, ops)" and r': "r' = r\<lparr>tr_queue := q, tr_shutdown := True\<rparr>"
    by (auto simp: reactor_shutdown_def)
  have ok: "timers_ok (tr_queue r)" using run_shutdown by (simp add: good_def accounted_def)
  then obtain ts where "tq_inv ts (tr_queue r)" by (auto simp: timers_ok_def)
  then have none: "tq_inv [] q" "deadline q = (\<lambda>_. None)" using get_all_timers_ok q by fastforce+
  then have "pending q = {#}" by (simp add: pending_inv)
  then show ?case using run_shutdown.IH timers_ok_shutdown [OF ok q] none(2)
    by (simp add: good_def accounted_def alarm_ok_def r' ac_simps)
next
  case (run_construct r now started finished t)
  have ok: "timers_ok (tr_queue r)" using run_construct.IH by (simp add: good_def accounted_def)
  then have "waiting_ops (tr_queue r) t = []" using timers_ok_used(1) run_construct.hyps(2) by blast
  note c = timers_ok_construct [OF ok this]
  show ?case using run_construct.IH by (simp add: good_def accounted_def alarm_ok_def c)
next
  case (run_schedule r now started finished time t op)
  from run_schedule.IH assms show ?case by (rule good_schedule)
next
  case (run_cancel r now started finished t n r' k)
  from run_cancel.IH run_cancel.hyps(2) show ?case by (rule good_cancel)
next
  case (run_cancel_key r now started finished t key)
  from run_cancel_key.IH show ?case by (rule good_cancel_key)
next
  case (run_move r now started finished s t)
  from run_move.IH run_move.hyps(2,3) show ?case by (rule good_move)
next
  case (run_alarm r now started finished now' r')
  from run_alarm.IH run_alarm.hyps(3,4) assms show ?case by (rule good_alarm)
qed

end
