(* ===== verification/Asio_Timer_Service.thy ===== *)
theory Asio_Timer_Service
  imports Asio_Timer_Runs
begin

text \<open>
  The timer objects of the program, \<^verbatim>\<open>detail/deadline_timer_service.hpp\<close> under
  \<^verbatim>\<open>src/3party/asio-1.24.0/include/asio/\<close>, which \<^verbatim>\<open>steady_timer\<close> is made of: setting the expiry time
  cancels the waits, and a wait is scheduled for the expiry time. Handler tracking is off. The
  set of the constructed timers belongs to the model only.
\<close>

section \<open>State\<close>

record timer_impl =
  ti_expiry :: int
  ti_might_have_pending_waits :: bool

record timer_service =
  sv_reactor :: timer_reactor
  sv_impl :: "nat \<Rightarrow> timer_impl"
  sv_alive :: "nat set"

definition timer_service_new :: "int \<Rightarrow> timer_service" where
  "timer_service_new alarm =
     \<lparr>sv_reactor = timer_reactor_new alarm,
      sv_impl = (\<lambda>_. \<lparr>ti_expiry = 0, ti_might_have_pending_waits = False\<rparr>), sv_alive = {}\<rparr>"

definition set_impl :: "nat \<Rightarrow> timer_impl \<Rightarrow> timer_service \<Rightarrow> timer_service" where
  "set_impl t i sv = sv\<lparr>sv_impl := (sv_impl sv)(t := i)\<rparr>"

section \<open>Operations\<close>

definition timer_construct :: "nat \<Rightarrow> timer_service \<Rightarrow> timer_service" where
  "timer_construct t sv =
     set_impl t \<lparr>ti_expiry = 0, ti_might_have_pending_waits = False\<rparr>
       (sv\<lparr>sv_reactor := (sv_reactor sv)\<lparr>tr_queue := construct_timer t (tr_queue (sv_reactor sv))\<rparr>,
          sv_alive := insert t (sv_alive sv)\<rparr>)"

text \<open>Cancelling at most so many waits; \<open>None\<close> is the largest number there is.\<close>

definition cancel_limit :: "nat \<Rightarrow> nat option \<Rightarrow> timer_service \<Rightarrow> nat" where
  "cancel_limit t limit sv =
     (case limit of None \<Rightarrow> length (pt_op_queue (tq_data (tr_queue (sv_reactor sv)) t)) | Some n \<Rightarrow> n)"

definition timer_cancel :: "nat \<Rightarrow> timer_service \<Rightarrow> timer_service \<times> nat" where
  "timer_cancel t sv =
     (if \<not> ti_might_have_pending_waits (sv_impl sv t) then (sv, 0)
      else let (r, count) = reactor_cancel_timer t (cancel_limit t None sv) (sv_reactor sv)
           in (set_impl t ((sv_impl sv t)\<lparr>ti_might_have_pending_waits := False\<rparr>) (sv\<lparr>sv_reactor := r\<rparr>), count))"

definition timer_cancel_one :: "nat \<Rightarrow> timer_service \<Rightarrow> timer_service \<times> nat" where
  "timer_cancel_one t sv =
     (if \<not> ti_might_have_pending_waits (sv_impl sv t) then (sv, 0)
      else let (r, count) = reactor_cancel_timer t (cancel_limit t (Some 1) sv) (sv_reactor sv);
               sv = sv\<lparr>sv_reactor := r\<rparr>
           in (if count = 0 then set_impl t ((sv_impl sv t)\<lparr>ti_might_have_pending_waits := False\<rparr>) sv else sv,
               count))"

definition timer_expires_at :: "nat \<Rightarrow> int \<Rightarrow> timer_service \<Rightarrow> timer_service \<times> nat" where
  "timer_expires_at t expiry_time sv =
     (let (sv, count) = timer_cancel t sv
      in (set_impl t ((sv_impl sv t)\<lparr>ti_expiry := expiry_time\<rparr>) sv, count))"

definition timer_expires_after :: "int \<Rightarrow> nat \<Rightarrow> int \<Rightarrow> timer_service \<Rightarrow> timer_service \<times> nat" where
  "timer_expires_after now t expiry_time sv = timer_expires_at t (now + expiry_time) sv"

definition timer_destroy :: "nat \<Rightarrow> timer_service \<Rightarrow> timer_service" where
  "timer_destroy t sv = (let (sv, _) = timer_cancel t sv in sv\<lparr>sv_alive := sv_alive sv - {t}\<rparr>)"

definition timer_async_wait :: "settime \<Rightarrow> int \<Rightarrow> nat \<Rightarrow> wait_op \<Rightarrow> timer_service \<Rightarrow> timer_service" where
  "timer_async_wait timerfd_settime now t op sv =
     (let sv = set_impl t ((sv_impl sv t)\<lparr>ti_might_have_pending_waits := True\<rparr>) sv
      in sv\<lparr>sv_reactor := schedule_timer timerfd_settime now (ti_expiry (sv_impl sv t)) t op (sv_reactor sv)\<rparr>)"

text \<open>The cancellation of one wait through its slot.\<close>

definition timer_op_cancellation :: "nat \<Rightarrow> nat \<Rightarrow> timer_service \<Rightarrow> timer_service" where
  "timer_op_cancellation t key sv = sv\<lparr>sv_reactor := reactor_cancel_by_key t key (sv_reactor sv)\<rparr>"

text \<open>Between timers of the same service.\<close>

definition timer_move_assign :: "nat \<Rightarrow> nat \<Rightarrow> timer_service \<Rightarrow> timer_service" where
  "timer_move_assign t other sv =
     (let sv1 = sv\<lparr>sv_reactor := reactor_move_timer t other (sv_reactor sv)\<rparr>
      in set_impl other \<lparr>ti_expiry = 0, ti_might_have_pending_waits = False\<rparr>
           (set_impl t (sv_impl sv other) sv1))"

definition timer_move_construct :: "nat \<Rightarrow> nat \<Rightarrow> timer_service \<Rightarrow> timer_service" where
  "timer_move_construct t other sv = timer_move_assign t other (timer_construct t sv)"

section \<open>Runs\<close>

text \<open>The program uses constructed timers only; a timer is moved while it has waits.\<close>

inductive service_run ::
  "settime \<Rightarrow> timer_service \<Rightarrow> int \<Rightarrow> nat multiset \<Rightarrow> nat multiset \<Rightarrow> bool" for st
where
  service_start: "0 < now \<Longrightarrow> service_run st (timer_service_new alarm) now {#} {#}"
| service_wait: "service_run st sv now started finished \<Longrightarrow> now \<le> now' \<Longrightarrow>
    service_run st sv now' started finished"
| service_construct: "service_run st sv now started finished \<Longrightarrow> t \<notin> sv_alive sv \<Longrightarrow>
    service_run st (timer_construct t sv) now started finished"
| service_destroy: "service_run st sv now started finished \<Longrightarrow> t \<in> sv_alive sv \<Longrightarrow>
    service_run st (timer_destroy t sv) now started finished"
| service_cancel: "service_run st sv now started finished \<Longrightarrow> t \<in> sv_alive sv \<Longrightarrow>
    service_run st (fst (timer_cancel t sv)) now started finished"
| service_cancel_one: "service_run st sv now started finished \<Longrightarrow> t \<in> sv_alive sv \<Longrightarrow>
    service_run st (fst (timer_cancel_one t sv)) now started finished"
| service_expires: "service_run st sv now started finished \<Longrightarrow> t \<in> sv_alive sv \<Longrightarrow>
    service_run st (fst (timer_expires_at t time sv)) now started finished"
| service_async_wait: "service_run st sv now started finished \<Longrightarrow> t \<in> sv_alive sv \<Longrightarrow>
    service_run st (timer_async_wait st now t op sv) now (add_mset (wo_id op) started) finished"
| service_cancel_op: "service_run st sv now started finished \<Longrightarrow> t \<in> sv_alive sv \<Longrightarrow>
    service_run st (timer_op_cancellation t key sv) now started finished"
| service_move_assign: "service_run st sv now started finished \<Longrightarrow> t \<in> sv_alive sv \<Longrightarrow>
    other \<in> sv_alive sv \<Longrightarrow> t \<noteq> other \<Longrightarrow> in_use other (tr_queue (sv_reactor sv)) \<Longrightarrow>
    service_run st (timer_move_assign t other sv) now started finished"
| service_move_construct: "service_run st sv now started finished \<Longrightarrow> t \<notin> sv_alive sv \<Longrightarrow>
    other \<in> sv_alive sv \<Longrightarrow> in_use other (tr_queue (sv_reactor sv)) \<Longrightarrow>
    service_run st (timer_move_construct t other sv) now started finished"
| service_alarm: "service_run st sv now started finished \<Longrightarrow> tr_alarm (sv_reactor sv) \<le> now \<Longrightarrow>
    now \<le> now' \<Longrightarrow> check_timers st now now' (sv_reactor sv) = Some r' \<Longrightarrow>
    service_run st (sv\<lparr>sv_reactor := r'\<rparr>) now' started finished"
| service_handler: "service_run st sv now started finished \<Longrightarrow> tr_op_queue (sv_reactor sv) = op # ops \<Longrightarrow>
    service_run st (sv\<lparr>sv_reactor := run_one_timer (sv_reactor sv)\<rparr>) now started (add_mset (wo_id op) finished)"
| service_shutdown: "service_run st sv now started finished \<Longrightarrow>
    reactor_shutdown (sv_reactor sv) = Some (r', ops) \<Longrightarrow>
    service_run st (sv\<lparr>sv_reactor := r'\<rparr>) now started (finished + op_ids ops)"

section \<open>What the operations do to the waits\<close>

abbreviation sv_waits :: "timer_service \<Rightarrow> nat \<Rightarrow> wait_op list" where
  "sv_waits sv \<equiv> waiting_ops (tr_queue (sv_reactor sv))"

abbreviation sv_deadline :: "timer_service \<Rightarrow> nat \<Rightarrow> int option" where
  "sv_deadline sv \<equiv> deadline (tr_queue (sv_reactor sv))"

text \<open>A timer that waits was constructed, may be cancelled, and expires at its expiry time.\<close>

definition service_ok :: "timer_service \<Rightarrow> bool" where
  "service_ok sv \<longleftrightarrow> (\<forall>t. sv_waits sv t \<noteq> [] \<longrightarrow>
     sv_deadline sv t = Some (ti_expiry (sv_impl sv t)) \<and> ti_might_have_pending_waits (sv_impl sv t) \<and>
     t \<in> sv_alive sv)"

lemma set_impl_simps [simp]:
  "sv_reactor (set_impl t i sv) = sv_reactor sv" "sv_alive (set_impl t i sv) = sv_alive sv"
  "sv_impl (set_impl t i sv) = (sv_impl sv)(t := i)"
  by (simp_all add: set_impl_def)

text \<open>All but one timer are left alone.\<close>

lemma service_ok_change:
  assumes "service_ok sv"
    "\<And>u. u \<noteq> t \<Longrightarrow> sv_waits sv' u \<noteq> [] \<Longrightarrow> sv_waits sv u \<noteq> [] \<and> sv_deadline sv' u = sv_deadline sv u"
    "\<And>u. u \<noteq> t \<Longrightarrow> sv_impl sv' u = sv_impl sv u" "sv_alive sv - {t} \<subseteq> sv_alive sv'"
    "sv_waits sv' t \<noteq> [] \<Longrightarrow> sv_deadline sv' t = Some (ti_expiry (sv_impl sv' t)) \<and>
       ti_might_have_pending_waits (sv_impl sv' t) \<and> t \<in> sv_alive sv'"
  shows "service_ok sv'"
  unfolding service_ok_def
proof (intro allI impI)
  fix u
  assume u: "sv_waits sv' u \<noteq> []"
  show "sv_deadline sv' u = Some (ti_expiry (sv_impl sv' u)) \<and>
      ti_might_have_pending_waits (sv_impl sv' u) \<and> u \<in> sv_alive sv'"
  proof (cases "u = t")
    case True
    then show ?thesis using assms(5) u by simp
  next
    case False
    then show ?thesis using assms(1,4) assms(2) [OF False u] assms(3) [OF False] by (auto simp: service_ok_def)
  qed
qed

lemma reactor_cancel_effect:
  assumes "timers_ok (tr_queue r)" "reactor_cancel_timer t n r = (r', k)"
  shows "deadline (tr_queue r') =
      (if length (waiting_ops (tr_queue r) t) \<le> n then (deadline (tr_queue r))(t := None) else deadline (tr_queue r))"
    "waiting_ops (tr_queue r') = (waiting_ops (tr_queue r))(t := drop n (waiting_ops (tr_queue r) t))"
    "tr_op_queue r' = tr_op_queue r @ map cancelled (take n (waiting_ops (tr_queue r) t))"
    "k = min (length (waiting_ops (tr_queue r) t)) n"
proof -
  obtain q ops k' where q: "cancel_timer_ops t n (tr_queue r) = (q, ops, k')" by (cases "cancel_timer_ops t n (tr_queue r)")
  then have r': "r' = timer_deferred_completions ops (r\<lparr>tr_queue := q\<rparr>)" "k = k'"
    using assms(2) by (simp_all add: reactor_cancel_timer_def)
  show "deadline (tr_queue r') =
      (if length (waiting_ops (tr_queue r) t) \<le> n then (deadline (tr_queue r))(t := None) else deadline (tr_queue r))"
    "waiting_ops (tr_queue r') = (waiting_ops (tr_queue r))(t := drop n (waiting_ops (tr_queue r) t))"
    "tr_op_queue r' = tr_op_queue r @ map cancelled (take n (waiting_ops (tr_queue r) t))"
    "k = min (length (waiting_ops (tr_queue r) t)) n"
    using timers_ok_effects(2) [OF assms(1) q] by (simp_all add: r')
qed

lemma schedule_effect:
  assumes "timers_ok (tr_queue r)"
  shows "deadline (tr_queue (schedule_timer st now time t op r)) =
      (if tr_shutdown r \<or> waiting_ops (tr_queue r) t \<noteq> [] then deadline (tr_queue r)
       else (deadline (tr_queue r))(t \<mapsto> time))"
    "waiting_ops (tr_queue (schedule_timer st now time t op r)) =
      (if tr_shutdown r then waiting_ops (tr_queue r)
       else (waiting_ops (tr_queue r))(t := waiting_ops (tr_queue r) t @ [op]))"
proof -
  obtain q first where q: "enqueue_timer time t op (tr_queue r) = (q, first)" by fastforce
  note e = timers_ok_effects(1) [OF assms q]
  have "tr_queue (schedule_timer st now time t op r) = (if tr_shutdown r then tr_queue r else q)"
    using q by (simp add: schedule_timer_def Let_def)
  then show "deadline (tr_queue (schedule_timer st now time t op r)) =
      (if tr_shutdown r \<or> waiting_ops (tr_queue r) t \<noteq> [] then deadline (tr_queue r)
       else (deadline (tr_queue r))(t \<mapsto> time))"
    "waiting_ops (tr_queue (schedule_timer st now time t op r)) =
      (if tr_shutdown r then waiting_ops (tr_queue r)
       else (waiting_ops (tr_queue r))(t := waiting_ops (tr_queue r) t @ [op]))"
    using e by simp_all
qed

lemma move_effect:
  assumes "timers_ok (tr_queue r)" "in_use s (tr_queue r)" "s \<noteq> t"
  shows "deadline (tr_queue (reactor_move_timer t s r)) = (deadline (tr_queue r))(t := deadline (tr_queue r) s, s := None)"
    "waiting_ops (tr_queue (reactor_move_timer t s r)) = (waiting_ops (tr_queue r))(t := waiting_ops (tr_queue r) s, s := [])"
proof -
  obtain q ops k where q: "cancel_timer_ops t (length (waiting_ops (tr_queue r) t)) (tr_queue r) = (q, ops, k)"
    by (cases "cancel_timer_ops t (length (waiting_ops (tr_queue r) t)) (tr_queue r)")
  have r': "tr_queue (reactor_move_timer t s r) = move_timer t s q"
    using q by (simp add: reactor_move_timer_def waiting_ops_def)
  note c = timers_ok_cancel(1) [OF assms(1) q] timers_ok_effects(2) [OF assms(1) q]
  have "in_use s q" "\<not> in_use t q" using cancel_all_unused [OF assms(1) q] assms(2,3) by simp_all
  note m = timers_ok_move(4,5) [OF c(1) this]
  show "deadline (tr_queue (reactor_move_timer t s r)) = (deadline (tr_queue r))(t := deadline (tr_queue r) s, s := None)"
    "waiting_ops (tr_queue (reactor_move_timer t s r)) = (waiting_ops (tr_queue r))(t := waiting_ops (tr_queue r) s, s := [])"
    using c(2) assms(3) by (simp_all add: r' m)
qed

section \<open>The invariant\<close>

lemma cancel_limit_None [simp]: "cancel_limit t None sv = length (sv_waits sv t)" "cancel_limit t (Some n) sv = n"
  by (simp_all add: cancel_limit_def waiting_ops_def)

lemma timer_cancel_ok:
  assumes "service_ok sv" "timers_ok (tr_queue (sv_reactor sv))" "timer_cancel t sv = (sv', n)"
  shows "sv_waits sv' = (sv_waits sv)(t := []) \<and> sv_deadline sv' = (sv_deadline sv)(t := None) \<and>
    sv_impl sv' = (sv_impl sv)(t := (sv_impl sv t)\<lparr>ti_might_have_pending_waits := False\<rparr>) \<and>
    sv_alive sv' = sv_alive sv \<and> n = length (sv_waits sv t) \<and>
    tr_op_queue (sv_reactor sv') = tr_op_queue (sv_reactor sv) @ map cancelled (sv_waits sv t)"
proof (cases "ti_might_have_pending_waits (sv_impl sv t)")
  case True
  obtain r count where r: "reactor_cancel_timer t (length (sv_waits sv t)) (sv_reactor sv) = (r, count)" by fastforce
  note c = reactor_cancel_effect [OF assms(2) r]
  show ?thesis
    using assms(3) True r c by (auto simp: timer_cancel_def)
next
  case False
  then have "sv_waits sv t = []" using assms(1) by (auto simp: service_ok_def)
  moreover from this have "sv_deadline sv t = None" using timers_ok_used(2) [OF assms(2)] by simp
  moreover have "(sv_impl sv t)\<lparr>ti_might_have_pending_waits := False\<rparr> = sv_impl sv t"
    using False by (cases "sv_impl sv t") simp
  ultimately show ?thesis
    using assms(3) False by (simp add: timer_cancel_def fun_eq_iff)
qed

lemma service_ok_cancel:
  assumes "service_ok sv" "timers_ok (tr_queue (sv_reactor sv))"
  shows "service_ok (fst (timer_cancel t sv))"
    "service_ok (fst (timer_expires_at t time sv))" "service_ok (timer_destroy t sv)"
proof -
  obtain sv' n where sv': "timer_cancel t sv = (sv', n)" by fastforce
  note c = timer_cancel_ok [OF assms sv']
  show "service_ok (fst (timer_cancel t sv))"
    by (rule service_ok_change [of sv t, OF assms(1)]) (simp_all add: sv' c)
  show "service_ok (fst (timer_expires_at t time sv))"
    by (rule service_ok_change [of sv t, OF assms(1)]) (simp_all add: timer_expires_at_def sv' c)
  show "service_ok (timer_destroy t sv)"
    by (rule service_ok_change [of sv t, OF assms(1)]) (simp_all add: timer_destroy_def sv' c)
qed

lemma service_ok_cancel_one:
  assumes "service_ok sv" "timers_ok (tr_queue (sv_reactor sv))"
  shows "service_ok (fst (timer_cancel_one t sv))"
proof (cases "ti_might_have_pending_waits (sv_impl sv t)")
  case True
  obtain r count where r: "reactor_cancel_timer t 1 (sv_reactor sv) = (r, count)" by fastforce
  note c = reactor_cancel_effect [OF assms(2) r]
  have t: "sv_waits sv t \<noteq> [] \<Longrightarrow> sv_deadline sv t = Some (ti_expiry (sv_impl sv t)) \<and> t \<in> sv_alive sv"
    using assms(1) by (simp add: service_ok_def)
  have count: "count = 0 \<longleftrightarrow> sv_waits sv t = []" by (auto simp: c(4) min_def)
  show ?thesis
  proof (rule service_ok_change [of sv t, OF assms(1)])
    assume "sv_waits (fst (timer_cancel_one t sv)) t \<noteq> []"
    then have "\<not> length (sv_waits sv t) \<le> 1" using True r by (auto simp: timer_cancel_one_def Let_def c(2) split: if_splits)
    moreover from this have "sv_waits sv t \<noteq> []" by auto
    ultimately show "sv_deadline (fst (timer_cancel_one t sv)) t = Some (ti_expiry (sv_impl (fst (timer_cancel_one t sv)) t)) \<and>
       ti_might_have_pending_waits (sv_impl (fst (timer_cancel_one t sv)) t) \<and> t \<in> sv_alive (fst (timer_cancel_one t sv))"
      using True r t count by (simp add: timer_cancel_one_def Let_def c(1))
  qed (use True r in \<open>auto simp: timer_cancel_one_def Let_def c split: if_splits\<close>)
qed (use assms(1) in \<open>simp add: timer_cancel_one_def\<close>)

lemma service_ok_construct:
  assumes "service_ok sv" "timers_ok (tr_queue (sv_reactor sv))" "t \<notin> sv_alive sv"
  shows "service_ok (timer_construct t sv)" "sv_waits (timer_construct t sv) = sv_waits sv"
    "sv_waits sv t = []" "sv_deadline (timer_construct t sv) = sv_deadline sv"
proof -
  show none: "sv_waits sv t = []" using assms(1,3) by (auto simp: service_ok_def)
  note c = timers_ok_construct [OF assms(2) none]
  show w: "sv_waits (timer_construct t sv) = sv_waits sv" "sv_deadline (timer_construct t sv) = sv_deadline sv"
    by (simp_all add: timer_construct_def c)
  show "service_ok (timer_construct t sv)"
  proof (rule service_ok_change [of sv t, OF assms(1)])
    show "sv_alive sv - {t} \<subseteq> sv_alive (timer_construct t sv)" by (auto simp: timer_construct_def)
    show "sv_impl (timer_construct t sv) u = sv_impl sv u" if "u \<noteq> t" for u
      using that by (simp add: timer_construct_def)
  qed (simp_all add: w none)
qed

lemma service_ok_async_wait:
  assumes "service_ok sv" "timers_ok (tr_queue (sv_reactor sv))" "t \<in> sv_alive sv"
  shows "service_ok (timer_async_wait st now t op sv)"
proof (rule service_ok_change [of sv t, OF assms(1)])
  note e = schedule_effect [OF assms(2)]
  have t: "sv_waits sv t \<noteq> [] \<Longrightarrow> sv_deadline sv t = Some (ti_expiry (sv_impl sv t))"
    using assms(1) by (simp add: service_ok_def)
  show "sv_waits (timer_async_wait st now t op sv) t \<noteq> [] \<Longrightarrow>
      sv_deadline (timer_async_wait st now t op sv) t = Some (ti_expiry (sv_impl (timer_async_wait st now t op sv) t)) \<and>
      ti_might_have_pending_waits (sv_impl (timer_async_wait st now t op sv) t) \<and>
      t \<in> sv_alive (timer_async_wait st now t op sv)"
    using t assms(3) by (auto simp: timer_async_wait_def e split: if_splits)
  show "sv_waits sv u \<noteq> [] \<and> sv_deadline (timer_async_wait st now t op sv) u = sv_deadline sv u"
    if "u \<noteq> t" "sv_waits (timer_async_wait st now t op sv) u \<noteq> []" for u
    using that by (auto simp: timer_async_wait_def e split: if_splits)
qed (simp_all add: timer_async_wait_def)

lemma service_ok_cancel_op:
  assumes "service_ok sv" "timers_ok (tr_queue (sv_reactor sv))"
  shows "service_ok (timer_op_cancellation t key sv)"
proof -
  obtain q ops where q: "cancel_timer_by_key t key (tr_queue (sv_reactor sv)) = (q, ops)" by fastforce
  note e = timers_ok_effects(3) [OF assms(2) q]
  have q': "tr_queue (sv_reactor (timer_op_cancellation t key sv)) = q" "sv_impl (timer_op_cancellation t key sv) = sv_impl sv"
    "sv_alive (timer_op_cancellation t key sv) = sv_alive sv"
    using q by (simp_all add: timer_op_cancellation_def reactor_cancel_by_key_def)
  have w: "waiting_ops q u \<noteq> [] \<Longrightarrow> sv_waits sv u \<noteq> [] \<and> deadline q u = sv_deadline sv u" for u
    using e [of u] by (auto split: if_splits)
  then show ?thesis using assms(1) by (simp add: service_ok_def q')
qed

lemma service_ok_move:
  assumes "service_ok sv" "timers_ok (tr_queue (sv_reactor sv))" "t \<in> sv_alive sv"
    "in_use s (tr_queue (sv_reactor sv))" "s \<noteq> t"
  shows "service_ok (timer_move_assign t s sv)"
proof -
  note m = move_effect [OF assms(2,4,5)]
  have "sv_waits sv s \<noteq> []" using assms(2,4) timers_ok_used(1) by blast
  then have s: "sv_deadline sv s = Some (ti_expiry (sv_impl sv s))" "ti_might_have_pending_waits (sv_impl sv s)"
    using assms(1) by (simp_all add: service_ok_def)
  show ?thesis unfolding service_ok_def
  proof (intro allI impI)
    fix u
    assume u: "sv_waits (timer_move_assign t s sv) u \<noteq> []"
    consider "u = s" | "u = t" | "u \<noteq> s" "u \<noteq> t" by blast
    then show "sv_deadline (timer_move_assign t s sv) u = Some (ti_expiry (sv_impl (timer_move_assign t s sv) u)) \<and>
        ti_might_have_pending_waits (sv_impl (timer_move_assign t s sv) u) \<and> u \<in> sv_alive (timer_move_assign t s sv)"
    proof cases
      case 1
      then show ?thesis using u by (simp add: timer_move_assign_def m)
    next
      case 2
      then show ?thesis using s assms(3,5) by (simp add: timer_move_assign_def m)
    next
      case 3
      then show ?thesis using u assms(1) by (simp add: timer_move_assign_def m service_ok_def)
    qed
  qed
qed

lemma service_ok_alarm:
  assumes "service_ok sv" "timers_ok (tr_queue (sv_reactor sv))" "check_timers st now now' (sv_reactor sv) = Some r'"
  shows "service_ok (sv\<lparr>sv_reactor := r'\<rparr>)"
proof -
  obtain ts where "tq_inv ts (tr_queue (sv_reactor sv))" using assms(2) by (auto simp: timers_ok_def)
  then obtain q order where "get_ready_timers now (tr_queue (sv_reactor sv)) = Some (q, fires (tr_queue (sv_reactor sv)) order)"
      and taken: "timers_taken (set order) (tr_queue (sv_reactor sv)) q"
    using get_ready_timers_ok by blast
  then have "tr_queue r' = q" using assms(3) by (auto simp: check_timers_def)
  then show ?thesis using assms(1) taken by (auto simp: service_ok_def timers_taken_def split: if_splits)
qed

lemma service_ok_shutdown:
  assumes "service_ok sv" "timers_ok (tr_queue (sv_reactor sv))" "reactor_shutdown (sv_reactor sv) = Some (r', ops)"
  shows "service_ok (sv\<lparr>sv_reactor := r'\<rparr>)"
proof -
  obtain q where q: "get_all_timers (tr_queue (sv_reactor sv)) = Some (q, ops)" "tr_queue r' = q"
    using assms(3) by (auto simp: reactor_shutdown_def)
  obtain ts where ts: "tq_inv ts (tr_queue (sv_reactor sv))" "\<forall>t. sv_waits sv t = [] \<longleftrightarrow> t \<notin> set ts"
    using assms(2) by (auto simp: timers_ok_def)
  have "waiting_ops q u = []" for u using get_all_timers_ok [OF ts(1)] q(1) ts(2) by auto
  then show ?thesis by (simp add: service_ok_def q(2))
qed

section \<open>The service uses the reactor as it may be used\<close>

lemma run_timer_cancel:
  assumes "timers_run st (sv_reactor sv) now started finished"
  shows "timers_run st (sv_reactor (fst (timer_cancel t sv))) now started finished"
    "timers_run st (sv_reactor (fst (timer_cancel_one t sv))) now started finished"
    "timers_run st (sv_reactor (fst (timer_expires_at t time sv))) now started finished"
    "timers_run st (sv_reactor (timer_destroy t sv)) now started finished"
proof -
  show cancel: "timers_run st (sv_reactor (fst (timer_cancel t sv))) now started finished"
    using assms run_cancel [OF assms] by (simp add: timer_cancel_def split: prod.split)
  show "timers_run st (sv_reactor (fst (timer_cancel_one t sv))) now started finished"
    using assms run_cancel [OF assms] by (simp add: timer_cancel_one_def Let_def split: prod.split)
  show "timers_run st (sv_reactor (fst (timer_expires_at t time sv))) now started finished"
    "timers_run st (sv_reactor (timer_destroy t sv)) now started finished"
    using cancel by (simp_all add: timer_expires_at_def timer_destroy_def case_prod_beta)
qed

lemma run_timer_move:
  assumes "timers_run st (sv_reactor sv) now started finished" "s \<noteq> t" "in_use s (tr_queue (sv_reactor sv))"
  shows "timers_run st (sv_reactor (timer_move_assign t s sv)) now started finished"
  using run_move [OF assms] by (simp add: timer_move_assign_def)

lemma timers_run_ok: "settime_ok st \<Longrightarrow> timers_run st r now started finished \<Longrightarrow> timers_ok (tr_queue r)"
  using timers_run_good by (simp add: good_def accounted_def)

lemma service_construct_ok:
  assumes "settime_ok st" "service_ok sv \<and> timers_run st (sv_reactor sv) now started finished" "t \<notin> sv_alive sv"
  shows "service_ok (timer_construct t sv) \<and> timers_run st (sv_reactor (timer_construct t sv)) now started finished"
    "in_use s (tr_queue (sv_reactor (timer_construct t sv))) = in_use s (tr_queue (sv_reactor sv))"
proof -
  have ok: "timers_ok (tr_queue (sv_reactor sv))" using timers_run_ok [OF assms(1)] assms(2) by blast
  note c = service_ok_construct [OF _ ok assms(3)]
  have "sv_waits sv t = []" using c(3) assms(2) by blast
  then have "\<not> in_use t (tr_queue (sv_reactor sv))" using timers_ok_used(1) [OF ok] by simp
  then have "timers_run st (sv_reactor (timer_construct t sv)) now started finished"
    using run_construct assms(2) by (simp add: timer_construct_def)
  then show all: "service_ok (timer_construct t sv) \<and> timers_run st (sv_reactor (timer_construct t sv)) now started finished"
    using c(1) assms(2) by blast
  then have "timers_ok (tr_queue (sv_reactor (timer_construct t sv)))" using timers_run_ok [OF assms(1)] by blast
  then show "in_use s (tr_queue (sv_reactor (timer_construct t sv))) = in_use s (tr_queue (sv_reactor sv))"
    using timers_ok_used(1) ok c(2) assms(2) by simp
qed

lemma service_run_ok:
  assumes "settime_ok st"
  shows "service_run st sv now started finished \<Longrightarrow>
    service_ok sv \<and> timers_run st (sv_reactor sv) now started finished"
proof (induction rule: service_run.induct)
  case (service_start now alarm)
  have "waiting_ops timer_queue_new u = []" for u
    by (simp add: waiting_ops_def timer_queue_new_def per_timer_data_new_def)
  then have "service_ok (timer_service_new alarm)"
    by (simp add: service_ok_def timer_service_new_def timer_reactor_new_def)
  then show ?case using run_start [OF service_start] by (simp add: timer_service_new_def)
next
  case (service_wait sv now started finished now')
  then show ?case using run_wait by blast
next
  case (service_construct sv now started finished t)
  then show ?case using service_construct_ok(1) [OF assms] by blast
next
  case (service_destroy sv now started finished t)
  then show ?case using service_ok_cancel(3) timers_run_ok [OF assms] run_timer_cancel(4) by blast
next
  case (service_cancel sv now started finished t)
  then show ?case using service_ok_cancel(1) timers_run_ok [OF assms] run_timer_cancel(1) by blast
next
  case (service_cancel_one sv now started finished t)
  then show ?case using service_ok_cancel_one timers_run_ok [OF assms] run_timer_cancel(2) by blast
next
  case (service_expires sv now started finished t time)
  then show ?case using service_ok_cancel(2) timers_run_ok [OF assms] run_timer_cancel(3) by blast
next
  case (service_async_wait sv now started finished t op)
  then have "service_ok (timer_async_wait st now t op sv)"
    using service_ok_async_wait timers_run_ok [OF assms] by blast
  moreover have "timers_run st (sv_reactor (timer_async_wait st now t op sv)) now (add_mset (wo_id op) started) finished"
    using service_async_wait.IH run_schedule by (simp add: timer_async_wait_def Let_def)
  ultimately show ?case by blast
next
  case (service_cancel_op sv now started finished t key)
  then have "service_ok (timer_op_cancellation t key sv)"
    using service_ok_cancel_op timers_run_ok [OF assms] by blast
  moreover have "timers_run st (sv_reactor (timer_op_cancellation t key sv)) now started finished"
    using service_cancel_op.IH run_cancel_key by (simp add: timer_op_cancellation_def)
  ultimately show ?case by blast
next
  case (service_move_assign sv now started finished t other)
  then show ?case using service_ok_move timers_run_ok [OF assms] run_timer_move by metis
next
  case (service_move_construct sv now started finished t other)
  note c = service_construct_ok [OF assms service_move_construct.IH service_move_construct.hyps(2)]
  have "t \<in> sv_alive (timer_construct t sv)" "other \<noteq> t" "in_use other (tr_queue (sv_reactor (timer_construct t sv)))"
    using service_move_construct.hyps c(2) by (auto simp: timer_construct_def)
  then show ?case unfolding timer_move_construct_def
    using c(1) service_ok_move timers_run_ok [OF assms] run_timer_move by metis
next
  case (service_alarm sv now started finished now' r')
  then have "service_ok (sv\<lparr>sv_reactor := r'\<rparr>)" using service_ok_alarm timers_run_ok [OF assms] by blast
  then show ?case using service_alarm.IH service_alarm.hyps(2-4) run_alarm [of st "sv_reactor sv" now] by simp
next
  case (service_handler sv now started finished op ops)
  have "tr_queue (run_one_timer (sv_reactor sv)) = tr_queue (sv_reactor sv)"
    by (simp add: run_one_timer_def split: list.split)
  then have "service_ok (sv\<lparr>sv_reactor := run_one_timer (sv_reactor sv)\<rparr>)"
    using service_handler.IH by (simp add: service_ok_def)
  then show ?case using service_handler.IH service_handler.hyps(2) run_handler [of st "sv_reactor sv"] by simp
next
  case (service_shutdown sv now started finished r' ops)
  then have "service_ok (sv\<lparr>sv_reactor := r'\<rparr>)" using service_ok_shutdown timers_run_ok [OF assms] by blast
  then show ?case using service_shutdown.IH service_shutdown.hyps(2) run_shutdown [of st "sv_reactor sv"] by simp
qed

end
