(* ===== verification/Asio_Timer_Properties.thy ===== *)
theory Asio_Timer_Properties
  imports Asio_Timer_Service
begin

text \<open>
  The properties of timers: each operation is finished once, the alarm is never later than the
  first timer, a timer that is due is finished in the order of the expiry times, and a wait
  follows the expiry time of its timer object.
\<close>

section \<open>Properties\<close>

text \<open>C28. Every wait that was started is finished or waits for exactly one of its completion and its
  timer, in every use of the reactor: none is lost and none is completed twice. As long as the
  reactor is not shut down, the count of outstanding work is that of the unfinished waits, so the
  thread does not leave its loop; after the shutdown no timer is left.
\<close>

theorem waits_finish_once:
  assumes "settime_ok timerfd_settime" "timers_run timerfd_settime r now started finished"
  shows "started = finished + op_ids (tr_op_queue r) + pending (tr_queue r) \<and>
    (if tr_shutdown r then pending (tr_queue r) = {#}
     else tr_outstanding_work r = int (size started) - int (size finished))"
  using timers_run_good [OF assms] by (auto simp: good_def accounted_def split: if_splits)

text \<open>C26. The alarm is in time: for every timer that is set, the timer descriptor becomes ready less
  than one microsecond after the timer's expiry time, or is ready already. No order of
  scheduling, cancelling, moving and expiring leaves a timer without an alarm.
\<close>

theorem alarm_in_time:
  assumes "settime_ok timerfd_settime" "timers_run timerfd_settime r now started finished"
    "deadline (tr_queue r) t = Some d"
  shows "tr_alarm r \<le> max now (d + 999)"
  using timers_run_good [OF assms(1,2)] assms(3) by (force simp: good_def alarm_ok_def)

text \<open>C27. When the alarm is followed, the loop over the queue ends and finishes the operations of
  exactly the timers whose time has come, timer after timer in the order of the expiry times, each
  without an error; the other timers keep their times and operations.
\<close>

theorem due_timers_fire:
  assumes "settime_ok timerfd_settime" "timers_run timerfd_settime r now started finished"
  shows "\<exists>r' order. check_timers timerfd_settime now now' r = Some r' \<and>
    tr_op_queue r' = tr_op_queue r @ fires (tr_queue r) order \<and>
    distinct order \<and> set order = {t. due now (tr_queue r) t} \<and>
    sorted (map (\<lambda>t. the (deadline (tr_queue r) t)) order) \<and>
    timers_taken (set order) (tr_queue r) (tr_queue r')"
proof -
  have "timers_ok (tr_queue r)" using timers_run_good [OF assms] by (simp add: good_def accounted_def)
  then obtain ts where "tq_inv ts (tr_queue r)" by (auto simp: timers_ok_def)
  then obtain q order where "get_ready_timers now (tr_queue r) = Some (q, fires (tr_queue r) order)"
      "distinct order" "set order = {t. due now (tr_queue r) t}"
      "sorted (map (\<lambda>t. the (deadline (tr_queue r) t)) order)" "timers_taken (set order) (tr_queue r) q"
    using get_ready_timers_ok by blast
  then show ?thesis
    by (intro exI [of _ "update_timeout timerfd_settime now'
      (r\<lparr>tr_queue := q, tr_op_queue := tr_op_queue r @ fires (tr_queue r) order\<rparr>)"] exI [of _ order])
      (simp add: check_timers_def)
qed

text \<open>C24. A pending wait follows its timer object: the queue holds the expiry time that the object has
  now, never one from before, the object is not destroyed (so the queue points to no dead object),
  and the alarm is in time for it.
\<close>

theorem wait_follows_expiry:
  assumes "settime_ok timerfd_settime" "service_run timerfd_settime sv now started finished"
    "sv_waits sv t \<noteq> []"
  shows "sv_deadline sv t = Some (ti_expiry (sv_impl sv t)) \<and> t \<in> sv_alive sv \<and>
    tr_alarm (sv_reactor sv) \<le> max now (ti_expiry (sv_impl sv t) + 999)"
proof -
  have run: "service_ok sv" "timers_run timerfd_settime (sv_reactor sv) now started finished"
    using service_run_ok [OF assms(1,2)] by blast+
  then have d: "sv_deadline sv t = Some (ti_expiry (sv_impl sv t)) \<and> t \<in> sv_alive sv"
    using assms(3) by (simp add: service_ok_def)
  then have "tr_alarm (sv_reactor sv) < ti_expiry (sv_impl sv t) + 1000 \<or> tr_alarm (sv_reactor sv) \<le> now"
    using timers_run_good [OF assms(1) run(2)] unfolding good_def alarm_ok_def by blast
  then show ?thesis using d by auto
qed

text \<open>C25. In every state that the use of timer objects reaches, setting the expiry time anew, as the
  watchdog of a session does at every heartbeat, takes back the pending waits of the timer: each of them is posted as aborted, in order and behind the completions
  that are posted already, the number returned is theirs, no wait of the timer is left to fire at
  the old time, and the waits of the other timers stay.
\<close>

theorem expires_after_aborts:
  assumes "settime_ok timerfd_settime" "service_run timerfd_settime sv now started finished"
    "timer_expires_after now t d sv = (sv', n)"
  shows "tr_op_queue (sv_reactor sv') = tr_op_queue (sv_reactor sv) @ map cancelled (sv_waits sv t) \<and>
    n = length (sv_waits sv t) \<and> sv_waits sv' = (sv_waits sv)(t := []) \<and>
    sv_deadline sv' = (sv_deadline sv)(t := None) \<and> ti_expiry (sv_impl sv' t) = now + d"
proof -
  have run: "service_ok sv" "timers_ok (tr_queue (sv_reactor sv))"
    using service_run_ok [OF assms(1,2)] timers_run_ok [OF assms(1)] by blast+
  obtain sv1 k where sv1: "timer_cancel t sv = (sv1, k)" by fastforce
  then show ?thesis using timer_cancel_ok [OF run sv1] assms(3)
    by (auto simp: timer_expires_after_def timer_expires_at_def)
qed

section \<open>Witnesses\<close>

definition demo_settime :: settime where
  "demo_settime now absolute v =
     (if absolute then 0 else now) + it_value_sec v * 1000000000 + it_value_nsec v"

definition demo_wait :: "nat \<Rightarrow> wait_op" where
  "demo_wait n = \<lparr>wo_id = n, wo_key = None, wo_ec = None\<rparr>"

text \<open>Three timers; the second is the first to expire.\<close>

definition demo_timers :: timer_reactor where
  "demo_timers =
     schedule_timer demo_settime 1000 9000000 2 (demo_wait 9)
       (schedule_timer demo_settime 1000 2000500 1 (demo_wait 8)
         (schedule_timer demo_settime 1000 5000000 0 (demo_wait 7) (timer_reactor_new 0)))"

lemma demo_settime_ok: "settime_ok demo_settime"
  by (simp add: settime_ok_def demo_settime_def)

lemma demo_timers_run: "timers_run demo_settime demo_timers 6000000 {#9, 8, 7#} {#}"
proof -
  have "timers_run demo_settime demo_timers 1000 {#9, 8, 7#} {#}"
    unfolding demo_timers_def
    using run_schedule [where op = "demo_wait 9"] run_schedule [where op = "demo_wait 8"]
      run_schedule [where op = "demo_wait 7"] run_start [of 1000]
    by (simp add: demo_wait_def)
  then show ?thesis by (rule run_wait) simp
qed

lemmas demo_timer_defs = demo_timers_def demo_wait_def demo_settime_def schedule_timer_def timer_reactor_new_def
  timer_queue_new_def per_timer_data_new_def enqueue_timer_def update_timeout_def get_timeout_def
  set_wait_duration_usec_def wait_duration_usec_def to_usec_def link_timer_def set_heap_index_def set_ops_def
  set_next_def set_prev_def upd_timer_def in_use_def up_heap.simps swap_heap_def Let_def

lemma demo_timers_state:
  "tr_alarm demo_timers = 2000000" "deadline (tr_queue demo_timers) 0 = Some 5000000"
  "map (\<lambda>e. (he_time e, he_timer e)) (tq_heap (tr_queue demo_timers)) = [(2000500, 1), (5000000, 0), (9000000, 2)]"
  "tr_op_queue demo_timers = []" "tr_shutdown demo_timers = False"
  by (simp_all add: demo_timer_defs deadline_def)

lemma waits_finish_once_witness:
  "tr_outstanding_work demo_timers = 3 \<and> pending (tr_queue demo_timers) = {#9, 8, 7#}"
  using waits_finish_once [OF demo_settime_ok demo_timers_run] demo_timers_state(4,5) by simp

lemma alarm_in_time_witness: "tr_alarm demo_timers \<le> 6000000"
  using alarm_in_time [OF demo_settime_ok demo_timers_run demo_timers_state(2)] by simp

lemma demo_deadlines: "deadline (tr_queue demo_timers) = map_of [(1, 2000500), (0, 5000000), (2, 9000000)]"
  by (simp add: demo_timer_defs deadline_def)

lemma demo_due: "{t. due 6000000 (tr_queue demo_timers) t} = {0, 1}"
  by (auto simp: due_def demo_deadlines split: if_splits)

lemma due_timers_fire_witness:
  "\<exists>r' order. check_timers demo_settime 6000000 6000200 demo_timers = Some r' \<and>
     tr_op_queue r' = fires (tr_queue demo_timers) order \<and> set order = {0, 1} \<and>
     sorted (map (\<lambda>t. the (deadline (tr_queue demo_timers) t)) order)"
  using due_timers_fire [OF demo_settime_ok demo_timers_run, of 6000200]
  unfolding demo_due demo_timers_state(4) by auto

text \<open>A watchdog: its wait is taken back by a heartbeat.\<close>

definition demo_watchdog :: timer_service where
  "demo_watchdog =
     timer_async_wait demo_settime 1000 0 (demo_wait 7)
       (fst (timer_expires_at 0 5000000 (timer_construct 0 (timer_service_new 0))))"

lemma demo_watchdog_run: "service_run demo_settime demo_watchdog 1000 {#7#} {#}"
proof -
  have "service_run demo_settime (timer_construct 0 (timer_service_new 0)) 1000 {#} {#}"
    by (intro service_construct service_start) (simp_all add: timer_service_new_def)
  then have "service_run demo_settime (fst (timer_expires_at 0 5000000 (timer_construct 0 (timer_service_new 0)))) 1000 {#} {#}"
    by (rule service_expires) (simp add: timer_construct_def)
  then have "service_run demo_settime demo_watchdog 1000 (add_mset (wo_id (demo_wait 7)) {#}) {#}"
    unfolding demo_watchdog_def
    by (rule service_async_wait)
      (simp add: timer_expires_at_def timer_cancel_def timer_construct_def timer_service_new_def)
  then show ?thesis by (simp add: demo_wait_def)
qed

lemma demo_watchdog_state:
  "sv_waits demo_watchdog 0 = [demo_wait 7]" "tr_op_queue (sv_reactor demo_watchdog) = []"
  "ti_expiry (sv_impl demo_watchdog 0) = 5000000"
  by (simp_all add: demo_watchdog_def timer_async_wait_def timer_expires_at_def timer_cancel_def
    timer_construct_def construct_timer_def timer_service_new_def waiting_ops_def demo_timer_defs)

lemma wait_follows_expiry_witness:
  "sv_deadline demo_watchdog 0 = Some 5000000 \<and> tr_alarm (sv_reactor demo_watchdog) \<le> 5000999"
  using wait_follows_expiry [OF demo_settime_ok demo_watchdog_run, of 0] demo_watchdog_state(1,3) by simp

lemma expires_after_aborts_witness:
  "tr_op_queue (sv_reactor (fst (timer_expires_after 1000 0 10000000 demo_watchdog))) = [cancelled (demo_wait 7)] \<and>
   snd (timer_expires_after 1000 0 10000000 demo_watchdog) = 1"
  using expires_after_aborts [OF demo_settime_ok demo_watchdog_run surjective_pairing, of 0 10000000]
    demo_watchdog_state(1,2) by simp

end
