(* ===== verification/Log_Format.thy ===== *)
theory Log_Format
  imports Easylog "HOL-Library.Signed_Division"
begin

text \<open>
  The text of a line of the log: \<^verbatim>\<open>pattern_formatter\<close> of \<^verbatim>\<open>src/3party/spdlog-1.9.2\<close>
  (\<^verbatim>\<open>include/spdlog/pattern_formatter-inl.h\<close>), which compiles a pattern to a list of formatters,
  and the formatters. Times are nanoseconds since the epoch. The broken-down time, the offset of the
  time zone and the process id come from the operating system and are arguments. No custom flags
  are registered. An exception, and reading past the spaces of the padder, is \<open>None\<close>.
\<close>

section \<open>Messages\<close>

record tm =
  tm_sec :: int
  tm_min :: int
  tm_hour :: int
  tm_mday :: int
  tm_mon :: int
  tm_year :: int
  tm_wday :: int

record source_loc =
  sl_filename :: string
  sl_line :: int
  sl_funcname :: string

record log_msg =
  lm_logger_name :: string
  lm_level :: logger_level
  lm_time :: int
  lm_thread_id :: nat
  lm_color_range_start :: nat
  lm_color_range_end :: nat
  lm_source :: source_loc
  lm_payload :: string

definition source_empty :: "source_loc \<Rightarrow> bool" where
  "source_empty l \<longleftrightarrow> sl_line l = 0"

record log_env =
  env_localtime :: "int \<Rightarrow> tm"
  env_gmtime :: "int \<Rightarrow> tm"
  env_utc_minutes_offset :: "tm \<Rightarrow> int"
  env_pid :: nat

fun level_name :: "logger_level \<Rightarrow> string" where
  "level_name Trace = ''trace''"
| "level_name Debug = ''debug''"
| "level_name Info = ''info''"
| "level_name Warn = ''warning''"
| "level_name Err = ''error''"
| "level_name Critical = ''critical''"
| "level_name Off = ''off''"

fun short_level_name :: "logger_level \<Rightarrow> string" where
  "short_level_name Trace = ''T''"
| "short_level_name Debug = ''D''"
| "short_level_name Info = ''I''"
| "short_level_name Warn = ''W''"
| "short_level_name Err = ''E''"
| "short_level_name Critical = ''C''"
| "short_level_name Off = ''O''"

section \<open>Numbers\<close>

definition append_int :: "int \<Rightarrow> string" where
  "append_int n = (if n < 0 then ''-'' @ nat_to_string (nat (- n)) else nat_to_string (nat n))"

text \<open>The number of decimal digits.\<close>

definition digits_of :: "nat \<Rightarrow> nat" where
  "digits_of n = length (nat_to_string n)"

definition digit :: "int \<Rightarrow> char" where
  "digit d = char_of (48 + nat d)"

text \<open>Outside of 0 to 99 the format \<^verbatim>\<open>{:02}\<close> adds no zero.\<close>

definition pad2 :: "int \<Rightarrow> string" where
  "pad2 n = (if n \<ge> 0 \<and> n < 100 then [digit (n div 10), digit (n mod 10)] else append_int n)"

definition pad_uint :: "nat \<Rightarrow> nat \<Rightarrow> string" where
  "pad_uint n width = replicate (width - digits_of n) (CHR ''0'') @ nat_to_string n"

definition pad3 :: "u32 \<Rightarrow> string" where
  "pad3 n =
     (if n < 1000
      then let r = unat n mod 100
           in [digit (int (unat n div 100)), digit (int (r div 10)), digit (int (r mod 10))]
      else nat_to_string (unat n))"

text \<open>Casts between durations cut off towards zero; a unit is so many nanoseconds.\<close>

definition duration_cast :: "int \<Rightarrow> int \<Rightarrow> int" where
  "duration_cast unit t = t sdiv unit"

definition time_fraction :: "int \<Rightarrow> int \<Rightarrow> int" where
  "time_fraction unit t =
     duration_cast unit t - duration_cast 1000000000 t * (1000000000 div unit)"

section \<open>Padding\<close>

datatype pad_side = Pad_left | Pad_right | Pad_center

record padding_info =
  pd_width :: nat
  pd_side :: pad_side
  pd_truncate :: bool
  pd_enabled :: bool

definition no_padding :: padding_info where
  "no_padding = \<lparr>pd_width = 0, pd_side = Pad_left, pd_truncate = False, pd_enabled = False\<rparr>"

definition spaces :: string where
  "spaces = replicate 64 (CHR '' '')"

definition pad_it :: "nat \<Rightarrow> string \<Rightarrow> string option" where
  "pad_it count dest = (if count \<le> length spaces then Some (dest @ take count spaces) else None)"

text \<open>The constructor, with the size announced for the text; the destructor runs after the text is
  written. A buffer does not get a negative size.\<close>

definition padder_begin :: "int \<Rightarrow> padding_info \<Rightarrow> string \<Rightarrow> (int \<times> string) option" where
  "padder_begin wrapped_size padinfo dest =
     (let remaining_pad = int (pd_width padinfo) - wrapped_size
      in if remaining_pad \<le> 0 then Some (remaining_pad, dest)
         else case pd_side padinfo of
                Pad_left \<Rightarrow> map_option (\<lambda>d. (0, d)) (pad_it (nat remaining_pad) dest)
              | Pad_center \<Rightarrow>
                  let half_pad = remaining_pad div 2; reminder = remaining_pad mod 2
                  in map_option (\<lambda>d. (half_pad + reminder, d)) (pad_it (nat half_pad) dest)
              | Pad_right \<Rightarrow> Some (remaining_pad, dest))"

definition padder_end :: "padding_info \<Rightarrow> int \<Rightarrow> string \<Rightarrow> string option" where
  "padder_end padinfo remaining_pad dest =
     (if remaining_pad \<ge> 0 then pad_it (nat remaining_pad) dest
      else if pd_truncate padinfo
      then let new_size = int (length dest) + remaining_pad
           in if new_size < 0 then None else Some (take (nat new_size) dest)
      else Some dest)"

text \<open>\<^verbatim>\<open>scoped_padder\<close> around a text, or \<^verbatim>\<open>null_scoped_padder\<close>.\<close>

definition padded :: "padding_info \<Rightarrow> int \<Rightarrow> string \<Rightarrow> string \<Rightarrow> string option" where
  "padded padinfo wrapped_size text dest =
     (if pd_enabled padinfo
      then Option.bind (padder_begin wrapped_size padinfo dest)
             (\<lambda>(remaining_pad, d). padder_end padinfo remaining_pad (d @ text))
      else Some (dest @ text))"

section \<open>Fields\<close>

text \<open>One constructor for each class of formatters without a state of its own.\<close>

datatype field =
    F_name | F_level | F_short_level | F_a | F_A | F_b | F_B | F_c | F_C | F_D | F_Y | F_m | F_d
  | F_H | F_I | F_M | F_S | F_e | F_f | F_F | F_E | F_p | F_r | F_R | F_T | F_t | F_pid | F_v
  | F_source_location | F_source_filename | F_short_filename | F_source_linenum | F_source_funcname

definition days :: "string list" where
  "days = [''Sun'', ''Mon'', ''Tue'', ''Wed'', ''Thu'', ''Fri'', ''Sat'']"

definition full_days :: "string list" where
  "full_days = [''Sunday'', ''Monday'', ''Tuesday'', ''Wednesday'', ''Thursday'', ''Friday'', ''Saturday'']"

definition months :: "string list" where
  "months = [''Jan'', ''Feb'', ''Mar'', ''Apr'', ''May'', ''Jun'', ''Jul'', ''Aug'', ''Sept'', ''Oct'', ''Nov'', ''Dec'']"

definition full_months :: "string list" where
  "full_months = [''January'', ''February'', ''March'', ''April'', ''May'', ''June'', ''July'',
     ''August'', ''September'', ''October'', ''November'', ''December'']"

definition ampm :: "tm \<Rightarrow> string" where
  "ampm t = (if tm_hour t \<ge> 12 then ''PM'' else ''AM'')"

definition to12h :: "tm \<Rightarrow> int" where
  "to12h t = (if tm_hour t > 12 then tm_hour t - 12 else tm_hour t)"

text \<open>\<^verbatim>\<open>short_filename_formatter::basename\<close>, with one separator.\<close>

definition log_basename :: "string \<Rightarrow> string" where
  "log_basename filename =
     (case last_index (CHR ''/'') filename of None \<Rightarrow> filename | Some i \<Rightarrow> drop (Suc i) filename)"

definition hms :: "tm \<Rightarrow> string" where
  "hms t = pad2 (tm_hour t) @ '':'' @ pad2 (tm_min t) @ '':'' @ pad2 (tm_sec t)"

text \<open>The size announced to the padder and the text; \<open>None\<close> for the early return.\<close>

fun field_text :: "log_env \<Rightarrow> padding_info \<Rightarrow> field \<Rightarrow> log_msg \<Rightarrow> tm \<Rightarrow> (nat \<times> string) option" where
  "field_text env pd F_name m t = Some (length (lm_logger_name m), lm_logger_name m)"
| "field_text env pd F_level m t = Some (length (level_name (lm_level m)), level_name (lm_level m))"
| "field_text env pd F_short_level m t =
     Some (length (short_level_name (lm_level m)), short_level_name (lm_level m))"
| "field_text env pd F_a m t = (let v = days ! nat (tm_wday t) in Some (length v, v))"
| "field_text env pd F_A m t = (let v = full_days ! nat (tm_wday t) in Some (length v, v))"
| "field_text env pd F_b m t = (let v = months ! nat (tm_mon t) in Some (length v, v))"
| "field_text env pd F_B m t = (let v = full_months ! nat (tm_mon t) in Some (length v, v))"
| "field_text env pd F_c m t =
     Some (24, days ! nat (tm_wday t) @ '' '' @ months ! nat (tm_mon t) @ '' '' @ append_int (tm_mday t) @
       '' '' @ hms t @ '' '' @ append_int (tm_year t + 1900))"
| "field_text env pd F_C m t = Some (2, pad2 (tm_year t smod 100))"
| "field_text env pd F_D m t =
     Some (10, pad2 (tm_mon t + 1) @ ''/'' @ pad2 (tm_mday t) @ ''/'' @ pad2 (tm_year t smod 100))"
| "field_text env pd F_Y m t = Some (4, append_int (tm_year t + 1900))"
| "field_text env pd F_m m t = Some (2, pad2 (tm_mon t + 1))"
| "field_text env pd F_d m t = Some (2, pad2 (tm_mday t))"
| "field_text env pd F_H m t = Some (2, pad2 (tm_hour t))"
| "field_text env pd F_I m t = Some (2, pad2 (to12h t))"
| "field_text env pd F_M m t = Some (2, pad2 (tm_min t))"
| "field_text env pd F_S m t = Some (2, pad2 (tm_sec t))"
| "field_text env pd F_e m t = Some (3, pad3 (word_of_int (time_fraction 1000000 (lm_time m))))"
| "field_text env pd F_f m t =
     Some (6, pad_uint (unat (word_of_int (time_fraction 1000 (lm_time m)) :: u64)) 6)"
| "field_text env pd F_F m t =
     Some (9, pad_uint (unat (word_of_int (time_fraction 1 (lm_time m)) :: u64)) 9)"
| "field_text env pd F_E m t = Some (10, append_int (duration_cast 1000000000 (lm_time m)))"
| "field_text env pd F_p m t = Some (2, ampm t)"
| "field_text env pd F_r m t =
     Some (11, pad2 (to12h t) @ '':'' @ pad2 (tm_min t) @ '':'' @ pad2 (tm_sec t) @ '' '' @ ampm t)"
| "field_text env pd F_R m t = Some (5, pad2 (tm_hour t) @ '':'' @ pad2 (tm_min t))"
| "field_text env pd F_T m t = Some (8, hms t)"
| "field_text env pd F_t m t = Some (digits_of (lm_thread_id m), nat_to_string (lm_thread_id m))"
| "field_text env pd F_pid m t = Some (digits_of (env_pid env), nat_to_string (env_pid env))"
| "field_text env pd F_v m t = Some (length (lm_payload m), lm_payload m)"
| "field_text env pd F_source_location m t =
     (if source_empty (lm_source m) then None
      else Some (if pd_enabled pd
                 then length (sl_filename (lm_source m)) + digits_of (unat (word_of_int (sl_line (lm_source m)) :: u32)) + 1
                 else 0,
                 sl_filename (lm_source m) @ '':'' @ append_int (sl_line (lm_source m))))"
| "field_text env pd F_source_filename m t =
     (if source_empty (lm_source m) then None
      else Some (if pd_enabled pd then length (sl_filename (lm_source m)) else 0, sl_filename (lm_source m)))"
| "field_text env pd F_short_filename m t =
     (if source_empty (lm_source m) then None
      else let filename = log_basename (sl_filename (lm_source m))
           in Some (if pd_enabled pd then length filename else 0, filename))"
| "field_text env pd F_source_linenum m t =
     (if source_empty (lm_source m) then None
      else Some (digits_of (unat (word_of_int (sl_line (lm_source m)) :: u32)), append_int (sl_line (lm_source m))))"
| "field_text env pd F_source_funcname m t =
     (if source_empty (lm_source m) then None
      else Some (if pd_enabled pd then length (sl_funcname (lm_source m)) else 0, sl_funcname (lm_source m)))"

section \<open>Formatters\<close>

text \<open>The offset of the time zone, the time of the last message, and the cached date are states.\<close>

datatype flag_formatter =
    Field_formatter field padding_info
  | Z_formatter padding_info int int
  | Elapsed_formatter padding_info int int
  | Full_formatter int string
  | Ch_formatter char
  | Aggregate_formatter string
  | Color_start_formatter
  | Color_stop_formatter

definition z_text :: "int \<Rightarrow> string" where
  "z_text total_minutes =
     (let is_negative = total_minutes < 0; total = (if is_negative then - total_minutes else total_minutes)
      in (if is_negative then ''-'' else ''+'') @ pad2 (total div 60) @ '':'' @ pad2 (total mod 60))"

definition cached_datetime :: "tm \<Rightarrow> string" where
  "cached_datetime t =
     ''['' @ append_int (tm_year t + 1900) @ ''-'' @ pad2 (tm_mon t + 1) @ ''-'' @ pad2 (tm_mday t) @
     '' '' @ hms t @ ''.''"

text \<open>The rest of a line of the full formatter up to and from the level.\<close>

definition full_before_level :: "log_msg \<Rightarrow> string" where
  "full_before_level m =
     pad3 (word_of_int (time_fraction 1000000 (lm_time m))) @ ''] '' @
     (if length (lm_logger_name m) > 0 then ''['' @ lm_logger_name m @ ''] '' else []) @ ''[''"

definition full_after_level :: "log_msg \<Rightarrow> string" where
  "full_after_level m =
     ''] '' @
     (if \<not> source_empty (lm_source m)
      then ''['' @ log_basename (sl_filename (lm_source m)) @ '':'' @ append_int (sl_line (lm_source m)) @ ''] ''
      else []) @ lm_payload m"

fun format_flag ::
  "log_env \<Rightarrow> flag_formatter \<Rightarrow> log_msg \<Rightarrow> tm \<Rightarrow> string \<Rightarrow> (flag_formatter \<times> log_msg \<times> string) option"
where
  "format_flag env (Field_formatter f pd) m t dest =
     (case field_text env pd f m t of
        None \<Rightarrow> Some (Field_formatter f pd, m, dest)
      | Some (wrapped_size, text) \<Rightarrow>
          map_option (\<lambda>d. (Field_formatter f pd, m, d)) (padded pd (int wrapped_size) text dest))"
| "format_flag env (Z_formatter pd last_update offset_minutes) m t dest =
     (let (last_update, offset_minutes) =
            (if lm_time m - last_update \<ge> 10 * 1000000000
             then (lm_time m, env_utc_minutes_offset env t) else (last_update, offset_minutes))
      in map_option (\<lambda>d. (Z_formatter pd last_update offset_minutes, m, d))
           (padded pd 6 (z_text offset_minutes) dest))"
| "format_flag env (Elapsed_formatter pd unit last_message_time) m t dest =
     (let delta = max (lm_time m - last_message_time) 0;
          delta_count = nat (duration_cast unit delta)
      in map_option (\<lambda>d. (Elapsed_formatter pd unit (lm_time m), m, d))
           (padded pd (int (digits_of delta_count)) (nat_to_string delta_count) dest))"
| "format_flag env (Full_formatter cache_timestamp cached) m t dest =
     (let secs = duration_cast 1000000000 (lm_time m);
          (cache_timestamp, cached) =
            (if cache_timestamp \<noteq> secs \<or> cached = [] then (secs, cached_datetime t) else (cache_timestamp, cached));
          dest = dest @ cached @ full_before_level m;
          m1 = m\<lparr>lm_color_range_start := length dest\<rparr>;
          dest = dest @ level_name (lm_level m);
          m2 = m1\<lparr>lm_color_range_end := length dest\<rparr>
      in Some (Full_formatter cache_timestamp cached, m2, dest @ full_after_level m))"
| "format_flag env (Ch_formatter c) m t dest = Some (Ch_formatter c, m, dest @ [c])"
| "format_flag env (Aggregate_formatter s) m t dest = Some (Aggregate_formatter s, m, dest @ s)"
| "format_flag env Color_start_formatter m t dest =
     Some (Color_start_formatter, m\<lparr>lm_color_range_start := length dest\<rparr>, dest)"
| "format_flag env Color_stop_formatter m t dest =
     Some (Color_stop_formatter, m\<lparr>lm_color_range_end := length dest\<rparr>, dest)"

fun format_flags ::
  "log_env \<Rightarrow> flag_formatter list \<Rightarrow> log_msg \<Rightarrow> tm \<Rightarrow> string \<Rightarrow> (flag_formatter list \<times> log_msg \<times> string) option"
where
  "format_flags env [] m t dest = Some ([], m, dest)"
| "format_flags env (f # fs) m t dest =
     (case format_flag env f m t dest of
        None \<Rightarrow> None
      | Some (f', m', dest') \<Rightarrow>
          map_option (\<lambda>(fs', m'', d). (f' # fs', m'', d)) (format_flags env fs m' t dest'))"

section \<open>Compiling a pattern\<close>

text \<open>The clock is read for the formatters of elapsed time.\<close>

definition handle_flag :: "int \<Rightarrow> char \<Rightarrow> padding_info \<Rightarrow> flag_formatter list" where
  "handle_flag now flag pd =
     (if flag = CHR ''+'' then [Full_formatter 0 []]
      else if flag = CHR ''n'' then [Field_formatter F_name pd]
      else if flag = CHR ''l'' then [Field_formatter F_level pd]
      else if flag = CHR ''L'' then [Field_formatter F_short_level pd]
      else if flag = CHR ''t'' then [Field_formatter F_t pd]
      else if flag = CHR ''v'' then [Field_formatter F_v pd]
      else if flag = CHR ''a'' then [Field_formatter F_a pd]
      else if flag = CHR ''A'' then [Field_formatter F_A pd]
      else if flag = CHR ''b'' \<or> flag = CHR ''h'' then [Field_formatter F_b pd]
      else if flag = CHR ''B'' then [Field_formatter F_B pd]
      else if flag = CHR ''c'' then [Field_formatter F_c pd]
      else if flag = CHR ''C'' then [Field_formatter F_C pd]
      else if flag = CHR ''Y'' then [Field_formatter F_Y pd]
      else if flag = CHR ''D'' \<or> flag = CHR ''x'' then [Field_formatter F_D pd]
      else if flag = CHR ''m'' then [Field_formatter F_m pd]
      else if flag = CHR ''d'' then [Field_formatter F_d pd]
      else if flag = CHR ''H'' then [Field_formatter F_H pd]
      else if flag = CHR ''I'' then [Field_formatter F_I pd]
      else if flag = CHR ''M'' then [Field_formatter F_M pd]
      else if flag = CHR ''S'' then [Field_formatter F_S pd]
      else if flag = CHR ''e'' then [Field_formatter F_e pd]
      else if flag = CHR ''f'' then [Field_formatter F_f pd]
      else if flag = CHR ''F'' then [Field_formatter F_F pd]
      else if flag = CHR ''E'' then [Field_formatter F_E pd]
      else if flag = CHR ''p'' then [Field_formatter F_p pd]
      else if flag = CHR ''r'' then [Field_formatter F_r pd]
      else if flag = CHR ''R'' then [Field_formatter F_R pd]
      else if flag = CHR ''T'' \<or> flag = CHR ''X'' then [Field_formatter F_T pd]
      else if flag = CHR ''z'' then [Z_formatter pd 0 0]
      else if flag = CHR ''P'' then [Field_formatter F_pid pd]
      else if flag = CHR ''^'' then [Color_start_formatter]
      else if flag = CHR ''$'' then [Color_stop_formatter]
      else if flag = CHR ''@'' then [Field_formatter F_source_location pd]
      else if flag = CHR ''s'' then [Field_formatter F_short_filename pd]
      else if flag = CHR ''g'' then [Field_formatter F_source_filename pd]
      else if flag = CHR ''#'' then [Field_formatter F_source_linenum pd]
      else if flag = CHR ''!'' then [Field_formatter F_source_funcname pd]
      else if flag = CHR ''%'' then [Ch_formatter (CHR ''%'')]
      else if flag = CHR ''u'' then [Elapsed_formatter pd 1 now]
      else if flag = CHR ''i'' then [Elapsed_formatter pd 1000 now]
      else if flag = CHR ''o'' then [Elapsed_formatter pd 1000000 now]
      else if flag = CHR ''O'' then [Elapsed_formatter pd 1000000000 now]
      else if \<not> pd_truncate pd then [Aggregate_formatter [CHR ''%'', flag]]
      else [Field_formatter F_source_funcname (pd\<lparr>pd_truncate := False\<rparr>), Aggregate_formatter [flag]])"

definition is_digit_char :: "char \<Rightarrow> bool" where
  "is_digit_char c \<longleftrightarrow> 48 \<le> (of_char c :: nat) \<and> (of_char c :: nat) \<le> 57"

text \<open>The loop over the digits; the width wraps around.\<close>

fun read_width :: "u64 \<Rightarrow> string \<Rightarrow> u64 \<times> string" where
  "read_width width [] = (width, [])"
| "read_width width (c # cs) =
     (if is_digit_char c then read_width (width * 10 + of_nat (of_char c - 48)) cs else (width, c # cs))"

definition max_pad_width :: u64 where
  "max_pad_width = 64"

definition pad_side_of :: "string \<Rightarrow> pad_side \<times> string" where
  "pad_side_of it =
     (case it of
        [] \<Rightarrow> (Pad_left, [])
      | c # cs \<Rightarrow>
          if c = CHR ''-'' then (Pad_right, cs) else if c = CHR ''='' then (Pad_center, cs) else (Pad_left, c # cs))"

definition truncate_marker :: "string \<Rightarrow> bool \<times> string" where
  "truncate_marker it =
     (case it of [] \<Rightarrow> (False, it) | e # es \<Rightarrow> if e = CHR ''!'' then (True, es) else (False, it))"

definition handle_padspec :: "string \<Rightarrow> padding_info \<times> string" where
  "handle_padspec it =
     (if it = [] then (no_padding, [])
      else let (side, it) = pad_side_of it
           in case it of
                [] \<Rightarrow> (no_padding, [])
              | c # cs \<Rightarrow>
                  if \<not> is_digit_char c then (no_padding, it)
                  else let (width, it) = read_width (of_nat (of_char c - 48)) cs;
                           (truncate, it) = truncate_marker it
                       in (\<lparr>pd_width = unat (min width max_pad_width), pd_side = side, pd_truncate = truncate,
                            pd_enabled = True\<rparr>, it))"

lemma read_width_shorter: "length (snd (read_width w s)) \<le> length s"
  by (induction w s rule: read_width.induct) auto

lemma truncate_marker_shorter: "length (snd (truncate_marker s)) \<le> length s"
  by (auto simp: truncate_marker_def split: list.split)

lemma handle_padspec_shorter: "length (snd (handle_padspec s)) \<le> length s"
proof -
  obtain side it where it: "pad_side_of s = (side, it)" by fastforce
  then have len: "length it \<le> length s" by (auto simp: pad_side_of_def split: list.splits if_splits)
  show ?thesis
  proof (cases it)
    case Nil
    then show ?thesis by (simp add: handle_padspec_def it)
  next
    case (Cons c cs)
    obtain w r where w: "read_width (of_nat (of_char c - 48)) cs = (w, r)" by fastforce
    obtain b r' where b: "truncate_marker r = (b, r')" by fastforce
    have "length r \<le> length cs" "length r' \<le> length r"
      using read_width_shorter [of "of_nat (of_char c - 48)" cs] truncate_marker_shorter [of r] by (simp_all add: w b)
    then show ?thesis using len Cons by (auto simp: handle_padspec_def it w b)
  qed
qed

lemma padspec_rest_shorter: "(pd, f # rest) = handle_padspec it \<Longrightarrow> length rest < Suc (length it)"
  using handle_padspec_shorter [of it] by (cases "handle_padspec it") simp

text \<open>\<^verbatim>\<open>compile_pattern_\<close> with the characters collected so far; a pattern that ends within a flag
  has no formatter for it.\<close>

definition user_formatter :: "string option \<Rightarrow> flag_formatter list" where
  "user_formatter user_chars = (case user_chars of None \<Rightarrow> [] | Some s \<Rightarrow> [Aggregate_formatter s])"

function compile_pattern :: "int \<Rightarrow> string option \<Rightarrow> string \<Rightarrow> flag_formatter list" where
  "compile_pattern now user_chars [] = user_formatter user_chars"
| "compile_pattern now user_chars (c # it) =
     (if c = CHR ''%''
      then user_formatter user_chars @
        (case handle_padspec it of
           (padding, []) \<Rightarrow> []
         | (padding, flag # rest) \<Rightarrow> handle_flag now flag padding @ compile_pattern now None rest)
      else compile_pattern now (Some (case user_chars of None \<Rightarrow> [c] | Some s \<Rightarrow> s @ [c])) it)"
  by pat_completeness auto
termination
  by (relation "measure (\<lambda>(now, u, s). length s)") (auto dest: padspec_rest_shorter)

section \<open>Lines\<close>

record pattern_formatter =
  pf_pattern :: string
  pf_eol :: string
  pf_local :: bool
  pf_cached_tm :: tm
  pf_last_log_secs :: int
  pf_formatters :: "flag_formatter list"

definition tm_zero :: tm where
  "tm_zero = \<lparr>tm_sec = 0, tm_min = 0, tm_hour = 0, tm_mday = 0, tm_mon = 0, tm_year = 0, tm_wday = 0\<rparr>"

definition pattern_formatter_new :: "int \<Rightarrow> string \<Rightarrow> bool \<Rightarrow> string \<Rightarrow> pattern_formatter" where
  "pattern_formatter_new now pattern is_local eol =
     \<lparr>pf_pattern = pattern, pf_eol = eol, pf_local = is_local, pf_cached_tm = tm_zero, pf_last_log_secs = 0,
      pf_formatters = compile_pattern now None pattern\<rparr>"

definition pattern_formatter_default :: "bool \<Rightarrow> string \<Rightarrow> pattern_formatter" where
  "pattern_formatter_default is_local eol =
     \<lparr>pf_pattern = ''%+'', pf_eol = eol, pf_local = is_local, pf_cached_tm = tm_zero, pf_last_log_secs = 0,
      pf_formatters = [Full_formatter 0 []]\<rparr>"

definition pattern_clone :: "int \<Rightarrow> pattern_formatter \<Rightarrow> pattern_formatter" where
  "pattern_clone now pf = pattern_formatter_new now (pf_pattern pf) (pf_local pf) (pf_eol pf)"

definition set_pattern :: "int \<Rightarrow> string \<Rightarrow> pattern_formatter \<Rightarrow> pattern_formatter" where
  "set_pattern now pattern pf =
     pf\<lparr>pf_pattern := pattern, pf_formatters := compile_pattern now None pattern\<rparr>"

definition get_time :: "log_env \<Rightarrow> pattern_formatter \<Rightarrow> log_msg \<Rightarrow> tm" where
  "get_time env pf m =
     (let t = duration_cast 1000000000 (lm_time m)
      in if pf_local pf then env_localtime env t else env_gmtime env t)"

definition pattern_format ::
  "log_env \<Rightarrow> pattern_formatter \<Rightarrow> log_msg \<Rightarrow> string \<Rightarrow> (pattern_formatter \<times> log_msg \<times> string) option"
where
  "pattern_format env pf m dest =
     (let secs = duration_cast 1000000000 (lm_time m);
          pf = (if secs \<noteq> pf_last_log_secs pf
                then pf\<lparr>pf_cached_tm := get_time env pf m, pf_last_log_secs := secs\<rparr> else pf)
      in map_option (\<lambda>(fs, m', d). (pf\<lparr>pf_formatters := fs\<rparr>, m', d @ pf_eol pf))
           (format_flags env (pf_formatters pf) m (pf_cached_tm pf) dest))"

end
