(* ===== verification/Log_Lines.thy ===== *)
theory Log_Lines
  imports Log_Format "HOL-Library.Char_ord" "HOL-Library.List_Lexorder"
begin

text \<open>
  What the pattern formatter writes: the lines of the program's log, also with the caches of the
  formatter; that lines sort by their time; escaping; and padding.
\<close>

section \<open>Compiling\<close>

lemma padspec_plain:
  "c \<noteq> CHR ''-'' \<Longrightarrow> c \<noteq> CHR ''='' \<Longrightarrow> \<not> is_digit_char c \<Longrightarrow> handle_padspec (c # cs) = (no_padding, c # cs)"
  by (simp add: handle_padspec_def pad_side_of_def)

lemma compile_flag:
  "c \<noteq> CHR ''-'' \<Longrightarrow> c \<noteq> CHR ''='' \<Longrightarrow> \<not> is_digit_char c \<Longrightarrow>
   compile_pattern now u (CHR ''%'' # c # cs) = user_formatter u @ handle_flag now c no_padding @ compile_pattern now None cs"
  by (simp add: padspec_plain)

lemma compile_char:
  "c \<noteq> CHR ''%'' \<Longrightarrow> compile_pattern now u (c # cs) =
     compile_pattern now (Some (case u of None \<Rightarrow> [c] | Some s \<Rightarrow> s @ [c])) cs"
  by simp

lemmas compile_eval = compile_flag compile_char compile_pattern.simps(1) user_formatter_def handle_flag_def is_digit_char_def

lemma compile_common_pattern:
  "compile_pattern now None common_pattern =
     [Aggregate_formatter ''['', Field_formatter F_Y no_padding, Aggregate_formatter ''-'',
      Field_formatter F_m no_padding, Aggregate_formatter ''-'', Field_formatter F_d no_padding,
      Aggregate_formatter '' '', Field_formatter F_T no_padding, Aggregate_formatter ''.'',
      Field_formatter F_e no_padding, Aggregate_formatter ''] ['', Field_formatter F_level no_padding,
      Aggregate_formatter ''] [tid:'', Field_formatter F_t no_padding, Aggregate_formatter '' '',
      Field_formatter F_short_filename no_padding, Aggregate_formatter '':'',
      Field_formatter F_source_linenum no_padding, Aggregate_formatter ''] '', Field_formatter F_v no_padding]"
  unfolding common_pattern_def by (simp add: compile_eval del: compile_pattern.simps(2))

section \<open>Lines of the log\<close>

definition log_time :: "log_env \<Rightarrow> log_msg \<Rightarrow> tm" where
  "log_time env m = env_localtime env (duration_cast 1000000000 (lm_time m))"

definition log_millis :: "log_msg \<Rightarrow> u32" where
  "log_millis m = word_of_int (time_fraction 1000000 (lm_time m))"

text \<open>The time, then the rest of the line.\<close>

definition line_stamp :: "tm \<Rightarrow> u32 \<Rightarrow> string" where
  "line_stamp t millis =
     append_int (tm_year t + 1900) @ ''-'' @ pad2 (tm_mon t + 1) @ ''-'' @ pad2 (tm_mday t) @ '' '' @
     pad2 (tm_hour t) @ '':'' @ pad2 (tm_min t) @ '':'' @ pad2 (tm_sec t) @ ''.'' @ pad3 millis"

definition log_line :: "log_env \<Rightarrow> log_msg \<Rightarrow> string" where
  "log_line env m =
     ''['' @ line_stamp (log_time env m) (log_millis m) @ ''] ['' @ level_name (lm_level m) @
     ''] [tid:'' @ nat_to_string (lm_thread_id m) @ '' '' @
     (if source_empty (lm_source m) then '':''
      else log_basename (sl_filename (lm_source m)) @ '':'' @ append_int (sl_line (lm_source m))) @
     ''] '' @ lm_payload m @ ''\<newline>''"

text \<open>The messages of a sink, one after the other, each into an empty buffer.\<close>

fun format_lines :: "log_env \<Rightarrow> pattern_formatter \<Rightarrow> log_msg list \<Rightarrow> string list option" where
  "format_lines env pf [] = Some []"
| "format_lines env pf (m # ms) =
     (case pattern_format env pf m [] of
        None \<Rightarrow> None
      | Some (pf', m', line) \<Rightarrow> map_option ((#) line) (format_lines env pf' ms))"

lemma format_common_pattern:
  "format_flags env (compile_pattern now None common_pattern) m t dest =
     Some (compile_pattern now None common_pattern, m, dest @
       ''['' @ line_stamp t (log_millis m) @ ''] ['' @ level_name (lm_level m) @
       ''] [tid:'' @ nat_to_string (lm_thread_id m) @ '' '' @
       (if source_empty (lm_source m) then '':''
        else log_basename (sl_filename (lm_source m)) @ '':'' @ append_int (sl_line (lm_source m))) @
       ''] '' @ lm_payload m)"
  unfolding compile_common_pattern
  by (simp add: padded_def no_padding_def line_stamp_def log_millis_def hms_def Let_def)

definition common_formatter :: "int \<Rightarrow> pattern_formatter" where
  "common_formatter now = pattern_formatter_new now common_pattern True ''\<newline>''"

text \<open>The broken-down time that the formatter keeps is that of the second it keeps.\<close>

definition cache_ok :: "log_env \<Rightarrow> int \<Rightarrow> pattern_formatter \<Rightarrow> bool" where
  "cache_ok env now pf \<longleftrightarrow>
     pf_eol pf = ''\<newline>'' \<and> pf_local pf \<and> pf_formatters pf = compile_pattern now None common_pattern \<and>
     (pf_last_log_secs pf \<noteq> 0 \<longrightarrow> pf_cached_tm pf = env_localtime env (pf_last_log_secs pf))"

lemma cache_ok_format:
  assumes "cache_ok env now pf" "duration_cast 1000000000 (lm_time m) \<noteq> 0"
  shows "\<exists>pf'. pattern_format env pf m [] = Some (pf', m, log_line env m) \<and> cache_ok env now pf'"
proof -
  let ?secs = "duration_cast 1000000000 (lm_time m)"
  define pf1 where "pf1 = (if ?secs \<noteq> pf_last_log_secs pf
    then pf\<lparr>pf_cached_tm := get_time env pf m, pf_last_log_secs := ?secs\<rparr> else pf)"
  have pf1: "pf_cached_tm pf1 = log_time env m" "pf_last_log_secs pf1 = ?secs" "pf_eol pf1 = ''\<newline>''" "pf_local pf1"
    "pf_formatters pf1 = compile_pattern now None common_pattern"
    using assms by (auto simp: pf1_def cache_ok_def get_time_def log_time_def)
  have "pattern_format env pf m [] =
      map_option (\<lambda>(fs, m', d). (pf1\<lparr>pf_formatters := fs\<rparr>, m', d @ pf_eol pf1))
        (format_flags env (pf_formatters pf1) m (pf_cached_tm pf1) [])"
    by (simp only: pattern_format_def Let_def pf1_def)
  also have "\<dots> = Some (pf1\<lparr>pf_formatters := compile_pattern now None common_pattern\<rparr>, m, log_line env m)"
    unfolding pf1 format_common_pattern by (simp add: log_line_def)
  finally show ?thesis using pf1 by (auto simp: cache_ok_def log_time_def)
qed

lemma format_lines_ok:
  "cache_ok env now pf \<Longrightarrow> \<forall>m \<in> set ms. duration_cast 1000000000 (lm_time m) \<noteq> 0 \<Longrightarrow>
   format_lines env pf ms = Some (map (log_line env) ms)"
proof (induction ms arbitrary: pf)
  case (Cons m ms)
  then obtain pf' where "pattern_format env pf m [] = Some (pf', m, log_line env m)" "cache_ok env now pf'"
    using cache_ok_format by (metis list.set_intros(1))
  then show ?case using Cons by simp
qed simp

lemma cache_ok_new: "cache_ok env now (common_formatter now)"
  by (simp add: cache_ok_def common_formatter_def pattern_formatter_new_def)

section \<open>Order\<close>

text \<open>Decimals of a fixed width.\<close>

fun dec :: "nat \<Rightarrow> int \<Rightarrow> string" where
  "dec 0 n = []"
| "dec (Suc k) n = dec k (n div 10) @ [digit (n mod 10)]"

lemma digit_less: "0 \<le> a \<Longrightarrow> a < 10 \<Longrightarrow> 0 \<le> b \<Longrightarrow> b < 10 \<Longrightarrow> digit a < digit b \<longleftrightarrow> a < b"
  by (simp add: digit_def less_char_def) linarith

lemma digit_eq: "0 \<le> a \<Longrightarrow> a < 10 \<Longrightarrow> 0 \<le> b \<Longrightarrow> b < 10 \<Longrightarrow> digit a = digit b \<longleftrightarrow> a = b"
  using digit_less [of a b] digit_less [of b a] by (metis less_irrefl linorder_neqE)

lemma div_mod_less:
  "(a div 10 < b div 10 \<or> a div 10 = b div 10 \<and> (a mod 10 < b mod 10 \<or> a mod 10 = b mod 10 \<and> P)) \<longleftrightarrow>
   a < b \<or> a = b \<and> P" for a b :: int
proof -
  have "a = 10 * (a div 10) + a mod 10" "b = 10 * (b div 10) + b mod 10" "0 \<le> a mod 10" "a mod 10 < 10"
    "0 \<le> b mod 10" "b mod 10 < 10" by simp_all
  then have "a div 10 < b div 10 \<or> a div 10 = b div 10 \<and> a mod 10 < b mod 10 \<longleftrightarrow> a < b"
    by linarith
  moreover have "a div 10 = b div 10 \<and> a mod 10 = b mod 10 \<longleftrightarrow> a = b" by (metis mult_div_mod_eq)
  ultimately show ?thesis by blast
qed

lemma dec_less:
  "0 \<le> a \<Longrightarrow> a < 10 ^ k \<Longrightarrow> 0 \<le> b \<Longrightarrow> b < 10 ^ k \<Longrightarrow>
   dec k a @ xs < dec k b @ ys \<longleftrightarrow> a < b \<or> a = b \<and> xs < ys"
proof (induction k arbitrary: a b xs ys)
  case (Suc k)
  have "0 \<le> a div 10" "0 \<le> b div 10" "a div 10 < 10 ^ k" "b div 10 < 10 ^ k"
    using Suc.prems by (simp_all add: pos_imp_zdiv_nonneg_iff div_less_iff_less_mult)
  then have "dec (Suc k) a @ xs < dec (Suc k) b @ ys \<longleftrightarrow>
      a div 10 < b div 10 \<or> a div 10 = b div 10 \<and> digit (a mod 10) # xs < digit (b mod 10) # ys"
    using Suc.IH [of "a div 10" "b div 10" "digit (a mod 10) # xs"] by simp
  also have "\<dots> \<longleftrightarrow> a < b \<or> a = b \<and> xs < ys"
    unfolding Cons_less_Cons by (simp only: digit_less digit_eq pos_mod_sign pos_mod_bound div_mod_less
      zero_less_numeral)
  finally show ?case .
qed simp

lemma pad2_dec: "0 \<le> n \<Longrightarrow> n < 100 \<Longrightarrow> pad2 n = dec 2 n"
  by (simp add: pad2_def numeral_2_eq_2)

lemma dec_3:
  assumes "k < 1000"
  shows "dec 3 (int k) = [digit (int (k div 100)), digit (int (k mod 100 div 10)), digit (int (k mod 100 mod 10))]"
proof -
  have "k div 10 div 10 mod 10 = k div 100" using assms by (simp add: div_mult2_eq [symmetric])
  moreover have "k mod 100 div 10 = k div 10 mod 10" "k mod 100 mod 10 = k mod 10"
    by (simp_all add: mod_mult2_eq [of _ 10 10, simplified] mod_mod_cancel)
  ultimately have "int k div 10 div 10 mod 10 = int (k div 100)" "int k div 10 mod 10 = int (k mod 100 div 10)"
      "int k mod 10 = int (k mod 100 mod 10)"
    by (metis of_nat_numeral zdiv_int zmod_int)+
  then show ?thesis by (simp only: numeral_3_eq_3 dec.simps append_Nil append_Cons)
qed

lemma int_unat_uint: "int (unat (n :: u32)) = uint n"
  by simp

lemma pad3_dec:
  assumes "n < 1000"
  shows "pad3 n = dec 3 (uint n)"
proof -
  have "unat n < 1000" using assms by (simp add: word_less_nat_alt)
  then have "dec 3 (uint n) = [digit (int (unat n div 100)), digit (int (unat n mod 100 div 10)),
      digit (int (unat n mod 100 mod 10))]"
    using dec_3 [of "unat n"] by (metis int_unat_uint)
  then show ?thesis using assms by (simp only: pad3_def if_True Let_def)
qed

lemma nat_to_string_dec: "10 ^ k \<le> n \<Longrightarrow> n < 10 ^ Suc k \<Longrightarrow> nat_to_string n = dec (Suc k) (int n)"
proof (induction k arbitrary: n)
  case 0
  then show ?case by (subst nat_to_string.simps) (simp add: digit_def)
next
  case (Suc k)
  have d: "10 ^ k \<le> n div 10" "n div 10 < 10 ^ Suc k"
    using Suc.prems by (simp_all add: less_eq_div_iff_mult_less_eq div_less_iff_less_mult)
  have "\<not> n < 10" using Suc.prems(1) by (metis d(1) div_less not_less one_le_power power_0 le_zero_eq zero_neq_one one_le_numeral le_trans)
  then have "nat_to_string n = nat_to_string (n div 10) @ [char_of (48 + n mod 10)]"
    by (subst nat_to_string.simps) simp
  then show ?case using Suc.IH [OF d] by (simp add: digit_def zdiv_int nat_mod_distrib)
qed

lemma year_dec: "1000 \<le> n \<Longrightarrow> n < 10000 \<Longrightarrow> append_int n = dec 4 n"
  using nat_to_string_dec [of 3 "nat n"] by (simp add: append_int_def)

text \<open>A broken-down time in its ranges, of a year with four digits.\<close>

definition tm_ok :: "tm \<Rightarrow> bool" where
  "tm_ok t \<longleftrightarrow> 0 \<le> tm_sec t \<and> tm_sec t \<le> 60 \<and> 0 \<le> tm_min t \<and> tm_min t < 60 \<and> 0 \<le> tm_hour t \<and> tm_hour t < 24 \<and>
     1 \<le> tm_mday t \<and> tm_mday t \<le> 31 \<and> 0 \<le> tm_mon t \<and> tm_mon t < 12 \<and>
     1000 \<le> tm_year t + 1900 \<and> tm_year t + 1900 < 10000"

definition time_key :: "tm \<Rightarrow> u32 \<Rightarrow> int list" where
  "time_key t millis =
     [tm_year t, tm_mon t, tm_mday t, tm_hour t, tm_min t, tm_sec t, uint millis]"

lemma line_stamp_less:
  assumes "tm_ok t" "tm_ok u" "a < 1000" "b < 1000"
  shows "line_stamp t a @ xs < line_stamp u b @ ys \<longleftrightarrow>
    time_key t a < time_key u b \<or> time_key t a = time_key u b \<and> xs < ys"
proof -
  have pads: "pad2 (tm_mon v + 1) = dec 2 (tm_mon v + 1)" "pad2 (tm_mday v) = dec 2 (tm_mday v)"
    "pad2 (tm_hour v) = dec 2 (tm_hour v)" "pad2 (tm_min v) = dec 2 (tm_min v)" "pad2 (tm_sec v) = dec 2 (tm_sec v)"
    "append_int (tm_year v + 1900) = dec 4 (tm_year v + 1900)" if "tm_ok v" for v
    using that by (simp_all add: tm_ok_def pad2_dec year_dec)
  have two: "dec 2 x @ xs < dec 2 y @ ys \<longleftrightarrow> x < y \<or> x = y \<and> xs < ys"
    if "0 \<le> x" "x < 100" "0 \<le> y" "y < 100" for x y xs ys
    using dec_less [of x 2 y] that by simp
  have four: "dec 4 x @ xs < dec 4 y @ ys \<longleftrightarrow> x < y \<or> x = y \<and> xs < ys"
    if "0 \<le> x" "x < 10000" "0 \<le> y" "y < 10000" for x y xs ys
    using dec_less [of x 4 y] that by simp
  have ms: "uint a < 1000" "uint b < 1000" using assms(3,4) by (simp_all add: word_less_def)
  have three: "dec 3 (uint a) @ xs < dec 3 (uint b) @ ys \<longleftrightarrow>
      uint a < uint b \<or> uint a = uint b \<and> xs < ys" for xs ys
    using dec_less [of "uint a" 3 "uint b"] ms by simp
  note r = assms(1,2) [unfolded tm_ok_def]
  show ?thesis
    unfolding line_stamp_def pads [OF assms(1)] pads [OF assms(2)] pad3_dec [OF assms(3)] pad3_dec [OF assms(4)]
      append_assoc time_key_def
    using r by (simp add: two four three add1_zle_eq) blast
qed

lemma log_millis_less: "0 \<le> lm_time m \<Longrightarrow> log_millis m < 1000"
proof -
  assume t: "0 \<le> lm_time m"
  have "time_fraction 1000000 (lm_time m) = lm_time m div 1000000 - lm_time m div 1000000000 * 1000"
    using t by (cases "lm_time m = 0") (simp_all add: time_fraction_def duration_cast_def signed_divide_int_def)
  also have "\<dots> = (lm_time m div 1000000) mod 1000"
    by (simp add: minus_div_mult_eq_mod [symmetric] zdiv_zmult2_eq [of 1000, symmetric, simplified])
  finally have f: "time_fraction 1000000 (lm_time m) = (lm_time m div 1000000) mod 1000" .
  have "0 \<le> (lm_time m div 1000000) mod 1000" "(lm_time m div 1000000) mod 1000 < 1000" by simp_all
  then show ?thesis by (simp add: log_millis_def f word_less_def uint_word_of_int)
qed

section \<open>Escaping\<close>

definition escape_pattern :: "string \<Rightarrow> string" where
  "escape_pattern s = concat (map (\<lambda>c. if c = CHR ''%'' then ''%%'' else [c]) s)"

definition user_text :: "string option \<Rightarrow> string" where
  "user_text u = (case u of None \<Rightarrow> [] | Some s \<Rightarrow> s)"

lemma format_flags_append:
  "format_flags env (fs @ gs) m t dest =
     Option.bind (format_flags env fs m t dest)
       (\<lambda>(fs', m', d). map_option (\<lambda>(gs', m'', e). (fs' @ gs', m'', e)) (format_flags env gs m' t d))"
proof (induction fs arbitrary: m dest)
  case Nil
  show ?case by (cases "format_flags env gs m t dest") auto
next
  case (Cons f fs)
  show ?case
  proof (cases "format_flag env f m t dest")
    case (Some r)
    obtain f' m' d where r: "r = (f', m', d)" by (cases r) auto
    show ?thesis
    proof (cases "format_flags env fs m' t d")
      case (Some r1)
      obtain fs' m1 d1 where r1: "r1 = (fs', m1, d1)" by (cases r1) auto
      show ?thesis using \<open>format_flag env f m t dest = Some r\<close> Some r r1 Cons.IH [of m' d]
        by (cases "format_flags env gs m1 t d1") auto
    qed (use Some r Cons.IH [of m' d] in simp)
  qed simp
qed

lemma format_user: "format_flags env (user_formatter u) m t dest = Some (user_formatter u, m, dest @ user_text u)"
  by (cases u) (simp_all add: user_formatter_def user_text_def)

lemma escape_pattern_Cons:
  "escape_pattern (c # s) = (if c = CHR ''%'' then CHR ''%'' # CHR ''%'' # escape_pattern s else c # escape_pattern s)"
  by (simp add: escape_pattern_def)

lemma compile_percent:
  "compile_pattern now u (CHR ''%'' # CHR ''%'' # cs) =
     user_formatter u @ Ch_formatter (CHR ''%'') # compile_pattern now None cs"
  by (subst compile_flag) (simp_all add: is_digit_char_def handle_flag_def)

lemma format_escaped:
  "\<exists>fs. format_flags env (compile_pattern now u (escape_pattern s)) m t dest = Some (fs, m, dest @ user_text u @ s)"
proof (induction s arbitrary: u dest)
  case Nil
  then show ?case by (simp add: escape_pattern_def format_user)
next
  case (Cons c s)
  show ?case
  proof (cases "c = CHR ''%''")
    case True
    obtain fs where "format_flags env (compile_pattern now None (escape_pattern s)) m t (dest @ user_text u @ ''%'') =
        Some (fs, m, dest @ user_text u @ ''%'' @ s)"
      using Cons.IH [of None "dest @ user_text u @ ''%''"] by (auto simp: user_text_def)
    moreover have "escape_pattern (c # s) = CHR ''%'' # CHR ''%'' # escape_pattern s"
      using True by (simp add: escape_pattern_Cons)
    ultimately show ?thesis
      using True by (simp add: compile_percent format_flags_append format_user del: compile_pattern.simps(2))
  next
    case False
    have "escape_pattern (c # s) = c # escape_pattern s" using False by (simp add: escape_pattern_Cons)
    then show ?thesis
      using Cons.IH [of "Some (case u of None \<Rightarrow> [c] | Some x \<Rightarrow> x @ [c])" dest] False
      by (cases u) (simp_all add: user_text_def)
  qed
qed

section \<open>Padding\<close>

fun padding_of :: "flag_formatter \<Rightarrow> padding_info option" where
  "padding_of (Field_formatter f pd) = Some pd"
| "padding_of (Z_formatter pd l o') = Some pd"
| "padding_of (Elapsed_formatter pd u l) = Some pd"
| "padding_of _ = None"

lemma handle_flag_padding:
  "fm \<in> set (handle_flag now f pd) \<Longrightarrow> padding_of fm = Some pd' \<Longrightarrow> pd_width pd' = pd_width pd"
  unfolding handle_flag_def by (auto split: if_split_asm)

lemma handle_padspec_width: "handle_padspec s = (pd, r) \<Longrightarrow> pd_width pd \<le> 64"
proof -
  have "unat (min w max_pad_width) \<le> 64" for w
    by (simp add: max_pad_width_def min_def word_le_nat_alt)
  then show "handle_padspec s = (pd, r) \<Longrightarrow> pd_width pd \<le> 64"
    by (auto simp: handle_padspec_def no_padding_def Let_def split: if_splits prod.splits list.splits)
qed

lemma compile_pattern_width:
  "fm \<in> set (compile_pattern now u p) \<Longrightarrow> padding_of fm = Some pd \<Longrightarrow> pd_width pd \<le> 64"
proof (induction now u p rule: compile_pattern.induct)
  case (1 now u)
  then show ?case by (auto simp: user_formatter_def split: option.splits)
next
  case (2 now u c it)
  show ?case
  proof (cases "c = CHR ''%''")
    case True
    obtain pd' r where pd': "handle_padspec it = (pd', r)" by fastforce
    have "fm \<notin> set (user_formatter u)" using "2.prems"(2) by (auto simp: user_formatter_def split: option.splits)
    then obtain f cs where r: "r = f # cs" "fm \<in> set (handle_flag now f pd') \<or> fm \<in> set (compile_pattern now None cs)"
      using "2.prems"(1) True pd' by (cases r) auto
    then show ?thesis
      using "2.IH"(1) [OF True _ _ _ "2.prems"(2)] handle_flag_padding [OF _ "2.prems"(2)] handle_padspec_width [OF pd'] pd'
      by fastforce
  next
    case False
    then show ?thesis using 2 by simp
  qed
qed

lemma pad_it_ok: "n \<le> 64 \<Longrightarrow> pad_it n dest = Some (dest @ replicate n (CHR '' ''))"
  by (simp add: pad_it_def spaces_def)

lemma padded_exact:
  assumes "pd_width pd \<le> 64"
  shows "\<exists>s. padded pd (int (length text)) text dest = Some (dest @ s) \<and>
    length s = (if \<not> pd_enabled pd then length text
      else if pd_truncate pd then pd_width pd else max (pd_width pd) (length text))"
proof (cases "pd_enabled pd")
  case True
  consider "pd_width pd \<le> length text" | "length text < pd_width pd" by linarith
  then show ?thesis
  proof cases
    case 1
    then show ?thesis
      using True by (auto simp: padded_def padder_begin_def padder_end_def pad_it_def nat_diff_distrib)
  next
    case 2
    define n where "n = pd_width pd - length text"
    have n: "int (pd_width pd) - int (length text) = int n" "0 < n" "n \<le> 64" "length text + n = pd_width pd"
      using 2 assms by (simp_all add: n_def)
    have half: "n div 2 + n mod 2 \<le> 64" "n div 2 \<le> 64" using n(3) by linarith+
    show ?thesis
    proof (cases "pd_side pd")
      case Pad_left
      then show ?thesis using True n by (simp add: padded_def padder_begin_def padder_end_def pad_it_ok)
    next
      case Pad_right
      then show ?thesis using True n by (simp add: padded_def padder_begin_def padder_end_def pad_it_ok)
    next
      case Pad_center
      have "nat (int n div 2) = n div 2" "nat (int n div 2 + int n mod 2) = n div 2 + n mod 2"
        by (simp_all add: nat_add_distrib nat_div_distrib nat_mod_distrib)
      moreover have "n div 2 + (n div 2 + n mod 2) = n" using div_mult_mod_eq [of n 2] by linarith
      ultimately show ?thesis using Pad_center True half n(2)
        by (simp add: padded_def padder_begin_def padder_end_def pad_it_ok Let_def n(1) n(4) [symmetric])
    qed
  qed
qed (simp add: padded_def)

section \<open>Properties\<close>

text \<open>C38. The lines of the log are those of the program's pattern, for every sequence of messages: time,
  level, thread, source file without its directory, line number and the text of the message. That the
  formatter keeps the broken-down time of the last second cannot be seen. The messages are not
  from the first second of 1970, for which the formatter starts with a broken-down time of zeros.\<close>

theorem log_lines_as_specified:
  assumes "\<forall>m \<in> set ms. duration_cast 1000000000 (lm_time m) \<noteq> 0"
  shows "format_lines env (common_formatter now) ms = Some (map (log_line env) ms)"
  using cache_ok_new assms by (rule format_lines_ok)

text \<open>C39. The log sorts by time: a line that was written at an earlier broken-down time, down to the
  millisecond, comes before the other in the order of strings, whatever else the lines hold.\<close>

theorem log_lines_sort_by_time:
  assumes "tm_ok (log_time env m1)" "tm_ok (log_time env m2)" "0 \<le> lm_time m1" "0 \<le> lm_time m2"
    "time_key (log_time env m1) (log_millis m1) < time_key (log_time env m2) (log_millis m2)"
  shows "log_line env m1 < log_line env m2"
  using line_stamp_less [OF assms(1,2) log_millis_less [OF assms(3)] log_millis_less [OF assms(4)]] assms(5)
  by (simp add: log_line_def)

text \<open>A text whose percent signs are doubled is a pattern that prints the text: compiling and
  formatting undo the escaping, whatever the text, the message and the end of a line.\<close>

theorem escaped_text_prints:
  "map_option (\<lambda>(pf, m', line). (m', line))
     (pattern_format env (pattern_formatter_new now (escape_pattern text) is_local eol) m dest) =
   Some (m, dest @ text @ eol)"
proof -
  let ?pf = "pattern_formatter_new now (escape_pattern text) is_local eol"
  let ?t = "if duration_cast 1000000000 (lm_time m) \<noteq> 0 then get_time env ?pf m else tm_zero"
  obtain fs where "format_flags env (compile_pattern now None (escape_pattern text)) m ?t dest =
      Some (fs, m, dest @ text)"
    using format_escaped [of env now None "text" m ?t dest] by (auto simp: user_text_def)
  then show ?thesis by (simp add: pattern_format_def pattern_formatter_new_def Let_def get_time_def split: if_splits)
qed

text \<open>Padding is exact, whatever the pattern: no width is larger than the 64 spaces there are, so
  none is read behind them, and a text of the announced size gets exactly the width asked for, is
  kept whole when it is longer, or is cut to the width.\<close>

theorem padding_is_exact:
  assumes "fm \<in> set (compile_pattern now None pattern)" "padding_of fm = Some pd"
  shows "pd_width pd \<le> length spaces \<and>
    (\<exists>s. padded pd (int (length text)) text dest = Some (dest @ s) \<and>
      length s = (if \<not> pd_enabled pd then length text
        else if pd_truncate pd then pd_width pd else max (pd_width pd) (length text)))"
  using padded_exact [OF compile_pattern_width [OF assms], of "text" dest] compile_pattern_width [OF assms]
  by (simp add: spaces_def)

section \<open>Witnesses\<close>

definition demo_tm :: "int \<Rightarrow> tm" where
  "demo_tm s = \<lparr>tm_sec = s mod 60, tm_min = s div 60 mod 60, tm_hour = s div 3600 mod 24, tm_mday = 5, tm_mon = 10,
     tm_year = 124, tm_wday = 2\<rparr>"

definition demo_env :: log_env where
  "demo_env = \<lparr>env_localtime = demo_tm, env_gmtime = demo_tm, env_utc_minutes_offset = (\<lambda>_. 0), env_pid = 42\<rparr>"

definition demo_msg :: "int \<Rightarrow> log_msg" where
  "demo_msg time = \<lparr>lm_logger_name = ''LOG'', lm_level = Warn, lm_time = time, lm_thread_id = 7,
     lm_color_range_start = 0, lm_color_range_end = 0,
     lm_source = \<lparr>sl_filename = ''src/main.cpp'', sl_line = 12, sl_funcname = ''main''\<rparr>, lm_payload = ''start''\<rparr>"

lemma demo_seconds: "duration_cast 1000000000 3661002000000 = 3661" "duration_cast 1000000000 3725998000000 = 3725"
  by (simp_all add: duration_cast_def signed_divide_int_def)

lemma demo_millis: "log_millis (demo_msg 3661002000000) = 2" "log_millis (demo_msg 3725998000000) = 998"
  by (simp_all add: log_millis_def demo_msg_def time_fraction_def duration_cast_def signed_divide_int_def)

lemma demo_times:
  "log_time demo_env (demo_msg 3661002000000) = demo_tm 3661" "log_time demo_env (demo_msg 3725998000000) = demo_tm 3725"
  by (simp_all add: log_time_def demo_env_def demo_msg_def demo_seconds)

lemma demo_line: "log_line demo_env (demo_msg 3661002000000) =
    ''[2024-11-05 01:01:01.002] [warning] [tid:7 main.cpp:12] start\<newline>''"
  by code_simp

lemma log_lines_as_specified_witness:
  "format_lines demo_env (common_formatter 0) [demo_msg 3661002000000] =
     Some [''[2024-11-05 01:01:01.002] [warning] [tid:7 main.cpp:12] start\<newline>'']"
proof -
  have "\<forall>m \<in> set [demo_msg 3661002000000]. duration_cast 1000000000 (lm_time m) \<noteq> 0"
    by (simp add: demo_msg_def demo_seconds)
  from log_lines_as_specified [OF this, of demo_env 0] show ?thesis by (simp add: demo_line)
qed

lemma log_lines_sort_by_time_witness:
  "log_line demo_env (demo_msg 3661002000000) < log_line demo_env (demo_msg 3725998000000)"
  by (rule log_lines_sort_by_time)
    (simp_all add: demo_times demo_millis demo_tm_def tm_ok_def time_key_def, simp_all add: demo_msg_def)

lemma padding_is_exact_witness:
  "\<exists>s. padded \<lparr>pd_width = 64, pd_side = Pad_left, pd_truncate = False, pd_enabled = True\<rparr> (int (length ''start''))
     ''start'' [] = Some s \<and> length s = 64"
proof -
  let ?pd = "\<lparr>pd_width = 64, pd_side = Pad_left, pd_truncate = False, pd_enabled = True\<rparr>"
  have "compile_pattern 0 None ''%99v'' = [Field_formatter F_v ?pd]"
    by (simp add: user_formatter_def handle_padspec_def pad_side_of_def is_digit_char_def truncate_marker_def
      max_pad_width_def handle_flag_def)
  then have "Field_formatter F_v ?pd \<in> set (compile_pattern 0 None ''%99v'')" by simp
  from padding_is_exact [OF this, of ?pd "''start''" "[]"] show ?thesis by auto
qed

text \<open>The size that is announced for a date is larger than that of a date with one digit for the
  day: cutting it takes characters that are not there.\<close>

lemma truncated_date_fails:
  "padded \<lparr>pd_width = 0, pd_side = Pad_left, pd_truncate = True, pd_enabled = True\<rparr> 24 ''Tue Nov 5 01:01:01 2024'' [] = None"
  by (simp add: padded_def padder_begin_def padder_end_def)

end
