(* ===== verification/Log_Files.thy ===== *)
theory Log_Files
  imports Easylog_Properties
begin

text \<open>
  What the numbered log files hold after any number of lines: read from the highest number down to
  the current file, they are the newest lines of the log, whole and in order.
\<close>

definition file_content :: "string \<Rightarrow> filesystem \<Rightarrow> nat \<Rightarrow> string" where
  "file_content base fs i = (case fs (calc_filename base i) of None \<Rightarrow> [] | Some c \<Rightarrow> c)"

text \<open>The files from the oldest to the current one.\<close>

definition whole_log :: "rotating_file_sink \<Rightarrow> filesystem \<Rightarrow> string" where
  "whole_log s fs = concat (map (file_content (base_filename s) fs) (rev [0..<Suc (unat (max_files s))]))"

fun write_lines ::
  "(string \<Rightarrow> bool \<times> bool) \<Rightarrow> string list \<Rightarrow> rotating_file_sink \<Rightarrow> filesystem \<Rightarrow> rotating_file_sink \<times> filesystem"
where
  "write_lines fails [] s fs = (s, fs)"
| "write_lines fails (l # ls) s fs = (case file_sink_it fails l s fs of (s', fs') \<Rightarrow> write_lines fails ls s' fs')"

text \<open>The files hold the lines \<open>seg 0\<close>, \<open>seg 1\<close> and so on, and the numbers have no gap.\<close>

definition holds :: "rotating_file_sink \<Rightarrow> filesystem \<Rightarrow> (nat \<Rightarrow> string list) \<Rightarrow> bool" where
  "holds s fs seg \<longleftrightarrow>
     (\<forall>i \<le> unat (max_files s). file_content (base_filename s) fs i = concat (seg i)) \<and>
     (\<forall>i < unat (max_files s). fs (calc_filename (base_filename s) i) = None \<longrightarrow>
        fs (calc_filename (base_filename s) (Suc i)) = None)"

definition all_lines :: "nat \<Rightarrow> (nat \<Rightarrow> string list) \<Rightarrow> string list" where
  "all_lines n seg = concat (map seg (rev [0..<Suc n]))"

lemma all_lines_Suc: "all_lines n (\<lambda>i. case i of 0 \<Rightarrow> ls | Suc j \<Rightarrow> seg j) = (if n = 0 then ls else all_lines (n - 1) seg @ ls)"
proof (cases n)
  case (Suc m)
  have "map (\<lambda>i. case i of 0 \<Rightarrow> ls | Suc j \<Rightarrow> seg j) (rev [0..<Suc (Suc m)]) = map seg (rev [0..<Suc m]) @ [ls]"
    by (simp add: rev_map [symmetric] upt_conv_Cons map_Suc_upt [symmetric] del: upt_Suc)
  then show ?thesis using Suc by (simp add: all_lines_def del: upt_Suc)
qed (simp add: all_lines_def)

lemma all_lines_drop: "n \<noteq> 0 \<Longrightarrow> all_lines n seg = seg n @ all_lines (n - 1) seg"
  by (cases n) (simp_all add: all_lines_def)

lemma all_lines_append: "all_lines n (seg(0 := seg 0 @ ls)) = all_lines n seg @ ls"
  by (induction n) (simp_all add: all_lines_def)

lemma concat_map_concat: "concat (map (\<lambda>i. concat (seg i)) xs) = concat (concat (map seg xs))"
  by (induction xs) simp_all

lemma holds_whole_log: "holds s fs seg \<Longrightarrow> whole_log s fs = concat (all_lines (unat (max_files s)) seg)"
proof -
  assume h: "holds s fs seg"
  have "map (file_content (base_filename s) fs) (rev [0..<Suc (unat (max_files s))]) =
      map (\<lambda>i. concat (seg i)) (rev [0..<Suc (unat (max_files s))])"
    using h by (intro map_cong) (auto simp: holds_def)
  then show ?thesis by (simp only: whole_log_def all_lines_def concat_map_concat)
qed

lemma calc_filename_0 [simp]: "calc_filename f 0 = f"
  by (simp add: calc_filename_def)

text \<open>Rotating moves every segment on; the last one is dropped.\<close>

lemma holds_rotate:
  assumes "holds s fs seg"
  obtains fs' where "rotate never_fails s fs = (True, s, fs')"
    "holds s (fs'(base_filename s \<mapsto> concat ls)) (\<lambda>i. case i of 0 \<Rightarrow> ls | Suc j \<Rightarrow> seg j)"
    "fs' (base_filename s) = Some []"
proof -
  let ?b = "base_filename s" and ?n = "unat (max_files s)"
  obtain fs1 where r: "rotate_loop never_fails ?b ?n fs = (True, fs1)"
    "\<forall>i. 0 < i \<and> i < ?n \<longrightarrow> fs1 (calc_filename ?b i) = fs (calc_filename ?b (i - 1))"
    "0 < ?n \<longrightarrow> fs1 (calc_filename ?b ?n) =
        (case fs (calc_filename ?b (?n - 1)) of None \<Rightarrow> fs (calc_filename ?b ?n) | Some c \<Rightarrow> Some c)"
    using rotate_loop_shifts [of ?b ?n fs] by (elim exE conjE) (rule that)
  let ?fs = "fs1(?b \<mapsto> [])"
  have rot: "rotate never_fails s fs = (True, s, ?fs)" using r(1) by (simp add: rotate_def open_truncate_def)
  have gap: "fs (calc_filename ?b i) = None \<Longrightarrow> fs (calc_filename ?b (Suc i)) = None" if "i < ?n" for i
    using assms that by (simp add: holds_def)
  have shift: "fs1 (calc_filename ?b (Suc i)) = fs (calc_filename ?b i)" if "Suc i \<le> ?n" for i
  proof (cases "Suc i = ?n")
    case True
    then have "fs1 (calc_filename ?b (Suc i)) =
        (case fs (calc_filename ?b i) of None \<Rightarrow> fs (calc_filename ?b (Suc i)) | Some c \<Rightarrow> Some c)"
      using r(3) by (metis diff_Suc_1 zero_less_Suc)
    then show ?thesis using gap [of i] True by (auto split: option.splits)
  next
    case False
    then show ?thesis using r(2) that by (metis diff_Suc_1 le_neq_implies_less zero_less_Suc)
  qed
  have other: "calc_filename ?b (Suc i) \<noteq> ?b" for i
    using calc_filename_inj [of ?b "Suc i" 0] by simp
  let ?fs' = "?fs(?b \<mapsto> concat ls)" and ?seg = "\<lambda>i. case i of 0 \<Rightarrow> ls | Suc j \<Rightarrow> seg j"
  have at: "?fs' (calc_filename ?b (Suc i)) = fs (calc_filename ?b i)" if "Suc i \<le> ?n" for i
    using shift [OF that] other by simp
  have "holds s ?fs' ?seg"
    unfolding holds_def
  proof (intro conjI allI impI)
    fix i
    assume "i \<le> ?n"
    then show "file_content ?b ?fs' i = concat (?seg i)"
      using assms at by (cases i) (auto simp: file_content_def holds_def)
  next
    fix i
    assume i: "i < ?n" "?fs' (calc_filename ?b i) = None"
    then obtain j where j: "i = Suc j" by (cases i) auto
    then show "?fs' (calc_filename ?b (Suc i)) = None"
      using i at [of j] at [of "Suc j"] gap [of j] by simp
  qed
  then show thesis using that [OF rot] by simp
qed

lemma holds_append:
  assumes "holds s fs seg"
  shows "holds s (fs(base_filename s \<mapsto> file_content (base_filename s) fs 0 @ l)) (seg(0 := seg 0 @ [l]))"
proof -
  have other: "calc_filename (base_filename s) (Suc i) \<noteq> base_filename s" for i
    using calc_filename_inj [of "base_filename s" "Suc i" 0] by simp
  show ?thesis
    unfolding holds_def
  proof (intro conjI allI impI)
    fix i
    assume "i \<le> unat (max_files s)"
    then show "file_content (base_filename s) (fs(base_filename s \<mapsto> file_content (base_filename s) fs 0 @ l)) i =
        concat ((seg(0 := seg 0 @ [l])) i)"
      using assms other by (cases i) (auto simp: file_content_def holds_def)
  next
    fix i
    assume "i < unat (max_files s)" "(fs(base_filename s \<mapsto> file_content (base_filename s) fs 0 @ l))
      (calc_filename (base_filename s) i) = None"
    then show "(fs(base_filename s \<mapsto> file_content (base_filename s) fs 0 @ l))
        (calc_filename (base_filename s) (Suc i)) = None"
      using assms other by (cases i) (auto simp: holds_def)
  qed
qed

lemma holds_cong: "base_filename s' = base_filename s \<Longrightarrow> max_files s' = max_files s \<Longrightarrow> holds s' fs seg = holds s fs seg"
  by (simp add: holds_def)

text \<open>One line: it is the last of all lines, and lines are dropped from the front only.\<close>

lemma holds_sink_it:
  assumes "holds s fs seg" "file_sink_it never_fails l s fs = (s', fs')"
  shows "\<exists>seg' k. holds s' fs' seg' \<and> base_filename s' = base_filename s \<and> max_files s' = max_files s \<and>
    all_lines (unat (max_files s)) seg' = drop k (all_lines (unat (max_files s)) seg) @ [l]"
proof -
  let ?n = "unat (max_files s)"
  define s1 where "s1 = s\<lparr>current_size := current_size s + of_nat (length l)\<rparr>"
  have s1: "base_filename s1 = base_filename s" "max_files s1 = max_files s" by (simp_all add: s1_def)
  have h1: "holds s1 fs seg" using assms(1) holds_cong [OF s1] by simp
  show ?thesis
  proof (cases "max_size s < current_size s + of_nat (length l)")
    case True
    let ?seg = "\<lambda>i. case i of 0 \<Rightarrow> [l] | Suc j \<Rightarrow> seg j"
    obtain fs1 where r: "rotate never_fails s1 fs = (True, s1, fs1)"
      "holds s1 (fs1(base_filename s1 \<mapsto> concat [l])) ?seg" "fs1 (base_filename s1) = Some []"
      by (rule holds_rotate [OF h1])
    have res: "s' = s1\<lparr>current_size := of_nat (length l)\<rparr>" "fs' = fs1(base_filename s1 \<mapsto> concat [l])"
      using assms(2) True r(1,3) by (auto simp: file_sink_it_def Let_def s1_def)
    have "holds s' fs' ?seg" using r(2) holds_cong [of s' s1] by (simp add: res)
    moreover have "all_lines ?n ?seg = drop (length (if ?n = 0 then seg 0 else seg ?n)) (all_lines ?n seg) @ [l]"
      by (cases "?n = 0") (simp_all add: all_lines_Suc all_lines_drop, simp add: all_lines_def)
    ultimately show ?thesis using s1 by (intro exI [of _ ?seg] exI) (auto simp: res)
  next
    case False
    have res: "s' = s1" "fs' = fs(base_filename s1 \<mapsto> file_content (base_filename s1) fs 0 @ l)"
      using assms(2) False by (auto simp: file_sink_it_def Let_def s1_def file_content_def)
    have "holds s' fs' (seg(0 := seg 0 @ [l]))" unfolding res by (rule holds_append [OF h1])
    moreover have "all_lines ?n (seg(0 := seg 0 @ [l])) = drop 0 (all_lines ?n seg) @ [l]"
      by (simp add: all_lines_append)
    ultimately show ?thesis using s1 res(1) by blast
  qed
qed

lemma holds_write_lines:
  "holds s fs seg \<Longrightarrow> write_lines never_fails ls s fs = (s', fs') \<Longrightarrow>
   \<exists>seg' k. holds s' fs' seg' \<and> max_files s' = max_files s \<and>
     all_lines (unat (max_files s)) seg' = drop k (all_lines (unat (max_files s)) seg @ ls) \<and>
     (ls \<noteq> [] \<longrightarrow> k < length (all_lines (unat (max_files s)) seg @ ls))"
proof (induction ls arbitrary: s fs seg)
  case Nil
  then show ?case by (intro exI [of _ seg] exI [of _ 0]) simp
next
  case (Cons l ls)
  obtain s1 fs1 where s1: "file_sink_it never_fails l s fs = (s1, fs1)" by fastforce
  obtain seg1 k1 where h: "holds s1 fs1 seg1" "max_files s1 = max_files s"
      "all_lines (unat (max_files s)) seg1 = drop k1 (all_lines (unat (max_files s)) seg) @ [l]"
    using holds_sink_it [OF Cons.prems(1) s1] by blast
  let ?A = "all_lines (unat (max_files s)) seg"
  define k where "k = min k1 (length ?A)"
  have k: "drop k1 ?A = drop k ?A" "k \<le> length ?A" by (auto simp: k_def min_def)
  have rest: "write_lines never_fails ls s1 fs1 = (s', fs')" using Cons.prems(2) s1 by simp
  obtain seg' k2 where h': "holds s' fs' seg'" "max_files s' = max_files s"
      "all_lines (unat (max_files s)) seg' = drop k2 (drop k ?A @ [l] @ ls)"
      "ls \<noteq> [] \<longrightarrow> k2 < length (drop k ?A @ [l] @ ls)"
    using Cons.IH [OF h(1) rest] h(2,3) k(1) by auto
  have all: "drop k2 (drop k ?A @ [l] @ ls) = drop (k + k2) (?A @ l # ls)" using k(2) by (simp add: add.commute)
  show ?case
  proof (cases "ls = []")
    case True
    then have "s' = s1" "fs' = fs1" using rest by simp_all
    then show ?thesis using h k True by (intro exI [of _ seg1] exI [of _ k]) auto
  next
    case False
    then have "k + k2 < length (?A @ l # ls)" using h'(4) k(2) by auto
    then show ?thesis using h'(1,2,3) all by (intro exI [of _ seg'] exI [of _ "k + k2"]) simp
  qed
qed

text \<open>C40. Rotation refines a log that forgets its oldest lines: after any lines, written through a sink
  that found no files of its own, the files from the highest number down to the current one are,
  put together, whole lines of the log, in order, without a gap and up to the newest one, which is
  never forgotten; only lines from the front are gone. The operating system does not refuse.\<close>

theorem files_hold_newest_lines:
  assumes "\<forall>i \<le> unat mfiles. fs (calc_filename base i) = None"
    "rotating_file_sink_new base msize mfiles fs = (s, fs1)" "write_lines never_fails ls s fs1 = (s', fs')"
  shows "\<exists>k. whole_log s' fs' = concat (drop k ls) \<and> (ls \<noteq> [] \<longrightarrow> k < length ls)"
proof -
  have s: "base_filename s = base" "max_files s = mfiles" and fs1: "fs1 = fs(base \<mapsto> [])"
    using assms(1,2) by (auto simp: rotating_file_sink_new_def Let_def open_append_def)
  have other: "calc_filename base (Suc i) \<noteq> base" for i using calc_filename_inj [of base "Suc i" 0] by simp
  have "file_content base fs1 i = []" if "i \<le> unat mfiles" for i
    using that assms(1) other by (cases i) (auto simp: fs1 file_content_def)
  moreover have "fs1 (calc_filename base (Suc j)) = None" if "j < unat mfiles" for j
    using that assms(1) other by (simp add: fs1)
  ultimately have "holds s fs1 (\<lambda>_. [])" by (simp add: holds_def s)
  from holds_write_lines [OF this assms(3)] obtain seg' k where h: "holds s' fs' seg'" "max_files s' = max_files s"
      "all_lines (unat (max_files s)) seg' = drop k (all_lines (unat (max_files s)) (\<lambda>_. []) @ ls)"
      "ls \<noteq> [] \<longrightarrow> k < length (all_lines (unat (max_files s)) (\<lambda>_. []) @ ls)"
    by blast
  have "all_lines n (\<lambda>_. []) = []" for n by (simp add: all_lines_def)
  then show ?thesis using h holds_whole_log [OF h(1)] by auto
qed

lemma files_hold_newest_lines_witness:
  "\<exists>s' fs' k. write_lines never_fails [''ab'', ''cd'', ''ef'']
     (fst (rotating_file_sink_new ''l'' 3 1 Map.empty)) (snd (rotating_file_sink_new ''l'' 3 1 Map.empty)) = (s', fs') \<and>
     whole_log s' fs' = concat (drop k [''ab'', ''cd'', ''ef'']) \<and> k < 3"
proof -
  obtain s' fs' where r: "write_lines never_fails [''ab'', ''cd'', ''ef'']
     (fst (rotating_file_sink_new ''l'' 3 1 Map.empty)) (snd (rotating_file_sink_new ''l'' 3 1 Map.empty)) = (s', fs')"
    by fastforce
  from files_hold_newest_lines [OF _ surjective_pairing r] r show ?thesis by auto
qed

end
