(* ===== verification/Spec2Isabelle.thy ===== *)
theory Spec2Isabelle
  imports Session_Properties Wire_Properties Session_Behaviour Listener_Properties
    Exchange Easylog_Properties Announcement Asio_Properties Asio_Accept Asio_Timer_Properties
    Log_Lines Log_Files
begin

text \<open>
  A verification library for \<^verbatim>\<open>cpp_proxy\<close>, a TCP proxy that asks a handler process on the
  same machine what to do with the bytes it relays. All paths are under \<^verbatim>\<open>src/\<close>.

  \<^bold>\<open>The program.\<close> The main thread of the proxy (\<^verbatim>\<open>src/cpp_proxy/cpp_proxy.cpp\<close>) listens on
  the ports of a JSON configuration file, watches this file and opens and closes listeners
  as it changes. Every accepted connection becomes a session
  (\<^verbatim>\<open>src/cpp_proxy/session.hpp\<close>) on one of several single-threaded executors
  (\<^verbatim>\<open>src/io_context_pool.hpp\<close>). A session connects to the configured server and, over a
  local socket, to the handler process (\<^verbatim>\<open>src/process/process.cpp\<close> is the sample one),
  announces its four-tuple as JSON, and then sends each piece of data it reads as a request
  frame and keeps it until a response head says how much of the stream may pass, what is to
  be inserted, or that the connection is to be cut. When the handler process cannot be
  reached the session relays without it (bypass) and tries to connect again every three
  seconds. Log messages go through a registry of modules to rotating files
  (\<^verbatim>\<open>src/easylog.hpp\<close> and spdlog).

  \<^bold>\<open>Theories and the code they model.\<close>
  \<^item> \<open>Prelude\<close>: bytes, little-endian integers, decimal printing, the function \<open>read_frames\<close>,
    and the interfaces \<open>byte_codec\<close>, \<open>framed_codec\<close> (a head of fixed width that announces a
    body), \<open>byte_fifo\<close> (a store that releases bytes in the order it took them) and
    \<open>keyed_set\<close> (an ordered set with differences).
  \<^item> \<open>Local_Protocol\<close>: \<^verbatim>\<open>src/local_tcp.hpp\<close>. Records \<open>request_head\<close> and \<open>response_head\<close>, the
    enumerations as bytes; interpreted as two \<open>framed_codec\<close>s.
  \<^item> \<open>Data_Block\<close>: \<^verbatim>\<open>src/cpp_proxy/data_block.hpp\<close>, one definition per member function.
  \<^item> \<open>Packet_Lane\<close>: the deque, blocks and counter of one relay direction and the member
    functions of \<^verbatim>\<open>session\<close> that work on them (\<^verbatim>\<open>prepare_transfer_packet\<close>,
    \<^verbatim>\<open>clear_handled_packet\<close>, the storing half of
    \<^verbatim>\<open>inner_client_or_server_2proxy_2process\<close>); interpreted as a \<open>byte_fifo\<close>.
  \<^item> \<open>Session\<close>, \<open>Coroutines\<close>: the state of \<^verbatim>\<open>class session\<close> and its coroutines. A coroutine is
    the \<^verbatim>\<open>co_await\<close> it is suspended at (a \<open>frame\<close>), \<open>resume\<close> runs it to the next one,
    \<open>step\<close> and \<open>reachable\<close> are the runs of all coroutines of one session in any order with
    any result of the network.
  \<^item> \<open>Config\<close>: \<^verbatim>\<open>src/cpp_proxy/config.hpp\<close>. Parsing with the partial effects of an exception,
    the ordered set of proxied ports (a \<open>keyed_set\<close>), the differences a reload computes, the
    path of the executable.
  \<^item> \<open>Io_Context_Pool\<close>: \<^verbatim>\<open>src/io_context_pool.hpp\<close>, with its interface \<open>executor_pool\<close>.
  \<^item> \<open>Listener\<close>: the coroutines of the main thread and the start of the proxy.
  \<^item> \<open>Process\<close>: the coroutines of the sample handler process.
  \<^item> \<open>Exchange\<close>: the relay, the handler process and the reader of verdicts in one round.
  \<^item> \<open>Easylog\<close>: \<^verbatim>\<open>src/easylog.hpp\<close> and, of \<^verbatim>\<open>3party/spdlog-1.9.2\<close>, levels, sinks, flushing
    and the rotating file sink.
  \<^item> \<open>Log_Format\<close>: \<^verbatim>\<open>include/spdlog/pattern_formatter-inl.h\<close> of spdlog, from a pattern to the
    text of a line.
  \<^item> \<open>Json\<close>, \<open>Json_Lexer\<close>, \<open>Json_Scan_String\<close>, \<open>Json_Scan\<close>, \<open>Json_Parser\<close>,
    \<open>Json_Serializer\<close>: values, lexer, parser and serializer of \<^verbatim>\<open>3party/json-3.10.5\<close>
    (\<^verbatim>\<open>include/nlohmann/json.hpp\<close> and \<^verbatim>\<open>detail/\<close>), as far as the proxy uses them.
  \<^item> \<open>Announcement\<close>: the JSON library in its places, \<^verbatim>\<open>dump\<close> in \<^verbatim>\<open>four_tuple_2process\<close>,
    \<^verbatim>\<open>parse\<close> in the handler process and in \<^verbatim>\<open>parse_conf\<close>.
  \<^item> \<open>Asio_Buffers\<close>, \<open>Asio_Transfer\<close>: \<^verbatim>\<open>async_write\<close> and \<^verbatim>\<open>async_read\<close> of
    \<^verbatim>\<open>3party/asio-1.24.0\<close> part by part (\<^verbatim>\<open>impl/write.hpp\<close>, \<^verbatim>\<open>impl/read.hpp\<close>), over the buffers
    they consume (\<^verbatim>\<open>detail/consuming_buffers.hpp\<close>, interface \<open>consumable\<close>).
  \<^item> \<open>Asio_Socket_Ops\<close>, \<open>Asio_Reactor\<close>: the loops around \<^verbatim>\<open>sendmsg\<close>, \<^verbatim>\<open>recvmsg\<close>, \<^verbatim>\<open>accept\<close> and
    \<^verbatim>\<open>connect\<close> (\<^verbatim>\<open>detail/impl/socket_ops.ipp\<close>), the queues of a descriptor in the epoll reactor, the
    scheduler, and opening, using, cancelling and closing a socket; \<open>socket_step\<close> and
    \<open>socket_reachable\<close> are its runs.
  \<^item> \<open>Asio_Accept\<close>: what becomes of an accepted socket (\<^verbatim>\<open>detail/reactive_socket_accept_op.hpp\<close>,
    \<^verbatim>\<open>detail/socket_holder.hpp\<close>); \<open>accept_reachable\<close> are the runs of a listening socket with the peers
    that its handlers were given.
  \<^item> \<open>Asio_Timer_Queue\<close>, \<open>Asio_Timer_Reactor\<close>, \<open>Asio_Timer_Service\<close>: the heap and the list of
    timers (\<^verbatim>\<open>detail/timer_queue.hpp\<close>), the reactor's use of them with one timer descriptor,
    and the timer objects (\<^verbatim>\<open>detail/deadline_timer_service.hpp\<close>); \<open>timers_run\<close> is every use of the
    reactor, \<open>service_run\<close> every use of the objects.

  \<^bold>\<open>What the lemmas show.\<close>
  \<^item> \<open>Session_Facts\<close> holds frame rules and the inversion rules of \<open>step\<close>. On them rest
    \<open>Relay_Invariant\<close>, \<open>Reader_Invariant\<close> and \<open>Session_Steady\<close> (every byte of a peer is
    delivered once and in order while the link to the handler process holds),
    \<open>Session_Connect\<close> (one coroutine connects at a time) and \<open>Session_Close\<close> (closing is
    final), and \<open>Session_Drain\<close> (in a closed session aborted completions let every coroutine
    return, and no completion of a healthy link is undefined behaviour). \<open>Session_Properties\<close> states them for whole runs.
  \<^item> \<open>Session_Behaviour\<close>: block and pass verdicts, the watchdog, falling back to bypass, and,
    with \<open>Session_Eval\<close>, evaluated runs in which the code loses or repeats bytes.
  \<^item> \<open>Wire_Properties\<close>: framing and unframing of both directions, release of exactly the
    judged bytes, refinement of a queue of bytes.
  \<^item> \<open>Listener_Properties\<close>, \<open>Process_Properties\<close>, \<open>Easylog_Properties\<close>: reloading converges
    and disturbs no port that stays, rejected configurations, the pool; what the handler
    acknowledges; rotation and level filters. \<open>Log_Lines\<close>: what a line of the log is, that
    lines sort by their time, escaping and padding. \<open>Log_Files\<close>: the files of the rotating sink
    hold the newest lines, whole and in order.
  \<^item> \<open>Json_Utf8\<close>, \<open>Json_Decode\<close>: the lexer's byte ranges, the serializer's table and the
    encoder of code points agree. \<open>Json_Escape\<close>: when \<^verbatim>\<open>dump_escaped\<close> throws, and that its
    buffer is not overrun. \<open>Json_Numbers\<close>: integers in decimal. \<open>Json_Read_String\<close>,
    \<open>Json_Read_Valid\<close>, \<open>Json_Tokens\<close>, \<open>Json_Round_Trip\<close>, \<open>Json_Parse_Dump\<close>: parsing undoes
    dumping, and what was parsed can be dumped.
  \<^item> \<open>Asio_Reactor_Inv\<close>, \<open>Asio_Properties\<close>: the transfers of asio end and complete with what
    the sessions assume of them; no operation is lost or completed twice, those of one
    direction that are not cancelled are done in their order, and closing lets all of them complete. \<open>Asio_Accept\<close>: no accepted socket is lost or closed twice,
    and what a successful connect means.
  \<^item> \<open>Asio_Timer_Inv\<close>, \<open>Asio_Timer_Ops\<close>, \<open>Asio_Timer_Runs\<close>, \<open>Asio_Timer_Properties\<close>: the heap
    order and the list under every operation; each wait finishes once, the alarm is in time,
    due timers fire in order, and a wait follows the expiry time of its object.

  \<^bold>\<open>Termination and bounds.\<close> No definition runs on fuel. The loops of the lexer and the parser
  terminate by the number of characters left (\<open>lexer_left\<close>), \<open>read_frames\<close> by the bytes
  left, the number printers by the number. The loops that take timers from their queue are
  partial functions; they are proved to return on every queue the program can reach. The endless loops of coroutines are steps, never
  one call, so a run is as long as its list of completions. Integers of the wire protocol,
  the blocks and the executor index have their width and wrap; sizes of containers are
  natural numbers.

  \<^bold>\<open>Assumptions.\<close> \<^verbatim>\<open>co_spawn\<close> on the executor it is called on runs the coroutine at once up to
  its first suspension, and \<^verbatim>\<open>asio::detached\<close> drops an exception that leaves it. The network
  may answer an operation in every way that \<open>io_ok\<close> allows: a successful \<^verbatim>\<open>async_write\<close>
  wrote everything, a successful \<^verbatim>\<open>async_read\<close> filled its buffer, any operation may fail
  after any part. That reads and writes complete in this way is proved of the code of asio
  (\<open>async_write_completes\<close>, \<open>async_read_completes\<close>, \<open>async_read_some_completes\<close>), where the
  system calls answer as \<open>sys_ok\<close> says and epoll may report any events; of \<^verbatim>\<open>timerfd_settime\<close>
  it is assumed what its documentation says (\<open>settime_ok\<close>). The operating system (address parsing, binding, \<^verbatim>\<open>readlink\<close>, file
  time stamps, renaming), \<^verbatim>\<open>strtod\<close> and the printing of floating point numbers are
  parameters. The process runs in the locale C on a little-endian machine with 64-bit
  \<^verbatim>\<open>size_t\<close>.

  \<^bold>\<open>Not modelled.\<close> The branches for Windows and for TCP instead of the local socket; signal
  handling, \<^verbatim>\<open>main\<close> of the handler process and the \<^verbatim>\<open>try\<close> block around \<^verbatim>\<open>run()\<close>; the instance
  counter of sessions and the moment destructors run; exceptions of \<^verbatim>\<open>local_endpoint\<close>
  (\<^verbatim>\<open>session.hpp:108\<close>) and of \<^verbatim>\<open>dump\<close> in \<^verbatim>\<open>four_tuple_2process\<close> (\<^verbatim>\<open>session.hpp:169\<close>), for which
  \<open>dump_bytes\<close> gives the empty text and which \<open>connection_announced\<close> and
  \<open>configured_server_announced\<close> rule out; how long a wait lasts, outside the timers of asio; the text of the messages logged by the
  program; mutexes (every model is sequential between two suspensions); of the JSON library pretty
  printing, binary formats, callbacks, patches and floating point values beyond their integer part;
  of spdlog asynchronous loggers, custom flags and the formatting of arguments; of asio resolving,
  the endpoints of accepted peers, destroying operations whose handlers never ran, blocking waits,
  several timer queues, moving an idle timer, coroutine frames, waking a thread, the reactors of
  other platforms and the allocation of handlers; \<^verbatim>\<open>load_balance.hpp\<close>, whose empty class nothing
  uses.
\<close>

end
